(* ===== verification/Prelude.thy ===== *)
theory Prelude
  imports Main "HOL-Library.Char_ord"
begin

section \<open>Shared vocabulary of the development\<close>

text \<open>
  What every component uses: C++ exceptions as values of a sum type, the arithmetic of
  \<open>int64_t\<close> and \<open>__int128\<close>, the character classes of \<open><cctype>\<close> in the C locale,
  \<open>std::to_string\<close>, the searches of \<open>std::string\<close>, and the generic lemmas about them.
\<close>

named_theorems exn_simps \<open>unfolding a computation in the exception sum\<close>

subsection \<open>Exceptions as values\<close>

text \<open>
  The exception classes the modelled code throws (\<open>core/infrastructure/Errors.hpp\<close> and
  \<open><stdexcept>\<close>). \<open>Undefined\<close> marks the operations that are undefined behaviour in C++
  (an integer division by zero, a signed overflow): the model stops there.
\<close>

datatype exn =
    ValidationError string
  | RuntimeError string
  | InvalidArgument string
  | OutOfRange string
  | JsonTypeError
  | ConcurrencyConflict string
  | AccessDenied string
  | PoolExhausted string
  | Undefined string

text \<open>The text of \<open>what()\<close>; that of the JSON library is a parameter.\<close>

fun exn_what :: "string \<Rightarrow> exn \<Rightarrow> string" where
  "exn_what jw (ValidationError m) = m"
| "exn_what jw (RuntimeError m) = m"
| "exn_what jw (InvalidArgument m) = m"
| "exn_what jw (OutOfRange m) = m"
| "exn_what jw JsonTypeError = jw"
| "exn_what jw (ConcurrencyConflict m) = m"
| "exn_what jw (AccessDenied m) = m"
| "exn_what jw (PoolExhausted m) = m"
| "exn_what jw (Undefined m) = m"

type_synonym 'a result = "exn + 'a"

definition bindE :: "'a result \<Rightarrow> ('a \<Rightarrow> 'b result) \<Rightarrow> 'b result" where
  "bindE m f = (case m of Inl e \<Rightarrow> Inl e | Inr x \<Rightarrow> f x)"

lemma bindE_Inl [simp]: "bindE (Inl e) f = Inl e"
  by (simp add: bindE_def)

lemma bindE_Inr [simp]: "bindE (Inr x) f = f x"
  by (simp add: bindE_def)

lemma bindE_eq_Inr [exn_simps]:
  "bindE m f = Inr y \<longleftrightarrow> (\<exists>x. m = Inr x \<and> f x = Inr y)"
  by (cases m) (simp_all add: bindE_def)

lemma bindE_eq_Inl [exn_simps]:
  "bindE m f = Inl e \<longleftrightarrow> m = Inl e \<or> (\<exists>x. m = Inr x \<and> f x = Inl e)"
  by (cases m) (simp_all add: bindE_def)

lemma bindE_cong [fundef_cong]:
  "m = m' \<Longrightarrow> (\<And>x. m' = Inr x \<Longrightarrow> f x = g x) \<Longrightarrow> bindE m f = bindE m' g"
  by (cases m') (simp_all add: bindE_def)

lemma bindE_E:
  assumes "bindE m f = Inr y"
  obtains x where "m = Inr x" and "f x = Inr y"
  using assms by (auto simp: exn_simps)

text \<open>A loop whose body may throw: the first exception ends it.\<close>

fun foldE :: "('a \<Rightarrow> 's \<Rightarrow> 's result) \<Rightarrow> 'a list \<Rightarrow> 's \<Rightarrow> 's result" where
  "foldE f [] s = Inr s"
| "foldE f (x # xs) s = bindE (f x s) (foldE f xs)"

lemma foldE_append: "foldE f (xs @ ys) s = bindE (foldE f xs s) (foldE f ys)"
  by (induction xs arbitrary: s) (auto simp: bindE_def split: sum.splits)

lemma foldE_invariant:
  assumes "foldE f xs s = Inr t" and "P s"
    and "\<And>x s t. x \<in> set xs \<Longrightarrow> P s \<Longrightarrow> f x s = Inr t \<Longrightarrow> P t"
  shows "P t"
  using assms
proof (induction xs arbitrary: s)
  case Nil
  then show ?case by simp
next
  case (Cons x xs)
  then obtain u where u: "f x s = Inr u" "foldE f xs u = Inr t"
    by (auto simp: exn_simps)
  from Cons.prems u have "P u" by auto
  with u Cons.IH Cons.prems(3) show ?case by (meson list.set_intros(2))
qed

subsection \<open>Stateful computations that may throw\<close>

text \<open>A computation over a state: what an exception leaves behind is part of the result.\<close>

type_synonym ('s, 'a) act = "'s \<Rightarrow> 'a result \<times> 's"

definition returnA :: "'a \<Rightarrow> ('s, 'a) act" where
  "returnA x s = (Inr x, s)"

definition throwA :: "exn \<Rightarrow> ('s, 'a) act" where
  "throwA e s = (Inl e, s)"

definition liftA :: "'a result \<Rightarrow> ('s, 'a) act" where
  "liftA r s = (r, s)"

definition bindA :: "('s, 'a) act \<Rightarrow> ('a \<Rightarrow> ('s, 'b) act) \<Rightarrow> ('s, 'b) act" where
  "bindA m f s = (case m s of (Inl e, s') \<Rightarrow> (Inl e, s') | (Inr x, s') \<Rightarrow> f x s')"

named_theorems act_simps \<open>running a stateful computation\<close>

declare returnA_def [act_simps] throwA_def [act_simps] liftA_def [act_simps] bindA_def [act_simps]

text \<open>A loop over the rows of a query or the items of a request.\<close>

fun forA :: "'a list \<Rightarrow> ('a \<Rightarrow> ('s, unit) act) \<Rightarrow> ('s, unit) act" where
  "forA [] f = returnA ()"
| "forA (x # xs) f = bindA (f x) (\<lambda>_. forA xs f)"

lemma bindA_cong [fundef_cong]:
  "m s = m' s' \<Longrightarrow> (\<And>x t. m' s' = (Inr x, t) \<Longrightarrow> f x t = g x t) \<Longrightarrow> bindA m f s = bindA m' g s'"
  by (auto simp: bindA_def split: prod.splits sum.splits)

lemma bindA_E:
  assumes "bindA m f s = (Inr y, t)"
  obtains x u where "m s = (Inr x, u)" and "f x u = (Inr y, t)"
  using assms by (auto simp: bindA_def split: prod.splits sum.splits)

lemma forA_invariant:
  assumes "\<And>x s. x \<in> set xs \<Longrightarrow> P s \<Longrightarrow> P (snd (f x s))" and "P s"
  shows "P (snd (forA xs f s))"
  using assms
proof (induction xs arbitrary: s)
  case (Cons x xs)
  obtain r t where f: "f x s = (r, t)" by fastforce
  with Cons.prems(1) [of x s] Cons.prems(2) have "P t" by simp
  with Cons.IH [of t] Cons.prems(1) f show ?case by (cases r) (simp_all add: bindA_def)
qed (simp add: returnA_def)

subsection \<open>SQL sums\<close>

text \<open>\<open>SELECT SUM(f) ... WHERE P\<close>, 0 when no row qualifies.\<close>

definition sum_by :: "('a \<Rightarrow> bool) \<Rightarrow> ('a \<Rightarrow> int) \<Rightarrow> 'a list \<Rightarrow> int" where
  "sum_by P f xs = sum_list (map f (filter P xs))"

lemma sum_by_simps [simp]:
  "sum_by P f [] = 0"
  "sum_by P f (x # xs) = (if P x then f x else 0) + sum_by P f xs"
  "sum_by P f (xs @ ys) = sum_by P f xs + sum_by P f ys"
  by (simp_all add: sum_by_def)

lemma sum_by_map: "(\<And>x. P (g x) = P x) \<Longrightarrow> (\<And>x. P x \<Longrightarrow> f (g x) = f x) \<Longrightarrow> sum_by P f (map g xs) = sum_by P f xs"
  by (induction xs) auto

subsection \<open>Machine integers\<close>

text \<open>
  \<open>int64_t\<close> values are integers with their range written out; the code computes in
  \<open>__int128\<close> and narrows at the end, either checked (\<open>clampToInt64\<close>) or by a
  \<open>static_cast\<close>, which wraps.
\<close>

definition INT64_MAX :: int where "INT64_MAX = 9223372036854775807"
definition INT64_MIN :: int where "INT64_MIN = -9223372036854775808"

definition in_int64 :: "int \<Rightarrow> bool" where
  "in_int64 v \<longleftrightarrow> INT64_MIN \<le> v \<and> v \<le> INT64_MAX"

definition wrap64 :: "int \<Rightarrow> int" where
  "wrap64 v = (v + 9223372036854775808) mod 18446744073709551616 - 9223372036854775808"

lemma wrap64_in_int64: "in_int64 (wrap64 v)"
  by (simp add: wrap64_def in_int64_def INT64_MAX_def INT64_MIN_def)

lemma wrap64_id: "in_int64 v \<Longrightarrow> wrap64 v = v"
  by (simp add: wrap64_def in_int64_def INT64_MAX_def INT64_MIN_def)

definition wrap32 :: "int \<Rightarrow> int" where
  "wrap32 v = (v + 2147483648) mod 4294967296 - 2147483648"

lemma wrap32_id: "-2147483648 \<le> v \<Longrightarrow> v \<le> 2147483647 \<Longrightarrow> wrap32 v = v"
  by (simp add: wrap32_def)

text \<open>C++ integer division and remainder truncate towards zero.\<close>

definition cdiv :: "int \<Rightarrow> int \<Rightarrow> int" where
  "cdiv a b = sgn a * sgn b * (\<bar>a\<bar> div \<bar>b\<bar>)"

definition cmod :: "int \<Rightarrow> int \<Rightarrow> int" where
  "cmod a b = a - cdiv a b * b"

lemma cdiv_nonneg: "0 \<le> a \<Longrightarrow> 0 < b \<Longrightarrow> cdiv a b = a div b"
  by (cases "a = 0") (simp_all add: cdiv_def)

lemma cdiv_zero [simp]: "cdiv 0 b = 0"
  by (simp add: cdiv_def)

lemma cdiv_abs: "b \<noteq> 0 \<Longrightarrow> \<bar>cdiv a b\<bar> = \<bar>a\<bar> div \<bar>b\<bar>"
proof -
  assume b: "b \<noteq> 0"
  have "0 \<le> \<bar>a\<bar> div \<bar>b\<bar>" by (simp add: pos_imp_zdiv_nonneg_iff b)
  with b show ?thesis by (cases "a = 0") (simp_all add: cdiv_def abs_mult abs_sgn_eq)
qed

lemma cmod_bound:
  assumes "b \<noteq> 0"
  shows "\<bar>cmod a b\<bar> < \<bar>b\<bar>" and "0 \<le> sgn a * cmod a b"
proof -
  have *: "cmod a b = sgn a * (\<bar>a\<bar> mod \<bar>b\<bar>)"
  proof -
    have "sgn b * b = \<bar>b\<bar>" by (simp add: abs_sgn)
    then have "cdiv a b * b = sgn a * ((\<bar>a\<bar> div \<bar>b\<bar>) * \<bar>b\<bar>)"
      unfolding cdiv_def by (metis mult.assoc mult.commute)
    moreover have "a = sgn a * \<bar>a\<bar>" by (simp add: sgn_mult_abs)
    ultimately show ?thesis
      unfolding cmod_def by (metis minus_div_mult_eq_mod right_diff_distrib)
  qed
  have m: "0 \<le> \<bar>a\<bar> mod \<bar>b\<bar>" "\<bar>a\<bar> mod \<bar>b\<bar> < \<bar>b\<bar>" using assms by simp_all
  show "\<bar>cmod a b\<bar> < \<bar>b\<bar>"
    unfolding * using m assms by (cases "a = 0") (simp_all add: abs_mult abs_sgn_eq)
  show "0 \<le> sgn a * cmod a b"
    unfolding * using m by (cases "a = 0") (simp_all add: sgn_if)
qed

subsection \<open>Characters and strings\<close>

text \<open>Characters are bytes; the classes are those of the C locale.\<close>

definition isdigit :: "char \<Rightarrow> bool" where
  "isdigit c \<longleftrightarrow> 48 \<le> (of_char c :: nat) \<and> (of_char c :: nat) \<le> 57"

definition isupper :: "char \<Rightarrow> bool" where
  "isupper c \<longleftrightarrow> 65 \<le> (of_char c :: nat) \<and> (of_char c :: nat) \<le> 90"

definition islower :: "char \<Rightarrow> bool" where
  "islower c \<longleftrightarrow> 97 \<le> (of_char c :: nat) \<and> (of_char c :: nat) \<le> 122"

definition isalpha :: "char \<Rightarrow> bool" where
  "isalpha c \<longleftrightarrow> isupper c \<or> islower c"

definition isalnum :: "char \<Rightarrow> bool" where
  "isalnum c \<longleftrightarrow> isalpha c \<or> isdigit c"

definition isspace :: "char \<Rightarrow> bool" where
  "isspace c \<longleftrightarrow> (of_char c :: nat) = 32 \<or> (9 \<le> (of_char c :: nat) \<and> (of_char c :: nat) \<le> 13)"

definition isxdigit :: "char \<Rightarrow> bool" where
  "isxdigit c \<longleftrightarrow> isdigit c \<or> (65 \<le> (of_char c :: nat) \<and> (of_char c :: nat) \<le> 70)
     \<or> (97 \<le> (of_char c :: nat) \<and> (of_char c :: nat) \<le> 102)"

definition tolower :: "char \<Rightarrow> char" where
  "tolower c = (if isupper c then char_of ((of_char c :: nat) + 32) else c)"

definition lower :: "string \<Rightarrow> string" where
  "lower s = map tolower s"

lemmas cctype_defs = isdigit_def isupper_def islower_def isalpha_def isalnum_def isspace_def
  isxdigit_def

definition digit_val :: "char \<Rightarrow> int" where
  "digit_val c = int (of_char c) - 48"

definition digit_char :: "nat \<Rightarrow> char" where
  "digit_char d = char_of (48 + d)"

lemma digit_char_props:
  assumes "d < 10"
  shows "isdigit (digit_char d)" and "digit_val (digit_char d) = int d"
  using assms by (simp_all add: digit_char_def isdigit_def digit_val_def take_bit_eq_mod)

text \<open>\<open>std::to_string\<close> on unsigned and signed integers.\<close>

fun nat_to_string :: "nat \<Rightarrow> string" where
  "nat_to_string n = (if n < 10 then [digit_char n]
     else nat_to_string (n div 10) @ [digit_char (n mod 10)])"

declare nat_to_string.simps [simp del]

definition int_to_string :: "int \<Rightarrow> string" where
  "int_to_string i = (if i < 0 then CHR ''-'' # nat_to_string (nat (- i)) else nat_to_string (nat i))"

lemma nat_to_string_digits: "\<forall>c \<in> set (nat_to_string n). isdigit c"
proof (induction n rule: nat_to_string.induct)
  case (1 n)
  then show ?case
    by (subst nat_to_string.simps) (auto simp: digit_char_props)
qed

text \<open>The same digits by division of binary integers, for evaluation on large numbers.\<close>

function int_digits :: "int \<Rightarrow> string" where
  "int_digits i = (if i < 10 then [digit_char (nat i)] else int_digits (i div 10) @ [digit_char (nat (i mod 10))])"
  by pat_completeness auto
termination
  by (relation "measure nat") auto

lemma int_digits_nat: "nat_to_string n = int_digits (int n)"
proof (induction n rule: nat_to_string.induct)
  case (1 n)
  then show ?case
    by (subst nat_to_string.simps, subst int_digits.simps) (simp add: zdiv_int nat_mod_distrib)
qed

lemma int_to_string_code [code]:
  "int_to_string i = (if i < 0 then CHR ''-'' # int_digits (- i) else int_digits i)"
  by (simp add: int_to_string_def int_digits_nat)

declare int_digits.simps [simp del]

lemma nat_to_string_nonempty [simp]: "nat_to_string n \<noteq> []"
  by (subst nat_to_string.simps) simp

text \<open>A value between the single quotes the code puts around it in messages and SQL.\<close>

definition quoted :: "string \<Rightarrow> string" where
  "quoted s = CHR 0x27 # s @ [CHR 0x27]"

text \<open>The value of a run of digits, and the round trip through it.\<close>

fun digits_val :: "int \<Rightarrow> string \<Rightarrow> int" where
  "digits_val v [] = v"
| "digits_val v (c # cs) = digits_val (v * 10 + digit_val c) cs"

lemma digits_val_append: "digits_val v (s @ t) = digits_val (digits_val v s) t"
  by (induction s arbitrary: v) simp_all

lemma digits_val_nat_to_string: "digits_val 0 (nat_to_string n) = int n"
proof (induction n rule: nat_to_string.induct)
  case (1 n)
  show ?case
  proof (cases "n < 10")
    case True
    then show ?thesis by (simp add: nat_to_string.simps [of n] digit_char_props)
  next
    case False
    with "1.IH" have "digits_val 0 (nat_to_string (n div 10)) = int (n div 10)" by simp
    with False have "digits_val 0 (nat_to_string n) = int (n div 10) * 10 + int (n mod 10)"
      by (simp add: nat_to_string.simps [of n] digits_val_append digit_char_props)
    then show ?thesis by presburger
  qed
qed

lemma digit_val_bounds: "isdigit c \<Longrightarrow> 0 \<le> digit_val c \<and> digit_val c \<le> 9"
  by (auto simp: isdigit_def digit_val_def)

lemma digits_val_shift:
  "digits_val v s = v * 10 ^ length s + digits_val 0 s"
proof (induction s arbitrary: v)
  case (Cons c s)
  show ?case
    using Cons.IH [of "v * 10 + digit_val c"] Cons.IH [of "digit_val c"]
    by (simp add: algebra_simps)
qed simp

lemma digits_val_bounds:
  "\<forall>c \<in> set s. isdigit c \<Longrightarrow> 0 \<le> digits_val 0 s \<and> digits_val 0 s < 10 ^ length s"
proof (induction s)
  case (Cons c s)
  then have ih: "0 \<le> digits_val 0 s" "digits_val 0 s < 10 ^ length s" by auto
  have d: "0 \<le> digit_val c" "digit_val c \<le> 9" using Cons.prems digit_val_bounds by auto
  have e: "digits_val 0 (c # s) = digit_val c * 10 ^ length s + digits_val 0 s"
    using digits_val_shift [of "digit_val c" s] by simp
  have "digit_val c * 10 ^ length s \<le> 9 * 10 ^ length s"
    using d by (intro mult_right_mono) simp_all
  then have "digits_val 0 (c # s) < 10 * 10 ^ length s" using e ih by linarith
  moreover have "0 \<le> digits_val 0 (c # s)" using e d ih by simp
  ultimately show ?case by simp
qed simp

lemma digits_val_zeros: "digits_val 0 (replicate k (CHR ''0'') @ s) = digits_val 0 s"
  by (induction k) (simp_all add: digit_val_def)

lemma length_nat_to_string: "n < 10 ^ k \<Longrightarrow> 0 < k \<Longrightarrow> length (nat_to_string n) \<le> k"
proof (induction n arbitrary: k rule: nat_to_string.induct)
  case (1 n)
  show ?case
  proof (cases "n < 10")
    case True
    with "1.prems" show ?thesis by (simp add: nat_to_string.simps [of n])
  next
    case False
    from "1.prems" obtain j where k: "k = Suc j" by (cases k) auto
    with "1.prems" False have j: "0 < j" by (cases j) auto
    have "n < 10 ^ j * 10" using "1.prems" by (simp add: k mult.commute)
    then have "n div 10 < 10 ^ j" by (rule less_mult_imp_div_less)
    with "1.IH" [OF False] j False show ?thesis by (simp add: nat_to_string.simps [of n] k)
  qed
qed

text \<open>\<open>s.rfind(p, 0) == 0\<close>, \<open>s.find(p, pos)\<close> and \<open>s.substr(pos, len)\<close>.\<close>

fun starts_with :: "string \<Rightarrow> string \<Rightarrow> bool" where
  "starts_with [] s = True"
| "starts_with (p # ps) [] = False"
| "starts_with (p # ps) (c # cs) = (p = c \<and> starts_with ps cs)"

lemma starts_with_iff: "starts_with p s \<longleftrightarrow> (\<exists>t. s = p @ t)"
  by (induction p s rule: starts_with.induct) auto

fun find_from :: "string \<Rightarrow> string \<Rightarrow> nat \<Rightarrow> nat option" where
  "find_from p [] i = (if p = [] then Some i else None)"
| "find_from p (c # cs) i = (if starts_with p (c # cs) then Some i else find_from p cs (Suc i))"

definition str_find :: "string \<Rightarrow> string \<Rightarrow> nat \<Rightarrow> nat option" where
  "str_find s p pos = (if pos \<le> length s then find_from p (drop pos s) pos else None)"

definition find_char :: "string \<Rightarrow> char \<Rightarrow> nat \<Rightarrow> nat option" where
  "find_char s c pos = str_find s [c] pos"

definition substr :: "string \<Rightarrow> nat \<Rightarrow> nat \<Rightarrow> string" where
  "substr s pos n = take n (drop pos s)"

lemma find_from_Some:
  "find_from p s i = Some j \<Longrightarrow> i \<le> j \<and> j \<le> i + length s \<and> starts_with p (drop (j - i) s)"
proof (induction s arbitrary: i)
  case Nil
  then show ?case by (auto split: if_splits)
next
  case (Cons c s)
  show ?case
  proof (cases "starts_with p (c # s)")
    case True
    with Cons.prems show ?thesis by simp
  next
    case False
    with Cons.prems have "find_from p s (Suc i) = Some j" by simp
    from Cons.IH [OF this]
    have ih: "Suc i \<le> j" "j \<le> Suc i + length s" "starts_with p (drop (j - Suc i) s)"
      by auto
    from ih(1) have "drop (j - i) (c # s) = drop (j - Suc i) s"
      by (metis Suc_diff_le diff_Suc_Suc drop_Suc_Cons)
    with ih show ?thesis by simp
  qed
qed

lemma str_find_Some:
  assumes "str_find s p pos = Some j"
  shows "pos \<le> j" and "j \<le> length s" and "starts_with p (drop j s)"
proof -
  from assms have p: "pos \<le> length s" and f: "find_from p (drop pos s) pos = Some j"
    by (auto simp: str_find_def split: if_splits)
  from find_from_Some [OF f] have "pos \<le> j" "j \<le> pos + length (drop pos s)"
    "starts_with p (drop (j - pos) (drop pos s))" by auto
  with p show "pos \<le> j" "j \<le> length s" "starts_with p (drop j s)" by simp_all
qed

text \<open>\<open>std::stoi\<close>: leading white space, a sign, the longest run of digits; the second component is
  the number of characters consumed. \<open>int_range\<close> is that of \<open>int\<close>.\<close>

definition int_prefix :: "string \<Rightarrow> (int \<times> nat) option" where
  "int_prefix s =
     (let ws = length (takeWhile isspace s);
          r = drop ws s;
          sg = (case r of c # _ \<Rightarrow> if c = CHR ''-'' \<or> c = CHR ''+'' then 1 else 0 | [] \<Rightarrow> 0);
          ds = takeWhile isdigit (drop sg r);
          v = digits_val 0 ds
      in if ds = [] then None
         else Some (if r \<noteq> [] \<and> hd r = CHR ''-'' then - v else v, ws + sg + length ds))"

definition stoi_pos :: "string \<Rightarrow> (int \<times> nat) result" where
  "stoi_pos s = (case int_prefix s of
       None \<Rightarrow> Inl (InvalidArgument ''stoi'')
     | Some (v, n) \<Rightarrow> if -2147483648 \<le> v \<and> v \<le> 2147483647 then Inr (v, n)
         else Inl (OutOfRange ''stoi''))"

definition stoi :: "string \<Rightarrow> int result" where
  "stoi s = bindE (stoi_pos s) (\<lambda>(v, n). Inr v)"

text \<open>The tokens of a \<open>std::getline(stream, token, sep)\<close> loop: a trailing separator starts no
  further token.\<close>

function getline_tokens :: "char \<Rightarrow> string \<Rightarrow> string list" where
  "getline_tokens sep s =
     (if s = [] then []
      else takeWhile (\<lambda>c. c \<noteq> sep) s # getline_tokens sep (tl (dropWhile (\<lambda>c. c \<noteq> sep) s)))"
  by pat_completeness auto

lemma length_dropWhile_le_length: "length (dropWhile P xs) \<le> length xs"
  by (induction xs) auto

termination getline_tokens
proof (relation "measure (\<lambda>(sep, s). length s)", goal_cases)
  case (2 sep s)
  then have "0 < length s" by simp
  with length_dropWhile_le_length [of "\<lambda>c. c \<noteq> sep" s]
  have "length (dropWhile (\<lambda>c. c \<noteq> sep) s) - 1 < length s" by linarith
  then show ?case by simp
qed simp

declare getline_tokens.simps [simp del]

text \<open>Splitting at a character, keeping empty pieces, and trimming a class of characters.\<close>

fun split_on :: "char \<Rightarrow> string \<Rightarrow> string list" where
  "split_on sep [] = [[]]"
| "split_on sep (c # cs) =
     (if c = sep then [] # split_on sep cs
      else (case split_on sep cs of [] \<Rightarrow> [[c]] | t # ts \<Rightarrow> (c # t) # ts))"

definition trim_by :: "(char \<Rightarrow> bool) \<Rightarrow> string \<Rightarrow> string" where
  "trim_by P s = rev (dropWhile P (rev (dropWhile P s)))"

lemma split_on_nonempty [simp]: "split_on sep s \<noteq> []"
  by (induction s) (auto split: list.splits)

lemma split_on_no_sep: "t \<in> set (split_on sep s) \<Longrightarrow> sep \<notin> set t"
  by (induction s arbitrary: t) (auto split: if_splits list.splits)

text \<open>A sum over rows when the one of a key is rewritten.\<close>

lemma sum_update_key:
  assumes "distinct (map key xs)" "x \<in> set xs"
  shows "sum_list (map g (map (\<lambda>y. if key y = key x then f y else y) xs)) = sum_list (map g xs) - g x + (g (f x) :: int)"
  using assms
proof (induction xs)
  case (Cons y ys)
  show ?case
  proof (cases "y = x")
    case True
    with Cons.prems have "map (\<lambda>y. if key y = key x then f y else y) ys = ys"
      by (intro map_idI) (use Cons.prems(1) True in \<open>force simp: image_iff\<close>)
    then show ?thesis using True by simp
  next
    case False
    with Cons.prems have "key y \<noteq> key x" "x \<in> set ys" by auto
    with Cons show ?thesis by auto
  qed
qed simp

lemma filter_map_same: "(\<And>x. x \<in> set xs \<Longrightarrow> P (g x) = P x \<and> (P x \<longrightarrow> g x = x)) \<Longrightarrow> filter P (map g xs) = filter P xs"
  by (induction xs) auto

subsection \<open>Runs of a step relation\<close>

text \<open>The contract of a component's operations: every step keeps the invariant; so does every run. Where
  the steps also keep a quantity, so does every run.\<close>

locale kept =
  fixes step :: "'s \<Rightarrow> 's \<Rightarrow> bool" and ok :: "'s \<Rightarrow> bool"
  assumes kept_step: "step s t \<Longrightarrow> ok s \<Longrightarrow> ok t"
begin

lemma runs_ok:
  assumes "step\<^sup>*\<^sup>* s t" and "ok s"
  shows "ok t"
  using assms by (induction rule: rtranclp_induct) (auto intro: kept_step)

end

locale conserved = kept +
  fixes amount :: "'a \<Rightarrow> 'm"
  assumes same_step: "step s t \<Longrightarrow> ok s \<Longrightarrow> amount t = amount s"
begin

lemma runs_same:
  assumes "step\<^sup>*\<^sup>* s t" and "ok s"
  shows "amount t = amount s"
  using assms
proof (induction rule: rtranclp_induct)
  case (step u v)
  then show ?case using same_step [OF step(2) runs_ok [OF step(1)]] by simp
qed simp

end

end
