(* ===== verification/Money.thy ===== *)
theory Money
  imports Prelude
begin

section \<open>Fixed-point money: core/Money.hpp and core/Money.cpp\<close>

text \<open>
  An amount is an \<open>int64_t\<close> number of micro-units and a currency id. Every operation computes
  in \<open>__int128\<close> and narrows with \<open>clampToInt64\<close>, which throws; the model keeps the exact integer
  and the range check. \<open>fromJson\<close> and \<open>toJson\<close> go through \<open>double\<close> and are not modelled.
\<close>

record currency =
  cur_id :: int
  cur_code :: string
  decimalPlaces :: int
  roundingStep :: int
  cur_rate :: int

record money =
  micros :: int
  ccy :: int

definition SCALE :: int where "SCALE = 6"
definition ONE :: int where "ONE = 1000000"

lemmas money_consts = SCALE_def ONE_def

definition fromMicros :: "int \<Rightarrow> int \<Rightarrow> money" where
  "fromMicros m c = \<lparr>micros = m, ccy = c\<rparr>"

definition zero_money :: "int \<Rightarrow> money" where
  "zero_money c = \<lparr>micros = 0, ccy = c\<rparr>"

definition isZero :: "money \<Rightarrow> bool" where
  "isZero m \<longleftrightarrow> micros m = 0"

lemma fromMicros_simps [simp]: "micros (fromMicros m c) = m" "ccy (fromMicros m c) = c"
  by (simp_all add: fromMicros_def)

lemma zero_money_simps [simp]: "micros (zero_money c) = 0" "ccy (zero_money c) = c"
  by (simp_all add: zero_money_def)

definition kPow10 :: "nat \<Rightarrow> int" where
  "kPow10 n = [1, 10, 100, 1000, 10000, 100000, 1000000, 10000000, 100000000, 1000000000,
     10000000000, 100000000000, 1000000000000, 10000000000000, 100000000000000,
     1000000000000000, 10000000000000000, 100000000000000000, 1000000000000000000] ! n"

subsection \<open>Rounding division and narrowing\<close>

definition divRoundHalfAway :: "int \<Rightarrow> int \<Rightarrow> int result" where
  "divRoundHalfAway num den =
     (if den = 0 then Inl (ValidationError ''Money: division by zero'')
      else let neg = ((num < 0) \<noteq> (den < 0));
               a = (if num < 0 then - num else num);
               b = (if den < 0 then - den else den);
               q = cdiv (a + cdiv b 2) b
           in Inr (if neg then - q else q))"

definition clampToInt64 :: "int \<Rightarrow> string \<Rightarrow> int result" where
  "clampToInt64 v what =
     (if INT64_MAX < v \<or> v < INT64_MIN
      then Inl (ValidationError (''Money: '' @ what @ '' overflowed the representable range''))
      else Inr v)"

definition money_of :: "int result \<Rightarrow> int \<Rightarrow> money result" where
  "money_of r c = bindE r (\<lambda>v. Inr \<lparr>micros = v, ccy = c\<rparr>)"

lemma clampToInt64_Inr [exn_simps]: "clampToInt64 v w = Inr r \<longleftrightarrow> in_int64 v \<and> r = v"
  by (auto simp: clampToInt64_def in_int64_def)

lemma clampToInt64_in [simp]: "in_int64 v \<Longrightarrow> clampToInt64 v w = Inr v"
  by (simp add: clampToInt64_Inr)

lemma money_of_Inr [exn_simps]:
  "money_of r c = Inr m \<longleftrightarrow> (\<exists>v. r = Inr v \<and> m = \<lparr>micros = v, ccy = c\<rparr>)"
  by (auto simp: money_of_def exn_simps)

subsection \<open>Parsing\<close>

definition trim_space :: "string \<Rightarrow> string" where
  "trim_space s = rev (dropWhile isspace (rev (dropWhile isspace s)))"

fun scan_whole :: "int \<Rightarrow> bool \<Rightarrow> string \<Rightarrow> (int \<times> bool \<times> string) result" where
  "scan_whole w saw [] = Inr (w, saw, [])"
| "scan_whole w saw (c # cs) =
     (if isdigit c
      then if w > cdiv (INT64_MAX - 9) 10
           then Inl (ValidationError ''Money: value too large'')
           else scan_whole (w * 10 + digit_val c) True cs
      else Inr (w, saw, c # cs))"

fun scan_frac :: "int \<Rightarrow> int \<Rightarrow> bool \<Rightarrow> string \<Rightarrow> int \<times> int \<times> bool \<times> string" where
  "scan_frac f digits saw [] = (f, digits, saw, [])"
| "scan_frac f digits saw (c # cs) =
     (if isdigit c
      then if digits < SCALE then scan_frac (f * 10 + digit_val c) (digits + 1) True cs
           else scan_frac f digits True cs
      else (f, digits, saw, c # cs))"

definition parse_money :: "string \<Rightarrow> int \<Rightarrow> money result" where
  "parse_money text0 c =
     (let text = trim_space text0 in
      if text = [] then Inr \<lparr>micros = 0, ccy = c\<rparr>
      else let neg = (hd text = CHR ''-'');
               text1 = (if hd text = CHR ''+'' \<or> hd text = CHR ''-'' then tl text else text)
      in if text1 = [] then Inl (ValidationError ''Money: malformed number'')
      else bindE (scan_whole 0 False text1) (\<lambda>(whole, saw, rest).
        let (frac, saw', rest') =
              (if rest \<noteq> [] \<and> hd rest = CHR ''.''
               then let (f, digits, sw, r) = scan_frac 0 0 saw (tl rest)
                    in (f * kPow10 (nat (SCALE - digits)), sw, r)
               else (0, saw, rest))
        in if \<not> saw' \<or> rest' \<noteq> []
           then Inl (ValidationError (''Money: malformed number '' @ quoted text1))
           else bindE (clampToInt64 (whole * ONE + frac) ''parsed value'') (\<lambda>v.
             Inr \<lparr>micros = (if neg then - v else v), ccy = c\<rparr>)))"

fun fromDb_loop :: "string \<Rightarrow> int \<Rightarrow> string \<Rightarrow> int result" where
  "fromDb_loop text v [] = Inr v"
| "fromDb_loop text v (c # cs) =
     (if \<not> isdigit c
      then Inl (ValidationError (''Money::fromDb: not an integer: '' @ quoted text))
      else if v > cdiv (INT64_MAX - 9) 10
      then Inl (ValidationError ''Money::fromDb: value out of range'')
      else fromDb_loop text (v * 10 + digit_val c) cs)"

definition fromDb :: "string \<Rightarrow> int \<Rightarrow> money result" where
  "fromDb text c =
     (if text = [] then Inr \<lparr>micros = 0, ccy = c\<rparr>
      else let neg = (hd text = CHR ''-'');
               ds = (if hd text = CHR ''+'' \<or> hd text = CHR ''-'' then tl text else text)
           in bindE (fromDb_loop text 0 ds) (\<lambda>v.
                Inr \<lparr>micros = (if neg then - v else v), ccy = c\<rparr>))"

subsection \<open>Arithmetic\<close>

definition requireSameCurrency :: "money \<Rightarrow> money \<Rightarrow> string \<Rightarrow> unit result" where
  "requireSameCurrency a b op =
     (if ccy a \<noteq> ccy b
      then Inl (ValidationError (''Money: cannot '' @ op @ '' amounts in different currencies (''
        @ int_to_string (ccy a) @ '' vs '' @ int_to_string (ccy b)
        @ ''). Convert to a common currency first.''))
      else Inr ())"

definition money_add :: "money \<Rightarrow> money \<Rightarrow> money result" where
  "money_add a b = bindE (requireSameCurrency a b ''add'') (\<lambda>_.
     money_of (clampToInt64 (micros a + micros b) ''sum'') (ccy a))"

definition money_sub :: "money \<Rightarrow> money \<Rightarrow> money result" where
  "money_sub a b = bindE (requireSameCurrency a b ''subtract'') (\<lambda>_.
     money_of (clampToInt64 (micros a - micros b) ''difference'') (ccy a))"

text \<open>Unary minus negates an \<open>int64_t\<close>: undefined behaviour at \<open>INT64_MIN\<close>.\<close>

definition money_neg :: "money \<Rightarrow> money result" where
  "money_neg a = (if micros a = INT64_MIN then Inl (Undefined ''signed overflow'')
     else Inr \<lparr>micros = - micros a, ccy = ccy a\<rparr>)"

definition money_less :: "money \<Rightarrow> money \<Rightarrow> bool result" where
  "money_less a b = bindE (requireSameCurrency a b ''compare'') (\<lambda>_. Inr (micros a < micros b))"

definition mulQty :: "money \<Rightarrow> money \<Rightarrow> money result" where
  "mulQty a qty = bindE (divRoundHalfAway (micros a * micros qty) ONE) (\<lambda>q.
     money_of (clampToInt64 q ''product'') (ccy a))"

definition mulInt :: "money \<Rightarrow> int \<Rightarrow> money result" where
  "mulInt a n = money_of (clampToInt64 (micros a * n) ''product'') (ccy a)"

definition percent :: "money \<Rightarrow> money \<Rightarrow> money result" where
  "percent a pct = bindE (divRoundHalfAway (micros a * micros pct) (ONE * 100)) (\<lambda>q.
     money_of (clampToInt64 q ''percentage'') (ccy a))"

definition prorate :: "money \<Rightarrow> int \<Rightarrow> int \<Rightarrow> money result" where
  "prorate a days totalDays =
     (if totalDays = 0 then Inl (ValidationError ''Money::prorate: totalDays is zero'')
      else bindE (divRoundHalfAway (micros a * days) totalDays) (\<lambda>q.
        money_of (clampToInt64 q ''prorated amount'') (ccy a)))"

fun split_loop :: "nat \<Rightarrow> int \<Rightarrow> int \<Rightarrow> int \<Rightarrow> int \<Rightarrow> money list" where
  "split_loop 0 base rem step c = []"
| "split_loop (Suc n) base rem step c =
     (if rem \<noteq> 0 then \<lparr>micros = base + step, ccy = c\<rparr> # split_loop n base (rem - step) step c
      else \<lparr>micros = base, ccy = c\<rparr> # split_loop n base rem step c)"

definition split_money :: "money \<Rightarrow> int \<Rightarrow> money list result" where
  "split_money a n =
     (if n \<le> 0 then Inl (ValidationError ''Money::split: parts must be positive'')
      else let base = cdiv (micros a) n;
               rem = micros a - base * n;
               step = (if rem < 0 then - 1 else 1)
           in Inr (split_loop (nat n) base rem step (ccy a)))"

subsection \<open>Rounding, conversion, formatting\<close>

definition roundTo :: "money \<Rightarrow> int \<Rightarrow> money result" where
  "roundTo a dp0 =
     (let dp = (if dp0 < 0 then 0 else dp0) in
      if dp \<ge> SCALE then Inr a
      else let factor = kPow10 (nat (SCALE - dp)) in
        bindE (divRoundHalfAway (micros a) factor) (\<lambda>q.
          money_of (clampToInt64 (q * factor) ''rounded value'') (ccy a)))"

definition roundToCurrency :: "money \<Rightarrow> currency \<Rightarrow> money result" where
  "roundToCurrency a c =
     (if roundingStep c > 0
      then bindE (divRoundHalfAway (micros a) (roundingStep c)) (\<lambda>q.
        money_of (clampToInt64 (q * roundingStep c) ''rounded value'') (ccy a))
      else roundTo a (decimalPlaces c))"

definition convertTo :: "money \<Rightarrow> int \<Rightarrow> int \<Rightarrow> money result" where
  "convertTo a toCurrencyId rate =
     bindE (divRoundHalfAway (micros a * rate) ONE) (\<lambda>q.
       money_of (clampToInt64 q ''converted amount'') toCurrencyId)"

definition impliedRate :: "money \<Rightarrow> money \<Rightarrow> int result" where
  "impliedRate a received =
     (if micros a = 0 then Inl (ValidationError ''Money::impliedRate: source amount is zero'')
      else bindE (divRoundHalfAway (micros received * ONE) (micros a)) (\<lambda>q.
        clampToInt64 q ''implied rate''))"

definition toString_money :: "money \<Rightarrow> int \<Rightarrow> string result" where
  "toString_money a dp0 =
     (let dp = (if dp0 < 0 then 0 else if dp0 > SCALE then SCALE else dp0) in
      bindE (roundTo a dp) (\<lambda>r.
        let neg = (micros r < 0);
            mag = (if neg then - micros r else micros r);
            whole = nat (mag div ONE);
            frac = nat (mag mod ONE);
            f = nat_to_string frac;
            f6 = replicate (nat SCALE - length f) (CHR ''0'') @ f
        in Inr ((if neg then ''-'' else []) @ nat_to_string whole
             @ (if dp > 0 then CHR ''.'' # take (nat dp) f6 else []))))"

lemmas money_ops = money_add_def money_sub_def mulQty_def mulInt_def percent_def prorate_def
  convertTo_def impliedRate_def roundTo_def roundToCurrency_def requireSameCurrency_def

subsection \<open>Rounding division is the nearest integer, ties away from zero\<close>

definition nearest_away :: "int \<Rightarrow> int \<Rightarrow> int \<Rightarrow> bool" where
  "nearest_away num den q \<longleftrightarrow> 2 * \<bar>num - q * den\<bar> \<le> \<bar>den\<bar>
     \<and> (2 * \<bar>num - q * den\<bar> = \<bar>den\<bar> \<longrightarrow> \<bar>num\<bar> \<le> \<bar>q * den\<bar>)"

lemma nearest_away_nonneg:
  assumes "0 \<le> a" and "0 < b"
  shows "nearest_away a b t \<longleftrightarrow> t = (a + b div 2) div b"
proof
  assume n: "nearest_away a b t"
  define x where "x = t * b"
  have n1: "2 * \<bar>a - x\<bar> \<le> b" and n2: "2 * \<bar>a - x\<bar> = b \<Longrightarrow> a \<le> \<bar>x\<bar>"
    using n assms by (simp_all add: nearest_away_def x_def)
  have lo: "x \<le> a + b div 2" using n1 by arith
  have hi: "a + b div 2 < x + b"
  proof (rule ccontr)
    assume "\<not> ?thesis"
    then have "2 * (a - x) = b" using n1 by arith
    with n2 assms have le: "a \<le> \<bar>x\<bar>" and eq: "2 * (a - x) = b" by simp_all
    show False
    proof (cases "0 \<le> t")
      case True
      then have "0 \<le> x" using assms by (simp add: x_def)
      with le eq assms show False by arith
    next
      case False
      then have "t * b \<le> - 1 * b" using assms by (intro mult_right_mono) simp_all
      with eq assms show False by (simp add: x_def)
    qed
  qed
  from lo hi assms show "t = (a + b div 2) div b"
    by (intro int_div_pos_eq [symmetric, where r = "a + b div 2 - x"]) (simp_all add: x_def mult.commute)
next
  assume t: "t = (a + b div 2) div b"
  define r where "r = (a + b div 2) mod b"
  have r: "0 \<le> r" "r < b" using assms by (simp_all add: r_def)
  have e: "a = t * b + r - b div 2"
    unfolding t r_def by (metis add_diff_cancel_right' div_mult_mod_eq)
  have "0 \<le> t" using assms by (simp add: t pos_imp_zdiv_nonneg_iff)
  then have tb: "\<bar>t * b\<bar> = t * b" using assms by simp
  show "nearest_away a b t"
    unfolding nearest_away_def tb using e r assms by (auto simp: abs_if)
qed

lemma nearest_away_sgn:
  assumes "den \<noteq> 0"
  shows "nearest_away num den q
    \<longleftrightarrow> nearest_away \<bar>num\<bar> \<bar>den\<bar> (if (num < 0) \<noteq> (den < 0) then - q else q)"
proof -
  have "\<bar>\<bar>num\<bar> - (if (num < 0) \<noteq> (den < 0) then - q else q) * \<bar>den\<bar>\<bar> = \<bar>num - q * den\<bar>"
    by (auto simp: abs_if)
  moreover have "\<bar>(if (num < 0) \<noteq> (den < 0) then - q else q) * \<bar>den\<bar>\<bar> = \<bar>q * den\<bar>"
    by (auto simp: abs_mult)
  ultimately show ?thesis by (simp only: nearest_away_def abs_abs)
qed

lemma divRoundHalfAway_Inr:
  "divRoundHalfAway num den = Inr q \<longleftrightarrow> den \<noteq> 0 \<and> nearest_away num den q"
proof (cases "den = 0")
  case True
  then show ?thesis by (simp add: divRoundHalfAway_def)
next
  case False
  let ?a = "\<bar>num\<bar>" and ?b = "\<bar>den\<bar>"
  let ?n = "(num < 0) \<noteq> (den < 0)"
  have q: "cdiv (?a + cdiv ?b 2) ?b = (?a + ?b div 2) div ?b"
    using False by (simp add: cdiv_nonneg)
  have "divRoundHalfAway num den = Inr (if ?n then - ((?a + ?b div 2) div ?b)
      else (?a + ?b div 2) div ?b)"
  proof -
    have a: "(if num < 0 then - num else num) = ?a" and b: "(if den < 0 then - den else den) = ?b"
      by simp_all
    show ?thesis unfolding divRoundHalfAway_def Let_def a b q using False by simp
  qed
  moreover have "nearest_away num den q \<longleftrightarrow> (if ?n then - q else q) = (?a + ?b div 2) div ?b"
    using nearest_away_sgn [OF False] nearest_away_nonneg [of ?a ?b] False by simp
  ultimately show ?thesis using False by auto
qed

text \<open>The rounding division every rescaling goes through returns a value exactly when the
  divisor is not zero, and that value is the nearest integer to the quotient, ties away from zero.\<close>

theorem divRoundHalfAway_nearest:
  "divRoundHalfAway num den = Inr q \<longleftrightarrow> den \<noteq> 0 \<and> nearest_away num den q"
  by (rule divRoundHalfAway_Inr)

subsection \<open>Splitting conserves every micro-unit\<close>

lemma length_split_loop [simp]: "length (split_loop n base rem step c) = n"
  by (induction n arbitrary: rem) simp_all

lemma split_loop_parts:
  "p \<in> set (split_loop n base rem step c) \<Longrightarrow> ccy p = c \<and> (micros p = base \<or> micros p = base + step)"
  by (induction n arbitrary: rem) (auto split: if_splits)

lemma split_loop_sum:
  assumes "step = 1 \<or> step = - 1" and "0 \<le> step * rem" and "\<bar>rem\<bar> \<le> int n"
  shows "sum_list (map micros (split_loop n base rem step c)) = int n * base + rem"
  using assms(2,3)
proof (induction n arbitrary: rem)
  case 0
  then show ?case by simp
next
  case (Suc n)
  show ?case
  proof (cases "rem = 0")
    case True
    with Suc.IH [of 0] show ?thesis by (simp add: algebra_simps)
  next
    case False
    with Suc.prems assms(1) have "0 \<le> step * (rem - step)" and "\<bar>rem - step\<bar> \<le> int n" by auto
    with Suc.IH False show ?thesis by (simp add: algebra_simps)
  qed
qed

text \<open>Splitting an amount into \<open>n\<close> parts always succeeds for positive \<open>n\<close>; there are \<open>n\<close> parts in
  the same currency, they sum exactly to the amount, and no two differ by more than one micro.\<close>

theorem split_money_conserves:
  assumes "0 < n"
  shows "\<exists>ps. split_money a n = Inr ps \<and> length ps = nat n
    \<and> sum_list (map micros ps) = micros a \<and> (\<forall>p \<in> set ps. ccy p = ccy a)
    \<and> (\<forall>p \<in> set ps. \<forall>q \<in> set ps. \<bar>micros p - micros q\<bar> \<le> 1)"
proof -
  define r where "r = cmod (micros a) n"
  define st :: int where "st = (if r < 0 then - 1 else 1)"
  let ?ps = "split_loop (nat n) (cdiv (micros a) n) r st (ccy a)"
  have eq: "split_money a n = Inr ?ps"
    using assms by (simp add: split_money_def Let_def r_def st_def cmod_def)
  have "\<bar>r\<bar> < n" using cmod_bound(1) [of n "micros a"] assms by (simp add: r_def)
  then have "sum_list (map micros ?ps) = int (nat n) * cdiv (micros a) n + r"
    by (intro split_loop_sum) (auto simp: st_def)
  then have "sum_list (map micros ?ps) = micros a"
    using assms by (simp add: r_def cmod_def mult.commute)
  moreover have "\<bar>micros p - micros q\<bar> \<le> 1" if "p \<in> set ?ps" "q \<in> set ?ps" for p q
    using split_loop_parts [OF that(1)] split_loop_parts [OF that(2)] by (auto simp: st_def)
  ultimately show ?thesis using eq split_loop_parts by fastforce
qed

theorem split_money_conserves_witness:
  "\<exists>ps. split_money \<lparr>micros = 10000000, ccy = 2\<rparr> 3 = Inr ps \<and> length ps = 3
    \<and> sum_list (map micros ps) = 10000000"
  using split_money_conserves [of 3 "\<lparr>micros = 10000000, ccy = 2\<rparr>"] by auto

subsection \<open>Addition, subtraction and the currency guard\<close>

lemma money_add_Inr [exn_simps]:
  "money_add a b = Inr c \<longleftrightarrow> ccy a = ccy b \<and> in_int64 (micros a + micros b)
     \<and> c = \<lparr>micros = micros a + micros b, ccy = ccy a\<rparr>"
  by (auto simp: money_add_def requireSameCurrency_def exn_simps)

lemma money_sub_Inr [exn_simps]:
  "money_sub a b = Inr c \<longleftrightarrow> ccy a = ccy b \<and> in_int64 (micros a - micros b)
     \<and> c = \<lparr>micros = micros a - micros b, ccy = ccy a\<rparr>"
  by (auto simp: money_sub_def requireSameCurrency_def exn_simps)

lemma money_sub_add: "money_sub a b = Inr c \<Longrightarrow> in_int64 (micros a) \<Longrightarrow> money_add b c = Inr a"
  by (auto simp: exn_simps)

text \<open>
  The interface the clients of amounts rely on: an addition that returns is exact and stays in
  one currency. Totals folded with it are then exact sums.
\<close>

locale exact_amount =
  fixes add :: "'m \<Rightarrow> 'm \<Rightarrow> 'm result" and amount :: "'m \<Rightarrow> int" and cur :: "'m \<Rightarrow> int"
  assumes add_exact: "add a b = Inr c \<Longrightarrow> amount c = amount a + amount b"
    and add_cur: "add a b = Inr c \<Longrightarrow> cur c = cur a \<and> cur b = cur a"
begin

lemma total_exact:
  "foldE (\<lambda>x acc. add acc (f x)) xs z = Inr t
    \<Longrightarrow> amount t = amount z + sum_list (map (\<lambda>x. amount (f x)) xs)"
proof (induction xs arbitrary: z)
  case Nil
  then show ?case by simp
next
  case (Cons x xs)
  then obtain y where "add z (f x) = Inr y" "foldE (\<lambda>x acc. add acc (f x)) xs y = Inr t"
    by (auto simp: exn_simps)
  with Cons.IH add_exact show ?case by fastforce
qed

lemma total_cur:
  "foldE (\<lambda>x acc. add acc (f x)) xs z = Inr t
    \<Longrightarrow> cur t = cur z \<and> (\<forall>x \<in> set xs. cur (f x) = cur z)"
proof (induction xs arbitrary: z)
  case Nil
  then show ?case by simp
next
  case (Cons x xs)
  then obtain y where "add z (f x) = Inr y" "foldE (\<lambda>x acc. add acc (f x)) xs y = Inr t"
    by (auto simp: exn_simps)
  with Cons.IH add_cur show ?case by fastforce
qed

end

interpretation money_amount: exact_amount money_add micros ccy
  by unfold_locales (auto simp: exn_simps)

subsection \<open>Rounding\<close>

lemma mulQty_Inr [exn_simps]:
  "mulQty a q = Inr r \<longleftrightarrow> (\<exists>v. nearest_away (micros a * micros q) ONE v \<and> in_int64 v
     \<and> r = \<lparr>micros = v, ccy = ccy a\<rparr>)"
  by (auto simp: mulQty_def exn_simps divRoundHalfAway_Inr ONE_def)

lemma percent_Inr [exn_simps]:
  "percent a q = Inr r \<longleftrightarrow> (\<exists>v. nearest_away (micros a * micros q) (ONE * 100) v \<and> in_int64 v
     \<and> r = \<lparr>micros = v, ccy = ccy a\<rparr>)"
  by (auto simp: percent_def exn_simps divRoundHalfAway_Inr ONE_def)

lemma convertTo_Inr [exn_simps]:
  "convertTo a c rate = Inr r \<longleftrightarrow> (\<exists>v. nearest_away (micros a * rate) ONE v \<and> in_int64 v
     \<and> r = \<lparr>micros = v, ccy = c\<rparr>)"
  by (auto simp: convertTo_def exn_simps divRoundHalfAway_Inr ONE_def)

lemma kPow10_eq: "n \<le> 6 \<Longrightarrow> kPow10 n = 10 ^ n"
proof -
  assume "n \<le> 6"
  then have "n \<in> {0,1,2,3,4,5,6}" by auto
  then show ?thesis by (auto simp: kPow10_def)
qed

lemma nearest_away_multiple:
  assumes "den \<noteq> 0" shows "nearest_away (q * den) den r \<longleftrightarrow> r = q"
proof -
  have "nearest_away (q * den) den q" by (simp add: nearest_away_def)
  then have "divRoundHalfAway (q * den) den = Inr q" using assms divRoundHalfAway_Inr by simp
  then show ?thesis using assms divRoundHalfAway_Inr by (metis sum.inject(2))
qed

text \<open>The unit of the last kept decimal, and rounding as its nearest multiple.\<close>

definition rounding_unit :: "int \<Rightarrow> int" where
  "rounding_unit dp = (if dp \<ge> SCALE then 1 else 10 ^ nat (SCALE - max 0 dp))"

lemma rounding_unit_pos: "0 < rounding_unit dp"
  by (simp add: rounding_unit_def)

lemma roundTo_full: "SCALE \<le> dp \<Longrightarrow> roundTo a dp = Inr a"
  by (simp add: roundTo_def SCALE_def)

lemma roundTo_unit:
  assumes "dp < SCALE"
  shows "roundTo a dp = bindE (divRoundHalfAway (micros a) (rounding_unit dp)) (\<lambda>q.
    money_of (clampToInt64 (q * rounding_unit dp) ''rounded value'') (ccy a))"
proof -
  have dp: "(if dp < 0 then 0 else dp) = max 0 dp" and lt: "\<not> SCALE \<le> max 0 dp"
    using assms by (simp_all add: SCALE_def)
  have "nat (SCALE - max 0 dp) \<le> 6" by (simp add: SCALE_def)
  then have "kPow10 (nat (SCALE - max 0 dp)) = rounding_unit dp"
    using assms kPow10_eq by (simp add: rounding_unit_def)
  then show ?thesis unfolding roundTo_def Let_def dp using lt by simp
qed

lemma roundTo_Inr [exn_simps]:
  "dp < SCALE \<Longrightarrow> roundTo a dp = Inr r \<longleftrightarrow>
     (\<exists>q. nearest_away (micros a) (rounding_unit dp) q \<and> in_int64 (q * rounding_unit dp)
        \<and> r = \<lparr>micros = q * rounding_unit dp, ccy = ccy a\<rparr>)"
  using rounding_unit_pos [of dp] by (auto simp: roundTo_unit exn_simps divRoundHalfAway_Inr)

lemma roundTo_ccy: "roundTo a dp = Inr r \<Longrightarrow> ccy r = ccy a"
  by (cases "SCALE \<le> dp") (auto simp: roundTo_full roundTo_Inr)

lemma roundTo_in_int64: "roundTo a dp = Inr r \<Longrightarrow> in_int64 (micros a) \<Longrightarrow> in_int64 (micros r)"
  by (cases "SCALE \<le> dp") (auto simp: roundTo_full roundTo_Inr)

lemma roundTo_nearest:
  assumes "roundTo a dp = Inr r"
  shows "\<exists>q. micros r = q * rounding_unit dp \<and> nearest_away (micros a) (rounding_unit dp) q"
proof (cases "SCALE \<le> dp")
  case True
  with assms show ?thesis by (auto simp: roundTo_full rounding_unit_def nearest_away_def)
next
  case False
  with assms show ?thesis by (auto simp: roundTo_Inr)
qed

lemma roundTo_idem:
  assumes "roundTo a dp = Inr r"
  shows "roundTo r dp = Inr r"
proof (cases "SCALE \<le> dp")
  case True
  then show ?thesis by (simp add: roundTo_full)
next
  case False
  with assms rounding_unit_pos [of dp] show ?thesis
    by (auto simp: roundTo_Inr nearest_away_multiple)
qed

text \<open>An amount rounded to \<open>dp\<close> decimals is a multiple of the last kept decimal at most half of
  it away, keeps its currency, and rounding it again changes nothing.\<close>

theorem roundTo_sound:
  assumes "roundTo a dp = Inr r"
  shows "rounding_unit dp dvd micros r \<and> 2 * \<bar>micros a - micros r\<bar> \<le> rounding_unit dp
    \<and> ccy r = ccy a \<and> roundTo r dp = Inr r"
proof -
  obtain q where q: "micros r = q * rounding_unit dp"
    and n: "nearest_away (micros a) (rounding_unit dp) q"
    using roundTo_nearest [OF assms] by blast
  with roundTo_ccy [OF assms] roundTo_idem [OF assms] rounding_unit_pos [of dp]
  show ?thesis by (simp add: nearest_away_def)
qed

theorem roundTo_sound_witness:
  "\<exists>r. roundTo \<lparr>micros = -2345678, ccy = 3\<rparr> 2 = Inr r \<and> micros r = -2350000
    \<and> roundTo r 2 = Inr r"
proof -
  have h: "roundTo \<lparr>micros = -2345678, ccy = 3\<rparr> 2 = Inr \<lparr>micros = -2350000, ccy = 3\<rparr>"
    by code_simp
  show ?thesis using roundTo_sound [OF h] h by auto
qed

subsection \<open>Printing and parsing\<close>

lemma digits_val_ge: "\<forall>c \<in> set ds. isdigit c \<Longrightarrow> 0 \<le> w \<Longrightarrow> w \<le> digits_val w ds"
proof (induction ds arbitrary: w)
  case (Cons c ds)
  then have "0 \<le> digit_val c" using digit_val_bounds by auto
  moreover from Cons this have "w * 10 + digit_val c \<le> digits_val (w * 10 + digit_val c) ds" by auto
  ultimately show ?case using Cons.prems by simp
qed simp

lemma scan_whole_digits:
  assumes "\<forall>c \<in> set ds. isdigit c" and "0 \<le> w" and "digits_val w ds \<le> 9223372036854775790"
    and "rest = [] \<or> \<not> isdigit (hd rest)"
  shows "scan_whole w saw (ds @ rest) = Inr (digits_val w ds, saw \<or> ds \<noteq> [], rest)"
  using assms
proof (induction ds arbitrary: w saw)
  case Nil
  then show ?case by (cases rest) auto
next
  case (Cons c ds)
  have d: "0 \<le> digit_val c" using Cons.prems(1) digit_val_bounds by auto
  with Cons.prems have "w * 10 + digit_val c \<le> digits_val (w * 10 + digit_val c) ds"
    by (intro digits_val_ge) auto
  with Cons.prems(3) d have "w \<le> 922337203685477579" by simp
  with Cons d show ?case by (simp add: cdiv_nonneg INT64_MAX_def)
qed

lemma scan_frac_digits:
  "\<forall>c \<in> set ds. isdigit c \<Longrightarrow> d + int (length ds) \<le> SCALE
    \<Longrightarrow> scan_frac f d saw ds = (digits_val f ds, d + int (length ds), saw \<or> ds \<noteq> [], [])"
  by (induction ds arbitrary: f d saw) auto

lemma isdigit_not_special:
  "isdigit c \<Longrightarrow> \<not> isspace c \<and> c \<noteq> CHR ''-'' \<and> c \<noteq> CHR ''+'' \<and> c \<noteq> CHR ''.''"
  by (auto simp: isdigit_def isspace_def)

lemma trim_space_id:
  "s \<noteq> [] \<Longrightarrow> \<not> isspace (hd s) \<Longrightarrow> \<not> isspace (last s) \<Longrightarrow> trim_space s = s"
proof -
  assume s: "s \<noteq> []" "\<not> isspace (hd s)" "\<not> isspace (last s)"
  have id: "t \<noteq> [] \<Longrightarrow> \<not> isspace (hd t) \<Longrightarrow> dropWhile isspace t = t" for t by (cases t) auto
  from s have "dropWhile isspace (rev s) = rev s" by (intro id) (simp_all add: hd_rev)
  with s show ?thesis by (simp add: trim_space_def id)
qed

text \<open>The shape \<open>toString\<close> writes: a sign, the whole part, and the kept decimals.\<close>

lemma parse_money_decimal:
  assumes "\<forall>c \<in> set ws. isdigit c" and "ws \<noteq> []" and "\<forall>c \<in> set fs. isdigit c" and "length fs \<le> 6"
    and v: "digits_val 0 ws * ONE + digits_val 0 fs * 10 ^ (6 - length fs) = v" and "v \<le> INT64_MAX"
  shows "parse_money ((if neg then ''-'' else []) @ ws @ (if fs = [] then [] else CHR ''.'' # fs)) c
    = Inr \<lparr>micros = (if neg then - v else v), ccy = c\<rparr>"
proof -
  let ?rest = "if fs = [] then [] else CHR ''.'' # fs"
  let ?s = "(if neg then ''-'' else []) @ ws @ ?rest"
  obtain w ws' where ws: "ws = w # ws'" using assms(2) by (cases ws) auto
  have w: "isdigit w" using assms(1) ws by simp
  have "last ?s \<in> set ws \<union> set fs" using assms(2) by (cases fs) (auto simp: last_append)
  then have "\<not> isspace (last ?s)" using assms(1,3) isdigit_not_special by blast
  moreover have "\<not> isspace (hd ?s)"
    using isdigit_not_special [OF w] by (simp add: ws) (simp add: isspace_def)
  ultimately have trim: "trim_space ?s = ?s" by (intro trim_space_id) (simp_all add: ws)
  have fpos: "0 \<le> digits_val 0 fs" and wpos: "0 \<le> digits_val 0 ws"
    using digits_val_bounds assms(1,3) by auto
  then have "digits_val 0 ws * ONE \<le> v" using v by (smt (verit) mult_nonneg_nonneg zero_le_power)
  then have wb: "digits_val 0 ws \<le> 9223372036854775790"
    using assms(6) by (simp add: ONE_def INT64_MAX_def)
  have nd: "\<not> isdigit (CHR ''.'')" by (simp add: isdigit_def)
  have scan: "scan_whole 0 False (ws @ ?rest) = Inr (digits_val 0 ws, True, ?rest)"
    using scan_whole_digits [OF assms(1) _ wb, of ?rest False] assms(2) nd by simp
  have clamp: "clampToInt64 v w = Inr v" for w
    using assms(6) v fpos wpos
    by (auto simp: clampToInt64_Inr in_int64_def INT64_MIN_def ONE_def intro: order_trans [of _ 0])
  have kp: "kPow10 (nat (SCALE - int (length fs))) = 10 ^ (6 - length fs)"
  proof -
    have "nat (SCALE - int (length fs)) = 6 - length fs" by (simp add: SCALE_def)
    then show ?thesis by (simp add: kPow10_eq)
  qed
  have text1: "(if hd ?s = CHR ''+'' \<or> neg then tl ?s else ?s) = ws @ ?rest"
    and sign: "(hd ?s = CHR ''-'') = neg" and ne: "?s \<noteq> []" and ne': "ws @ ?rest \<noteq> []"
    using isdigit_not_special [OF w] by (simp_all add: ws)
  have frac: "fs \<noteq> [] \<Longrightarrow> scan_frac 0 0 True fs = (digits_val 0 fs, int (length fs), True, [])"
    using scan_frac_digits [OF assms(3), of 0 0 True] assms(4) by (simp add: SCALE_def)
  show ?thesis
    unfolding parse_money_def Let_def trim text1 sign if_not_P [OF ne] if_not_P [OF ne'] scan bindE_Inr
    using v frac clamp by (cases "fs = []") (simp_all add: kp)
qed

text \<open>C17: printing an amount at any precision and parsing the text back yields the amount rounded to
  that precision, for every \<open>int64_t\<close> except the one whose magnitude has no positive twin.\<close>

theorem toString_parse_roundtrip:
  assumes "roundTo a dp = Inr r" and "in_int64 (micros a)" and "micros r \<noteq> INT64_MIN"
  shows "\<exists>s. toString_money a dp = Inr s \<and> parse_money s c = Inr \<lparr>micros = micros r, ccy = c\<rparr>"
proof -
  define p where "p = (if dp < 0 then 0 else if dp > SCALE then SCALE else dp)"
  define mag where "mag = (if micros r < 0 then - micros r else micros r)"
  define ws where "ws = nat_to_string (nat (mag div ONE))"
  define f where "f = nat_to_string (nat (mag mod ONE))"
  define f6 where "f6 = replicate (6 - length f) (CHR ''0'') @ f"
  define fs where "fs = take (nat p) f6"
  have p: "0 \<le> p" "p \<le> 6" by (auto simp: p_def SCALE_def)
  have rp: "roundTo a p = Inr r"
  proof (cases "SCALE \<le> dp")
    case True
    then show ?thesis using assms(1) by (simp add: p_def roundTo_full)
  next
    case False
    then have "rounding_unit p = rounding_unit dp" "p < SCALE"
      by (auto simp: p_def rounding_unit_def SCALE_def)
    with False assms(1) show ?thesis by (simp add: roundTo_unit)
  qed
  have unit: "rounding_unit p = 10 ^ (6 - nat p)"
  proof -
    have "nat (6 - p) = 6 - nat p" using p by simp
    then show ?thesis using p by (auto simp: rounding_unit_def SCALE_def)
  qed
  have dvd: "10 ^ (6 - nat p) dvd mag"
    using roundTo_nearest [OF rp] by (auto simp: mag_def unit)
  have mag: "0 \<le> mag" "mag \<le> INT64_MAX"
    using roundTo_in_int64 [OF assms(1,2)] assms(3) by (auto simp: mag_def in_int64_def INT64_MAX_def INT64_MIN_def)
  have frac: "0 \<le> mag mod ONE" "mag mod ONE < 1000000" by (simp_all add: ONE_def)
  have lf: "length f \<le> 6"
    using frac by (auto simp: f_def intro!: length_nat_to_string)
  have f6: "length f6 = 6" "\<forall>c \<in> set f6. isdigit c" "digits_val 0 f6 = mag mod ONE"
    using lf frac nat_to_string_digits
    by (auto simp: f6_def f_def digits_val_zeros digits_val_nat_to_string isdigit_def)
  have fs: "\<forall>c \<in> set fs. isdigit c" "length fs = nat p"
    using f6 p by (auto simp: fs_def dest: in_set_takeD)
  let ?k = "6 - nat p"
  have "f6 = fs @ drop (nat p) f6" by (simp add: fs_def)
  then have split: "mag mod ONE = digits_val 0 fs * 10 ^ ?k + digits_val 0 (drop (nat p) f6)"
    using f6 digits_val_shift [of "digits_val 0 fs" "drop (nat p) f6"]
    by (metis digits_val_append length_drop)
  have low: "0 \<le> digits_val 0 (drop (nat p) f6)" "digits_val 0 (drop (nat p) f6) < 10 ^ ?k"
    using digits_val_bounds [of "drop (nat p) f6"] f6 by (auto dest: in_set_dropD)
  have "(10::int) ^ ?k dvd ONE"
    using le_imp_power_dvd [of ?k 6 "10::int"] by (simp add: ONE_def)
  with dvd have "10 ^ ?k dvd mag mod ONE" by (simp add: dvd_mod)
  then have "10 ^ ?k dvd digits_val 0 (drop (nat p) f6)" using split by (simp add: dvd_add_right_iff)
  with low have "digits_val 0 (drop (nat p) f6) = 0"
    by (metis dvd_imp_mod_0 mod_pos_pos_trivial)
  with split have v: "digits_val 0 ws * ONE + digits_val 0 fs * 10 ^ (6 - length fs) = mag"
  proof -
    have "0 \<le> mag div ONE" using mag by (simp add: ONE_def pos_imp_zdiv_nonneg_iff)
    then have "digits_val 0 ws = mag div ONE" by (simp add: ws_def digits_val_nat_to_string)
    moreover have "mag div ONE * ONE + mag mod ONE = mag" by (rule div_mult_mod_eq)
    ultimately show ?thesis using split \<open>digits_val 0 (drop (nat p) f6) = 0\<close> fs by simp
  qed
  have ws: "\<forall>c \<in> set ws. isdigit c" "ws \<noteq> []" by (simp_all add: ws_def nat_to_string_digits)
  have "toString_money a dp = Inr ((if micros r < 0 then ''-'' else []) @ ws
      @ (if p > 0 then CHR ''.'' # fs else []))"
    unfolding toString_money_def Let_def p_def [symmetric] rp bindE_Inr
    by (simp add: ws_def fs_def f6_def f_def mag_def SCALE_def)
  moreover have "(if p > 0 then CHR ''.'' # fs else []) = (if fs = [] then [] else CHR ''.'' # fs)"
    using fs p by auto
  moreover have "parse_money ((if micros r < 0 then ''-'' else []) @ ws
      @ (if fs = [] then [] else CHR ''.'' # fs)) c = Inr \<lparr>micros = micros r, ccy = c\<rparr>"
    using parse_money_decimal [OF ws fs(1) _ v mag(2), of "micros r < 0" c] fs p by (simp add: mag_def)
  ultimately show ?thesis by simp
qed

theorem toString_parse_roundtrip_witness:
  "\<exists>s. toString_money \<lparr>micros = -164517500, ccy = 1\<rparr> 2 = Inr s
    \<and> parse_money s 1 = Inr \<lparr>micros = -164520000, ccy = 1\<rparr>"
proof -
  have h: "roundTo \<lparr>micros = -164517500, ccy = 1\<rparr> 2 = Inr \<lparr>micros = -164520000, ccy = 1\<rparr>"
    by code_simp
  show ?thesis
    using toString_parse_roundtrip [OF h, of 1] by (simp add: in_int64_def INT64_MIN_def INT64_MAX_def)
qed

subsection \<open>When the operations return\<close>

lemma divRound_returns:
  assumes "den \<noteq> 0"
  shows "\<exists>q. divRoundHalfAway num den = Inr q \<and> 2 * \<bar>num - q * den\<bar> \<le> \<bar>den\<bar>"
proof -
  obtain q where "divRoundHalfAway num den = Inr q" using assms by (auto simp: divRoundHalfAway_def Let_def)
  then show ?thesis using divRoundHalfAway_Inr [of num den q] by (auto simp: nearest_away_def)
qed

lemma abs_div_bound:
  fixes num q den B :: int
  assumes "2 * \<bar>num - q * den\<bar> \<le> den" and "\<bar>num\<bar> \<le> B * den" and "0 < den"
  shows "\<bar>q\<bar> \<le> B"
proof -
  have "\<bar>q * den\<bar> \<le> \<bar>num\<bar> + \<bar>num - q * den\<bar>" by arith
  with assms have "2 * (\<bar>q\<bar> * den) \<le> 2 * (B * den) + den" by (simp add: abs_mult)
  then have "2 * (\<bar>q\<bar> * den) < (2 * B + 2) * den" using assms(3) by (simp add: algebra_simps)
  then have "(2 * \<bar>q\<bar>) * den < (2 * B + 2) * den" by simp
  then have "2 * \<bar>q\<bar> < 2 * B + 2" using assms(3) mult_less_cancel_right_pos by blast
  then show ?thesis by simp
qed

lemma in_int64I: "\<bar>v\<bar> \<le> 9000000000000000000 \<Longrightarrow> in_int64 v"
  by (auto simp: in_int64_def INT64_MIN_def INT64_MAX_def)

lemma mulQty_returns:
  assumes "\<bar>micros a * micros q\<bar> \<le> B * ONE" and "B \<le> 9000000000000000000"
  shows "\<exists>r. mulQty a q = Inr r \<and> \<bar>micros r\<bar> \<le> B \<and> ccy r = ccy a"
proof -
  obtain v where v: "divRoundHalfAway (micros a * micros q) ONE = Inr v"
    "2 * \<bar>micros a * micros q - v * ONE\<bar> \<le> ONE"
    using divRound_returns [of ONE "micros a * micros q"] by (auto simp: ONE_def)
  have "\<bar>v\<bar> \<le> B" using abs_div_bound [OF v(2) assms(1)] by (simp add: ONE_def)
  with v assms(2) in_int64I [of v] show ?thesis by (simp add: mulQty_def money_of_def)
qed

lemma percent_returns:
  assumes "\<bar>micros a * micros q\<bar> \<le> B * (ONE * 100)" and "B \<le> 9000000000000000000"
  shows "\<exists>r. percent a q = Inr r \<and> \<bar>micros r\<bar> \<le> B \<and> ccy r = ccy a"
proof -
  obtain v where v: "divRoundHalfAway (micros a * micros q) (ONE * 100) = Inr v"
    "2 * \<bar>micros a * micros q - v * (ONE * 100)\<bar> \<le> ONE * 100"
    using divRound_returns [of "ONE * 100" "micros a * micros q"] by (auto simp: ONE_def)
  have "\<bar>v\<bar> \<le> B" using abs_div_bound [OF v(2) assms(1)] by (simp add: ONE_def)
  with v assms(2) in_int64I [of v] show ?thesis by (simp add: percent_def money_of_def)
qed

lemma money_add_returns:
  assumes "ccy a = ccy b" and "\<bar>micros a\<bar> + \<bar>micros b\<bar> \<le> 9000000000000000000"
  shows "money_add a b = Inr \<lparr>micros = micros a + micros b, ccy = ccy a\<rparr>"
  using assms in_int64I [of "micros a + micros b"] by (auto simp: money_add_Inr)

lemma money_sub_returns:
  assumes "ccy a = ccy b" and "\<bar>micros a\<bar> + \<bar>micros b\<bar> \<le> 9000000000000000000"
  shows "money_sub a b = Inr \<lparr>micros = micros a - micros b, ccy = ccy a\<rparr>"
  using assms in_int64I [of "micros a - micros b"] by (auto simp: money_sub_Inr)

lemma rounding_unit_le: "rounding_unit dp \<le> 1000000"
proof -
  have "(10::int) ^ nat (SCALE - max 0 dp) \<le> 10 ^ 6"
    by (rule power_increasing) (simp_all add: SCALE_def)
  then show ?thesis by (simp add: rounding_unit_def)
qed

lemma roundTo_returns:
  assumes "\<bar>micros a\<bar> \<le> 8000000000000000000"
  shows "\<exists>r. roundTo a dp = Inr r \<and> \<bar>micros r\<bar> \<le> \<bar>micros a\<bar> + 500000 \<and> ccy r = ccy a"
proof (cases "SCALE \<le> dp")
  case True
  then show ?thesis by (simp add: roundTo_full)
next
  case False
  let ?u = "rounding_unit dp"
  obtain q where q: "divRoundHalfAway (micros a) ?u = Inr q" "2 * \<bar>micros a - q * ?u\<bar> \<le> \<bar>?u\<bar>"
    using divRound_returns [of ?u "micros a"] rounding_unit_pos [of dp] by auto
  define x where "x = q * ?u"
  have "2 * \<bar>micros a - x\<bar> \<le> 1000000"
    using q(2) rounding_unit_le [of dp] rounding_unit_pos [of dp] by (simp add: x_def)
  then have x: "\<bar>x\<bar> \<le> \<bar>micros a\<bar> + 500000" by arith
  with assms have "in_int64 x" by (intro in_int64I) arith
  then have "roundTo a dp = Inr \<lparr>micros = x, ccy = ccy a\<rparr>"
    using False q(1) by (auto simp: roundTo_unit exn_simps x_def)
  with x show ?thesis by simp
qed

end
