(* ===== verification/TaxEngine.thy ===== *)
theory TaxEngine
  imports Money
begin

section \<open>Tax computation: core/TaxEngine.hpp and core/TaxEngine.cpp\<close>

text \<open>
  \<open>TaxEngine::compute\<close> in the order the code has it: the gross line amount, the split of the
  taxes into inclusive and exclusive, the inclusive tax backed out of the gross and shared over its
  taxes, the exclusive taxes, the totals. Each phase is one definition; \<open>compute\<close> composes them.
\<close>

record taxdef =
  td_id :: int
  td_name :: string
  td_rate :: money
  td_amountType :: string
  td_priceInclude :: bool
  td_sequence :: int

record taxcomponent =
  tc_taxId :: int
  tc_name :: string
  tc_base :: money
  tc_amount :: money

record taxcomputation =
  baseExcluded :: money
  totalTax :: money
  totalIncluded :: money
  components :: "taxcomponent list"

text \<open>The lambda \<open>M\<close>: an \<open>__int128\<close> narrowed by \<open>static_cast\<close>, in the line's currency.\<close>

definition tax_M :: "int \<Rightarrow> int \<Rightarrow> money" where
  "tax_M c v = fromMicros (wrap64 v) c"

definition line_gross :: "money \<Rightarrow> money \<Rightarrow> money \<Rightarrow> int \<Rightarrow> money result" where
  "line_gross priceUnit quantity discountPct dp =
     bindE (mulQty priceUnit quantity) (\<lambda>g0.
     bindE (if \<not> isZero discountPct then bindE (percent g0 discountPct) (money_sub g0) else Inr g0)
       (\<lambda>g1. roundTo g1 dp))"

text \<open>The classification loop: inclusive taxes, exclusive taxes, the inclusive rate and fixed sums.\<close>

record taxsplit =
  ts_included :: "taxdef list"
  ts_excluded :: "taxdef list"
  ts_rateSum :: money
  ts_fixed :: money

definition classify_tax :: "int \<Rightarrow> money \<Rightarrow> taxdef \<Rightarrow> taxsplit \<Rightarrow> taxsplit result" where
  "classify_tax c quantity t s =
     (if td_priceInclude t
      then let s' = s\<lparr>ts_included := ts_included s @ [t]\<rparr> in
        if td_amountType t = ''percent''
        then bindE (money_add (ts_rateSum s') (td_rate t)) (\<lambda>m. Inr (s'\<lparr>ts_rateSum := m\<rparr>))
        else bindE (mulQty (td_rate t) quantity) (\<lambda>f.
             bindE (money_add (ts_fixed s') (tax_M c (micros f))) (\<lambda>m. Inr (s'\<lparr>ts_fixed := m\<rparr>)))
      else Inr (s\<lparr>ts_excluded := ts_excluded s @ [t]\<rparr>))"

definition classify :: "int \<Rightarrow> money \<Rightarrow> taxdef list \<Rightarrow> taxsplit result" where
  "classify c quantity taxes = foldE (classify_tax c quantity) taxes
     \<lparr>ts_included = [], ts_excluded = [], ts_rateSum = zero_money 0, ts_fixed = zero_money c\<rparr>"

text \<open>Backing the inclusive tax out of the gross; the tax is derived by subtraction.\<close>

definition back_out :: "int \<Rightarrow> money \<Rightarrow> taxsplit \<Rightarrow> int \<Rightarrow> (money \<times> money) result" where
  "back_out c gross s dp =
     (if ts_included s = [] then Inr (gross, zero_money c)
      else bindE (money_sub gross (ts_fixed s)) (\<lambda>grossForPct.
        bindE (if \<not> isZero (ts_rateSum s)
               then bindE (parse_money ''100'' 0) (\<lambda>hundred.
                    bindE (money_add hundred (ts_rateSum s)) (\<lambda>divisor.
                    bindE (mulQty grossForPct hundred) (\<lambda>numerator.
                    if micros divisor = 0 then Inl (Undefined ''division by zero'')
                    else roundTo (tax_M c (cdiv (micros numerator * ONE) (micros divisor))) dp)))
               else Inr grossForPct) (\<lambda>base.
        bindE (money_sub gross base) (\<lambda>includedTaxTotal. Inr (base, includedTaxTotal)))))"

text \<open>The inclusive tax shared over its taxes; the last one takes the remainder.\<close>

definition included_share ::
  "int \<Rightarrow> money \<Rightarrow> int \<Rightarrow> taxsplit \<Rightarrow> money \<Rightarrow> bool \<Rightarrow> taxdef \<Rightarrow> money \<Rightarrow> money result" where
  "included_share c quantity dp s includedTaxTotal is_last t allocated =
     (if is_last then money_sub includedTaxTotal allocated
      else if td_amountType t = ''fixed''
      then bindE (mulQty (td_rate t) quantity) (\<lambda>f. roundTo (tax_M c (micros f)) dp)
      else if \<not> isZero (ts_rateSum s)
      then roundTo (tax_M c (cdiv (micros includedTaxTotal * micros (td_rate t)) (micros (ts_rateSum s)))) dp
      else Inr (zero_money c))"

fun distribute ::
  "int \<Rightarrow> money \<Rightarrow> int \<Rightarrow> taxsplit \<Rightarrow> money \<Rightarrow> money \<Rightarrow> taxdef list \<Rightarrow> money
    \<Rightarrow> taxcomponent list result" where
  "distribute c quantity dp s base incTotal [] allocated = Inr []"
| "distribute c quantity dp s base incTotal (t # ts) allocated =
     bindE (included_share c quantity dp s incTotal (ts = []) t allocated) (\<lambda>share.
     bindE (money_add allocated share) (\<lambda>allocated'.
     bindE (distribute c quantity dp s base incTotal ts allocated') (\<lambda>comps.
       Inr (\<lparr>tc_taxId = td_id t, tc_name = td_name t, tc_base = base, tc_amount = share\<rparr> # comps))))"

definition excluded_amount :: "int \<Rightarrow> money \<Rightarrow> int \<Rightarrow> money \<Rightarrow> taxdef \<Rightarrow> money result" where
  "excluded_amount c quantity dp base t =
     bindE (if td_amountType t = ''fixed''
            then bindE (mulQty (td_rate t) quantity) (\<lambda>f. Inr (tax_M c (micros f)))
            else percent base (td_rate t)) (\<lambda>amt. roundTo amt dp)"

fun exclusive :: "int \<Rightarrow> money \<Rightarrow> int \<Rightarrow> money \<Rightarrow> taxdef list \<Rightarrow> taxcomponent list result" where
  "exclusive c quantity dp base [] = Inr []"
| "exclusive c quantity dp base (t # ts) =
     bindE (excluded_amount c quantity dp base t) (\<lambda>amt.
     bindE (exclusive c quantity dp base ts) (\<lambda>comps.
       Inr (\<lparr>tc_taxId = td_id t, tc_name = td_name t, tc_base = base, tc_amount = amt\<rparr> # comps)))"

definition finish_totals :: "int \<Rightarrow> money \<Rightarrow> taxcomponent list \<Rightarrow> taxcomputation result" where
  "finish_totals c base comps =
     bindE (foldE (\<lambda>x acc. money_add acc (tc_amount x)) comps (zero_money c)) (\<lambda>tax.
     bindE (money_add base tax) (\<lambda>tot.
       Inr \<lparr>baseExcluded = base, totalTax = tax, totalIncluded = tot, components = comps\<rparr>))"

definition compute_tax :: "money \<Rightarrow> money \<Rightarrow> money \<Rightarrow> taxdef list \<Rightarrow> int \<Rightarrow> taxcomputation result" where
  "compute_tax priceUnit quantity discountPct taxesIn dp =
     (let c = ccy priceUnit in
      bindE (line_gross priceUnit quantity discountPct dp) (\<lambda>gross.
      if taxesIn = []
      then Inr \<lparr>baseExcluded = gross, totalTax = zero_money c, totalIncluded = gross, components = []\<rparr>
      else bindE (classify c quantity (sort_key td_sequence taxesIn)) (\<lambda>s.
        bindE (back_out c gross s dp) (\<lambda>(base, includedTaxTotal).
        bindE (distribute c quantity dp s base includedTaxTotal (ts_included s) (zero_money c)) (\<lambda>inc.
        bindE (exclusive c quantity dp base (ts_excluded s)) (\<lambda>exc.
          finish_totals c base (inc @ exc)))))))"

subsection \<open>The phases\<close>

lemma foldE_classify_lists:
  "foldE (classify_tax c q) ts s = Inr s' \<Longrightarrow>
    ts_included s' = ts_included s @ filter td_priceInclude ts
    \<and> ts_excluded s' = ts_excluded s @ filter (\<lambda>t. \<not> td_priceInclude t) ts"
proof (induction ts arbitrary: s)
  case Nil
  then show ?case by simp
next
  case (Cons t ts)
  then obtain u where u: "classify_tax c q t s = Inr u" and r: "foldE (classify_tax c q) ts u = Inr s'"
    by (auto simp: exn_simps)
  from u have "ts_included u = (if td_priceInclude t then ts_included s @ [t] else ts_included s)
      \<and> ts_excluded u = (if td_priceInclude t then ts_excluded s else ts_excluded s @ [t])"
    by (auto simp: classify_tax_def Let_def exn_simps split: if_splits)
  with Cons.IH [OF r] show ?case by auto
qed

lemma classify_lists:
  "classify c q ts = Inr s \<Longrightarrow>
    ts_included s = filter td_priceInclude ts \<and> ts_excluded s = filter (\<lambda>t. \<not> td_priceInclude t) ts"
  unfolding classify_def by (drule foldE_classify_lists) simp

lemma back_out_sum:
  "back_out c gross s dp = Inr (base, tot) \<Longrightarrow> micros base + micros tot = micros gross"
  by (auto simp: back_out_def exn_simps split: if_splits)

lemma distribute_sum:
  "distribute c q dp s base tot ts al = Inr comps \<Longrightarrow> ts \<noteq> [] \<Longrightarrow>
    sum_list (map (\<lambda>x. micros (tc_amount x)) comps) = micros tot - micros al"
proof (induction ts arbitrary: al comps)
  case Nil
  then show ?case by simp
next
  case (Cons t ts)
  from Cons.prems(1) obtain sh al' cs
    where sh: "included_share c q dp s tot (ts = []) t al = Inr sh"
      and al': "money_add al sh = Inr al'"
      and cs: "distribute c q dp s base tot ts al' = Inr cs"
      and comps: "comps = \<lparr>tc_taxId = td_id t, tc_name = td_name t, tc_base = base, tc_amount = sh\<rparr> # cs"
    by (auto simp: exn_simps)
  show ?case
  proof (cases "ts = []")
    case True
    with sh cs comps show ?thesis by (auto simp: included_share_def exn_simps)
  next
    case False
    with Cons.IH [OF cs] al' comps show ?thesis by (auto simp: exn_simps)
  qed
qed

lemma finish_totals_sound:
  assumes "finish_totals c base comps = Inr r"
  shows "micros (totalTax r) = sum_list (map (\<lambda>x. micros (tc_amount x)) comps)
    \<and> micros (totalIncluded r) = micros (baseExcluded r) + micros (totalTax r)
    \<and> baseExcluded r = base \<and> components r = comps \<and> ccy (totalTax r) = c
    \<and> ccy (totalIncluded r) = ccy base \<and> ccy base = c"
proof -
  obtain tax tot where tax: "foldE (\<lambda>x acc. money_add acc (tc_amount x)) comps (zero_money c) = Inr tax"
    and tot: "money_add base tax = Inr tot"
    and r: "r = \<lparr>baseExcluded = base, totalTax = tax, totalIncluded = tot, components = comps\<rparr>"
    using assms by (auto simp: finish_totals_def exn_simps)
  from money_amount.total_exact [OF tax] money_amount.total_cur [OF tax] tot r
  show ?thesis by (auto simp: exn_simps)
qed

lemma compute_tax_phases:
  assumes "compute_tax pu q d ts dp = Inr r" and "ts \<noteq> []"
  obtains gross s base tot inc exc
  where "line_gross pu q d dp = Inr gross"
    and "classify (ccy pu) q (sort_key td_sequence ts) = Inr s"
    and "back_out (ccy pu) gross s dp = Inr (base, tot)"
    and "distribute (ccy pu) q dp s base tot (ts_included s) (zero_money (ccy pu)) = Inr inc"
    and "exclusive (ccy pu) q dp base (ts_excluded s) = Inr exc"
    and "finish_totals (ccy pu) base (inc @ exc) = Inr r"
  using assms by (fastforce simp: compute_tax_def Let_def exn_simps)

subsection \<open>Properties of a computed line\<close>

lemma distribute_each:
  "distribute c q dp s base tot ts al = Inr comps \<Longrightarrow>
    map (\<lambda>x. (tc_taxId x, tc_name x)) comps = map (\<lambda>t. (td_id t, td_name t)) ts \<and> list_all (\<lambda>x. tc_base x = base) comps"
  by (induction ts arbitrary: al comps) (auto simp: exn_simps)

lemma exclusive_each:
  "exclusive c q dp base ts = Inr comps \<Longrightarrow>
    map (\<lambda>x. (tc_taxId x, tc_name x)) comps = map (\<lambda>t. (td_id t, td_name t)) ts \<and> list_all (\<lambda>x. tc_base x = base) comps
    \<and> list_all2 (\<lambda>t x. bindE (if td_amountType t = ''fixed'' then bindE (mulQty (td_rate t) q) (\<lambda>f. Inr (tax_M c (micros f)))
          else percent base (td_rate t)) (\<lambda>a. roundTo a dp) = Inr (tc_amount x)) ts comps"
  by (induction ts arbitrary: comps) (auto simp: exn_simps excluded_amount_def)

text \<open>C1: a computed line has one component for each of its taxes and no other: the inclusive taxes first,
  then the exclusive ones, each group in the order of its sequence numbers, all on the same base. An
  exclusive tax costs its rounded percentage of that base, or its rounded fixed amount per unit; the
  inclusive taxes and the base together are the rounded gross amount of the line; the tax is the sum
  of the components, and base and tax add up to the total, all in the currency of the unit price.\<close>

theorem compute_tax_foots:
  assumes "compute_tax pu q d ts dp = Inr r"
  shows "\<exists>inc exc gross. components r = inc @ exc \<and> line_gross pu q d dp = Inr gross
    \<and> map (\<lambda>x. (tc_taxId x, tc_name x)) inc
        = map (\<lambda>t. (td_id t, td_name t)) (filter td_priceInclude (sort_key td_sequence ts))
    \<and> map (\<lambda>x. (tc_taxId x, tc_name x)) exc
        = map (\<lambda>t. (td_id t, td_name t)) (filter (\<lambda>t. \<not> td_priceInclude t) (sort_key td_sequence ts))
    \<and> list_all (\<lambda>x. tc_base x = baseExcluded r) (inc @ exc)
    \<and> list_all2 (\<lambda>t x. bindE (if td_amountType t = ''fixed''
            then bindE (mulQty (td_rate t) q) (\<lambda>f. Inr (tax_M (ccy pu) (micros f)))
            else percent (baseExcluded r) (td_rate t)) (\<lambda>a. roundTo a dp) = Inr (tc_amount x))
        (filter (\<lambda>t. \<not> td_priceInclude t) (sort_key td_sequence ts)) exc
    \<and> micros (baseExcluded r) + sum_list (map (\<lambda>x. micros (tc_amount x)) inc) = micros gross
    \<and> micros (totalTax r) = sum_list (map (\<lambda>x. micros (tc_amount x)) (inc @ exc))
    \<and> micros (baseExcluded r) + micros (totalTax r) = micros (totalIncluded r)
    \<and> ccy (baseExcluded r) = ccy pu \<and> ccy (totalTax r) = ccy pu \<and> ccy (totalIncluded r) = ccy pu"
proof (cases "ts = []")
  case True
  with assms obtain gross where g: "line_gross pu q d dp = Inr gross"
    and r: "r = \<lparr>baseExcluded = gross, totalTax = zero_money (ccy pu), totalIncluded = gross, components = []\<rparr>"
    by (auto simp: compute_tax_def Let_def exn_simps)
  from g have "ccy gross = ccy pu"
    by (auto simp: line_gross_def exn_simps mulQty_Inr dest!: roundTo_ccy split: if_splits)
  with g r True show ?thesis by simp
next
  case False
  obtain gross s base tot inc exc
    where g: "line_gross pu q d dp = Inr gross"
      and s: "classify (ccy pu) q (sort_key td_sequence ts) = Inr s"
      and b: "back_out (ccy pu) gross s dp = Inr (base, tot)"
      and inc: "distribute (ccy pu) q dp s base tot (ts_included s) (zero_money (ccy pu)) = Inr inc"
      and exc: "exclusive (ccy pu) q dp base (ts_excluded s) = Inr exc"
      and f: "finish_totals (ccy pu) base (inc @ exc) = Inr r"
    by (rule compute_tax_phases [OF assms False])
  have "micros base + sum_list (map (\<lambda>x. micros (tc_amount x)) inc) = micros gross"
  proof (cases "ts_included s = []")
    case True
    with inc b show ?thesis by (simp add: back_out_def)
  next
    case False
    from distribute_sum [OF inc False] back_out_sum [OF b] show ?thesis by simp
  qed
  moreover have e: "base = baseExcluded r" using finish_totals_sound [OF f] by simp
  ultimately have sum: "micros (baseExcluded r) + sum_list (map (\<lambda>x. micros (tc_amount x)) inc) = micros gross" by simp
  show ?thesis
    using g sum classify_lists [OF s] distribute_each [OF inc [unfolded e]] exclusive_each [OF exc [unfolded e]]
      finish_totals_sound [OF f [unfolded e]]
    by - (rule exI [where x = inc], rule exI [where x = exc], rule exI [where x = gross], simp)
qed

theorem compute_tax_foots_witness:
  "\<exists>r. compute_tax \<lparr>micros = 108000000, ccy = 2\<rparr> \<lparr>micros = 3000000, ccy = 0\<rparr> (zero_money 0)
     [\<lparr>td_id = 1, td_name = ''VAT'', td_rate = \<lparr>micros = 8000000, ccy = 0\<rparr>, td_amountType = ''percent'',
       td_priceInclude = False, td_sequence = 1\<rparr>] 2 = Inr r
   \<and> micros (totalTax r) = 25920000
   \<and> micros (baseExcluded r) + micros (totalTax r) = micros (totalIncluded r)"
proof -
  let ?t = "\<lparr>td_id = 1, td_name = ''VAT'', td_rate = \<lparr>micros = 8000000, ccy = 0\<rparr>,
    td_amountType = ''percent'', td_priceInclude = False, td_sequence = 1\<rparr>"
  let ?b = "\<lparr>micros = 324000000, ccy = 2\<rparr>"
  have h: "compute_tax \<lparr>micros = 108000000, ccy = 2\<rparr> \<lparr>micros = 3000000, ccy = 0\<rparr> (zero_money 0) [?t] 2
     = Inr \<lparr>baseExcluded = ?b, totalTax = \<lparr>micros = 25920000, ccy = 2\<rparr>,
            totalIncluded = \<lparr>micros = 349920000, ccy = 2\<rparr>,
            components = [\<lparr>tc_taxId = 1, tc_name = ''VAT'', tc_base = ?b,
              tc_amount = \<lparr>micros = 25920000, ccy = 2\<rparr>\<rparr>]\<rparr>"
    by code_simp
  show ?thesis using compute_tax_foots [OF h] h by auto
qed

text \<open>C2: when every tax on the line is price-inclusive, the total the engine returns is exactly the
  rounded gross amount the customer was quoted, and its components sum to the gross less the base.\<close>

theorem compute_tax_inclusive_preserves_gross:
  assumes "compute_tax pu q d ts dp = Inr r" and "\<forall>t \<in> set ts. td_priceInclude t"
  shows "\<exists>gross. line_gross pu q d dp = Inr gross \<and> micros (totalIncluded r) = micros gross
    \<and> sum_list (map (\<lambda>x. micros (tc_amount x)) (components r)) = micros gross - micros (baseExcluded r)"
proof (cases "ts = []")
  case True
  with assms show ?thesis by (auto simp: compute_tax_def Let_def exn_simps)
next
  case False
  then obtain gross s base tot inc exc
    where g: "line_gross pu q d dp = Inr gross"
      and s: "classify (ccy pu) q (sort_key td_sequence ts) = Inr s"
      and b: "back_out (ccy pu) gross s dp = Inr (base, tot)"
      and inc: "distribute (ccy pu) q dp s base tot (ts_included s) (zero_money (ccy pu)) = Inr inc"
      and exc: "exclusive (ccy pu) q dp base (ts_excluded s) = Inr exc"
      and f: "finish_totals (ccy pu) base (inc @ exc) = Inr r"
    by (rule compute_tax_phases [OF assms(1)])
  have all: "filter td_priceInclude (sort_key td_sequence ts) = sort_key td_sequence ts"
    "filter (\<lambda>t. \<not> td_priceInclude t) (sort_key td_sequence ts) = []"
    using assms(2) by (auto simp: filter_id_conv filter_empty_conv)
  have ne: "sort_key td_sequence ts \<noteq> []"
    using False by (metis length_0_conv length_sort)
  from classify_lists [OF s] all ne have i: "ts_included s \<noteq> []" and e: "ts_excluded s = []"
    by simp_all
  from distribute_sum [OF inc i] back_out_sum [OF b] exc e finish_totals_sound [OF f] g
  show ?thesis by auto
qed

theorem compute_tax_inclusive_preserves_gross_witness:
  "\<exists>r. compute_tax \<lparr>micros = 99990000, ccy = 1\<rparr> \<lparr>micros = 1000000, ccy = 0\<rparr> (zero_money 0)
     [\<lparr>td_id = 1, td_name = ''SST'', td_rate = \<lparr>micros = 8000000, ccy = 0\<rparr>, td_amountType = ''percent'',
       td_priceInclude = True, td_sequence = 1\<rparr>] 2 = Inr r
   \<and> micros (baseExcluded r) = 92580000 \<and> micros (totalIncluded r) = 99990000"
proof -
  let ?t = "\<lparr>td_id = 1, td_name = ''SST'', td_rate = \<lparr>micros = 8000000, ccy = 0\<rparr>,
    td_amountType = ''percent'', td_priceInclude = True, td_sequence = 1\<rparr>"
  let ?b = "\<lparr>micros = 92580000, ccy = 1\<rparr>"
  have h: "compute_tax \<lparr>micros = 99990000, ccy = 1\<rparr> \<lparr>micros = 1000000, ccy = 0\<rparr> (zero_money 0) [?t] 2
     = Inr \<lparr>baseExcluded = ?b, totalTax = \<lparr>micros = 7410000, ccy = 1\<rparr>,
            totalIncluded = \<lparr>micros = 99990000, ccy = 1\<rparr>,
            components = [\<lparr>tc_taxId = 1, tc_name = ''SST'', tc_base = ?b,
              tc_amount = \<lparr>micros = 7410000, ccy = 1\<rparr>\<rparr>]\<rparr>"
    by code_simp
  have g: "line_gross \<lparr>micros = 99990000, ccy = 1\<rparr> \<lparr>micros = 1000000, ccy = 0\<rparr> (zero_money 0) 2
     = Inr \<lparr>micros = 99990000, ccy = 1\<rparr>"
    by code_simp
  show ?thesis using compute_tax_inclusive_preserves_gross [OF h] g h by auto
qed

subsection \<open>The engine returns on ordinary lines\<close>

text \<open>A percentage tax with a dimensionless rate between 0 and 1000 per cent, or a fixed amount per unit
  that comes to at most 10 million on the line.\<close>

definition plain_percent :: "taxdef \<Rightarrow> bool" where
  "plain_percent t \<longleftrightarrow> td_amountType t = ''percent'' \<and> ccy (td_rate t) = 0
     \<and> 0 \<le> micros (td_rate t) \<and> micros (td_rate t) \<le> 1000000000"

definition plain_tax :: "money \<Rightarrow> taxdef \<Rightarrow> bool" where
  "plain_tax q t \<longleftrightarrow> plain_percent t \<or> td_amountType t = ''fixed'' \<and> \<bar>micros (td_rate t) * micros q\<bar> \<le> 10000000000000 * ONE"

lemma tax_M_small: "\<bar>v\<bar> \<le> 9000000000000000000 \<Longrightarrow> tax_M c v = \<lparr>micros = v, ccy = c\<rparr>"
  by (simp add: tax_M_def fromMicros_def wrap64_id in_int64I)

lemma fixed_returns:
  assumes "\<bar>micros (td_rate t) * micros q\<bar> \<le> 10000000000000 * ONE"
  shows "\<exists>f. mulQty (td_rate t) q = Inr f \<and> tax_M c (micros f) = \<lparr>micros = micros f, ccy = c\<rparr> \<and> \<bar>micros f\<bar> \<le> 10000000000000"
proof -
  obtain f where "mulQty (td_rate t) q = Inr f" "\<bar>micros f\<bar> \<le> 10000000000000"
    using mulQty_returns [OF assms] by auto
  then show ?thesis by (auto simp: tax_M_small)
qed

lemma line_gross_returns:
  assumes "\<bar>micros pu * micros q\<bar> \<le> 400000000000000 * ONE"
    and "0 \<le> micros d" and "micros d \<le> 100000000"
  shows "\<exists>g. line_gross pu q d dp = Inr g \<and> \<bar>micros g\<bar> \<le> 1000000000000000 \<and> ccy g = ccy pu"
proof -
  obtain g0 where g0: "mulQty pu q = Inr g0" "\<bar>micros g0\<bar> \<le> 400000000000000" "ccy g0 = ccy pu"
    using mulQty_returns [OF assms(1)] by auto
  have "\<bar>micros g0 * micros d\<bar> \<le> 400000000000000 * (ONE * 100)"
    using g0(2) assms(2,3) mult_mono [of "\<bar>micros g0\<bar>" 400000000000000 "micros d" 100000000]
    by (simp add: abs_mult ONE_def)
  then obtain p where p: "percent g0 d = Inr p" "\<bar>micros p\<bar> \<le> 400000000000000" "ccy p = ccy g0"
    using percent_returns [of g0 d] by fastforce
  obtain g1 where g1: "(if \<not> isZero d then bindE (percent g0 d) (money_sub g0) else Inr g0) = Inr g1"
    "\<bar>micros g1\<bar> \<le> 800000000000000" "ccy g1 = ccy pu"
    using money_sub_returns [of g0 p] p g0 by (cases "isZero d") auto
  then obtain g where "roundTo g1 dp = Inr g" "\<bar>micros g\<bar> \<le> \<bar>micros g1\<bar> + 500000" "ccy g = ccy g1"
    using roundTo_returns [of g1 dp] by auto
  with g0(1) g1 show ?thesis by (simp add: line_gross_def)
qed

lemma classify_returns:
  assumes "\<forall>t \<in> set ts. plain_tax q t" and "0 \<le> micros (ts_rateSum s)" and "ccy (ts_rateSum s) = 0"
    and "micros (ts_rateSum s) + int (length ts) * 1000000000 \<le> 1000000000000"
    and "ccy (ts_fixed s) = c" and "\<bar>micros (ts_fixed s)\<bar> + int (length ts) * 10000000000000 \<le> 200000000000000"
  shows "\<exists>s'. foldE (classify_tax c q) ts s = Inr s' \<and> ccy (ts_rateSum s') = 0
    \<and> ccy (ts_fixed s') = c \<and> \<bar>micros (ts_fixed s')\<bar> \<le> 200000000000000
    \<and> micros (ts_rateSum s) \<le> micros (ts_rateSum s') \<and> micros (ts_rateSum s') \<le> 1000000000000
    \<and> (\<forall>t \<in> set ts. td_priceInclude t \<and> plain_percent t \<longrightarrow> micros (td_rate t) \<le> micros (ts_rateSum s'))"
  using assms
proof (induction ts arbitrary: s)
  case Nil
  then show ?case by simp
next
  case (Cons t ts)
  then have t: "plain_tax q t" and ts: "\<forall>t \<in> set ts. plain_tax q t" by auto
  show ?case
  proof (cases "td_priceInclude t")
    case inc: True
    show ?thesis
    proof (cases "plain_percent t")
      case True
      let ?m = "\<lparr>micros = micros (ts_rateSum s) + micros (td_rate t), ccy = 0\<rparr>"
      let ?u = "s\<lparr>ts_included := ts_included s @ [t], ts_rateSum := ?m\<rparr>"
      have "money_add (ts_rateSum s) (td_rate t) = Inr ?m"
        using True Cons.prems money_add_returns [of "ts_rateSum s" "td_rate t"] by (simp add: plain_percent_def)
      then have u: "classify_tax c q t s = Inr ?u"
        using inc True by (simp add: classify_tax_def Let_def plain_percent_def)
      have "0 \<le> micros (ts_rateSum ?u)" "ccy (ts_rateSum ?u) = 0"
        "micros (ts_rateSum ?u) + int (length ts) * 1000000000 \<le> 1000000000000"
        "ccy (ts_fixed ?u) = c" "\<bar>micros (ts_fixed ?u)\<bar> + int (length ts) * 10000000000000 \<le> 200000000000000"
        using True Cons.prems by (simp_all add: plain_percent_def)
      from Cons.IH [OF ts this] u True Cons.prems(2) show ?thesis by (auto simp: plain_percent_def)
    next
      case False
      with t have f: "td_amountType t = ''fixed''" "\<bar>micros (td_rate t) * micros q\<bar> \<le> 10000000000000 * ONE"
        by (auto simp: plain_tax_def)
      from fixed_returns [OF f(2), of c] obtain a where a: "mulQty (td_rate t) q = Inr a"
        "tax_M c (micros a) = \<lparr>micros = micros a, ccy = c\<rparr>" "\<bar>micros a\<bar> \<le> 10000000000000" by blast
      let ?m = "\<lparr>micros = micros (ts_fixed s) + micros a, ccy = c\<rparr>"
      let ?u = "s\<lparr>ts_included := ts_included s @ [t], ts_fixed := ?m\<rparr>"
      have "money_add (ts_fixed s) \<lparr>micros = micros a, ccy = c\<rparr> = Inr ?m"
        using a(3) Cons.prems money_add_returns [of "ts_fixed s" "\<lparr>micros = micros a, ccy = c\<rparr>"] by simp
      then have u: "classify_tax c q t s = Inr ?u"
        using inc f(1) a by (simp add: classify_tax_def Let_def)
      have "0 \<le> micros (ts_rateSum ?u)" "ccy (ts_rateSum ?u) = 0"
        "micros (ts_rateSum ?u) + int (length ts) * 1000000000 \<le> 1000000000000"
        "ccy (ts_fixed ?u) = c" "\<bar>micros (ts_fixed ?u)\<bar> + int (length ts) * 10000000000000 \<le> 200000000000000"
        using a(3) Cons.prems by simp_all
      from Cons.IH [OF ts this] u False show ?thesis by auto
    qed
  next
    case False
    let ?u = "s\<lparr>ts_excluded := ts_excluded s @ [t]\<rparr>"
    have u: "classify_tax c q t s = Inr ?u" using False by (simp add: classify_tax_def)
    have "0 \<le> micros (ts_rateSum ?u)" "ccy (ts_rateSum ?u) = 0"
      "micros (ts_rateSum ?u) + int (length ts) * 1000000000 \<le> 1000000000000"
      "ccy (ts_fixed ?u) = c" "\<bar>micros (ts_fixed ?u)\<bar> + int (length ts) * 10000000000000 \<le> 200000000000000"
      using Cons.prems by simp_all
    from Cons.IH [OF ts this] u False show ?thesis by auto
  qed
qed

lemma parse_hundred: "parse_money ''100'' 0 = Inr \<lparr>micros = 100000000, ccy = 0\<rparr>"
  by code_simp

lemma cdiv_abs_le:
  assumes "\<bar>a\<bar> \<le> B * b" and "0 < b"
  shows "\<bar>cdiv a b\<bar> \<le> B"
proof -
  have "\<bar>a\<bar> div b \<le> (B * b) div b" using assms by (intro zdiv_mono1) auto
  with assms show ?thesis by (simp add: cdiv_abs)
qed

lemma back_out_returns:
  assumes g: "\<bar>micros g\<bar> \<le> 1000000000000000" "ccy g = c"
    and s: "ccy (ts_fixed s) = c" "\<bar>micros (ts_fixed s)\<bar> \<le> 200000000000000" "ccy (ts_rateSum s) = 0"
      "0 \<le> micros (ts_rateSum s)" "micros (ts_rateSum s) \<le> 1000000000000"
  shows "\<exists>b t. back_out c g s dp = Inr (b, t) \<and> ccy b = c \<and> ccy t = c
    \<and> \<bar>micros b\<bar> \<le> 1200000000500000 \<and> \<bar>micros t\<bar> \<le> 2200000000500000"
proof (cases "ts_included s = []")
  case True
  with g show ?thesis by (simp add: back_out_def)
next
  case False
  let ?p = "\<lparr>micros = micros g - micros (ts_fixed s), ccy = c\<rparr> :: money"
  have gp: "money_sub g (ts_fixed s) = Inr ?p" using money_sub_returns [of g "ts_fixed s"] g s by simp
  have p: "\<bar>micros ?p\<bar> \<le> 1200000000000000" using g s by simp
  have tot: "\<exists>t. money_sub g b = Inr t \<and> ccy t = c \<and> \<bar>micros t\<bar> \<le> 2200000000500000"
    if "ccy b = c" "\<bar>micros b\<bar> \<le> 1200000000500000" for b
    using money_sub_returns [of g b] g that by auto
  show ?thesis
  proof (cases "isZero (ts_rateSum s)")
    case True
    have "\<bar>micros ?p\<bar> \<le> 1200000000500000" using p by simp
    with tot [of ?p] True False gp show ?thesis by (auto simp: back_out_def)
  next
    case nz: False
    let ?h = "\<lparr>micros = 100000000, ccy = 0\<rparr> :: money"
    let ?D = "100000000 + micros (ts_rateSum s)"
    have dv: "money_add ?h (ts_rateSum s) = Inr \<lparr>micros = ?D, ccy = 0\<rparr>"
      using money_add_returns [of ?h "ts_rateSum s"] s by simp
    have "\<bar>micros ?p * micros ?h\<bar> \<le> 120000000000000000 * ONE"
      using p by (simp add: abs_mult ONE_def)
    then obtain n where n: "mulQty ?p ?h = Inr n" "\<bar>micros n\<bar> \<le> 120000000000000000"
      using mulQty_returns [of ?p ?h] by fastforce
    have "1200000000000000 * 100000000 \<le> 1200000000000000 * ?D"
      using s(4) by (intro mult_left_mono) simp_all
    then have "\<bar>micros n * ONE\<bar> \<le> 1200000000000000 * ?D"
      using n(2) by (simp add: abs_mult ONE_def)
    then have c1: "\<bar>cdiv (micros n * ONE) ?D\<bar> \<le> 1200000000000000"
      using s(4) by (intro cdiv_abs_le) simp_all
    let ?m = "\<lparr>micros = cdiv (micros n * ONE) ?D, ccy = c\<rparr> :: money"
    have M: "tax_M c (cdiv (micros n * ONE) ?D) = ?m" using c1 by (intro tax_M_small) simp
    obtain b where b: "roundTo ?m dp = Inr b" "\<bar>micros b\<bar> \<le> \<bar>micros ?m\<bar> + 500000" "ccy b = c"
      using roundTo_returns [of ?m dp] c1 by auto
    have Dz: "?D \<noteq> 0" using s(4) by simp
    have "\<bar>micros b\<bar> \<le> 1200000000500000" using b(2) c1 by simp
    with tot [of b] b(1,3) False nz gp dv n(1) M Dz show ?thesis
      by (auto simp: back_out_def parse_hundred)
  qed
qed

lemma distribute_returns:
  assumes "\<forall>t \<in> set ts. plain_tax q t \<and> (plain_percent t \<longrightarrow> micros (td_rate t) \<le> micros (ts_rateSum s))"
    and "ccy tot = c" and "\<bar>micros tot\<bar> \<le> 2200000000500000" and "0 \<le> micros (ts_rateSum s)"
    and "ccy al = c" and "\<bar>micros al\<bar> + int (length ts) * 3000000000000000 \<le> 60000000000000000"
  shows "\<exists>cs. distribute c q dp s base tot ts al = Inr cs \<and> length cs = length ts
    \<and> (\<forall>x \<in> set cs. ccy (tc_amount x) = c \<and> \<bar>micros (tc_amount x)\<bar> \<le> 70000000000000000)"
  using assms(1,5,6)
proof (induction ts arbitrary: al)
  case Nil
  then show ?case by simp
next
  case (Cons t ts)
  have "\<exists>sh. included_share c q dp s tot (ts = []) t al = Inr sh \<and> ccy sh = c
      \<and> \<bar>micros sh\<bar> \<le> (if ts = [] then 70000000000000000 else 3000000000000000)"
  proof (cases "ts = []")
    case True
    with Cons.prems assms(2,3) money_sub_returns [of tot al] show ?thesis
      by (auto simp: included_share_def)
  next
    case False
    show ?thesis
    proof (cases "plain_percent t")
      case fixed: False
      with Cons.prems(1) have f: "td_amountType t = ''fixed''" "\<bar>micros (td_rate t) * micros q\<bar> \<le> 10000000000000 * ONE"
        by (auto simp: plain_tax_def)
      from fixed_returns [OF f(2), of c] obtain a where a: "mulQty (td_rate t) q = Inr a"
        "tax_M c (micros a) = \<lparr>micros = micros a, ccy = c\<rparr>" "\<bar>micros a\<bar> \<le> 10000000000000" by blast
      obtain b where "roundTo \<lparr>micros = micros a, ccy = c\<rparr> dp = Inr b" "\<bar>micros b\<bar> \<le> \<bar>micros a\<bar> + 500000" "ccy b = c"
        using roundTo_returns [of "\<lparr>micros = micros a, ccy = c\<rparr>" dp] a(3) by auto
      with False f(1) a show ?thesis by (auto simp: included_share_def)
    next
      case pct: True
      show ?thesis
      proof (cases "isZero (ts_rateSum s)")
        case True
        with False pct assms(2) show ?thesis by (auto simp: included_share_def plain_percent_def)
      next
        case nz: False
        let ?R = "micros (ts_rateSum s)" and ?r = "micros (td_rate t)"
        have R: "0 < ?R" using nz assms(4) by (simp add: isZero_def)
        have r: "0 \<le> ?r" "?r \<le> ?R" using Cons.prems(1) pct by (auto simp: plain_percent_def)
        then have "\<bar>micros tot * ?r\<bar> \<le> 2200000000500000 * ?R"
          using mult_mono [of "\<bar>micros tot\<bar>" 2200000000500000 ?r ?R] assms(3) by (simp add: abs_mult)
        then have c1: "\<bar>cdiv (micros tot * ?r) ?R\<bar> \<le> 2200000000500000"
          using R by (rule cdiv_abs_le)
        let ?m = "\<lparr>micros = cdiv (micros tot * ?r) ?R, ccy = c\<rparr> :: money"
        have M: "tax_M c (cdiv (micros tot * ?r) ?R) = ?m" using c1 by (intro tax_M_small) simp
        obtain b where "roundTo ?m dp = Inr b" "\<bar>micros b\<bar> \<le> \<bar>micros ?m\<bar> + 500000" "ccy b = c"
          using roundTo_returns [of ?m dp] c1 by auto
        with False nz M c1 pct show ?thesis by (auto simp: included_share_def plain_percent_def)
      qed
    qed
  qed
  then obtain sh where sh: "included_share c q dp s tot (ts = []) t al = Inr sh" "ccy sh = c"
    "\<bar>micros sh\<bar> \<le> (if ts = [] then 70000000000000000 else 3000000000000000)" by blast
  let ?al = "\<lparr>micros = micros al + micros sh, ccy = c\<rparr> :: money"
  have al: "money_add al sh = Inr ?al"
    using money_add_returns [of al sh] sh Cons.prems(2,3) by (auto split: if_splits)
  obtain cs where cs: "distribute c q dp s base tot ts ?al = Inr cs" "length cs = length ts"
    "\<forall>x \<in> set cs. ccy (tc_amount x) = c \<and> \<bar>micros (tc_amount x)\<bar> \<le> 70000000000000000"
  proof (cases "ts = []")
    case True
    then show ?thesis using that by simp
  next
    case False
    then have "\<bar>micros ?al\<bar> + int (length ts) * 3000000000000000 \<le> 60000000000000000"
      using sh(3) Cons.prems(3) by simp
    then show ?thesis using Cons.IH [of ?al] Cons.prems(1) that by auto
  qed
  with sh al show ?case by (auto split: if_splits)
qed

lemma exclusive_returns:
  assumes "\<forall>t \<in> set ts. plain_tax q t" and "\<bar>micros base\<bar> \<le> 1200000000500000" and "ccy base = c"
  shows "\<exists>cs. exclusive c q dp base ts = Inr cs \<and> length cs = length ts
    \<and> (\<forall>x \<in> set cs. ccy (tc_amount x) = c \<and> \<bar>micros (tc_amount x)\<bar> \<le> 70000000000000000)"
  using assms(1)
proof (induction ts)
  case Nil
  then show ?case by simp
next
  case (Cons t ts)
  obtain a where a: "(if td_amountType t = ''fixed'' then bindE (mulQty (td_rate t) q) (\<lambda>f. Inr (tax_M c (micros f)))
      else percent base (td_rate t)) = Inr a" "\<bar>micros a\<bar> \<le> 20000000000000000" "ccy a = c"
  proof (cases "plain_percent t")
    case True
    have "\<bar>micros base * micros (td_rate t)\<bar> \<le> 20000000000000000 * (ONE * 100)"
      using mult_mono [of "\<bar>micros base\<bar>" 1200000000500000 "micros (td_rate t)" 1000000000] True assms(2)
      by (simp add: abs_mult ONE_def plain_percent_def)
    then obtain p where "percent base (td_rate t) = Inr p" "\<bar>micros p\<bar> \<le> 20000000000000000" "ccy p = c"
      using percent_returns [of base "td_rate t"] assms(3) by fastforce
    with True show ?thesis by (intro that) (auto simp: plain_percent_def)
  next
    case False
    with Cons.prems have f: "td_amountType t = ''fixed''" "\<bar>micros (td_rate t) * micros q\<bar> \<le> 10000000000000 * ONE"
      by (auto simp: plain_tax_def)
    from fixed_returns [OF f(2), of c] obtain a where "mulQty (td_rate t) q = Inr a"
      "tax_M c (micros a) = \<lparr>micros = micros a, ccy = c\<rparr>" "\<bar>micros a\<bar> \<le> 10000000000000" by blast
    with f(1) show ?thesis by (intro that [of "\<lparr>micros = micros a, ccy = c\<rparr>"]) auto
  qed
  obtain b where "roundTo a dp = Inr b" "\<bar>micros b\<bar> \<le> \<bar>micros a\<bar> + 500000" "ccy b = c"
    using roundTo_returns [of a dp] a by auto
  with a Cons show ?case by (auto simp: excluded_amount_def)
qed

lemma total_returns:
  assumes "\<forall>x \<in> set cs. ccy (tc_amount x) = c \<and> \<bar>micros (tc_amount x)\<bar> \<le> 70000000000000000"
    and "ccy z = c" and "\<bar>micros z\<bar> + int (length cs) * 70000000000000000 \<le> 2000000000000000000"
  shows "\<exists>t. foldE (\<lambda>x acc. money_add acc (tc_amount x)) cs z = Inr t \<and> ccy t = c
    \<and> \<bar>micros t\<bar> \<le> 2000000000000000000"
  using assms
proof (induction cs arbitrary: z)
  case Nil
  then show ?case by simp
next
  case (Cons x cs)
  let ?z = "\<lparr>micros = micros z + micros (tc_amount x), ccy = c\<rparr> :: money"
  have "money_add z (tc_amount x) = Inr ?z"
    using money_add_returns [of z "tc_amount x"] Cons.prems by auto
  moreover have "\<bar>micros ?z\<bar> + int (length cs) * 70000000000000000 \<le> 2000000000000000000"
    using Cons.prems by auto
  ultimately show ?case using Cons.IH [of ?z] Cons.prems by auto
qed

text \<open>C19: on a line worth up to 400 million, with a discount of 0 to 100 per cent and up to twenty taxes,
  inclusive or not, each a percentage from 0 to 1000 or a fixed amount per unit that comes to at most
  10 million on the line, the engine always returns.\<close>

theorem compute_tax_returns:
  assumes "\<bar>micros pu * micros q\<bar> \<le> 400000000000000 * ONE"
    and "0 \<le> micros d" and "micros d \<le> 100000000"
    and "\<forall>t \<in> set ts. plain_tax q t" and "length ts \<le> 20"
  shows "\<exists>r. compute_tax pu q d ts dp = Inr r"
proof (cases "ts = []")
  case True
  then show ?thesis using line_gross_returns [OF assms(1-3), of dp] by (auto simp: compute_tax_def)
next
  case False
  let ?c = "ccy pu" and ?ts = "sort_key td_sequence ts"
  obtain g where g: "line_gross pu q d dp = Inr g" "\<bar>micros g\<bar> \<le> 1000000000000000" "ccy g = ?c"
    using line_gross_returns [OF assms(1-3)] by blast
  obtain s where s: "classify ?c q ?ts = Inr s" "ccy (ts_rateSum s) = 0" "ccy (ts_fixed s) = ?c" "\<bar>micros (ts_fixed s)\<bar> \<le> 200000000000000"
    "0 \<le> micros (ts_rateSum s)" "micros (ts_rateSum s) \<le> 1000000000000"
    "\<forall>t \<in> set ?ts. td_priceInclude t \<and> plain_percent t \<longrightarrow> micros (td_rate t) \<le> micros (ts_rateSum s)"
    using classify_returns [of ?ts q "\<lparr>ts_included = [], ts_excluded = [], ts_rateSum = zero_money 0,
        ts_fixed = zero_money ?c\<rparr>" ?c] assms(4,5) by (auto simp: classify_def)
  obtain b t where b: "back_out ?c g s dp = Inr (b, t)" "ccy b = ?c" "ccy t = ?c"
    "\<bar>micros b\<bar> \<le> 1200000000500000" "\<bar>micros t\<bar> \<le> 2200000000500000"
    using back_out_returns [OF g(2,3) s(3,4,2,5,6)] by blast
  have lists: "ts_included s = filter td_priceInclude ?ts"
    "ts_excluded s = filter (\<lambda>t. \<not> td_priceInclude t) ?ts" using classify_lists [OF s(1)] by auto
  have len: "length (ts_included s) + length (ts_excluded s) \<le> 20"
    using assms(5) sum_length_filter_compl [of td_priceInclude ?ts] by (simp add: lists)
  obtain inc where inc: "distribute ?c q dp s b t (ts_included s) (zero_money ?c) = Inr inc"
    "length inc = length (ts_included s)"
    "\<forall>x \<in> set inc. ccy (tc_amount x) = ?c \<and> \<bar>micros (tc_amount x)\<bar> \<le> 70000000000000000"
    using distribute_returns [where ts = "ts_included s" and s = s and tot = t and c = ?c and al = "zero_money ?c"
        and q = q and dp = dp and base = b] b s assms(4) len
    by (auto simp: lists)
  obtain exc where exc: "exclusive ?c q dp b (ts_excluded s) = Inr exc"
    "length exc = length (ts_excluded s)"
    "\<forall>x \<in> set exc. ccy (tc_amount x) = ?c \<and> \<bar>micros (tc_amount x)\<bar> \<le> 70000000000000000"
    using exclusive_returns [where ts = "ts_excluded s" and base = b and c = ?c and q = q and dp = dp] b assms(4) by (auto simp: lists)
  obtain tax where tax: "foldE (\<lambda>x acc. money_add acc (tc_amount x)) (inc @ exc) (zero_money ?c) = Inr tax"
    "ccy tax = ?c" "\<bar>micros tax\<bar> \<le> 2000000000000000000"
    using total_returns [of "inc @ exc" ?c "zero_money ?c"] inc exc len by auto
  have "\<exists>tot. money_add b tax = Inr tot" using money_add_returns [of b tax] b tax by auto
  with g s b inc exc tax False show ?thesis
    by (auto simp: compute_tax_def Let_def finish_totals_def)
qed

theorem compute_tax_returns_witness:
  "\<exists>r. compute_tax \<lparr>micros = 100000000, ccy = 2\<rparr> \<lparr>micros = 2000000, ccy = 0\<rparr>
     \<lparr>micros = 10000000, ccy = 0\<rparr>
     [\<lparr>td_id = 1, td_name = ''a'', td_rate = \<lparr>micros = 6000000, ccy = 0\<rparr>, td_amountType = ''percent'',
       td_priceInclude = True, td_sequence = 2\<rparr>,
      \<lparr>td_id = 3, td_name = ''levy'', td_rate = \<lparr>micros = 500000, ccy = 2\<rparr>, td_amountType = ''fixed'',
       td_priceInclude = True, td_sequence = 3\<rparr>,
      \<lparr>td_id = 2, td_name = ''b'', td_rate = \<lparr>micros = 2000000, ccy = 0\<rparr>, td_amountType = ''percent'',
       td_priceInclude = False, td_sequence = 1\<rparr>] 2 = Inr r"
  by (rule compute_tax_returns) (simp_all add: ONE_def plain_tax_def plain_percent_def)

end
