(* ===== verification/PaymentAllocation.thy ===== *)
theory PaymentAllocation
  imports Money "HOL-Library.Product_Lexorder"
begin

section \<open>Open-item payment allocation (core/PaymentAllocation)\<close>

text \<open>
  The three tables the component reads and writes are lists of rows (\<open>account_payment\<close>,
  \<open>account_move\<close>, \<open>account_partial_reconcile\<close>); a query is a list operation with the meaning
  of its SQL text, and a nullable column is an option. Dates are day numbers. A statement that
  fails ends the computation with an exception, and the caller's transaction is rolled back, so
  only a normal return carries a new state.
\<close>

record payment_row =
  pay_id :: int
  pay_partner :: "int option"
  pay_company :: "int option"
  pay_amount :: int
  pay_rate :: "int option"
  pay_date :: "int option"
  pay_type :: "string option"
  pay_state :: string

record doc_row =
  mv_id :: int
  mv_partner :: "int option"
  mv_state :: string
  mv_type :: string
  mv_date :: int
  mv_rate :: "int option"
  mv_total :: int
  mv_residual :: int
  mv_payment_state :: string

record reconcile_row =
  rc_payment :: int
  rc_move :: int
  rc_amount :: int
  rc_base :: int
  rc_fx :: int
  rc_date :: int
  rc_company :: int

record alloc_db =
  payments :: "payment_row list"
  moves :: "doc_row list"
  reconciles :: "reconcile_row list"

record allocation =
  al_move :: int
  al_amount :: money
  al_base :: money
  al_fx :: money

record allocation_result =
  applied :: "allocation list"
  totalApplied :: money
  unallocated :: money
  totalFxDiff :: money

text \<open>\<open>field.as<long long>()\<close> on a numeric value: a value outside \<open>int64_t\<close> is a conversion
  error.\<close>

definition as_int64 :: "int \<Rightarrow> int result" where
  "as_int64 v = (if in_int64 v then Inr v else Inl (RuntimeError ''conversion error''))"

definition applied_sum :: "alloc_db \<Rightarrow> int \<Rightarrow> int" where
  "applied_sum db i = sum_list (map rc_amount (filter (\<lambda>a. rc_move a = i) (reconciles db)))"

definition find_move :: "alloc_db \<Rightarrow> int \<Rightarrow> doc_row option" where
  "find_move db i = List.find (\<lambda>m. mv_id m = i) (moves db)"

definition residualOf :: "alloc_db \<Rightarrow> int \<Rightarrow> money result" where
  "residualOf db i = (case find_move db i of
       None \<Rightarrow> Inr (zero_money 0)
     | Some m \<Rightarrow> bindE (as_int64 (mv_total m - applied_sum db i)) (\<lambda>v. Inr (fromMicros v 0)))"

definition payment_state_of :: "money \<Rightarrow> money \<Rightarrow> string" where
  "payment_state_of residual tot =
     (if isZero residual then ''paid'' else if residual = tot then ''not_paid'' else ''partial'')"

definition refreshResidual :: "alloc_db \<Rightarrow> int \<Rightarrow> alloc_db result" where
  "refreshResidual db i = bindE (residualOf db i) (\<lambda>residual.
     case find_move db i of
       None \<Rightarrow> Inr db
     | Some t \<Rightarrow>
         let st = payment_state_of residual (fromMicros (mv_total t) 0)
         in Inr (db\<lparr>moves := map (\<lambda>m. if mv_id m = i
              then m\<lparr>mv_residual := micros residual, mv_payment_state := st\<rparr> else m) (moves db)\<rparr>))"

text \<open>The open documents of a partner, oldest first: one row per document with the sum applied
  to it so far, read once before the loop.\<close>

record open_doc =
  od_id :: int
  od_total :: int
  od_applied :: int
  od_rate :: int

definition settles :: "bool \<Rightarrow> string list" where
  "settles inbound = (if inbound then [''out_invoice'', ''out_refund'']
     else [''in_invoice'', ''in_refund''])"

definition open_moves :: "alloc_db \<Rightarrow> int \<Rightarrow> bool \<Rightarrow> int list \<Rightarrow> doc_row list" where
  "open_moves db partner inbound ids =
     sort_key (\<lambda>m. (mv_date m, mv_id m))
       (filter (\<lambda>m. mv_partner m = Some partner \<and> mv_state m = ''posted''
          \<and> mv_type m \<in> set (settles inbound) \<and> (ids = [] \<or> mv_id m \<in> set ids)
          \<and> mv_total m - applied_sum db (mv_id m) \<noteq> 0) (moves db))"

definition open_docs :: "alloc_db \<Rightarrow> int \<Rightarrow> bool \<Rightarrow> int list \<Rightarrow> open_doc list" where
  "open_docs db partner inbound ids =
     map (\<lambda>m. \<lparr>od_id = mv_id m, od_total = mv_total m, od_applied = applied_sum db (mv_id m),
               od_rate = (case mv_rate m of None \<Rightarrow> 1000000 | Some r \<Rightarrow> r)\<rparr>)
       (open_moves db partner inbound ids)"

text \<open>One turn of the loop over the open documents: the amount applied, its two base values,
  the row inserted, the refreshed residual and the running totals.\<close>

record alloc_state =
  as_db :: alloc_db
  as_out :: allocation_result
  as_remaining :: money

definition settle_doc ::
    "int \<Rightarrow> int \<Rightarrow> int option \<Rightarrow> int \<Rightarrow> open_doc \<Rightarrow> money \<Rightarrow> alloc_state \<Rightarrow> alloc_state result" where
  "settle_doc paymentId rate date company doc residual s =
     (let remaining = as_remaining s; out = as_out s; db = as_db s;
          amount = (if micros remaining < micros residual then remaining else residual)
      in bindE (convertTo amount 0 rate) (\<lambda>atSettlement.
         bindE (convertTo amount 0 (od_rate doc)) (\<lambda>atBooked.
         bindE (money_sub atSettlement atBooked) (\<lambda>fxDiff.
         case date of None \<Rightarrow> Inl (RuntimeError ''invalid input syntax for type date'')
         | Some d \<Rightarrow>
           if micros amount = 0 then Inl (RuntimeError ''violates check constraint'')
           else let db1 = db\<lparr>reconciles := reconciles db @ [\<lparr>rc_payment = paymentId,
                      rc_move = od_id doc, rc_amount = micros amount, rc_base = micros atSettlement,
                      rc_fx = micros fxDiff, rc_date = d, rc_company = company\<rparr>]\<rparr>
           in bindE (refreshResidual db1 (od_id doc)) (\<lambda>db2.
              bindE (money_add (totalApplied out) amount) (\<lambda>ta.
              bindE (money_add (totalFxDiff out) fxDiff) (\<lambda>tf.
              bindE (money_sub remaining amount) (\<lambda>rest.
                Inr \<lparr>as_db = db2,
                     as_out = out\<lparr>applied := applied out @ [\<lparr>al_move = od_id doc,
                        al_amount = amount, al_base = atSettlement, al_fx = fxDiff\<rparr>],
                        totalApplied := ta, totalFxDiff := tf\<rparr>,
                     as_remaining = rest\<rparr>))))))))"

fun allocate_loop ::
    "int \<Rightarrow> int \<Rightarrow> int option \<Rightarrow> int \<Rightarrow> open_doc list \<Rightarrow> alloc_state \<Rightarrow> alloc_state result" where
  "allocate_loop pid rate date company [] s = Inr s"
| "allocate_loop pid rate date company (doc # docs) s =
     (if isZero (as_remaining s) then Inr s
      else bindE (money_sub (fromMicros (od_total doc) 0) (fromMicros (od_applied doc) 0)) (\<lambda>residual.
        if isZero residual then allocate_loop pid rate date company docs s
        else bindE (settle_doc pid rate date company doc residual s)
               (allocate_loop pid rate date company docs)))"

definition settlement_rate :: "payment_row \<Rightarrow> money \<Rightarrow> int result" where
  "settlement_rate p receivedBase =
     (if \<not> isZero receivedBase \<and> pay_amount p \<noteq> 0
      then impliedRate (fromMicros (pay_amount p) 0) receivedBase
      else Inr (case pay_rate p of None \<Rightarrow> 1000000 | Some r \<Rightarrow> r))"

definition is_inbound :: "payment_row \<Rightarrow> bool" where
  "is_inbound p \<longleftrightarrow> (case pay_type p of None \<Rightarrow> ''inbound'' | Some t \<Rightarrow> t) \<noteq> ''outbound''"

definition find_posted :: "alloc_db \<Rightarrow> int \<Rightarrow> payment_row option" where
  "find_posted db pid = List.find (\<lambda>p. pay_id p = pid \<and> pay_state p = ''posted'') (payments db)"

definition allocate ::
    "alloc_db \<Rightarrow> int \<Rightarrow> money \<Rightarrow> int list \<Rightarrow> (allocation_result \<times> alloc_db) result" where
  "allocate db paymentId receivedBase moveIds =
     (case find_posted db paymentId of
        None \<Rightarrow> Inl (ValidationError ''Payment not found, or not posted.'')
      | Some p \<Rightarrow>
        let partnerId = (case pay_partner p of None \<Rightarrow> 0 | Some i \<Rightarrow> i);
            companyId = (case pay_company p of None \<Rightarrow> 1 | Some i \<Rightarrow> i);
            payAmount = fromMicros (pay_amount p) 0;
            out = \<lparr>applied = [], totalApplied = zero_money 0, unallocated = zero_money 0,
                   totalFxDiff = zero_money 0\<rparr>
        in if partnerId = 0
           then Inl (ValidationError ''Payment has no partner, so it cannot be allocated.'')
           else bindE (settlement_rate p receivedBase) (\<lambda>rate.
             bindE (allocate_loop paymentId rate (pay_date p) companyId
                      (open_docs db partnerId (is_inbound p) moveIds)
                      \<lparr>as_db = db, as_out = out, as_remaining = payAmount\<rparr>) (\<lambda>s.
               Inr ((as_out s)\<lparr>unallocated := as_remaining s\<rparr>, as_db s))))"

definition unallocate :: "alloc_db \<Rightarrow> int \<Rightarrow> alloc_db result" where
  "unallocate db paymentId =
     (let affected = remdups (map rc_move (filter (\<lambda>a. rc_payment a = paymentId) (reconciles db)));
          db1 = db\<lparr>reconciles := filter (\<lambda>a. rc_payment a \<noteq> paymentId) (reconciles db)\<rparr>
      in foldE (\<lambda>i d. refreshResidual d i) affected db1)"

subsection \<open>Residuals are derived\<close>

text \<open>The residual of a document from its rows, and the stored one agreeing with it.\<close>

definition due :: "alloc_db \<Rightarrow> doc_row \<Rightarrow> int" where
  "due db m = mv_total m - applied_sum db (mv_id m)"

definition doc_current :: "alloc_db \<Rightarrow> doc_row \<Rightarrow> bool" where
  "doc_current db m \<longleftrightarrow> mv_residual m = due db m
     \<and> mv_payment_state m = payment_state_of (fromMicros (due db m) 0) (fromMicros (mv_total m) 0)"

definition residuals_current :: "alloc_db \<Rightarrow> bool" where
  "residuals_current db \<longleftrightarrow> (\<forall>m \<in> set (moves db). doc_current db m)"

definition distinct_moves :: "alloc_db \<Rightarrow> bool" where
  "distinct_moves db \<longleftrightarrow> distinct (map mv_id (moves db))"

text \<open>What a document is, apart from the two columns the component maintains.\<close>

definition doc_key :: "doc_row \<Rightarrow> doc_row" where
  "doc_key m = m\<lparr>mv_residual := 0, mv_payment_state := []\<rparr>"

lemma doc_key_eqD: "doc_key m = doc_key n \<Longrightarrow> mv_id m = mv_id n \<and> mv_total m = mv_total n"
  by (cases m; cases n) (simp add: doc_key_def)

lemma find_move_Some:
  "distinct_moves db \<Longrightarrow> m \<in> set (moves db) \<Longrightarrow> find_move db (mv_id m) = Some m"
  by (auto simp: find_move_def distinct_moves_def find_Some_iff distinct_conv_nth in_set_conv_nth)

lemma find_move_in: "find_move db i = Some m \<Longrightarrow> m \<in> set (moves db) \<and> mv_id m = i"
  by (auto simp: find_move_def find_Some_iff)

lemma find_move_None: "find_move db i = None \<Longrightarrow> m \<in> set (moves db) \<Longrightarrow> mv_id m \<noteq> i"
  by (auto simp: find_move_def find_None_iff)

lemma as_int64_Inr [exn_simps]: "as_int64 v = Inr r \<longleftrightarrow> in_int64 v \<and> r = v"
  by (auto simp: as_int64_def)

lemma refreshResidual_Inr:
  assumes "refreshResidual db i = Inr db'"
  shows "reconciles db' = reconciles db" and "payments db' = payments db"
    and "map doc_key (moves db') = map doc_key (moves db)"
    and "distinct_moves db \<Longrightarrow> moves db' = map (\<lambda>m. if mv_id m = i
          then m\<lparr>mv_residual := due db m, mv_payment_state :=
            payment_state_of (fromMicros (due db m) 0) (fromMicros (mv_total m) 0)\<rparr> else m) (moves db)"
proof -
  have "reconciles db' = reconciles db \<and> payments db' = payments db
    \<and> map doc_key (moves db') = map doc_key (moves db)
    \<and> (distinct_moves db \<longrightarrow> moves db' = map (\<lambda>m. if mv_id m = i
          then m\<lparr>mv_residual := due db m, mv_payment_state :=
            payment_state_of (fromMicros (due db m) 0) (fromMicros (mv_total m) 0)\<rparr> else m) (moves db))"
  proof (cases "find_move db i")
    case None
    with assms have "db' = db" by (auto simp: refreshResidual_def residualOf_def)
    with None show ?thesis by (auto simp: find_move_None intro!: map_idI [symmetric])
  next
    case (Some m)
    have m: "m \<in> set (moves db)" "mv_id m = i" using find_move_in [OF Some] by auto
    from assms Some have db': "db' = db\<lparr>moves := map (\<lambda>n. if mv_id n = i
      then n\<lparr>mv_residual := due db m, mv_payment_state :=
         payment_state_of (fromMicros (due db m) 0) (fromMicros (mv_total m) 0)\<rparr> else n) (moves db)\<rparr>"
      by (auto simp: refreshResidual_def residualOf_def exn_simps Let_def due_def m(2))
    have "n = m" if "distinct_moves db" "n \<in> set (moves db)" "mv_id n = i" for n
      using find_move_Some [OF that(1,2)] that(3) Some by simp
    then show ?thesis by (auto simp: db' doc_key_def)
  qed
  then show "reconciles db' = reconciles db" "payments db' = payments db"
    "map doc_key (moves db') = map doc_key (moves db)"
    "distinct_moves db \<Longrightarrow> moves db' = map (\<lambda>m. if mv_id m = i
          then m\<lparr>mv_residual := due db m, mv_payment_state :=
            payment_state_of (fromMicros (due db m) 0) (fromMicros (mv_total m) 0)\<rparr> else m) (moves db)"
    by auto
qed

lemma applied_sum_cong: "reconciles db' = reconciles db \<Longrightarrow> applied_sum db' i = applied_sum db i"
  by (simp add: applied_sum_def)

lemma due_cong: "reconciles db' = reconciles db \<Longrightarrow> due db' m = due db m"
  by (simp add: due_def applied_sum_def)

lemma doc_current_cong: "reconciles db' = reconciles db \<Longrightarrow> doc_current db' m = doc_current db m"
  using due_cong [of db' db m] by (simp add: doc_current_def)

lemma mv_id_of_keys: "map doc_key ms = map doc_key ns \<Longrightarrow> map mv_id ms = map mv_id ns"
proof (induction ms arbitrary: ns)
  case (Cons m ms)
  then obtain n ns' where n: "ns = n # ns'" "doc_key m = doc_key n"
    "map doc_key ms = map doc_key ns'" by (cases ns) auto
  from Cons.IH [OF n(3)] doc_key_eqD [OF n(2)] n(1) show ?case by simp
qed simp

lemma distinct_moves_keys:
  "map doc_key (moves db') = map doc_key (moves db) \<Longrightarrow> distinct_moves db' = distinct_moves db"
  by (auto simp: distinct_moves_def dest: mv_id_of_keys)

text \<open>Refreshing a document makes it current and leaves the others as they were.\<close>

lemma refresh_current:
  assumes r: "refreshResidual db i = Inr db'" and d: "distinct_moves db"
    and o: "\<forall>m \<in> set (moves db). mv_id m \<in> S \<or> doc_current db m"
  shows "\<forall>m \<in> set (moves db'). mv_id m \<in> S - {i} \<or> doc_current db' m"
proof
  fix m' assume "m' \<in> set (moves db')"
  then obtain m where m: "m \<in> set (moves db)" and m': "m' = (if mv_id m = i
          then m\<lparr>mv_residual := due db m, mv_payment_state :=
            payment_state_of (fromMicros (due db m) 0) (fromMicros (mv_total m) 0)\<rparr> else m)"
    using refreshResidual_Inr(4) [OF r d] by auto
  show "mv_id m' \<in> S - {i} \<or> doc_current db' m'"
  proof (cases "mv_id m = i")
    case True
    from True have "doc_current db m'" by (simp add: m' doc_current_def due_def)
    then show ?thesis by (simp add: doc_current_cong [OF refreshResidual_Inr(1) [OF r]])
  next
    case False
    with m' o m show ?thesis by (auto simp: doc_current_cong [OF refreshResidual_Inr(1) [OF r]])
  qed
qed

lemma refresh_all_current:
  assumes "foldE (\<lambda>i d. refreshResidual d i) is db = Inr db'" and "distinct_moves db"
    and "\<forall>m \<in> set (moves db). mv_id m \<in> S \<or> doc_current db m"
  shows "\<forall>m \<in> set (moves db'). mv_id m \<in> S - set is \<or> doc_current db' m"
    and "reconciles db' = reconciles db" and "payments db' = payments db"
    and "map doc_key (moves db') = map doc_key (moves db)"
proof -
  have "(\<forall>m \<in> set (moves db'). mv_id m \<in> S - set is \<or> doc_current db' m)
      \<and> reconciles db' = reconciles db \<and> payments db' = payments db
      \<and> map doc_key (moves db') = map doc_key (moves db)"
    using assms
  proof (induction "is" arbitrary: db S)
    case (Cons i js)
    from Cons.prems(1) obtain d where d: "refreshResidual db i = Inr d"
      and f: "foldE (\<lambda>i d. refreshResidual d i) js d = Inr db'" by (auto simp: exn_simps)
    have dd: "distinct_moves d"
      using Cons.prems(2) distinct_moves_keys [OF refreshResidual_Inr(3) [OF d]] by simp
    have c: "\<forall>m \<in> set (moves d). mv_id m \<in> S - {i} \<or> doc_current d m"
      using refresh_current [OF d Cons.prems(2,3)] .
    have "S - {i} - set js = S - set (i # js)" by auto
    with Cons.IH [OF f dd c] refreshResidual_Inr(1-3) [OF d] show ?case by simp
  qed simp
  then show "\<forall>m \<in> set (moves db'). mv_id m \<in> S - set is \<or> doc_current db' m"
    "reconciles db' = reconciles db" "payments db' = payments db"
    "map doc_key (moves db') = map doc_key (moves db)" by auto
qed

subsection \<open>What one turn of the loop does\<close>

text \<open>The rule the loop follows: give each document what it is due until the money runs out.\<close>

fun greedy :: "int \<Rightarrow> int list \<Rightarrow> int list" where
  "greedy r [] = []"
| "greedy r (x # xs) = (if r = 0 then [] else min r x # greedy (r - min r x) xs)"

definition od_due :: "open_doc \<Rightarrow> int" where
  "od_due d = od_total d - od_applied d"

text \<open>The row an allocation leaves in the reconcile table.\<close>

definition row_of :: "int \<Rightarrow> int option \<Rightarrow> int \<Rightarrow> allocation \<Rightarrow> reconcile_row" where
  "row_of pid date company a = \<lparr>rc_payment = pid, rc_move = al_move a,
     rc_amount = micros (al_amount a), rc_base = micros (al_base a), rc_fx = micros (al_fx a),
     rc_date = the date, rc_company = company\<rparr>"

lemma row_of_simps [simp]: "rc_payment (row_of pid date c a) = pid"
  "rc_move (row_of pid date c a) = al_move a" "rc_amount (row_of pid date c a) = micros (al_amount a)"
  by (simp_all add: row_of_def)

definition books_ok :: "alloc_db \<Rightarrow> bool" where
  "books_ok db \<longleftrightarrow> distinct_moves db \<and> residuals_current db"

text \<open>How the state after some turns extends the state before them by the allocations \<open>new\<close>.\<close>

definition extends :: "int \<Rightarrow> int option \<Rightarrow> int \<Rightarrow> allocation list \<Rightarrow> alloc_state \<Rightarrow> alloc_state \<Rightarrow> bool" where
  "extends pid date company new s t \<longleftrightarrow>
     applied (as_out t) = applied (as_out s) @ new
   \<and> micros (totalApplied (as_out t))
       = micros (totalApplied (as_out s)) + sum_list (map (micros \<circ> al_amount) new)
   \<and> micros (totalFxDiff (as_out t))
       = micros (totalFxDiff (as_out s)) + sum_list (map (micros \<circ> al_fx) new)
   \<and> micros (as_remaining t) = micros (as_remaining s) - sum_list (map (micros \<circ> al_amount) new)
   \<and> unallocated (as_out t) = unallocated (as_out s)
   \<and> reconciles (as_db t) = reconciles (as_db s) @ map (row_of pid date company) new
   \<and> payments (as_db t) = payments (as_db s)
   \<and> map doc_key (moves (as_db t)) = map doc_key (moves (as_db s))
   \<and> (books_ok (as_db s) \<longrightarrow> books_ok (as_db t))"

lemma extends_refl: "extends pid date company [] s s"
  by (simp add: extends_def)

lemma extends_trans:
  "extends pid date company xs s t \<Longrightarrow> extends pid date company ys t u
    \<Longrightarrow> extends pid date company (xs @ ys) s u"
  by (simp add: extends_def)

lemma insert_current:
  assumes "books_ok db"
  shows "\<forall>m \<in> set (moves (db\<lparr>reconciles := reconciles db @ [r]\<rparr>)). mv_id m \<in> {rc_move r}
    \<or> doc_current (db\<lparr>reconciles := reconciles db @ [r]\<rparr>) m"
  using assms
  by (auto simp: books_ok_def residuals_current_def doc_current_def due_def applied_sum_def)

lemma settle_doc_extends:
  assumes "settle_doc pid rate date company doc residual s = Inr t"
  shows "\<exists>a. extends pid date company [a] s t \<and> al_move a = od_id doc
    \<and> micros (al_amount a) = min (micros (as_remaining s)) (micros residual)
    \<and> micros (al_amount a) \<noteq> 0
    \<and> convertTo (al_amount a) 0 rate = Inr (al_base a)
    \<and> (\<exists>b. convertTo (al_amount a) 0 (od_rate doc) = Inr b \<and> money_sub (al_base a) b = Inr (al_fx a))"
proof -
  define amount where "amount = (if micros (as_remaining s) < micros residual
    then as_remaining s else residual)"
  from assms obtain st bk fx d db2 ta tf rest where
    c: "convertTo amount 0 rate = Inr st" "convertTo amount 0 (od_rate doc) = Inr bk"
      "money_sub st bk = Inr fx" "date = Some d" "micros amount \<noteq> 0"
    and r: "refreshResidual (as_db s\<lparr>reconciles := reconciles (as_db s) @
        [row_of pid date company \<lparr>al_move = od_id doc, al_amount = amount, al_base = st, al_fx = fx\<rparr>]\<rparr>)
        (od_id doc) = Inr db2"
    and a: "money_add (totalApplied (as_out s)) amount = Inr ta"
      "money_add (totalFxDiff (as_out s)) fx = Inr tf" "money_sub (as_remaining s) amount = Inr rest"
    and t: "t = \<lparr>as_db = db2, as_out = (as_out s)\<lparr>applied := applied (as_out s) @
        [\<lparr>al_move = od_id doc, al_amount = amount, al_base = st, al_fx = fx\<rparr>],
        totalApplied := ta, totalFxDiff := tf\<rparr>, as_remaining = rest\<rparr>"
    unfolding settle_doc_def Let_def amount_def [symmetric] row_of_def
    by (auto elim!: bindE_E split: option.splits if_splits)
  let ?a = "\<lparr>al_move = od_id doc, al_amount = amount, al_base = st, al_fx = fx\<rparr>"
  let ?r = "row_of pid date company ?a"
  let ?d = "as_db s\<lparr>reconciles := reconciles (as_db s) @ [?r]\<rparr>"
  have ok: "books_ok db2" if b: "books_ok (as_db s)"
  proof -
    have d: "distinct_moves ?d" using b by (simp add: books_ok_def distinct_moves_def)
    have i: "rc_move ?r = od_id doc" by simp
    from refresh_current [OF r d insert_current [OF b, of ?r, unfolded i]]
    show ?thesis using d distinct_moves_keys [OF refreshResidual_Inr(3) [OF r]]
      by (auto simp: books_ok_def residuals_current_def)
  qed
  have "extends pid date company [?a] s t"
    using refreshResidual_Inr(1-3) [OF r] a ok by (auto simp: extends_def t exn_simps)
  then show ?thesis using c by (intro exI [of _ ?a]) (auto simp: amount_def min_def)
qed

lemma allocate_loop_extends:
  assumes "allocate_loop pid rate date company docs s = Inr t"
    and "\<forall>d \<in> set docs. od_due d \<noteq> 0"
  shows "\<exists>new. extends pid date company new s t
    \<and> map (micros \<circ> al_amount) new = greedy (micros (as_remaining s)) (map od_due docs)
    \<and> map al_move new = take (length new) (map od_id docs)
    \<and> (\<forall>a \<in> set new. \<exists>doc \<in> set docs. al_move a = od_id doc
         \<and> convertTo (al_amount a) 0 rate = Inr (al_base a)
         \<and> (\<exists>b. convertTo (al_amount a) 0 (od_rate doc) = Inr b \<and> money_sub (al_base a) b = Inr (al_fx a)))"
  using assms
proof (induction docs arbitrary: s)
  case Nil
  then show ?case by (auto intro: exI [of _ "[]"] simp: extends_refl)
next
  case (Cons doc docs)
  show ?case
  proof (cases "isZero (as_remaining s)")
    case True
    with Cons.prems(1) have "t = s" by simp
    with True show ?thesis by (auto intro!: exI [of _ "[]"] simp: extends_refl isZero_def)
  next
    case False
    from Cons.prems(1) False obtain residual where
      r: "money_sub (fromMicros (od_total doc) 0) (fromMicros (od_applied doc) 0) = Inr residual"
      by (auto elim: bindE_E)
    then have m: "micros residual = od_due doc" by (auto simp: exn_simps od_due_def)
    with Cons.prems False r obtain u where
      u: "settle_doc pid rate date company doc residual s = Inr u"
      and l: "allocate_loop pid rate date company docs u = Inr t"
      by (auto simp: isZero_def elim: bindE_E)
    from settle_doc_extends [OF u] obtain a where
      a: "extends pid date company [a] s u" "al_move a = od_id doc"
        "micros (al_amount a) = min (micros (as_remaining s)) (micros residual)"
        "convertTo (al_amount a) 0 rate = Inr (al_base a)"
        "\<exists>b. convertTo (al_amount a) 0 (od_rate doc) = Inr b \<and> money_sub (al_base a) b = Inr (al_fx a)"
      by blast
    have rem: "micros (as_remaining u) = micros (as_remaining s) - micros (al_amount a)"
      using a(1) by (simp add: extends_def)
    have "\<forall>d \<in> set docs. od_due d \<noteq> 0" using Cons.prems(2) by simp
    from Cons.IH [OF l this] obtain new where
      n: "extends pid date company new u t"
        "map (micros \<circ> al_amount) new = greedy (micros (as_remaining u)) (map od_due docs)"
        "map al_move new = take (length new) (map od_id docs)"
        "\<forall>a \<in> set new. \<exists>doc \<in> set docs. al_move a = od_id doc
         \<and> convertTo (al_amount a) 0 rate = Inr (al_base a)
         \<and> (\<exists>b. convertTo (al_amount a) 0 (od_rate doc) = Inr b \<and> money_sub (al_base a) b = Inr (al_fx a))"
      by blast
    from extends_trans [OF a(1) n(1)] have "extends pid date company (a # new) s t" by simp
    then show ?thesis using n a rem m False
      by (intro exI [of _ "a # new"]) (auto simp: isZero_def comp_def)
  qed
qed

subsection \<open>The greedy rule\<close>

lemma greedy_sum_le:
  "\<forall>x \<in> set xs. 0 \<le> x \<Longrightarrow> 0 \<le> r \<Longrightarrow>
     0 \<le> sum_list (greedy r xs) \<and> sum_list (greedy r xs) \<le> r
     \<and> sum_list (greedy r xs) = min r (sum_list xs)"
proof (induction xs arbitrary: r)
  case (Cons x xs)
  then have "0 \<le> x" "0 \<le> r" "\<forall>x \<in> set xs. 0 \<le> x" "0 \<le> r - min r x" by auto
  moreover from this have "0 \<le> sum_list xs" by (simp add: sum_list_nonneg)
  ultimately show ?case using Cons.IH [of "r - min r x"] by (auto simp: min_def)
qed simp

lemma greedy_length: "length (greedy r xs) \<le> length xs"
  by (induction r xs rule: greedy.induct) auto

lemma greedy_nth:
  "\<forall>x \<in> set xs. 0 \<le> x \<Longrightarrow> 0 \<le> r \<Longrightarrow> k < length (greedy r xs) \<Longrightarrow>
     0 \<le> greedy r xs ! k \<and> greedy r xs ! k \<le> xs ! k"
proof (induction r xs arbitrary: k rule: greedy.induct)
  case (2 r x xs)
  from "2.prems" have r: "r \<noteq> 0" by auto
  show ?case
  proof (cases k)
    case 0
    with "2.prems" r show ?thesis by simp
  next
    case (Suc j)
    with "2.prems" r have "j < length (greedy (r - min r x) xs)" "\<forall>x \<in> set xs. 0 \<le> x" by auto
    with "2.IH" [OF r] Suc r "2.prems"(2) show ?thesis by auto
  qed
qed simp

text \<open>While money is left over, every document got all it was due.\<close>

lemma greedy_exhausts:
  "\<forall>x \<in> set xs. 0 < x \<Longrightarrow> 0 \<le> r \<Longrightarrow> sum_list (greedy r xs) < r \<Longrightarrow> greedy r xs = xs"
proof (induction r xs rule: greedy.induct)
  case (2 r x xs)
  then have r: "r \<noteq> 0" and x: "0 < x" by auto
  show ?case
  proof (cases "r \<le> x")
    case True
    then have "greedy (r - min r x) xs = []" by (cases xs) auto
    with True "2.prems" r show ?thesis by simp
  next
    case False
    then have "sum_list (greedy (r - min r x) xs) < r - min r x" using "2.prems" r by simp
    with "2.IH" [OF r] "2.prems" False r show ?thesis by simp
  qed
qed simp

subsection \<open>What \<open>allocate\<close> does\<close>

lemma od_due_open_docs:
  "map od_due (open_docs db partner inb ids) = map (due db) (open_moves db partner inb ids)"
  by (simp add: open_docs_def od_due_def due_def)

lemma od_id_open_docs:
  "map od_id (open_docs db partner inb ids) = map mv_id (open_moves db partner inb ids)"
  by (simp add: open_docs_def)

lemma open_docs_due: "\<forall>d \<in> set (open_docs db partner inb ids). od_due d \<noteq> 0"
  by (auto simp: open_docs_def open_moves_def od_due_def)

definition pay_partner_id :: "payment_row \<Rightarrow> int" where
  "pay_partner_id p = (case pay_partner p of None \<Rightarrow> 0 | Some i \<Rightarrow> i)"

definition pay_company_id :: "payment_row \<Rightarrow> int" where
  "pay_company_id p = (case pay_company p of None \<Rightarrow> 1 | Some i \<Rightarrow> i)"

lemma allocate_facts:
  assumes "allocate db pid rb ids = Inr (out, db')"
  obtains p rate where "find_posted db pid = Some p" "pay_partner_id p \<noteq> 0"
    "settlement_rate p rb = Inr rate"
    "map (micros \<circ> al_amount) (applied out)
       = greedy (pay_amount p) (map (due db) (open_moves db (pay_partner_id p) (is_inbound p) ids))"
    "map al_move (applied out) = take (length (applied out))
       (map mv_id (open_moves db (pay_partner_id p) (is_inbound p) ids))"
    "micros (totalApplied out) = sum_list (map (micros \<circ> al_amount) (applied out))"
    "micros (totalFxDiff out) = sum_list (map (micros \<circ> al_fx) (applied out))"
    "micros (unallocated out) = pay_amount p - micros (totalApplied out)"
    "reconciles db' = reconciles db
       @ map (row_of pid (pay_date p) (pay_company_id p)) (applied out)"
    "payments db' = payments db" "map doc_key (moves db') = map doc_key (moves db)"
    "books_ok db \<longrightarrow> books_ok db'"
proof -
  from assms obtain p where p: "find_posted db pid = Some p"
    by (auto simp: allocate_def split: option.splits)
  from assms p obtain rate s where q: "pay_partner_id p \<noteq> 0"
    and r: "settlement_rate p rb = Inr rate"
    and l: "allocate_loop pid rate (pay_date p) (pay_company_id p)
        (open_docs db (pay_partner_id p) (is_inbound p) ids)
        \<lparr>as_db = db, as_out = \<lparr>applied = [], totalApplied = zero_money 0, unallocated = zero_money 0,
           totalFxDiff = zero_money 0\<rparr>, as_remaining = fromMicros (pay_amount p) 0\<rparr> = Inr s"
    and o: "out = (as_out s)\<lparr>unallocated := as_remaining s\<rparr>" "db' = as_db s"
    by (auto simp: allocate_def Let_def pay_partner_id_def pay_company_id_def
        split: if_splits elim!: bindE_E)
  from allocate_loop_extends [OF l open_docs_due] obtain new where
    n: "extends pid (pay_date p) (pay_company_id p) new
        \<lparr>as_db = db, as_out = \<lparr>applied = [], totalApplied = zero_money 0, unallocated = zero_money 0,
           totalFxDiff = zero_money 0\<rparr>, as_remaining = fromMicros (pay_amount p) 0\<rparr> s"
      "map (micros \<circ> al_amount) new = greedy (pay_amount p)
         (map (due db) (open_moves db (pay_partner_id p) (is_inbound p) ids))"
      "map al_move new = take (length new)
         (map mv_id (open_moves db (pay_partner_id p) (is_inbound p) ids))"
    by (auto simp: od_due_open_docs od_id_open_docs)
  show thesis
    by (rule that [OF p q r]) (use n in \<open>simp_all add: extends_def o\<close>)
qed

lemma count_sort: "count_list (sort_key f xs) x = count_list xs x"
proof -
  have ins: "count_list (insort_key f y ys) x = count_list (y # ys) x" for y ys
    by (induction ys) auto
  show ?thesis by (induction xs) (simp_all add: ins)
qed

lemma count_filter: "count_list (filter P xs) x = (if P x then count_list xs x else 0)"
  by (induction xs) auto


lemma sum_filter_none: "i \<notin> set (map g xs) \<Longrightarrow> filter (\<lambda>a. g a = i) xs = []"
  by (auto simp: filter_empty_conv)

lemma sum_filter_nth:
  "distinct (map g xs) \<Longrightarrow> k < length xs \<Longrightarrow> filter (\<lambda>a. g a = g (xs ! k)) xs = [xs ! k]"
proof (induction xs arbitrary: k)
  case (Cons x xs)
  show ?case
  proof (cases k)
    case 0
    with Cons.prems sum_filter_none [of "g x" g xs] show ?thesis by simp
  next
    case (Suc j)
    with Cons.prems Cons.IH [of j] show ?thesis by (auto simp: image_iff)
  qed
qed simp

lemma due_appended:
  assumes "reconciles db' = reconciles db @ map (row_of pid date c) new"
  shows "due db' m = due db m
    - sum_list (map (micros \<circ> al_amount) (filter (\<lambda>a. al_move a = mv_id m) new))"
  using assms by (simp add: due_def applied_sum_def filter_map comp_def)

lemma distinct_open_moves:
  assumes "distinct_moves db"
  shows "distinct (map mv_id (open_moves db partner inb ids))"
proof -
  have "distinct (map mv_id (filter P (moves db)))" for P
    using assms by (simp add: distinct_moves_def distinct_map_filter)
  then show ?thesis
    by (simp add: open_moves_def distinct_map)
qed

text \<open>What each document is due afterwards: the open ones less their share of the greedy rule.\<close>

lemma allocate_due:
  assumes d: "distinct_moves db" and new: "reconciles db' = reconciles db @ map (row_of pid date c) new"
    and am: "map (micros \<circ> al_amount) new = greedy r (map (due db) ms)"
    and mv: "map al_move new = take (length new) (map mv_id ms)"
    and ms: "ms = open_moves db partner inb ids" and m: "m \<in> set (moves db)"
  shows "(\<exists>k < length new. m = ms ! k \<and> due db' m = due db m - greedy r (map (due db) ms) ! k)
    \<or> (m \<notin> set (take (length new) ms) \<and> due db' m = due db m)"
proof (cases "m \<in> set (take (length new) ms)")
  case True
  have len: "length new \<le> length ms"
    using am greedy_length [of r "map (due db) ms"] by (metis length_map)
  from True obtain k where k: "k < length new" "m = ms ! k"
    using len by (auto simp: in_set_conv_nth)
  have "al_move (new ! k) = map al_move new ! k" using k by simp
  also have "\<dots> = mv_id m" using mv k len by simp
  finally have mvk: "al_move (new ! k) = mv_id m" .
  have "distinct (map al_move new)"
    unfolding mv using distinct_open_moves [OF d] by (simp add: ms distinct_take)
  from sum_filter_nth [OF this k(1)] have "filter (\<lambda>a. al_move a = mv_id m) new = [new ! k]"
    by (simp add: mvk)
  then have "due db' m = due db m - micros (al_amount (new ! k))"
    using due_appended [OF new, of m] by simp
  moreover have "micros (al_amount (new ! k)) = map (micros \<circ> al_amount) new ! k" using k by simp
  ultimately show ?thesis using k am by auto
next
  case False
  have "mv_id m \<notin> set (map al_move new)"
  proof
    assume "mv_id m \<in> set (map al_move new)"
    then obtain n where n: "n \<in> set (take (length new) ms)" "mv_id n = mv_id m"
      unfolding mv take_map by auto
    have "n \<in> set (moves db)" using in_set_takeD [OF n(1)] by (auto simp: ms open_moves_def)
    from find_move_Some [OF d this] find_move_Some [OF d m] n(2) have "n = m"
      by (metis option.inject)
    with n False show False by simp
  qed
  then have "filter (\<lambda>a. al_move a = mv_id m) new = []" by (rule sum_filter_none)
  with due_appended [OF new, of m] False show ?thesis by simp
qed

text \<open>C10: a payment never over-applies. When no document is overpaid and the payment is not
  negative, allocating it leaves every document between zero and what it was due, the credit left
  on the partner is not negative, and a positive credit is left only when every open document of
  the partner has been paid in full.\<close>

theorem allocate_never_overpays:
  assumes "allocate db pid rb ids = Inr (out, db')" and "find_posted db pid = Some p"
    and "distinct_moves db" and "\<forall>m \<in> set (moves db). 0 \<le> due db m" and "0 \<le> pay_amount p"
  shows "(\<forall>m \<in> set (moves db). 0 \<le> due db' m \<and> due db' m \<le> due db m)
    \<and> 0 \<le> micros (unallocated out)
    \<and> (0 < micros (unallocated out) \<longrightarrow>
        (\<forall>m \<in> set (open_moves db (pay_partner_id p) (is_inbound p) ids). due db' m = 0))"
  using assms(1)
proof (rule allocate_facts)
  fix q rate
  define ms where "ms = open_moves db (pay_partner_id p) (is_inbound p) ids"
  assume "find_posted db pid = Some q"
  with assms(2) have q: "q = p" by simp
  assume am: "map (micros \<circ> al_amount) (applied out)
      = greedy (pay_amount q) (map (due db) (open_moves db (pay_partner_id q) (is_inbound q) ids))"
    and mv: "map al_move (applied out) = take (length (applied out))
       (map mv_id (open_moves db (pay_partner_id q) (is_inbound q) ids))"
    and ta: "micros (totalApplied out) = sum_list (map (micros \<circ> al_amount) (applied out))"
    and un: "micros (unallocated out) = pay_amount q - micros (totalApplied out)"
    and rc: "reconciles db' = reconciles db
       @ map (row_of pid (pay_date q) (pay_company_id q)) (applied out)"
  note am = am [unfolded q, folded ms_def] and mv = mv [unfolded q, folded ms_def]
  have sub: "set ms \<subseteq> set (moves db)" by (auto simp: ms_def open_moves_def)
  have pos: "\<forall>x \<in> set (map (due db) ms). 0 < x"
  proof -
    have "due db m \<noteq> 0" if "m \<in> set ms" for m
      using that by (auto simp: ms_def open_moves_def due_def)
    with assms(4) sub show ?thesis by (auto simp: less_le)
  qed
  then have nn: "\<forall>x \<in> set (map (due db) ms). 0 \<le> x" by auto
  have lg: "length (applied out) = length (greedy (pay_amount p) (map (due db) ms))"
    using am by (metis length_map)
  note cases' = allocate_due [OF assms(3) rc am mv ms_def]
  have 1: "0 \<le> due db' m \<and> due db' m \<le> due db m" if m: "m \<in> set (moves db)" for m
    using cases' [OF m]
  proof (elim disjE exE conjE)
    fix k
    assume k: "k < length (applied out)" "m = ms ! k"
      "due db' m = due db m - greedy (pay_amount p) (map (due db) ms) ! k"
    have "k < length ms" using k(1) lg greedy_length [of "pay_amount p" "map (due db) ms"] by simp
    with greedy_nth [OF nn assms(5), of k] k lg show ?thesis by simp
  qed (use assms(4) m in auto)
  have 2: "0 \<le> micros (unallocated out)"
    using greedy_sum_le [OF nn assms(5)] am un ta q by simp
  have 3: "due db' m = 0" if c: "0 < micros (unallocated out)" and m: "m \<in> set ms" for m
  proof -
    have g: "greedy (pay_amount p) (map (due db) ms) = map (due db) ms"
      using greedy_exhausts [OF pos assms(5)] c am un ta q by simp
    then have len: "length (applied out) = length ms" using lg by simp
    have "m \<in> set (moves db)" using m sub by auto
    from cases' [OF this] show ?thesis using g len m by auto
  qed
  from 1 2 3 show ?thesis by (auto simp: ms_def)
qed

subsection \<open>Undoing an allocation\<close>

lemma unallocate_facts:
  assumes "unallocate db pid = Inr db'" and "books_ok db"
  shows "books_ok db'" and "map doc_key (moves db') = map doc_key (moves db)"
    and "reconciles db' = filter (\<lambda>a. rc_payment a \<noteq> pid) (reconciles db)"
    and "payments db' = payments db"
proof -
  define S where "S = set (map rc_move (filter (\<lambda>a. rc_payment a = pid) (reconciles db)))"
  define d where "d = db\<lparr>reconciles := filter (\<lambda>a. rc_payment a \<noteq> pid) (reconciles db)\<rparr>"
  have f: "foldE (\<lambda>i d. refreshResidual d i)
      (remdups (map rc_move (filter (\<lambda>a. rc_payment a = pid) (reconciles db)))) d = Inr db'"
    using assms(1) by (simp add: unallocate_def d_def Let_def)
  have dd: "distinct_moves d" using assms(2) by (simp add: d_def books_ok_def distinct_moves_def)
  have "applied_sum d i = applied_sum db i" if "i \<notin> S" for i
  proof -
    have "filter (\<lambda>a. rc_payment a \<noteq> pid \<and> rc_move a = i) (reconciles db)
        = filter (\<lambda>a. rc_move a = i) (reconciles db)"
      using that by (auto simp: S_def intro!: filter_cong)
    then show ?thesis by (simp add: applied_sum_def d_def)
  qed
  then have "doc_current d m" if "m \<in> set (moves d)" "mv_id m \<notin> S" for m
    using that assms(2) by (auto simp: books_ok_def residuals_current_def doc_current_def due_def d_def)
  then have "\<forall>m \<in> set (moves d). mv_id m \<in> S \<or> doc_current d m" by auto
  note r = refresh_all_current [OF f dd this]
  show k: "map doc_key (moves db') = map doc_key (moves db)" using r(4) by (simp add: d_def)
  show "reconciles db' = filter (\<lambda>a. rc_payment a \<noteq> pid) (reconciles db)" "payments db' = payments db"
    using r(2,3) by (simp_all add: d_def)
  have "residuals_current db'" using r(1) by (auto simp: residuals_current_def S_def)
  then show "books_ok db'" using distinct_moves_keys [OF k] assms(2) by (simp add: books_ok_def)
qed

text \<open>Two current databases with the same documents and the same rows are the same.\<close>

lemma doc_current_unique:
  assumes "doc_key m = doc_key n" and "doc_current db m" and "doc_current db n"
  shows "m = n"
  using assms by (cases m; cases n) (simp add: doc_key_def doc_current_def due_def)

lemma books_ok_unique:
  assumes "books_ok db" and "books_ok db'" and "reconciles db' = reconciles db"
    and "payments db' = payments db" and k: "map doc_key (moves db') = map doc_key (moves db)"
  shows "db' = db"
proof -
  have len: "length (moves db') = length (moves db)" using k by (metis length_map)
  have "moves db' = moves db"
  proof (rule nth_equalityI [OF len])
    fix j assume j: "j < length (moves db')"
    have "doc_key (moves db' ! j) = doc_key (moves db ! j)" using k j len by (metis nth_map)
    moreover have "doc_current db (moves db' ! j)"
      using assms(2) j doc_current_cong [OF assms(3)]
      by (auto simp: books_ok_def residuals_current_def)
    moreover have "doc_current db (moves db ! j)"
      using assms(1) j len by (auto simp: books_ok_def residuals_current_def)
    ultimately show "moves db' ! j = moves db ! j" by (rule doc_current_unique)
  qed
  with assms(3,4) show ?thesis by (cases db; cases db') simp
qed

lemma foldE_returns:
  assumes "P s" and "\<And>x s. x \<in> set xs \<Longrightarrow> P s \<Longrightarrow> \<exists>t. f x s = Inr t \<and> P t"
  shows "\<exists>t. foldE f xs s = Inr t"
  using assms
proof (induction xs arbitrary: s)
  case (Cons x xs)
  then obtain t where "f x s = Inr t" "P t" by (metis list.set_intros(1))
  with Cons.IH [of t] Cons.prems show ?case by auto
qed simp

lemma refreshResidual_returns:
  assumes "\<forall>m \<in> set (moves db). in_int64 (due db m)"
  shows "\<exists>t. refreshResidual db i = Inr t \<and> (\<forall>m \<in> set (moves t). in_int64 (due t m))"
proof (cases "find_move db i")
  case None
  then show ?thesis using assms by (auto simp: refreshResidual_def residualOf_def)
next
  case (Some m)
  then have "in_int64 (due db m)" using assms find_move_in by auto
  then show ?thesis
    using Some find_move_in [OF Some] assms
    by (auto simp: refreshResidual_def residualOf_def due_def as_int64_def Let_def applied_sum_def)
qed

text \<open>C18: undoing an allocation restores the books. From a database whose stored residuals and
  payment states are those derived from its rows, allocating a payment that had no rows keeps
  them so, and unallocating that payment afterwards returns exactly the database the allocation
  started from.\<close>

theorem unallocate_undoes_allocate:
  assumes "allocate db pid rb ids = Inr (out, db')" and "books_ok db"
    and "\<forall>a \<in> set (reconciles db). rc_payment a \<noteq> pid"
    and "\<forall>m \<in> set (moves db). in_int64 (due db m)"
  shows "books_ok db' \<and> unallocate db' pid = Inr db"
  using assms(1)
proof (rule allocate_facts)
  fix p
  assume rc: "reconciles db' = reconciles db
       @ map (row_of pid (pay_date p) (pay_company_id p)) (applied out)"
    and pay: "payments db' = payments db" and k: "map doc_key (moves db') = map doc_key (moves db)"
    and b: "books_ok db \<longrightarrow> books_ok db'"
  have f: "filter (\<lambda>a. rc_payment a \<noteq> pid) (reconciles db') = reconciles db"
    using assms(3) by (simp add: rc)
  let ?d = "db'\<lparr>reconciles := filter (\<lambda>a. rc_payment a \<noteq> pid) (reconciles db')\<rparr>"
  have "in_int64 (due ?d m')" if m': "m' \<in> set (moves ?d)" for m'
  proof -
    have len: "length (moves db') = length (moves db)" using k by (metis length_map)
    from m' obtain j where j: "j < length (moves db)" "m' = moves db' ! j"
      by (auto simp: in_set_conv_nth len)
    have "doc_key m' = doc_key (moves db ! j)" using k j len by (metis nth_map)
    from doc_key_eqD [OF this] have "due ?d m' = due db (moves db ! j)"
      by (simp add: due_def applied_sum_def f [symmetric])
    with assms(4) j show ?thesis by simp
  qed
  then have "\<exists>t. unallocate db' pid = Inr t"
    unfolding unallocate_def Let_def
    by (intro foldE_returns [where P = "\<lambda>t. \<forall>m \<in> set (moves t). in_int64 (due t m)"])
      (auto intro!: refreshResidual_returns)
  then obtain t where t: "unallocate db' pid = Inr t" ..
  from b assms(2) have b': "books_ok db'" by simp
  note u = unallocate_facts [OF t b']
  have "t = db" using books_ok_unique [OF assms(2) u(1)] u f pay k by simp
  with t b' show ?thesis by simp
qed

text \<open>A concrete ledger: two posted invoices of partner 7, and a payment that covers the older one
  and part of the newer.\<close>

definition sample_db :: alloc_db where
  "sample_db = \<lparr>payments = [\<lparr>pay_id = 1, pay_partner = Some 7, pay_company = Some 1,
       pay_amount = 150000000, pay_rate = None, pay_date = Some 20000, pay_type = Some ''inbound'',
       pay_state = ''posted''\<rparr>],
     moves = [\<lparr>mv_id = 11, mv_partner = Some 7, mv_state = ''posted'', mv_type = ''out_invoice'',
         mv_date = 19990, mv_rate = None, mv_total = 100000000, mv_residual = 100000000,
         mv_payment_state = ''not_paid''\<rparr>,
       \<lparr>mv_id = 10, mv_partner = Some 7, mv_state = ''posted'', mv_type = ''out_invoice'',
         mv_date = 19980, mv_rate = None, mv_total = 80000000, mv_residual = 80000000,
         mv_payment_state = ''not_paid''\<rparr>],
     reconciles = []\<rparr>"

definition sample_out :: allocation_result where
  "sample_out = \<lparr>applied = [\<lparr>al_move = 10, al_amount = fromMicros 80000000 0,
       al_base = fromMicros 80000000 0, al_fx = fromMicros 0 0\<rparr>,
     \<lparr>al_move = 11, al_amount = fromMicros 70000000 0, al_base = fromMicros 70000000 0,
       al_fx = fromMicros 0 0\<rparr>],
     totalApplied = fromMicros 150000000 0, unallocated = fromMicros 0 0,
     totalFxDiff = fromMicros 0 0\<rparr>"

definition sample_after :: alloc_db where
  "sample_after = \<lparr>payments = payments sample_db,
     moves = [\<lparr>mv_id = 11, mv_partner = Some 7, mv_state = ''posted'', mv_type = ''out_invoice'',
         mv_date = 19990, mv_rate = None, mv_total = 100000000, mv_residual = 30000000,
         mv_payment_state = ''partial''\<rparr>,
       \<lparr>mv_id = 10, mv_partner = Some 7, mv_state = ''posted'', mv_type = ''out_invoice'',
         mv_date = 19980, mv_rate = None, mv_total = 80000000, mv_residual = 0,
         mv_payment_state = ''paid''\<rparr>],
     reconciles = [\<lparr>rc_payment = 1, rc_move = 10, rc_amount = 80000000, rc_base = 80000000, rc_fx = 0,
         rc_date = 20000, rc_company = 1\<rparr>,
       \<lparr>rc_payment = 1, rc_move = 11, rc_amount = 70000000, rc_base = 70000000, rc_fx = 0,
         rc_date = 20000, rc_company = 1\<rparr>]\<rparr>"

lemma sample_allocate: "allocate sample_db 1 (zero_money 0) [] = Inr (sample_out, sample_after)"
  by code_simp

lemma sample_facts:
  "find_posted sample_db 1 = Some \<lparr>pay_id = 1, pay_partner = Some 7, pay_company = Some 1,
     pay_amount = 150000000, pay_rate = None, pay_date = Some 20000, pay_type = Some ''inbound'',
     pay_state = ''posted''\<rparr>"
  "books_ok sample_db" "distinct_moves sample_db"
  "\<forall>m \<in> set (moves sample_db). 0 \<le> due sample_db m"
  "\<forall>m \<in> set (moves sample_db). in_int64 (due sample_db m)"
  "\<forall>a \<in> set (reconciles sample_db). rc_payment a \<noteq> 1"
  by code_simp+


lemma allocate_never_overpays_witness:
  "0 \<le> due sample_after (moves sample_db ! 0)
    \<and> due sample_after (moves sample_db ! 0) \<le> due sample_db (moves sample_db ! 0)
    \<and> 0 \<le> micros (unallocated sample_out)"
proof -
  have "moves sample_db ! 0 \<in> set (moves sample_db)" by (simp add: sample_db_def)
  with allocate_never_overpays [OF sample_allocate sample_facts(1,3,4)] show ?thesis by simp
qed

lemma unallocate_undoes_allocate_witness: "unallocate sample_after 1 = Inr sample_db"
  using unallocate_undoes_allocate [OF sample_allocate sample_facts(2,6,5)] by simp

end
