(* ===== verification/Domain.thy ===== *)
theory Domain
  imports Prelude
begin

section \<open>Search domains and their SQL (modules/base/Domain.hpp)\<close>

text \<open>
  JSON values as the code sees them through nlohmann/json. A floating-point number is kept as
  its text. The library's serialiser \<open>dump\<close> is a parameter of the definitions that call it.
\<close>

datatype json =
    JNull
  | JBool bool
  | JInt int
  | JFloat string
  | JString string
  | JArray "json list"
  | JObject "(string \<times> json) list"

record domain_leaf =
  lf_field :: string
  lf_op :: string
  lf_value :: json

datatype domain_node =
    Leaf domain_leaf
  | NAnd "domain_node list"
  | NOr "domain_node list"
  | NNot domain_node

subsection \<open>Compilation to a WHERE clause\<close>

definition jsonToSqlParam :: "(json \<Rightarrow> string) \<Rightarrow> json \<Rightarrow> string" where
  "jsonToSqlParam dump v = (case v of
       JString s \<Rightarrow> s
     | JBool b \<Rightarrow> (if b then ''true'' else ''false'')
     | JNull \<Rightarrow> ''''
     | _ \<Rightarrow> dump v)"

definition col_char :: "char \<Rightarrow> bool" where
  "col_char c \<longleftrightarrow> isalnum c \<or> c = CHR ''_''"

definition sanitizeColumn :: "string list option \<Rightarrow> string \<Rightarrow> string result" where
  "sanitizeColumn allowed field =
     (if \<not> list_all col_char field
      then Inl (RuntimeError (''Domain: invalid field name '' @ quoted field))
      else case allowed of
          None \<Rightarrow> Inr field
        | Some cols \<Rightarrow>
            if field \<in> set cols then Inr field
            else Inl (RuntimeError (''Domain: field '' @ quoted field
                   @ '' is not filterable on this model'')))"

text \<open>The closure \<open>placeholder\<close>: bind one more value and name it by its position.\<close>

definition dollar :: "nat \<Rightarrow> string" where
  "dollar n = CHR ''$'' # nat_to_string n"

definition bind_param :: "string \<Rightarrow> string list \<Rightarrow> string \<times> string list" where
  "bind_param v ps = (dollar (length ps + 1), ps @ [v])"

fun in_list :: "(json \<Rightarrow> string) \<Rightarrow> json list \<Rightarrow> string list \<Rightarrow> string \<times> string list" where
  "in_list dump [] ps = ('''', ps)"
| "in_list dump [v] ps = bind_param (jsonToSqlParam dump v) ps"
| "in_list dump (v # w # vs) ps =
     (let (p, ps1) = bind_param (jsonToSqlParam dump v) ps;
          (q, ps2) = in_list dump (w # vs) ps1
      in (p @ '','' @ q, ps2))"

definition qualify :: "string \<Rightarrow> string \<Rightarrow> string" where
  "qualify tbl bare = (if tbl = '''' then bare else tbl @ ''.'' @ bare)"

definition leaf_text ::
  "(json \<Rightarrow> string) \<Rightarrow> string \<Rightarrow> string \<Rightarrow> json \<Rightarrow> string list \<Rightarrow> (string \<times> string list) result" where
  "leaf_text dump col op val ps =
     (let cmp = (\<lambda>t. let (p, ps') = bind_param (jsonToSqlParam dump val) ps in Inr (col @ t @ p, ps'));
          pat = (\<lambda>t. let (p, ps') = bind_param (''%'' @ jsonToSqlParam dump val @ ''%'') ps
                     in Inr (col @ t @ p, ps'))
      in if op = ''='' \<or> op = ''=?''
         then (if val = JNull then Inr (col @ '' IS NULL'', ps) else cmp '' = '')
         else if op = ''!=''
         then (if val = JNull then Inr (col @ '' IS NOT NULL'', ps) else cmp '' != '')
         else if op = ''<'' then cmp '' < ''
         else if op = ''<='' then cmp '' <= ''
         else if op = ''>'' then cmp '' > ''
         else if op = ''>='' then cmp '' >= ''
         else if op = ''like'' then pat '' LIKE ''
         else if op = ''ilike'' then pat '' ILIKE ''
         else if op = ''not like'' then pat '' NOT LIKE ''
         else if op = ''not ilike'' then pat '' NOT ILIKE ''
         else if op = ''in'' \<or> op = ''not in''
         then (case val of
                JArray (v # vs) \<Rightarrow>
                  let (l, ps') = in_list dump (v # vs) ps
                  in Inr (col @ (if op = ''in'' then '' IN '' else '' NOT IN '') @ ''('' @ l @ '')'', ps')
              | _ \<Rightarrow> Inr (if op = ''in'' then ''FALSE'' else ''TRUE'', ps))
         else Inl (RuntimeError (''Domain: unsupported operator '' @ quoted op)))"

definition compile_leaf ::
  "(json \<Rightarrow> string) \<Rightarrow> string list option \<Rightarrow> string \<Rightarrow> domain_leaf \<Rightarrow> string list
    \<Rightarrow> (string \<times> string list) result" where
  "compile_leaf dump allowed tbl leaf ps =
     bindE (sanitizeColumn allowed (lf_field leaf)) (\<lambda>bare.
       leaf_text dump (qualify tbl bare) (lf_op leaf) (lf_value leaf) ps)"

fun join :: "string \<Rightarrow> string list \<Rightarrow> string" where
  "join sep [] = ''''"
| "join sep [x] = x"
| "join sep (x # y # ys) = x @ sep @ join sep (y # ys)"

fun compile_node ::
    "(json \<Rightarrow> string) \<Rightarrow> string list option \<Rightarrow> string \<Rightarrow> domain_node \<Rightarrow> string list
      \<Rightarrow> (string \<times> string list) result"
  and compile_nodes ::
    "(json \<Rightarrow> string) \<Rightarrow> string list option \<Rightarrow> string \<Rightarrow> domain_node list \<Rightarrow> string list
      \<Rightarrow> (string list \<times> string list) result" where
  "compile_node dump allowed tbl (Leaf l) ps = compile_leaf dump allowed tbl l ps"
| "compile_node dump allowed tbl (NAnd cs) ps =
     (if cs = [] then Inr (''TRUE'', ps)
      else bindE (compile_nodes dump allowed tbl cs ps) (\<lambda>(ts, ps').
        Inr (''('' @ join '' AND '' ts @ '')'', ps')))"
| "compile_node dump allowed tbl (NOr cs) ps =
     (if cs = [] then Inr (''FALSE'', ps)
      else bindE (compile_nodes dump allowed tbl cs ps) (\<lambda>(ts, ps').
        Inr (''('' @ join '' OR '' ts @ '')'', ps')))"
| "compile_node dump allowed tbl (NNot c) ps =
     bindE (compile_node dump allowed tbl c ps) (\<lambda>(t, ps'). Inr (''(NOT '' @ t @ '')'', ps'))"
| "compile_nodes dump allowed tbl [] ps = Inr ([], ps)"
| "compile_nodes dump allowed tbl (c # cs) ps =
     bindE (compile_node dump allowed tbl c ps) (\<lambda>(t, ps1).
     bindE (compile_nodes dump allowed tbl cs ps1) (\<lambda>(ts, ps2). Inr (t # ts, ps2)))"

definition isEmpty_domain :: "domain_node \<Rightarrow> bool" where
  "isEmpty_domain d \<longleftrightarrow> d = NAnd []"

definition toSql ::
  "(json \<Rightarrow> string) \<Rightarrow> string list option \<Rightarrow> string \<Rightarrow> domain_node \<Rightarrow> (string \<times> string list) result" where
  "toSql dump allowed tbl root =
     (if isEmpty_domain root then Inr (''TRUE'', []) else compile_node dump allowed tbl root [])"

subsection \<open>Parsing the prefix notation\<close>

text \<open>The stack is a list whose head is the top.\<close>

definition parse_leaf :: "json \<Rightarrow> domain_node result" where
  "parse_leaf item = (case item of
       JArray [f, op, v] \<Rightarrow>
         (case f of JString fs \<Rightarrow>
            (case op of JString ops \<Rightarrow> Inr (Leaf \<lparr>lf_field = fs, lf_op = ops, lf_value = v\<rparr>)
             | _ \<Rightarrow> Inl JsonTypeError)
          | _ \<Rightarrow> Inl JsonTypeError)
     | _ \<Rightarrow> Inl (RuntimeError ''domainFromJson: leaf must be [field, op, value]''))"

definition parse_item :: "json \<Rightarrow> domain_node list \<Rightarrow> domain_node list result" where
  "parse_item item stack = (case item of
       JString op \<Rightarrow>
         if op = ''&'' then
           (case stack of r # l # rest \<Rightarrow> Inr (NAnd [l, r] # rest)
            | _ \<Rightarrow> Inl (RuntimeError (''domainFromJson: '' @ quoted ''&'' @ '' needs 2 operands'')))
         else if op = ''|'' then
           (case stack of r # l # rest \<Rightarrow> Inr (NOr [l, r] # rest)
            | _ \<Rightarrow> Inl (RuntimeError (''domainFromJson: '' @ quoted ''|'' @ '' needs 2 operands'')))
         else if op = ''!'' then
           (case stack of c # rest \<Rightarrow> Inr (NNot c # rest)
            | [] \<Rightarrow> Inl (RuntimeError (''domainFromJson: '' @ quoted ''!'' @ '' needs 1 operand'')))
         else Inl (RuntimeError (''domainFromJson: unknown operator '' @ quoted op))
     | _ \<Rightarrow> bindE (parse_leaf item) (\<lambda>n. Inr (n # stack)))"

definition parse_items :: "json list \<Rightarrow> domain_node list \<Rightarrow> domain_node list result" where
  "parse_items items = foldE parse_item (rev items)"

definition domain_of_stack :: "domain_node list \<Rightarrow> domain_node" where
  "domain_of_stack stack = (case stack of [n] \<Rightarrow> n | _ \<Rightarrow> NAnd (rev stack))"

definition domainFromJson :: "json \<Rightarrow> domain_node result" where
  "domainFromJson j = (case j of
       JArray (x # xs) \<Rightarrow> bindE (parse_items (x # xs) []) (\<lambda>stack. Inr (domain_of_stack stack))
     | _ \<Rightarrow> Inr (NAnd []))"

subsection \<open>The language of compiled clauses\<close>

text \<open>
  \<open>cond A i t j\<close>: \<open>t\<close> is a condition that an enclosing \<open>AND\<close> can take as an operand, names only
  columns in \<open>A\<close>, and uses exactly the placeholders \<open>i + 1\<close> to \<open>j\<close>, in order.
\<close>

definition compare_ops :: "string list" where
  "compare_ops = ['' = '', '' != '', '' < '', '' <= '', '' > '', '' >= '', '' LIKE '', '' ILIKE '',
     '' NOT LIKE '', '' NOT ILIKE '']"

inductive cond :: "(string \<Rightarrow> bool) \<Rightarrow> nat \<Rightarrow> string \<Rightarrow> nat \<Rightarrow> bool"
  and conds :: "(string \<Rightarrow> bool) \<Rightarrow> nat \<Rightarrow> string list \<Rightarrow> nat \<Rightarrow> bool" for A where
  cond_const: "t = ''TRUE'' \<or> t = ''FALSE'' \<Longrightarrow> cond A i t i"
| cond_null: "A c \<Longrightarrow> t = '' IS NULL'' \<or> t = '' IS NOT NULL'' \<Longrightarrow> cond A i (c @ t) i"
| cond_compare: "A c \<Longrightarrow> t \<in> set compare_ops \<Longrightarrow> cond A i (c @ t @ dollar (i + 1)) (i + 1)"
| cond_in: "A c \<Longrightarrow> t = '' IN '' \<or> t = '' NOT IN '' \<Longrightarrow> 0 < n
    \<Longrightarrow> cond A i (c @ t @ ''('' @ join '','' (map dollar [i + 1..<i + 1 + n]) @ '')'') (i + n)"
| cond_connective: "conds A i ts j \<Longrightarrow> ts \<noteq> [] \<Longrightarrow> t = '' AND '' \<or> t = '' OR ''
    \<Longrightarrow> cond A i (''('' @ join t ts @ '')'') j"
| cond_not: "cond A i u j \<Longrightarrow> cond A i (''(NOT '' @ u @ '')'') j"
| conds_Nil: "conds A i [] i"
| conds_Cons: "cond A i u j \<Longrightarrow> conds A j ts k \<Longrightarrow> conds A i (u # ts) k"

text \<open>The columns a compilation may name.\<close>

definition column_ok :: "string list option \<Rightarrow> string \<Rightarrow> string \<Rightarrow> bool" where
  "column_ok allowed tbl c \<longleftrightarrow> (\<exists>bare. list_all col_char bare
     \<and> (\<forall>cols. allowed = Some cols \<longrightarrow> bare \<in> set cols)
     \<and> c = qualify tbl bare)"

lemma sanitizeColumn_Inr [exn_simps]:
  "sanitizeColumn allowed f = Inr r \<longleftrightarrow> r = f \<and> list_all col_char f
     \<and> (\<forall>cols. allowed = Some cols \<longrightarrow> f \<in> set cols)"
  by (auto simp: sanitizeColumn_def split: option.splits)

lemma join_Cons: "xs \<noteq> [] \<Longrightarrow> join sep (x # xs) = x @ sep @ join sep xs"
  by (cases xs) simp_all

lemma in_list_text:
  "in_list dump vs ps = (join '','' (map dollar [length ps + 1..<length ps + 1 + length vs]),
     ps @ map (jsonToSqlParam dump) vs)"
proof (induction dump vs ps rule: in_list.induct)
  case (3 dump v w vs ps)
  let ?p = "ps @ [jsonToSqlParam dump v]"
  let ?r = "[length ps + 2..<length ps + 2 + length (w # vs)]"
  have ih: "in_list dump (w # vs) ?p = (join '','' (map dollar ?r), ?p @ map (jsonToSqlParam dump) (w # vs))"
    using "3.IH" [OF refl, of "dollar (length ps + 1)" ?p] by (simp add: bind_param_def)
  have "[length ps + 1..<length ps + 1 + length (v # w # vs)] = (length ps + 1) # ?r"
    by (simp add: upt_conv_Cons del: upt_Suc)
  moreover have "?r \<noteq> []" by simp
  ultimately show ?case
    using ih by (simp add: bind_param_def join_Cons del: upt_Suc)
qed (simp_all add: bind_param_def)

lemma cond_leaf_text:
  assumes "leaf_text dump col op val ps = Inr (t, ps')" and c: "A col"
  shows "cond A (length ps) t (length ps') \<and> (\<exists>qs. ps' = ps @ qs)"
proof -
  note upt_Suc [simp del]
  have cmp: "cond A i (col @ t @ dollar (Suc i)) (Suc i)" if "t \<in> set compare_ops" for t i
    using cond_compare [of A col t i, OF c that] by simp
  have nul: "cond A i (col @ t) i" if "t = '' IS NULL'' \<or> t = '' IS NOT NULL''" for t i
    using cond_null [of A col t i, OF c that] .
  have inl: "cond A i (col @ t @ ''('' @ join '','' (map dollar [Suc i..<Suc (i + Suc n)]) @ '')'') (i + Suc n)"
    if "t = '' IN '' \<or> t = '' NOT IN ''" for t i n
    using cond_in [of A col t "Suc n" i, OF c that] by (simp del: upt_Suc)
  note texts = cmp [of "'' = ''"] cmp [of "'' != ''"] cmp [of "'' < ''"] cmp [of "'' <= ''"]
    cmp [of "'' > ''"] cmp [of "'' >= ''"] cmp [of "'' LIKE ''"] cmp [of "'' ILIKE ''"]
    cmp [of "'' NOT LIKE ''"] cmp [of "'' NOT ILIKE ''"] inl [of "'' IN ''"] inl [of "'' NOT IN ''"]
    nul [of "'' IS NULL''"] nul [of "'' IS NOT NULL''"]
    cond_const [of "''TRUE''"] cond_const [of "''FALSE''"]
  note texts = texts [unfolded compare_ops_def, simplified]
  from assms(1) show ?thesis
    unfolding leaf_text_def Let_def
    by (auto simp: bind_param_def in_list_text intro!: texts simp del: upt_Suc
        split: if_splits json.splits list.splits)
qed

lemma cond_compile_leaf:
  assumes "compile_leaf dump allowed tbl l ps = Inr (t, ps')"
  shows "cond (column_ok allowed tbl) (length ps) t (length ps') \<and> (\<exists>qs. ps' = ps @ qs)"
  using assms
  by (auto simp: compile_leaf_def exn_simps column_ok_def qualify_def intro!: cond_leaf_text)

lemma compile_cond:
  "compile_node dump allowed tbl d ps = Inr (t, ps') \<Longrightarrow>
     cond (column_ok allowed tbl) (length ps) t (length ps') \<and> (\<exists>qs. ps' = ps @ qs)"
  "compile_nodes dump allowed tbl ds ps = Inr (ts, ps') \<Longrightarrow>
     conds (column_ok allowed tbl) (length ps) ts (length ps') \<and> length ts = length ds
     \<and> (\<exists>qs. ps' = ps @ qs)"
proof (induction dump allowed tbl d ps and dump allowed tbl ds ps
    arbitrary: t ps' and ts ps'
    rule: compile_node_compile_nodes.induct)
  case (2 dump allowed tbl cs ps)
  then show ?case
    by (cases "cs = []")
      (fastforce simp: exn_simps intro: cond_const cond_connective [where t = "'' AND ''", simplified])+
next
  case (3 dump allowed tbl cs ps)
  then show ?case
    by (cases "cs = []")
      (fastforce simp: exn_simps intro: cond_const cond_connective [where t = "'' OR ''", simplified])+
next
  case (4 dump allowed tbl c ps)
  then show ?case
    by (fastforce simp: exn_simps intro: cond_not [simplified])
next
  case (6 dump allowed tbl c cs ps)
  then show ?case
    by (fastforce simp: exn_simps intro: conds_Cons)
qed (auto simp: cond_compile_leaf conds_Nil)

text \<open>C32: every clause the compiler emits is a well-formed condition, safe as an operand of the
  \<open>AND\<close> the callers append, that names only registered columns of the model and whose
  placeholders are exactly \<open>$1\<close> to \<open>$n\<close> for the n values bound.\<close>

theorem toSql_wellformed:
  assumes "toSql dump allowed tbl d = Inr (clause, params)"
  shows "cond (column_ok allowed tbl) 0 clause (length params)"
  using assms compile_cond(1) [of dump allowed tbl d "[]" clause params]
  by (auto simp: toSql_def intro: cond_const split: if_splits)

theorem toSql_wellformed_witness:
  "cond (column_ok (Some [''id'', ''name'']) '''') 0 ''(name ILIKE $1 AND id IN ($2,$3))'' 3"
proof -
  have "toSql (\<lambda>_. ''0'') (Some [''id'', ''name'']) ''''
     (NAnd [Leaf \<lparr>lf_field = ''name'', lf_op = ''ilike'', lf_value = JString ''x''\<rparr>,
            Leaf \<lparr>lf_field = ''id'', lf_op = ''in'', lf_value = JArray [JInt 1, JInt 2]\<rparr>])
     = Inr (''(name ILIKE $1 AND id IN ($2,$3))'', [''%x%'', ''0'', ''0''])"
    by code_simp
  from toSql_wellformed [OF this] show ?thesis by (simp add: numeral_3_eq_3)
qed

subsection \<open>Values never reach the text\<close>

definition shape :: "json \<Rightarrow> nat" where
  "shape v = (case v of JNull \<Rightarrow> 0 | JArray vs \<Rightarrow> 2 + length vs | _ \<Rightarrow> 1)"

fun map_values :: "(json \<Rightarrow> json) \<Rightarrow> domain_node \<Rightarrow> domain_node" where
  "map_values f (Leaf l) = Leaf (l\<lparr>lf_value := f (lf_value l)\<rparr>)"
| "map_values f (NAnd cs) = NAnd (map (map_values f) cs)"
| "map_values f (NOr cs) = NOr (map (map_values f) cs)"
| "map_values f (NNot c) = NNot (map_values f c)"

lemma shape_null: "shape v = 0 \<longleftrightarrow> v = JNull"
  by (simp add: shape_def split: json.splits)

lemma shape_array: "shape v = 2 + n \<longleftrightarrow> (\<exists>vs. v = JArray vs \<and> length vs = n)"
  by (auto simp: shape_def split: json.splits)

text \<open>The text and the number of bound values of a result.\<close>

definition text_count :: "(string \<times> string list) result \<Rightarrow> (string \<times> nat) result" where
  "text_count = map_sum id (\<lambda>(t, ps). (t, length ps))"

lemma text_count_simps [simp]: "text_count (Inr (t, ps)) = Inr (t, length ps)"
  "text_count (Inl e) = Inl e"
  by (simp_all add: text_count_def)

lemma text_count_Inr: "text_count r = Inr (t, n) \<longleftrightarrow> (\<exists>ps. r = Inr (t, ps) \<and> length ps = n)"
  by (cases r) auto

lemma leaf_text_count:
  assumes "shape v = shape w" and l: "length ps = length qs"
  shows "text_count (leaf_text dump col op v ps) = text_count (leaf_text dump col op w qs)"
proof (cases "\<exists>x xs. v = JArray (x # xs)")
  case True
  then obtain x xs where v: "v = JArray (x # xs)" by blast
  with assms(1) have "shape w = 2 + Suc (length xs)" by (simp add: shape_def)
  then obtain ws where ws: "w = JArray ws" "length ws = Suc (length xs)" unfolding shape_array by blast
  then obtain y ys where w: "w = JArray (y # ys)" and "length ys = length xs" by (cases ws) auto
  with v l show ?thesis
    by (simp add: leaf_text_def Let_def bind_param_def in_list_text if_distrib [of text_count]
        del: upt_Suc cong: if_cong)
next
  case False
  have nw: "\<nexists>x xs. w = JArray (x # xs)"
  proof
    assume "\<exists>x xs. w = JArray (x # xs)"
    then obtain y ys where "w = JArray (y # ys)" by blast
    with assms(1) have "shape v = 2 + Suc (length ys)" by (simp add: shape_def)
    then obtain vs where "v = JArray vs" "length vs = Suc (length ys)" unfolding shape_array by blast
    with False show False by (cases vs) auto
  qed
  have arr: "(case u of JArray (x # xs) \<Rightarrow> f x xs | _ \<Rightarrow> r) = r" if "\<nexists>x xs. u = JArray (x # xs)"
    for u and f :: "json \<Rightarrow> json list \<Rightarrow> (string \<times> string list) result" and r
    using that by (auto split: json.splits list.splits)
  have "(v = JNull) = (w = JNull)" using assms(1) shape_null by metis
  with l show ?thesis
    unfolding leaf_text_def arr [OF False] arr [OF nw] Let_def bind_param_def
    by (simp add: if_distrib [of text_count] cong: if_cong)
qed

lemma leaf_text_shape:
  assumes "leaf_text dump col op v ps = Inr (t, ps')" and "shape v = shape w" and "length ps = length qs"
  shows "\<exists>qs'. leaf_text dump col op w qs = Inr (t, qs') \<and> length qs' = length ps'"
  using leaf_text_count [OF assms(2,3), of dump col op] assms(1)
  by (auto simp: text_count_Inr dest: sym)

lemma compile_values:
  "compile_node dump allowed tbl d ps = Inr (t, ps') \<Longrightarrow> (\<And>v. shape (f v) = shape v)
    \<Longrightarrow> length qs = length ps
    \<Longrightarrow> \<exists>qs'. compile_node dump allowed tbl (map_values f d) qs = Inr (t, qs') \<and> length qs' = length ps'"
  "compile_nodes dump allowed tbl ds ps = Inr (ts, ps') \<Longrightarrow> (\<And>v. shape (f v) = shape v)
    \<Longrightarrow> length qs = length ps
    \<Longrightarrow> \<exists>qs'. compile_nodes dump allowed tbl (map (map_values f) ds) qs = Inr (ts, qs')
          \<and> length qs' = length ps'"
proof (induction dump allowed tbl d ps and dump allowed tbl ds ps
    arbitrary: t ps' qs and ts ps' qs rule: compile_node_compile_nodes.induct)
  case (1 dump allowed tbl l ps)
  then show ?case
    using leaf_text_shape [where v = "lf_value l" and w = "f (lf_value l)"]
    by (auto simp: compile_leaf_def exn_simps)
next
  case (2 dump allowed tbl cs ps)
  then show ?case by (cases "cs = []") (fastforce simp: exn_simps)+
next
  case (3 dump allowed tbl cs ps)
  then show ?case by (cases "cs = []") (fastforce simp: exn_simps)+
next
  case (4 dump allowed tbl c ps)
  then show ?case by (fastforce simp: exn_simps)
next
  case (6 dump allowed tbl c cs ps)
  from "6.prems"(1) obtain t1 ps1 ts2 where c: "compile_node dump allowed tbl c ps = Inr (t1, ps1)"
    and cs: "compile_nodes dump allowed tbl cs ps1 = Inr (ts2, ps')" and ts: "ts = t1 # ts2"
    by (auto simp: exn_simps)
  from "6.IH"(1) [OF c "6.prems"(2,3)] obtain q1 where
    q: "compile_node dump allowed tbl (map_values f c) qs = Inr (t1, q1)" "length q1 = length ps1"
    by blast
  from "6.IH"(2) [OF c refl cs "6.prems"(2) q(2)] q ts show ?case by auto
qed auto

text \<open>C33: no value of a domain reaches the SQL text. Replacing the values of a domain by any
  others of the same shape (null stays null, a list keeps its length) leaves the compiled clause
  unchanged, character for character; only the bound parameters differ.\<close>

theorem toSql_values_bound:
  assumes "toSql dump allowed tbl d = Inr (clause, params)" and "\<And>v. shape (f v) = shape v"
  shows "\<exists>params'. toSql dump allowed tbl (map_values f d) = Inr (clause, params')
    \<and> length params' = length params"
proof -
  have "isEmpty_domain (map_values f d) = isEmpty_domain d"
    by (cases d) (simp_all add: isEmpty_domain_def)
  with assms(1) compile_values(1) [where qs = "[]" and f = f, OF _ assms(2)] show ?thesis
    by (auto simp: toSql_def split: if_splits)
qed

theorem toSql_values_bound_witness:
  "\<exists>params'. toSql (\<lambda>_. ''0'') (Some [''name'']) ''''
     (map_values (\<lambda>v. case v of JString s \<Rightarrow> JString (s @ '' OR 1=1'') | _ \<Rightarrow> v)
       (Leaf \<lparr>lf_field = ''name'', lf_op = ''='', lf_value = JString ''a''\<rparr>))
     = Inr (''name = $1'', params') \<and> length params' = 1"
proof -
  have h: "toSql (\<lambda>_. ''0'') (Some [''name'']) ''''
     (Leaf \<lparr>lf_field = ''name'', lf_op = ''='', lf_value = JString ''a''\<rparr>) = Inr (''name = $1'', [''a''])"
    by code_simp
  show ?thesis
    using toSql_values_bound [OF h, of "\<lambda>v. case v of JString s \<Rightarrow> JString (s @ '' OR 1=1'') | _ \<Rightarrow> v"]
    by (simp add: shape_def split: json.splits)
qed

subsection \<open>What a domain selects\<close>

text \<open>
  The meaning of a condition over one row is SQL's three-valued logic: \<open>None\<close> is unknown. A leaf is
  evaluated by \<open>ev\<close>, the database; a row is returned when the whole condition is true.
\<close>

fun and3 :: "bool option \<Rightarrow> bool option \<Rightarrow> bool option" where
  "and3 (Some False) _ = Some False"
| "and3 _ (Some False) = Some False"
| "and3 (Some True) y = y"
| "and3 x (Some True) = x"
| "and3 None None = None"

definition not3 :: "bool option \<Rightarrow> bool option" where
  "not3 x = map_option Not x"

definition or3 :: "bool option \<Rightarrow> bool option \<Rightarrow> bool option" where
  "or3 x y = not3 (and3 (not3 x) (not3 y))"

fun sat :: "(domain_leaf \<Rightarrow> bool option) \<Rightarrow> domain_node \<Rightarrow> bool option" where
  "sat ev (Leaf l) = ev l"
| "sat ev (NAnd cs) = foldr and3 (map (sat ev) cs) (Some True)"
| "sat ev (NOr cs) = foldr or3 (map (sat ev) cs) (Some False)"
| "sat ev (NNot c) = not3 (sat ev c)"

definition selects :: "(domain_leaf \<Rightarrow> bool option) \<Rightarrow> json \<Rightarrow> bool" where
  "selects ev j \<longleftrightarrow> (case domainFromJson j of Inl _ \<Rightarrow> False | Inr d \<Rightarrow> sat ev d = Some True)"

lemma and3_True [simp]: "and3 x y = Some True \<longleftrightarrow> x = Some True \<and> y = Some True"
  by (cases "(x, y)" rule: and3.cases) auto

lemma or3_True [simp]: "or3 x y = Some True \<longleftrightarrow> x = Some True \<or> y = Some True"
proof -
  have "z = None \<or> z = Some True \<or> z = Some False" for z :: "bool option" by (cases z) auto
  from this [of x] this [of y] show ?thesis by (elim disjE) (simp_all add: or3_def not3_def)
qed

lemma foldr_and3_True [simp]:
  "foldr and3 xs (Some True) = Some True \<longleftrightarrow> (\<forall>x \<in> set xs. x = Some True)"
  by (induction xs) auto

lemma foldr_or3_True [simp]:
  "foldr or3 xs (Some False) = Some True \<longleftrightarrow> (\<exists>x \<in> set xs. x = Some True)"
  by (induction xs) auto

lemma sat_domain_of_stack:
  "sat ev (domain_of_stack st) = Some True \<longleftrightarrow> (\<forall>n \<in> set st. sat ev n = Some True)"
proof -
  have "sat ev (NAnd (rev st)) = Some True \<longleftrightarrow> (\<forall>n \<in> set st. sat ev n = Some True)" by simp
  then show ?thesis
    by (cases st rule: remdups_adj.cases) (simp_all add: domain_of_stack_def del: sat.simps(2))
qed

text \<open>The parser reads right to left: what stands to the right is below on the stack, and a run
  that succeeds on its own succeeds above any stack and leaves it alone.\<close>

lemma parse_item_frame: "parse_item i s = Inr s' \<Longrightarrow> parse_item i (s @ t) = Inr (s' @ t)"
  by (auto simp: parse_item_def exn_simps split: json.splits if_splits list.splits)

lemma foldE_parse_frame: "foldE parse_item xs s = Inr s' \<Longrightarrow> foldE parse_item xs (s @ t) = Inr (s' @ t)"
proof (induction xs arbitrary: s)
  case (Cons x xs)
  then obtain u where "parse_item x s = Inr u" "foldE parse_item xs u = Inr s'" by (auto simp: exn_simps)
  with Cons.IH parse_item_frame show ?case by (metis bindE_Inr foldE.simps(2))
qed simp

lemma parse_items_frame: "parse_items xs s = Inr s' \<Longrightarrow> parse_items xs (s @ t) = Inr (s' @ t)"
  unfolding parse_items_def by (rule foldE_parse_frame)

lemma parse_items_append: "parse_items (xs @ ys) s = bindE (parse_items ys s) (parse_items xs)"
  by (simp add: parse_items_def foldE_append)

lemma parse_items_Nil [simp]: "parse_items [] s = Inr s"
  by (simp add: parse_items_def)

lemma parse_items_Cons: "parse_items (x # xs) s = bindE (parse_items xs s) (parse_item x)"
  using parse_items_append [of "[x]" xs s] by (simp add: parse_items_def) (simp add: bindE_def split: sum.splits)

text \<open>A domain that parses by itself, and what it selects, in terms of its items.\<close>

definition parses :: "json list \<Rightarrow> bool" where
  "parses xs \<longleftrightarrow> (\<exists>st. parse_items xs [] = Inr st)"

lemma selects_items:
  "selects ev (JArray xs) \<longleftrightarrow> (\<exists>st. parse_items xs [] = Inr st \<and> (\<forall>n \<in> set st. sat ev n = Some True))"
proof (cases xs)
  case Nil
  then show ?thesis by (simp add: selects_def domainFromJson_def)
next
  case (Cons x ys)
  then show ?thesis
    by (cases "parse_items xs []") (auto simp: selects_def domainFromJson_def sat_domain_of_stack)
qed

lemma selects_append:
  assumes "parses xs" and "parses ys"
  shows "selects ev (JArray (xs @ ys)) \<longleftrightarrow> selects ev (JArray xs) \<and> selects ev (JArray ys)"
proof -
  from assms obtain s t where s: "parse_items xs [] = Inr s" and t: "parse_items ys [] = Inr t"
    by (auto simp: parses_def)
  have "parse_items (xs @ ys) [] = Inr (s @ t)"
    using parse_items_frame [OF s, of t] by (simp add: parse_items_append t)
  with s t show ?thesis by (auto simp: selects_items)
qed

lemma parses_append: "parses xs \<Longrightarrow> parses ys \<Longrightarrow> parses (xs @ ys)"
  using parse_items_frame [of xs "[]"] by (fastforce simp: parses_def parse_items_append)

end
