(* ===== verification/TtlCache.thy ===== *)
theory TtlCache
  imports Prelude
begin

section \<open>Expiring cache (core/infrastructure/TtlCache.hpp)\<close>

text \<open>
  The map of the cache with its lazy eviction: time is a parameter of every operation that reads
  the clock, in seconds of the steady clock, and \<open>None\<close> as expiry is \<open>time_point::max()\<close>.
  \<open>get\<close> returns the value and the map it leaves behind. The lock makes each operation atomic.
\<close>

record 'v entry =
  en_value :: 'v
  en_expiry :: "int option"

type_synonym ('k, 'v) ttl_cache = "'k \<rightharpoonup> 'v entry"

definition expired :: "int \<Rightarrow> 'v entry \<Rightarrow> bool" where
  "expired now e \<longleftrightarrow> (case en_expiry e of None \<Rightarrow> False | Some x \<Rightarrow> now > x)"

definition cache_get :: "int \<Rightarrow> ('k, 'v) ttl_cache \<Rightarrow> 'k \<Rightarrow> 'v option \<times> ('k, 'v) ttl_cache" where
  "cache_get now c k = (case c k of
       None \<Rightarrow> (None, c)
     | Some e \<Rightarrow> if expired now e then (None, c(k := None)) else (Some (en_value e), c))"

definition cache_set :: "int \<Rightarrow> ('k, 'v) ttl_cache \<Rightarrow> 'k \<Rightarrow> 'v \<Rightarrow> int \<Rightarrow> ('k, 'v) ttl_cache" where
  "cache_set now c k v ttl =
     c(k \<mapsto> \<lparr>en_value = v, en_expiry = (if ttl > 0 then Some (now + ttl) else None)\<rparr>)"

definition cache_invalidate :: "('k, 'v) ttl_cache \<Rightarrow> 'k \<Rightarrow> ('k, 'v) ttl_cache" where
  "cache_invalidate c k = c(k := None)"

definition cache_invalidateAll :: "('k, 'v) ttl_cache \<Rightarrow> ('k, 'v) ttl_cache" where
  "cache_invalidateAll c = Map.empty"

definition cache_size :: "('k, 'v) ttl_cache \<Rightarrow> nat" where
  "cache_size c = card (dom c)"

subsection \<open>The contract a client of the cache relies on\<close>

text \<open>
  \<open>get\<close> of a key after \<open>put\<close> answers the value until the time to live has passed, other keys are
  not affected, reading drops nothing a later read would have answered, and a flush forgets
  everything. A client that loads on a miss and stores for \<open>ttl\<close> seconds never serves a
  value older than that.
\<close>

locale expiring_store =
  fixes fetch :: "int \<Rightarrow> 'c \<Rightarrow> 'k \<Rightarrow> 'v option \<times> 'c"
    and put :: "int \<Rightarrow> 'c \<Rightarrow> 'k \<Rightarrow> 'v \<Rightarrow> int \<Rightarrow> 'c"
    and forget :: "'c \<Rightarrow> 'k \<Rightarrow> 'c"
  assumes fetch_put_same:
      "t \<le> now \<Longrightarrow> 0 < ttl \<Longrightarrow> fst (fetch now (put t c k v ttl) k) = (if now \<le> t + ttl then Some v else None)"
    and fetch_put_other: "j \<noteq> k \<Longrightarrow> fst (fetch now (put t c k v ttl) j) = fst (fetch now c j)"
    and fetch_fetch: "t \<le> now \<Longrightarrow> fst (fetch now (snd (fetch t c k)) j) = fst (fetch now c j)"
    and fetch_forget: "fst (fetch now (forget c k) j) = (if j = k then None else fst (fetch now c j))"
begin

definition read_through :: "(int \<Rightarrow> 'k \<Rightarrow> 'v) \<Rightarrow> int \<Rightarrow> int \<Rightarrow> 'c \<Rightarrow> 'k \<Rightarrow> 'v \<times> 'c" where
  "read_through load ttl now c k = (case fetch now c k of
       (Some v, c') \<Rightarrow> (v, c')
     | (None, c') \<Rightarrow> (load now k, put now c' k (load now k) ttl))"

definition recent :: "(int \<Rightarrow> 'k \<Rightarrow> 'v) \<Rightarrow> int \<Rightarrow> int \<Rightarrow> 'c \<Rightarrow> bool" where
  "recent load ttl T c \<longleftrightarrow> (\<forall>now k v. T \<le> now \<longrightarrow> fst (fetch now c k) = Some v
     \<longrightarrow> (\<exists>t \<le> T. now \<le> t + ttl \<and> v = load t k))"

lemma recent_mono: "recent load ttl T c \<Longrightarrow> T \<le> T' \<Longrightarrow> recent load ttl T' c"
  unfolding recent_def by (meson order_trans)

lemma read_through_recent:
  assumes r: "recent load ttl T c" and t: "T \<le> now" and p: "0 < ttl"
    and e: "read_through load ttl now c k = (v, c')"
  shows "recent load ttl now c'" and "\<exists>t \<le> now. now \<le> t + ttl \<and> v = load t k"
proof -
  have r': "recent load ttl now c" using recent_mono [OF r t] .
  then have f: "recent load ttl now (snd (fetch now c k))" by (simp add: recent_def fetch_fetch)
  have "recent load ttl now c' \<and> (\<exists>t \<le> now. now \<le> t + ttl \<and> v = load t k)"
  proof (cases "fst (fetch now c k)")
    case (Some w)
    then have "v = w" "c' = snd (fetch now c k)"
      using e by (auto simp: read_through_def split: prod.splits)
    with f r' Some show ?thesis by (auto simp: recent_def)
  next
    case None
    then have c': "v = load now k" "c' = put now (snd (fetch now c k)) k (load now k) ttl"
      using e by (auto simp: read_through_def split: prod.splits)
    have "recent load ttl now c'"
      unfolding recent_def
    proof (intro allI impI)
      fix n j w assume n: "now \<le> n" and w: "fst (fetch n c' j) = Some w"
      show "\<exists>t \<le> now. n \<le> t + ttl \<and> w = load t j"
      proof (cases "j = k")
        case True
        with w n p show ?thesis by (auto simp: c' fetch_put_same split: if_splits)
      next
        case False
        with w have "fst (fetch n (snd (fetch now c k)) j) = Some w" by (simp add: c' fetch_put_other)
        with f n show ?thesis by (auto simp: recent_def)
      qed
    qed
    moreover have "now \<le> now + ttl" using p by simp
    ultimately show ?thesis using c' by blast
  qed
  then show "recent load ttl now c'" "\<exists>t \<le> now. now \<le> t + ttl \<and> v = load t k" by auto
qed

lemma forget_recent: "recent load ttl T c \<Longrightarrow> recent load ttl T (forget c k)"
  by (auto simp: recent_def fetch_forget split: if_splits)

text \<open>After a key is forgotten the next read loads it anew.\<close>

lemma read_after_forget: "fst (read_through load ttl now (forget c k) k) = load now k"
proof -
  have "fst (fetch now (forget c k) k) = None" by (simp add: fetch_forget)
  then show ?thesis by (auto simp: read_through_def split: prod.splits option.splits)
qed

end

interpretation tc: expiring_store cache_get cache_set cache_invalidate
  by unfold_locales
    (auto simp: cache_get_def cache_set_def cache_invalidate_def expired_def split: option.splits)

lemma recent_empty: "tc.recent load ttl T Map.empty"
  by (simp add: tc.recent_def cache_get_def)

lemma cache_set_size:
  "finite (dom c) \<Longrightarrow> cache_size (cache_set now c k v ttl) \<le> cache_size c + 1"
  by (simp add: cache_size_def cache_set_def card_insert_le_m1 card_insert_if)

end
