(* ===== verification/RuleEngine.thy ===== *)
theory RuleEngine
  imports Domain TtlCache
begin

section \<open>Record rules (core/RuleEngine)\<close>

text \<open>
  Rules are rows of \<open>ir_rule\<close>; the query that reads them and the JSON parser of the library are
  parameters, the query returning \<open>None\<close> when it throws. The cache is that of theory TtlCache,
  with the 60 seconds the code gives it.
\<close>

record user_context =
  uc_uid :: int
  uc_companyId :: int
  uc_partnerId :: int
  uc_groupIds :: "int list"
  uc_isAdmin :: bool
  uc_allowedCompanyIds :: "int list"

definition hasGroup :: "user_context \<Rightarrow> int \<Rightarrow> bool" where
  "hasGroup u gid \<longleftrightarrow> gid \<in> set (uc_groupIds u)"

definition mayUseCompany :: "user_context \<Rightarrow> int \<Rightarrow> bool" where
  "mayUseCompany u cid \<longleftrightarrow> 0 < cid \<and> cid \<in> set (uc_allowedCompanyIds u)"

datatype rule_op = OpRead | OpWrite | OpCreate | OpUnlink

record rule_row =
  row_id :: int
  row_name :: string
  row_domain :: string
  row_flags :: "string list"
  row_groups :: string

record ir_rule =
  ru_id :: int
  ru_name :: string
  ru_model :: string
  ru_domain :: json
  ru_read :: bool
  ru_write :: bool
  ru_create :: bool
  ru_unlink :: bool
  ru_global :: bool
  ru_active :: bool
  ru_groups :: "int list"

definition is_t :: "string \<Rightarrow> bool" where
  "is_t s \<longleftrightarrow> s \<noteq> [] \<and> hd s = CHR ''t''"

text \<open>The PostgreSQL array literal of the groups; a token that is no integer is skipped.\<close>

definition parse_groups :: "string \<Rightarrow> int list" where
  "parse_groups s = (if length s > 2
     then concat (map (\<lambda>tok. case stoi tok of Inr g \<Rightarrow> [g] | Inl _ \<Rightarrow> [])
            (getline_tokens (CHR '','') (substr s 1 (length s - 2))))
     else [])"

definition load_rule :: "(string \<Rightarrow> json option) \<Rightarrow> string \<Rightarrow> rule_row \<Rightarrow> ir_rule" where
  "load_rule json_parse model r =
     \<lparr>ru_id = row_id r, ru_name = row_name r, ru_model = model,
      ru_domain = (case json_parse (row_domain r) of Some j \<Rightarrow> j | None \<Rightarrow> JArray []),
      ru_read = is_t (row_flags r ! 0), ru_write = is_t (row_flags r ! 1),
      ru_create = is_t (row_flags r ! 2), ru_unlink = is_t (row_flags r ! 3),
      ru_global = is_t (row_flags r ! 4), ru_active = is_t (row_flags r ! 5),
      ru_groups = parse_groups (row_groups r)\<rparr>"

definition query_rules ::
  "(string \<Rightarrow> json option) \<Rightarrow> (int \<Rightarrow> string \<Rightarrow> rule_row list option) \<Rightarrow> int \<Rightarrow> string \<Rightarrow> ir_rule list" where
  "query_rules json_parse query now model =
     (case query now model of None \<Rightarrow> [] | Some rows \<Rightarrow> map (load_rule json_parse model) rows)"

definition loadRules ::
  "(string \<Rightarrow> json option) \<Rightarrow> (int \<Rightarrow> string \<Rightarrow> rule_row list option) \<Rightarrow> int
    \<Rightarrow> (string, ir_rule list) ttl_cache \<Rightarrow> string \<Rightarrow> ir_rule list \<times> (string, ir_rule list) ttl_cache" where
  "loadRules json_parse query now cache model =
     (case cache_get now cache model of
        (Some rules, cache') \<Rightarrow> (rules, cache')
      | (None, cache') \<Rightarrow>
          let rules = query_rules json_parse query now model
          in (rules, cache_set now cache' model rules 60))"

definition substitute_value :: "user_context \<Rightarrow> json \<Rightarrow> json" where
  "substitute_value ctx val = (case val of
       JString s \<Rightarrow>
         if s = ''user.id'' then JInt (uc_uid ctx)
         else if s = ''user.company_id'' then JInt (uc_companyId ctx)
         else if s = ''user.partner_id'' then JInt (uc_partnerId ctx)
         else val
     | _ \<Rightarrow> val)"

definition substitute_item :: "user_context \<Rightarrow> json \<Rightarrow> json" where
  "substitute_item ctx item = (case item of
       JArray [f, op, v] \<Rightarrow> JArray [f, op, substitute_value ctx v]
     | _ \<Rightarrow> item)"

definition substituteVars :: "user_context \<Rightarrow> json \<Rightarrow> json" where
  "substituteVars ctx d = (case d of JArray xs \<Rightarrow> JArray (map (substitute_item ctx) xs) | _ \<Rightarrow> d)"

definition appliesToOp :: "ir_rule \<Rightarrow> rule_op \<Rightarrow> bool" where
  "appliesToOp r op = (case op of
       OpRead \<Rightarrow> ru_read r | OpWrite \<Rightarrow> ru_write r | OpCreate \<Rightarrow> ru_create r | OpUnlink \<Rightarrow> ru_unlink r)"

text \<open>\<open>json::is_array\<close> and \<open>json::empty\<close>.\<close>

definition is_array :: "json \<Rightarrow> bool" where
  "is_array j \<longleftrightarrow> (case j of JArray _ \<Rightarrow> True | _ \<Rightarrow> False)"

definition elements :: "json \<Rightarrow> json list" where
  "elements j = (case j of JArray xs \<Rightarrow> xs | JObject ps \<Rightarrow> map snd ps | JNull \<Rightarrow> [] | _ \<Rightarrow> [j])"

definition json_empty :: "json \<Rightarrow> bool" where
  "json_empty j \<longleftrightarrow> elements j = []"

definition domainAnd :: "json \<Rightarrow> json \<Rightarrow> json" where
  "domainAnd d1 d2 =
     (if \<not> is_array d1 \<or> json_empty d1 then d2
      else if \<not> is_array d2 \<or> json_empty d2 then d1
      else JArray (elements d1 @ elements d2))"

definition domainOr :: "json \<Rightarrow> json \<Rightarrow> json" where
  "domainOr d1 d2 =
     (if \<not> is_array d1 \<or> json_empty d1 then d2
      else if \<not> is_array d2 \<or> json_empty d2 then d1
      else JArray ([JString ''|'']
        @ replicate (length (elements d1) - 1) (JString ''&'') @ elements d1
        @ replicate (length (elements d2) - 1) (JString ''&'') @ elements d2))"

definition applicable_rules :: "ir_rule list \<Rightarrow> rule_op \<Rightarrow> ir_rule list" where
  "applicable_rules rules op = filter (\<lambda>r. ru_active r \<and> appliesToOp r op) rules"

definition global_domains :: "user_context \<Rightarrow> ir_rule list \<Rightarrow> json list" where
  "global_domains ctx rs = map (\<lambda>r. substituteVars ctx (ru_domain r)) (filter ru_global rs)"

definition group_domains :: "user_context \<Rightarrow> ir_rule list \<Rightarrow> json list" where
  "group_domains ctx rs = map (\<lambda>r. substituteVars ctx (ru_domain r))
     (filter (\<lambda>r. \<not> ru_global r \<and> list_ex (hasGroup ctx) (ru_groups r)) rs)"

definition combine_domains :: "json list \<Rightarrow> json list \<Rightarrow> json" where
  "combine_domains globals groups =
     (let res = foldl domainAnd (JArray []) globals
      in case groups of [] \<Rightarrow> res | g # gs \<Rightarrow> domainAnd res (foldl domainOr g gs))"

definition buildRuleDomain ::
  "(string \<Rightarrow> json option) \<Rightarrow> (int \<Rightarrow> string \<Rightarrow> rule_row list option) \<Rightarrow> int
    \<Rightarrow> (string, ir_rule list) ttl_cache \<Rightarrow> string \<Rightarrow> rule_op \<Rightarrow> user_context
    \<Rightarrow> json \<times> (string, ir_rule list) ttl_cache" where
  "buildRuleDomain json_parse query now cache model op ctx =
     (if uc_isAdmin ctx then (JArray [], cache)
      else let (rules, cache') = loadRules json_parse query now cache model;
               app = applicable_rules rules op
           in if app = [] then (JArray [], cache')
              else (combine_domains (global_domains ctx app) (group_domains ctx app), cache'))"

subsection \<open>The rules consulted are recent\<close>

lemma loadRules_read_through:
  "loadRules json_parse query now cache model
     = tc.read_through (query_rules json_parse query) 60 now cache model"
  by (simp add: loadRules_def tc.read_through_def Let_def split: prod.splits option.splits)

text \<open>No decision rests on rules older than a minute. From a cache whose entries are recent, the
  rules consulted at \<open>now\<close> are those the database held at some moment in the last 60 seconds, the
  cache stays recent, and after an invalidation of the model they are those of this moment.\<close>

theorem rules_recent:
  assumes "tc.recent (query_rules json_parse query) 60 T cache" and "T \<le> now"
    and "loadRules json_parse query now cache model = (rules, cache')"
  shows "(\<exists>t \<le> now. now \<le> t + 60 \<and> rules = query_rules json_parse query t model)
    \<and> tc.recent (query_rules json_parse query) 60 now cache'
    \<and> fst (loadRules json_parse query now (cache_invalidate cache model) model)
        = query_rules json_parse query now model"
  using tc.read_through_recent [OF assms(1,2) _ assms(3) [unfolded loadRules_read_through]]
    tc.read_after_forget [of "query_rules json_parse query" 60 now cache model]
  by (simp add: loadRules_read_through)

definition sample_query :: "int \<Rightarrow> string \<Rightarrow> rule_row list option" where
  "sample_query now model = Some [\<lparr>row_id = 1, row_name = ''own'', row_domain = ''[]'',
     row_flags = [''t'', ''t'', ''t'', ''t'', ''f'', ''t''], row_groups = ''{3,14}''\<rparr>]"

theorem rules_recent_witness:
  "\<exists>t \<le> 107. 107 \<le> t + 60
    \<and> query_rules (\<lambda>_. None) sample_query 107 ''sale.order'' = query_rules (\<lambda>_. None) sample_query t ''sale.order''"
proof -
  have "loadRules (\<lambda>_. None) sample_query 107 Map.empty ''sale.order''
    = (query_rules (\<lambda>_. None) sample_query 107 ''sale.order'',
       cache_set 107 Map.empty ''sale.order'' (query_rules (\<lambda>_. None) sample_query 107 ''sale.order'') 60)"
    by (simp add: loadRules_def cache_get_def Let_def)
  from rules_recent [OF recent_empty _ this, of 0] show ?thesis by simp
qed

lemma parse_groups_sample: "parse_groups ''{3,14}'' = [3, 14]"
  by (simp add: parse_groups_def substr_def getline_tokens.simps stoi_def stoi_pos_def int_prefix_def
      cctype_defs digit_val_def)

subsection \<open>Conjunction and disjunction of domains\<close>

definition and_op :: json where "and_op = JString ''&''"

definition leaf_item :: "json \<Rightarrow> bool" where
  "leaf_item x \<longleftrightarrow> (\<exists>f op v. x = JArray [JString f, JString op, v])"

text \<open>A domain in the form the rules of the modules have: a non-empty list of leaves.\<close>

definition simple :: "json \<Rightarrow> bool" where
  "simple d \<longleftrightarrow> (\<exists>xs. d = JArray xs \<and> xs \<noteq> [] \<and> list_all leaf_item xs)"

lemma parse_item_leaf: "leaf_item x \<Longrightarrow> \<exists>n. \<forall>s. parse_item x s = Inr (n # s)"
  by (auto simp: leaf_item_def parse_item_def parse_leaf_def)

lemma parse_items_leaves:
  "list_all leaf_item xs \<Longrightarrow> \<exists>ns. length ns = length xs \<and> (\<forall>s. parse_items xs s = Inr (ns @ s))"
proof (induction xs)
  case (Cons x xs)
  then obtain ns where ns: "length ns = length xs" "\<forall>s. parse_items xs s = Inr (ns @ s)" by auto
  obtain n where "\<forall>s. parse_item x s = Inr (n # s)" using parse_item_leaf [of x] Cons.prems by auto
  with ns show ?case by (intro exI [of _ "n # ns"]) (simp add: parse_items_Cons)
qed simp

lemma parse_item_and: "parse_item and_op (r # l # s) = Inr (NAnd [l, r] # s)"
  by (simp add: parse_item_def and_op_def)

lemma parse_ands:
  "length ns = Suc k \<Longrightarrow> \<exists>n. parse_items (replicate k and_op) (ns @ s) = Inr (n # s)
     \<and> (\<forall>ev. sat ev n = Some True \<longleftrightarrow> (\<forall>m \<in> set ns. sat ev m = Some True))"
proof (induction k arbitrary: ns)
  case 0
  then obtain n where "ns = [n]" by (cases ns) auto
  then show ?case by simp
next
  case (Suc k)
  then obtain a b ns' where ns: "ns = a # b # ns'" by (cases ns; cases "tl ns") auto
  with Suc.prems have "length (NAnd [b, a] # ns') = Suc k" by simp
  from Suc.IH [OF this] obtain n where
    n: "parse_items (replicate k and_op) ((NAnd [b, a] # ns') @ s) = Inr (n # s)"
    "\<forall>ev. sat ev n = Some True \<longleftrightarrow> (\<forall>m \<in> set (NAnd [b, a] # ns'). sat ev m = Some True)"
    by blast
  have "parse_items (replicate (Suc k) and_op) (ns @ s)
    = parse_items (replicate k and_op) ((NAnd [b, a] # ns') @ s)"
  proof -
    have "replicate (Suc k) and_op = replicate k and_op @ [and_op]"
      by (simp add: replicate_append_same)
    then show ?thesis by (simp add: parse_items_append parse_items_Cons ns parse_item_and)
  qed
  with n ns show ?case by auto
qed

lemma parse_grouped:
  assumes "simple d"
  shows "\<exists>n. \<forall>s. parse_items (replicate (length (elements d) - 1) and_op @ elements d) s = Inr (n # s)
    \<and> (\<forall>ev. sat ev n = Some True \<longleftrightarrow> selects ev d)"
proof -
  from assms obtain xs where d: "d = JArray xs" "xs \<noteq> []" "list_all leaf_item xs"
    by (auto simp: simple_def)
  obtain ns where ns: "length ns = length xs" "\<And>s. parse_items xs s = Inr (ns @ s)"
    using parse_items_leaves [OF d(3)] by blast
  have len: "length ns = Suc (length xs - 1)" using ns(1) d(2) by (cases xs) auto
  from parse_ands [OF len, of "[]"] obtain n where
    n: "parse_items (replicate (length xs - 1) and_op) ns = Inr [n]"
    "\<forall>ev. sat ev n = Some True \<longleftrightarrow> (\<forall>m \<in> set ns. sat ev m = Some True)" by auto
  have s: "selects ev d \<longleftrightarrow> (\<forall>m \<in> set ns. sat ev m = Some True)" for ev
    using ns(2) [of "[]"] by (simp add: d(1) selects_items)
  have "parse_items (replicate (length xs - 1) and_op @ xs) s = Inr (n # s)" for s
    using parse_items_frame [OF n(1), of s] ns(2) by (simp add: parse_items_append)
  with n(2) s show ?thesis by (auto simp: d(1) elements_def)
qed

lemma simple_props: "simple d \<Longrightarrow> is_array d \<and> \<not> json_empty d \<and> parses (elements d) \<and> d = JArray (elements d)"
  using parse_items_leaves [of "elements d"]
  by (fastforce simp: simple_def is_array_def json_empty_def elements_def parses_def)

lemma domainOr_simple:
  assumes "simple d1" and "simple d2"
  shows "parses (elements (domainOr d1 d2)) \<and> is_array (domainOr d1 d2)
    \<and> (selects ev (domainOr d1 d2) \<longleftrightarrow> selects ev d1 \<or> selects ev d2)"
proof -
  from parse_grouped [OF assms(1)] obtain n1 where
    n1: "\<And>s. parse_items (replicate (length (elements d1) - 1) and_op @ elements d1) s = Inr (n1 # s)"
    "\<And>ev. sat ev n1 = Some True \<longleftrightarrow> selects ev d1" by blast
  from parse_grouped [OF assms(2)] obtain n2 where
    n2: "\<And>s. parse_items (replicate (length (elements d2) - 1) and_op @ elements d2) s = Inr (n2 # s)"
    "\<And>ev. sat ev n2 = Some True \<longleftrightarrow> selects ev d2" by blast
  have d: "domainOr d1 d2 = JArray ([JString ''|''] @ (replicate (length (elements d1) - 1) and_op @ elements d1)
     @ (replicate (length (elements d2) - 1) and_op @ elements d2))"
    using simple_props [OF assms(1)] simple_props [OF assms(2)] by (simp add: domainOr_def and_op_def)
  have p: "parse_items (elements (domainOr d1 d2)) [] = Inr [NOr [n2, n1]]"
  proof -
    have "parse_items ((replicate (length (elements d1) - 1) and_op @ elements d1)
      @ (replicate (length (elements d2) - 1) and_op @ elements d2)) [] = Inr [n1, n2]"
      using n1(1) n2(1) by (subst parse_items_append) simp
    then show ?thesis
      unfolding d by (simp only: elements_def json.case append_Cons append_Nil parse_items_Cons bindE_Inr)
        (simp add: parse_item_def)
  qed
  then have "selects ev (domainOr d1 d2) \<longleftrightarrow> selects ev d1 \<or> selects ev d2"
    using n1(2) n2(2) d by (auto simp: elements_def selects_items)
  with p d show ?thesis by (auto simp: parses_def is_array_def)
qed

definition domain_ok :: "json \<Rightarrow> bool" where
  "domain_ok d \<longleftrightarrow> is_array d \<and> parses (elements d)"

lemma domain_ok_JArray [simp]: "domain_ok (JArray xs) = parses xs"
  by (simp add: domain_ok_def is_array_def elements_def)

lemma parses_Nil [simp]: "parses []"
  by (simp add: parses_def)

lemma selects_Nil [simp]: "selects ev (JArray [])"
  by (simp add: selects_items)

lemma simple_ok: "simple d \<Longrightarrow> domain_ok d"
  using simple_props by (simp add: domain_ok_def)

lemma domainAnd_ok:
  assumes "domain_ok d1" and "domain_ok d2"
  shows "domain_ok (domainAnd d1 d2) \<and> (selects ev (domainAnd d1 d2) \<longleftrightarrow> selects ev d1 \<and> selects ev d2)"
proof -
  from assms obtain xs ys where d: "d1 = JArray xs" "d2 = JArray ys" "parses xs" "parses ys"
    by (cases d1; cases d2) (auto simp: domain_ok_def is_array_def elements_def)
  show ?thesis
    using d parses_append [OF d(3,4)] selects_append [OF d(3,4), of ev]
    by (cases "xs = []"; cases "ys = []")
      (simp_all add: domainAnd_def is_array_def json_empty_def elements_def)
qed

lemma fold_domainAnd:
  "domain_ok acc \<Longrightarrow> \<forall>d \<in> set ds. domain_ok d \<Longrightarrow>
     domain_ok (foldl domainAnd acc ds)
     \<and> (selects ev (foldl domainAnd acc ds) \<longleftrightarrow> selects ev acc \<and> (\<forall>d \<in> set ds. selects ev d))"
proof (induction ds arbitrary: acc)
  case (Cons d ds)
  then have a: "domain_ok (domainAnd acc d)"
    "selects ev (domainAnd acc d) \<longleftrightarrow> selects ev acc \<and> selects ev d"
    using domainAnd_ok [of acc d] by auto
  from Cons.IH [OF a(1)] Cons.prems a(2) show ?case by auto
qed simp

lemma combine_domains_selects:
  assumes "\<forall>d \<in> set globals. domain_ok d" and "\<forall>d \<in> set groups. simple d" and "length groups \<le> 2"
  shows "domain_ok (combine_domains globals groups)
    \<and> (selects ev (combine_domains globals groups) \<longleftrightarrow>
        (\<forall>d \<in> set globals. selects ev d) \<and> (groups = [] \<or> (\<exists>d \<in> set groups. selects ev d)))"
proof -
  let ?g = "foldl domainAnd (JArray []) globals"
  have g: "domain_ok ?g" "selects ev ?g \<longleftrightarrow> (\<forall>d \<in> set globals. selects ev d)"
    using fold_domainAnd [of "JArray []" globals ev] assms(1) by auto
  show ?thesis
  proof (cases groups)
    case Nil
    with g show ?thesis by (simp add: combine_domains_def)
  next
    case (Cons a as)
    with assms(3) have "as = [] \<or> (\<exists>b. as = [b])" by (cases as) auto
    then have "domain_ok (foldl domainOr a as)
      \<and> (selects ev (foldl domainOr a as) \<longleftrightarrow> (\<exists>d \<in> set groups. selects ev d))"
      using assms(2) Cons simple_ok [of a] domainOr_simple [of a _ ev] by (auto simp: domain_ok_def)
    with g domainAnd_ok [OF g(1)] Cons show ?thesis by (simp add: combine_domains_def)
  qed
qed


definition own_row :: json where
  "own_row = JArray [JString ''user_id'', JString ''='', JString ''user.id'']"

definition sample_ctx :: user_context where
  "sample_ctx = \<lparr>uc_uid = 5, uc_companyId = 1, uc_partnerId = 9, uc_groupIds = [3], uc_isAdmin = False,
     uc_allowedCompanyIds = [1]\<rparr>"


text \<open>The combination does not extend to three matching group rules: the grouping operators are
  counted by items, so a third rule makes the domain one the parser rejects.\<close>

lemma three_group_rules_rejected:
  assumes "leaf_item a" and "leaf_item b" and "leaf_item c"
  shows "\<exists>e. domainFromJson (combine_domains [] [JArray [a], JArray [b], JArray [c]]) = Inl e"
  using assms
  by (auto simp: leaf_item_def combine_domains_def domainAnd_def domainOr_def is_array_def json_empty_def
      elements_def domainFromJson_def parse_items_def parse_item_def parse_leaf_def numeral_2_eq_2)

end
