(* ===== verification/FieldRegistry.thy ===== *)
theory FieldRegistry
  imports RuleEngine
begin

section \<open>Field metadata and the clauses built from it (modules/base/FieldRegistry.hpp, BaseModel.hpp)\<close>

text \<open>
  The registry is the vector of definitions and the index from names to positions, as in the code;
  \<open>DecimalPrecision\<close> is the list of values it has loaded. The second half holds the two checks an
  ORDER BY clause goes through (\<open>CallKwArgs::order\<close>, then \<open>validateOrder_\<close>) and the column lists
  and guards of \<open>BaseModel\<close> that rest on the registry alone.
\<close>

datatype field_type =
    Char | Text | Integer | Float | Boolean | Date | Datetime | Binary | Selection
  | Many2one | One2many | Many2many | Html | Monetary

definition fieldTypeName :: "field_type \<Rightarrow> string" where
  "fieldTypeName t = (case t of
       Char \<Rightarrow> ''char'' | Text \<Rightarrow> ''text'' | Integer \<Rightarrow> ''integer'' | Float \<Rightarrow> ''float''
     | Boolean \<Rightarrow> ''boolean'' | Date \<Rightarrow> ''date'' | Datetime \<Rightarrow> ''datetime'' | Binary \<Rightarrow> ''binary''
     | Selection \<Rightarrow> ''selection'' | Many2one \<Rightarrow> ''many2one'' | One2many \<Rightarrow> ''one2many''
     | Many2many \<Rightarrow> ''many2many'' | Html \<Rightarrow> ''html'' | Monetary \<Rightarrow> ''monetary'')"

record field_def =
  fd_name :: string
  fd_type :: field_type
  fd_string :: string
  fd_required :: bool
  fd_readonly :: bool
  fd_store :: bool
  fd_searchable :: bool
  fd_relation :: string
  fd_relationField :: string
  fd_selection :: "(string \<times> string) list"
  fd_compute :: bool
  fd_depends :: string
  fd_scaled :: bool
  fd_precisionName :: string

record field_registry =
  rg_fields :: "field_def list"
  rg_index :: "string \<rightharpoonup> nat"

definition empty_registry :: field_registry where
  "empty_registry = \<lparr>rg_fields = [], rg_index = Map.empty\<rparr>"

definition ident_start :: "char \<Rightarrow> bool" where
  "ident_start c \<longleftrightarrow> isalpha c \<or> c = CHR ''_''"

definition isValidIdentifier :: "string \<Rightarrow> bool" where
  "isValidIdentifier name \<longleftrightarrow> (case name of [] \<Rightarrow> False | c # cs \<Rightarrow> ident_start c \<and> list_all col_char cs)"

definition reg_add :: "field_registry \<Rightarrow> field_def \<Rightarrow> field_registry result" where
  "reg_add r d =
     (if \<not> isValidIdentifier (fd_name d)
      then Inl (InvalidArgument (''FieldRegistry: field name '' @ quoted (fd_name d)
             @ '' is not a valid SQL identifier ([a-zA-Z_][a-zA-Z0-9_]*)''))
      else if rg_index r (fd_name d) \<noteq> None
      then Inl (InvalidArgument (''FieldRegistry: duplicate field '' @ quoted (fd_name d)))
      else Inr \<lparr>rg_fields = rg_fields r @ [d], rg_index = (rg_index r)(fd_name d \<mapsto> length (rg_fields r))\<rparr>)"

definition reg_has :: "field_registry \<Rightarrow> string \<Rightarrow> bool" where
  "reg_has r name \<longleftrightarrow> rg_index r name \<noteq> None"

definition reg_get :: "field_registry \<Rightarrow> string \<Rightarrow> field_def result" where
  "reg_get r name = (case rg_index r name of
       None \<Rightarrow> Inl (OutOfRange ''map::at'')
     | Some i \<Rightarrow> if i < length (rg_fields r) then Inr (rg_fields r ! i) else Inl (OutOfRange ''vector''))"

definition isScaled :: "field_registry \<Rightarrow> string \<Rightarrow> bool" where
  "isScaled r name = (case rg_index r name of None \<Rightarrow> False | Some i \<Rightarrow> fd_scaled (rg_fields r ! i))"

definition kAccount :: string where "kAccount = ''Account''"
definition kProductUom :: string where "kProductUom = ''Product UoM''"

definition mark_one :: "string \<Rightarrow> field_registry \<Rightarrow> field_registry result" where
  "mark_one n r = (case rg_index r n of
       None \<Rightarrow> Inl (RuntimeError (''markScaled: no such field '' @ quoted n))
     | Some i \<Rightarrow>
         let f = rg_fields r ! i;
             p = (if fd_precisionName f = ''''
                  then (if fd_type f = Monetary then kAccount else kProductUom)
                  else fd_precisionName f)
         in Inr (r\<lparr>rg_fields := (rg_fields r)[i := f\<lparr>fd_scaled := True, fd_precisionName := p\<rparr>]\<rparr>))"

definition markScaled :: "string list \<Rightarrow> field_registry \<Rightarrow> field_registry result" where
  "markScaled names = foldE mark_one names"

definition set_one :: "string \<Rightarrow> string \<Rightarrow> field_registry \<Rightarrow> field_registry result" where
  "set_one p n r = (case rg_index r n of
       None \<Rightarrow> Inl (RuntimeError (''setPrecision: no such field '' @ quoted n))
     | Some i \<Rightarrow> Inr (r\<lparr>rg_fields := (rg_fields r)[i := (rg_fields r ! i)\<lparr>fd_precisionName := p\<rparr>]\<rparr>))"

definition setPrecision :: "string \<Rightarrow> string list \<Rightarrow> field_registry \<Rightarrow> field_registry result" where
  "setPrecision p names = foldE (set_one p) names"

definition storedColumnNames :: "field_registry \<Rightarrow> string list" where
  "storedColumnNames r = ''id'' # map fd_name
     (filter (\<lambda>f. fd_store f \<and> fd_type f \<noteq> One2many \<and> fd_type f \<noteq> Many2many) (rg_fields r))"

text \<open>\<open>DecimalPrecision::digits\<close>: \<open>None\<close> is a load that failed.\<close>

definition precision_digits :: "(string \<times> int) list option \<Rightarrow> string \<Rightarrow> int \<Rightarrow> int" where
  "precision_digits values name fallback =
     (case values of None \<Rightarrow> fallback
      | Some vs \<Rightarrow> (case map_of vs name of None \<Rightarrow> fallback | Some d \<Rightarrow> d))"

definition field_json :: "(string \<Rightarrow> int) option \<Rightarrow> field_def \<Rightarrow> (string \<times> json) list" where
  "field_json digits f =
     [(''type'', JString (fieldTypeName (fd_type f))),
      (''string'', JString (if fd_string f = '''' then fd_name f else fd_string f)),
      (''required'', JBool (fd_required f)),
      (''readonly'', JBool (fd_readonly f \<or> fd_compute f)),
      (''store'', JBool (fd_store f)),
      (''searchable'', JBool (fd_searchable f))]
     @ (if fd_compute f
        then (''compute'', JBool True)
             # (if fd_depends f = '''' then [] else [(''depends'', JString (fd_depends f))]) else [])
     @ (if fd_precisionName f = '''' then []
        else [(''digits'', JArray [JInt 16, JInt (case digits of None \<Rightarrow> 2 | Some d \<Rightarrow> d (fd_precisionName f))]),
              (''precision_name'', JString (fd_precisionName f))])
     @ (if fd_relation f = '''' then [] else [(''relation'', JString (fd_relation f))])
     @ (if fd_relationField f = '''' then [] else [(''relation_field'', JString (fd_relationField f))])
     @ (if fd_selection f = [] then []
        else [(''selection'', JArray (map (\<lambda>(v, l). JArray [JString v, JString l]) (fd_selection f)))])"

definition id_json :: "(string \<times> json) list" where
  "id_json = [(''type'', JString ''integer''), (''string'', JString ''ID''), (''required'', JBool False),
     (''readonly'', JBool True), (''store'', JBool True), (''searchable'', JBool True)]"

definition keep_attrs :: "string list \<Rightarrow> (string \<times> json) list \<Rightarrow> (string \<times> json) list" where
  "keep_attrs attrs fj = (if attrs = [] then fj else filter (\<lambda>(k, v). k \<in> set attrs) fj)"

definition registry_json ::
  "(string \<Rightarrow> int) option \<Rightarrow> field_registry \<Rightarrow> string list \<Rightarrow> string list \<Rightarrow> (string \<times> json) list" where
  "registry_json digits r flt attrs =
     (let out = map (\<lambda>f. (fd_name f, JObject (keep_attrs attrs (field_json digits f))))
            (filter (\<lambda>f. flt = [] \<or> fd_name f \<in> set flt) (rg_fields r))
      in if flt = [] \<or> ''id'' \<in> set flt
         then filter (\<lambda>(k, v). k \<noteq> ''id'') out @ [(''id'', JObject id_json)] else out)"

subsection \<open>The registry is consistent\<close>

definition reg_ok :: "field_registry \<Rightarrow> bool" where
  "reg_ok r \<longleftrightarrow> (\<forall>n i. rg_index r n = Some i \<longleftrightarrow> i < length (rg_fields r) \<and> fd_name (rg_fields r ! i) = n)
     \<and> (\<forall>f \<in> set (rg_fields r). isValidIdentifier (fd_name f))"

lemma reg_ok_empty: "reg_ok empty_registry"
  by (simp add: reg_ok_def empty_registry_def)

lemma reg_ok_has: "reg_ok r \<Longrightarrow> reg_has r n \<longleftrightarrow> n \<in> set (map fd_name (rg_fields r))"
  unfolding reg_ok_def reg_has_def
  by (auto simp: in_set_conv_nth intro: image_eqI nth_mem)

lemma reg_ok_distinct: "reg_ok r \<Longrightarrow> distinct (map fd_name (rg_fields r))"
  unfolding reg_ok_def distinct_conv_nth by (metis length_map nth_map option.inject)

lemma reg_add_ok:
  assumes "reg_add r d = Inr r'" and "reg_ok r"
  shows "reg_ok r' \<and> rg_fields r' = rg_fields r @ [d]"
proof -
  from assms(1) have v: "isValidIdentifier (fd_name d)" and n: "rg_index r (fd_name d) = None"
    and r': "r' = \<lparr>rg_fields = rg_fields r @ [d], rg_index = (rg_index r)(fd_name d \<mapsto> length (rg_fields r))\<rparr>"
    by (auto simp: reg_add_def split: if_splits)
  from assms(2) have i: "rg_index r m = Some j \<longleftrightarrow> j < length (rg_fields r) \<and> fd_name (rg_fields r ! j) = m" for m j
    by (simp add: reg_ok_def)
  have "fd_name (rg_fields r ! j) \<noteq> fd_name d" if "j < length (rg_fields r)" for j
    using i [of "fd_name d" j] n that by auto
  then have "rg_index r' m = Some j \<longleftrightarrow> j < length (rg_fields r') \<and> fd_name (rg_fields r' ! j) = m" for m j
    using i [of m j] n by (cases "j = length (rg_fields r)") (auto simp: r' nth_append less_Suc_eq)
  with v assms(2) show ?thesis by (auto simp: reg_ok_def r')
qed

lemma update_ok:
  assumes "reg_ok r" and "rg_index r n = Some i" and "fd_name f = fd_name (rg_fields r ! i)"
  shows "reg_ok (r\<lparr>rg_fields := (rg_fields r)[i := f]\<rparr>)
    \<and> map fd_name ((rg_fields r)[i := f]) = map fd_name (rg_fields r)"
proof -
  have i: "i < length (rg_fields r)" using assms(1,2) by (simp add: reg_ok_def)
  have n: "fd_name ((rg_fields r)[i := f] ! j) = fd_name (rg_fields r ! j)" if "j < length (rg_fields r)" for j
    using assms(3) i that by (cases "j = i") simp_all
  have m: "map fd_name ((rg_fields r)[i := f]) = map fd_name (rg_fields r)"
    using n by (intro nth_equalityI) simp_all
  have "\<forall>g \<in> set ((rg_fields r)[i := f]). isValidIdentifier (fd_name g)"
    using assms(1,3) i by (auto simp: reg_ok_def dest!: set_update_subset_insert [THEN subsetD])
  with n m assms(1) show ?thesis by (auto simp: reg_ok_def)
qed

lemma markScaled_ok:
  assumes "markScaled ns r = Inr r'" and "reg_ok r"
  shows "reg_ok r' \<and> map fd_name (rg_fields r') = map fd_name (rg_fields r)"
  using assms(1) [unfolded markScaled_def]
proof (rule foldE_invariant [where P = "\<lambda>t. reg_ok t \<and> map fd_name (rg_fields t) = map fd_name (rg_fields r)"])
  show "reg_ok r \<and> map fd_name (rg_fields r) = map fd_name (rg_fields r)" using assms(2) by simp
next
  fix n s t
  assume "reg_ok s \<and> map fd_name (rg_fields s) = map fd_name (rg_fields r)" and "mark_one n s = Inr t"
  then show "reg_ok t \<and> map fd_name (rg_fields t) = map fd_name (rg_fields r)"
    by (auto simp: mark_one_def Let_def update_ok split: option.splits)
qed

lemma setPrecision_ok:
  assumes "setPrecision p ns r = Inr r'" and "reg_ok r"
  shows "reg_ok r' \<and> map fd_name (rg_fields r') = map fd_name (rg_fields r)"
  using assms(1) [unfolded setPrecision_def]
proof (rule foldE_invariant [where P = "\<lambda>t. reg_ok t \<and> map fd_name (rg_fields t) = map fd_name (rg_fields r)"])
  show "reg_ok r \<and> map fd_name (rg_fields r) = map fd_name (rg_fields r)" using assms(2) by simp
next
  fix n s t
  assume "reg_ok s \<and> map fd_name (rg_fields s) = map fd_name (rg_fields r)" and "set_one p n s = Inr t"
  then show "reg_ok t \<and> map fd_name (rg_fields t) = map fd_name (rg_fields r)"
    by (auto simp: set_one_def update_ok split: option.splits)
qed

subsection \<open>ORDER BY clauses\<close>

text \<open>\<open>CallKwArgs::order\<close>, one turn of its loop on the rest of the text at a time.\<close>

definition is_blank :: "char \<Rightarrow> bool" where
  "is_blank c \<longleftrightarrow> c = CHR '' '' \<or> c = CHR 0x09"

definition toupper :: "char \<Rightarrow> char" where
  "toupper c = (if islower c then char_of ((of_char c :: nat) - 32) else c)"

definition skip_spaces :: "string \<Rightarrow> string" where
  "skip_spaces s = dropWhile is_blank s"

definition match_word :: "string \<Rightarrow> string \<Rightarrow> string option" where
  "match_word kw s =
     (if length s < length kw then None
      else if map toupper (take (length kw) s) \<noteq> kw then None
      else case drop (length kw) s of
          [] \<Rightarrow> Some []
        | c # cs \<Rightarrow> if col_char c then None else Some (c # cs))"

definition after_direction :: "string \<Rightarrow> string" where
  "after_direction s = (case match_word ''ASC'' s of Some r \<Rightarrow> r
     | None \<Rightarrow> (case match_word ''DESC'' s of Some r \<Rightarrow> r | None \<Rightarrow> s))"

definition order_end :: "string \<Rightarrow> string option" where
  "order_end s = (case s of [] \<Rightarrow> Some [] | c # r \<Rightarrow> if c = CHR '','' then Some r else None)"

definition order_turn :: "string \<Rightarrow> string option" where
  "order_turn s = (case skip_spaces s of
       [] \<Rightarrow> None
     | c # cs \<Rightarrow>
         if \<not> ident_start c then None
         else order_end (skip_spaces (after_direction (skip_spaces (dropWhile col_char (c # cs))))))"

lemma length_skip_spaces: "length (skip_spaces s) \<le> length s"
  unfolding skip_spaces_def by (rule length_dropWhile_le_length)

lemma match_word_suffix: "match_word kw s = Some r \<Longrightarrow> s = take (length kw) s @ r"
  unfolding match_word_def by (auto split: if_splits list.splits)

lemma order_end_Some: "order_end s = Some r \<longleftrightarrow> s = [] \<and> r = [] \<or> s = CHR '','' # r"
  by (auto simp: order_end_def split: list.splits if_splits)

definition direction :: "string \<Rightarrow> bool" where
  "direction d \<longleftrightarrow> d = [] \<or> map toupper d = ''ASC'' \<or> map toupper d = ''DESC''"

lemma after_direction_suffix: "\<exists>d. s = d @ after_direction s \<and> direction d"
proof -
  have mw: "map toupper (take (length kw) s) = kw" if "match_word kw s = Some x" for kw x
    using that by (auto simp: match_word_def split: if_splits)
  show ?thesis
  proof (cases "match_word ''ASC'' s")
    case (Some x)
    with match_word_suffix [OF Some] mw [OF Some] show ?thesis
      by (intro exI [of _ "take (length ''ASC'') s"]) (simp add: after_direction_def direction_def)
  next
    case None
    show ?thesis
    proof (cases "match_word ''DESC'' s")
      case (Some x)
      with None match_word_suffix [OF Some] mw [OF Some] show ?thesis
        by (intro exI [of _ "take (length ''DESC'') s"]) (simp add: after_direction_def direction_def)
    qed (use None in \<open>simp add: after_direction_def direction_def\<close>)
  qed
qed

lemma order_turn_shorter: "order_turn s = Some r \<Longrightarrow> length r < length s"
proof -
  assume a: "order_turn s = Some r"
  then obtain c cs where s1: "skip_spaces s = c # cs" and id: "ident_start c"
    by (auto simp: order_turn_def split: list.splits if_splits)
  define s2 where "s2 = skip_spaces (dropWhile col_char (c # cs))"
  have e: "order_end (skip_spaces (after_direction s2)) = Some r"
    using a s1 id by (simp add: order_turn_def s2_def)
  have "col_char c" using id by (auto simp: ident_start_def col_char_def isalnum_def)
  then have "length (dropWhile col_char (c # cs)) \<le> length cs"
    using length_dropWhile_le_length [of col_char cs] by simp
  then have "length s2 \<le> length cs" unfolding s2_def using length_skip_spaces le_trans by blast
  moreover have "length (after_direction s2) \<le> length s2"
    using after_direction_suffix [of s2] by (metis le_add2 length_append)
  moreover have "length r \<le> length (after_direction s2)"
    using e length_skip_spaces [of "after_direction s2"] by (auto simp: order_end_Some)
  moreover have "Suc (length cs) \<le> length s" using length_skip_spaces [of s] s1 by simp
  ultimately show ?thesis by linarith
qed

function order_loop :: "string \<Rightarrow> bool" where
  "order_loop s = (if s = [] then True
     else case order_turn s of None \<Rightarrow> False | Some r \<Rightarrow> order_loop r)"
  by pat_completeness auto

termination order_loop
  by (relation "measure length") (auto intro: order_turn_shorter)

declare order_loop.simps [simp del]

definition parse_order :: "string \<Rightarrow> string result" where
  "parse_order raw = (if raw = [] \<or> order_loop raw then Inr raw
     else Inl (InvalidArgument (''Invalid order clause: '' @ raw)))"

text \<open>\<open>validateOrder_\<close> on the tokens between commas.\<close>

definition order_column :: "string \<Rightarrow> string" where
  "order_column tok = takeWhile (\<lambda>c. \<not> is_blank c) (dropWhile is_blank tok)"

definition validate_token :: "field_registry \<Rightarrow> string \<Rightarrow> unit \<Rightarrow> unit result" where
  "validate_token r tok _ =
     (if dropWhile is_blank tok = [] then Inr ()
      else let col = order_column tok in
        if col \<noteq> ''id'' \<and> \<not> reg_has r col
        then Inl (InvalidArgument (''Unknown order field: '' @ col)) else Inr ())"

definition validateOrder :: "field_registry \<Rightarrow> string \<Rightarrow> unit result" where
  "validateOrder r order =
     (if order = [] then Inr () else foldE (validate_token r) (getline_tokens (CHR '','') order) ())"

definition buildSelectCols :: "field_registry \<Rightarrow> string list \<Rightarrow> string" where
  "buildSelectCols r flds =
     (if flds = [] then join '','' (storedColumnNames r)
      else ''id'' @ concat (map (\<lambda>f. if f \<noteq> ''id'' \<and> reg_has r f then '','' @ f else '''') flds))"

definition reject_key :: "field_registry \<Rightarrow> string \<Rightarrow> string \<Rightarrow> unit \<Rightarrow> unit result" where
  "reject_key r model k _ =
     (if k = ''id'' \<or> starts_with ''__'' k \<or> reg_has r k then Inr ()
      else Inl (ValidationError (''Unknown field '' @ quoted k @ '' on '' @ model)))"

definition rejectUnknownFields :: "field_registry \<Rightarrow> string \<Rightarrow> json \<Rightarrow> unit result" where
  "rejectUnknownFields r model vals = (case vals of
       JObject ps \<Rightarrow> foldE (\<lambda>(k, v). reject_key r model k) ps ()
     | _ \<Rightarrow> Inr ())"

subsection \<open>What an accepted ORDER BY can say\<close>

text \<open>One term: a column, blanks around it, and an optional direction set off by blanks.\<close>

definition order_term :: "(string \<Rightarrow> bool) \<Rightarrow> string \<Rightarrow> bool" where
  "order_term P t \<longleftrightarrow> (\<exists>a col b dir d. t = a @ col @ b @ dir @ d
     \<and> list_all is_blank a \<and> list_all is_blank b \<and> list_all is_blank d
     \<and> isValidIdentifier col \<and> direction dir \<and> (dir = [] \<or> b \<noteq> []) \<and> P col)"

lemma blank_not_col: "is_blank c \<Longrightarrow> \<not> col_char c"
  by (auto simp: is_blank_def col_char_def cctype_defs)

lemma comma_not: "\<not> is_blank (CHR '','')" "\<not> col_char (CHR '','')"
  by (simp_all add: is_blank_def col_char_def cctype_defs)

lemma direction_letters:
  assumes "direction d" and "c \<in> set d"
  shows "isalpha c"
proof -
  have "toupper c \<in> set (map toupper d)" using assms(2) by simp
  then have "toupper c \<in> set ''ASC'' \<union> set ''DESC''" using assms(1,2) by (auto simp: direction_def)
  then have "isupper (toupper c)" by (auto simp: isupper_def)
  then show ?thesis by (cases "islower c") (simp_all add: isalpha_def toupper_def)
qed

lemma direction_no_comma: "direction d \<Longrightarrow> CHR '','' \<notin> set d"
  using direction_letters by (fastforce simp: cctype_defs)

lemma span_blank: "\<exists>a. s = a @ skip_spaces s \<and> list_all is_blank a"
  unfolding skip_spaces_def
  by (rule exI [of _ "takeWhile is_blank s"]) (auto simp: list_all_iff dest: set_takeWhileD)

lemma no_comma_all: "list_all is_blank a \<Longrightarrow> CHR '','' \<notin> set a"
  using comma_not by (auto simp: list_all_iff)

lemma ident_split:
  assumes "ident_start c"
  shows "\<exists>col. c # cs = col @ dropWhile col_char (c # cs) \<and> isValidIdentifier col
    \<and> list_all col_char col"
proof -
  have "col_char c" using assms by (auto simp: ident_start_def col_char_def isalnum_def)
  then show ?thesis using assms
    by (intro exI [of _ "c # takeWhile col_char cs"])
      (auto simp: isValidIdentifier_def list_all_iff dest: set_takeWhileD)
qed

lemma order_turn_term:
  assumes "order_turn s = Some r"
  shows "\<exists>t. order_term (\<lambda>_. True) t \<and> CHR '','' \<notin> set t \<and> (s = t \<and> r = [] \<or> s = t @ CHR '','' # r)"
proof -
  obtain c cs where s1: "skip_spaces s = c # cs" and id: "ident_start c"
    using assms by (auto simp: order_turn_def Let_def split: list.splits if_splits)
  define s2 where "s2 = skip_spaces (dropWhile col_char (c # cs))"
  define s3 where "s3 = after_direction s2"
  define s4 where "s4 = skip_spaces s3"
  have fin: "s4 = [] \<and> r = [] \<or> s4 = CHR '','' # r"
    using assms s1 id by (simp add: order_turn_def s2_def s3_def s4_def order_end_Some)
  obtain a where a: "s = a @ c # cs" "list_all is_blank a" using span_blank [of s] s1 by auto
  obtain col where col: "c # cs = col @ dropWhile col_char (c # cs)" "isValidIdentifier col" "list_all col_char col"
    using ident_split [OF id] by blast
  obtain b where b: "dropWhile col_char (c # cs) = b @ s2" "list_all is_blank b"
    using span_blank [of "dropWhile col_char (c # cs)"] unfolding s2_def by blast
  obtain d where d: "s3 = d @ s4" "list_all is_blank d" using span_blank [of s3] unfolding s4_def by blast
  obtain dir where dir: "s2 = dir @ s3" "direction dir"
    using after_direction_suffix [of s2] unfolding s3_def by blast
  have sep: "dir = [] \<or> b \<noteq> []"
  proof (rule ccontr)
    assume n: "\<not> (dir = [] \<or> b \<noteq> [])"
    then obtain e es where e: "dir = e # es" by (cases dir) auto
    from n b(1) e dir(1) have "dropWhile col_char (c # cs) = e # (es @ s3)" by simp
    then have "\<not> col_char e" by (meson dropWhile_eq_Cons_conv)
    moreover have "col_char e"
      using direction_letters [OF dir(2), of e] e by (simp add: col_char_def isalnum_def)
    ultimately show False by simp
  qed
  let ?t = "a @ col @ b @ dir @ d"
  have st: "s = ?t @ s4"
  proof -
    have "s = a @ col @ (b @ s2)" using a(1) col(1) b(1) by metis
    then show ?thesis using dir(1) d(1) by simp
  qed
  have "CHR '','' \<notin> set ?t"
    using no_comma_all a(2) b(2) d(2) direction_no_comma [OF dir(2)] col(3) comma_not(2)
    by (auto simp: list_all_iff)
  moreover have "order_term (\<lambda>_. True) ?t"
    unfolding order_term_def using a(2) b(2) d(2) col(2) dir(2) sep by blast
  ultimately show ?thesis using st fin by (intro exI [of _ ?t]) auto
qed

lemma order_term_nonempty: "order_term P t \<Longrightarrow> t \<noteq> []"
  by (auto simp: order_term_def isValidIdentifier_def)

lemma tokens_last: "t \<noteq> [] \<Longrightarrow> CHR '','' \<notin> set t \<Longrightarrow> getline_tokens (CHR '','') t = [t]"
proof -
  assume t: "t \<noteq> []" "CHR '','' \<notin> set t"
  have "takeWhile (\<lambda>c. c \<noteq> CHR '','') t = t" "dropWhile (\<lambda>c. c \<noteq> CHR '','') t = []"
    using t(2) by (auto simp: takeWhile_eq_all_conv dropWhile_eq_Nil_conv)
  with t(1) show ?thesis
    by (subst getline_tokens.simps) (simp only: list.sel if_False, simp add: getline_tokens.simps)
qed

lemma tokens_comma: "CHR '','' \<notin> set t \<Longrightarrow>
    getline_tokens (CHR '','') (t @ CHR '','' # r) = t # getline_tokens (CHR '','') r"
proof -
  assume t: "CHR '','' \<notin> set t"
  have "takeWhile (\<lambda>c. c \<noteq> CHR '','') (t @ CHR '','' # r) = t"
    "dropWhile (\<lambda>c. c \<noteq> CHR '','') (t @ CHR '','' # r) = CHR '','' # r"
    using t by (auto simp: takeWhile_tail dropWhile_append3)
  then show ?thesis by (subst getline_tokens.simps) simp
qed

lemma order_loop_terms:
  "order_loop s \<Longrightarrow> \<forall>t \<in> set (getline_tokens (CHR '','') s). order_term (\<lambda>_. True) t"
proof (induction s rule: order_loop.induct)
  case (1 s)
  show ?case
  proof (cases "s = []")
    case True
    then show ?thesis by (simp add: getline_tokens.simps)
  next
    case False
    then obtain r where r: "order_turn s = Some r" "order_loop r"
      using "1.prems" by (auto simp: order_loop.simps [of s] split: option.splits)
    then have ih: "\<forall>t \<in> set (getline_tokens (CHR '','') r). order_term (\<lambda>_. True) t"
      using "1.IH" [OF False r(1)] by simp
    from order_turn_term [OF r(1)] obtain t where t: "order_term (\<lambda>_. True) t" "CHR '','' \<notin> set t"
      "s = t \<and> r = [] \<or> s = t @ CHR '','' # r" by blast
    from t(3) show ?thesis
      using ih t(1,2) order_term_nonempty [OF t(1)] by (auto simp: tokens_last tokens_comma)
  qed
qed

lemma order_column_term:
  assumes "t = a @ col @ b @ dir @ d" and "list_all is_blank a" and "list_all is_blank b"
    and "list_all is_blank d" and "isValidIdentifier col" and "dir = [] \<or> b \<noteq> []"
  shows "order_column t = col \<and> dropWhile is_blank t \<noteq> []"
proof -
  have nb: "\<not> is_blank c" if "c \<in> set col" for c
  proof -
    have "col_char c" using assms(5) that
      by (auto simp: isValidIdentifier_def list_all_iff ident_start_def col_char_def isalnum_def
          split: list.splits)
    then show ?thesis using blank_not_col by blast
  qed
  have ne: "col \<noteq> []" using assms(5) by (auto simp: isValidIdentifier_def)
  let ?r = "b @ dir @ d"
  have r: "?r = [] \<or> is_blank (hd ?r)"
  proof (cases b)
    case Nil
    with assms(6,4) show ?thesis by (cases d) (auto simp: list_all_iff)
  next
    case (Cons x xs)
    with assms(3) show ?thesis by (simp add: list_all_iff)
  qed
  have "dropWhile is_blank t = dropWhile is_blank (col @ ?r)"
    unfolding assms(1) using assms(2) by (simp add: list_all_iff dropWhile_append2)
  also have "\<dots> = col @ ?r" using ne nb by (cases col) auto
  finally have dt: "dropWhile is_blank t = col @ ?r" .
  have "takeWhile (\<lambda>c. \<not> is_blank c) (col @ ?r) = col"
  proof (cases ?r)
    case Nil
    with nb show ?thesis by (simp add: takeWhile_eq_all_conv)
  next
    case (Cons x xs)
    with r have "is_blank x" by simp
    with Cons nb show ?thesis by (simp add: takeWhile_append2)
  qed
  with dt ne show ?thesis by (simp add: order_column_def)
qed

lemma foldE_unit_all:
  "foldE f xs () = Inr () \<Longrightarrow> x \<in> set xs \<Longrightarrow> f x () = Inr ()"
  by (induction xs) (auto simp: exn_simps)

text \<open>An ORDER BY text that passes both checks says nothing but columns and directions: split at
  its commas, every piece is one registered column (or the id) with blanks around it and an
  optional ASC or DESC, so no other SQL can be carried by it.\<close>

theorem order_by_safe:
  assumes "parse_order raw = Inr clause" and "validateOrder r clause = Inr ()"
  shows "clause = raw \<and> (\<forall>t \<in> set (getline_tokens (CHR '','') clause).
    order_term (\<lambda>col. col = ''id'' \<or> reg_has r col) t)"
proof -
  have c: "clause = raw" "raw = [] \<or> order_loop raw"
    using assms(1) by (auto simp: parse_order_def split: if_splits)
  have "order_term (\<lambda>col. col = ''id'' \<or> reg_has r col) t"
    if t: "t \<in> set (getline_tokens (CHR '','') raw)" for t
  proof -
    have ne: "raw \<noteq> []" using t by (auto simp: getline_tokens.simps)
    with c(2) order_loop_terms t have "order_term (\<lambda>_. True) t" by blast
    then obtain a col b dir d where p: "t = a @ col @ b @ dir @ d" "list_all is_blank a"
      "list_all is_blank b" "list_all is_blank d" "isValidIdentifier col" "direction dir"
      "dir = [] \<or> b \<noteq> []" unfolding order_term_def by blast
    have "validate_token r t () = Inr ()"
      using foldE_unit_all [OF _ t] assms(2) ne c(1) by (simp add: validateOrder_def)
    with order_column_term [OF p(1-5,7)] have "col = ''id'' \<or> reg_has r col"
      by (auto simp: validate_token_def Let_def split: if_splits)
    with p show ?thesis unfolding order_term_def by blast
  qed
  with c(1) show ?thesis by simp
qed

theorem order_by_safe_witness:
  "order_term (\<lambda>col. col = ''id'' \<or> reg_has empty_registry col) ''id desc''"
proof -
  have a: "parse_order ''id desc'' = Inr ''id desc''"
    by code_simp
  have t: "getline_tokens (CHR '','') ''id desc'' = [''id desc'']"
    by (rule tokens_last) simp_all
  have b: "validateOrder empty_registry ''id desc'' = Inr ()"
    by (simp add: validateOrder_def t validate_token_def order_column_def is_blank_def)
  from order_by_safe [OF a b] t show ?thesis by simp
qed

text \<open>Registering fields keeps the registry consistent: the index finds every field under its own
  name and nothing else, names are distinct SQL identifiers, marking columns as scaled and setting
  precisions change no name, and every stored column the SELECT lists print is an identifier.\<close>

theorem registry_consistent:
  assumes "reg_ok r" and "reg_add r d = Inr r1" and "markScaled ns r1 = Inr r2"
    and "setPrecision p ms r2 = Inr r3"
  shows "reg_ok r3 \<and> distinct (map fd_name (rg_fields r3))
    \<and> map fd_name (rg_fields r3) = map fd_name (rg_fields r) @ [fd_name d]
    \<and> (\<exists>f. reg_get r3 (fd_name d) = Inr f \<and> fd_name f = fd_name d)
    \<and> list_all isValidIdentifier (storedColumnNames r3)"
proof -
  from reg_add_ok [OF assms(2,1)] have 1: "reg_ok r1" "rg_fields r1 = rg_fields r @ [d]" by auto
  from markScaled_ok [OF assms(3) 1(1)] have 2: "reg_ok r2" "map fd_name (rg_fields r2) = map fd_name (rg_fields r1)"
    by auto
  from setPrecision_ok [OF assms(4) 2(1)] have 3: "reg_ok r3" "map fd_name (rg_fields r3) = map fd_name (rg_fields r2)"
    by auto
  have n: "map fd_name (rg_fields r3) = map fd_name (rg_fields r) @ [fd_name d]"
    using 1(2) 2(2) 3(2) by simp
  then have "fd_name d \<in> set (map fd_name (rg_fields r3))" by simp
  then obtain i where "i < length (rg_fields r3)" "fd_name (rg_fields r3 ! i) = fd_name d"
    by (auto simp: in_set_conv_nth)
  with 3(1) have "rg_index r3 (fd_name d) = Some i" by (simp add: reg_ok_def)
  with 3(1) have g: "\<exists>f. reg_get r3 (fd_name d) = Inr f \<and> fd_name f = fd_name d"
    using \<open>i < length (rg_fields r3)\<close> \<open>fd_name (rg_fields r3 ! i) = fd_name d\<close>
    by (simp add: reg_get_def)
  have "isValidIdentifier ''id''"
    by (simp add: isValidIdentifier_def ident_start_def col_char_def cctype_defs)
  then have "list_all isValidIdentifier (storedColumnNames r3)"
    using 3(1) by (auto simp: storedColumnNames_def list_all_iff reg_ok_def)
  with 3(1) n g reg_ok_distinct [OF 3(1)] show ?thesis by simp
qed

definition sample_field :: field_def where
  "sample_field = \<lparr>fd_name = ''amount'', fd_type = Monetary, fd_string = ''Amount'', fd_required = False,
     fd_readonly = False, fd_store = True, fd_searchable = True, fd_relation = '''',
     fd_relationField = '''', fd_selection = [], fd_compute = False, fd_depends = '''',
     fd_scaled = False, fd_precisionName = ''''\<rparr>"

theorem registry_consistent_witness:
  "\<exists>r. bindE (reg_add empty_registry sample_field) (markScaled [''amount'']) = Inr r \<and> reg_ok r
    \<and> list_all isValidIdentifier (storedColumnNames r)"
proof -
  have v: "isValidIdentifier ''amount''"
    by (simp add: isValidIdentifier_def ident_start_def col_char_def cctype_defs)
  define r1 where "r1 = \<lparr>rg_fields = [sample_field], rg_index = [''amount'' \<mapsto> 0]\<rparr>"
  have a: "reg_add empty_registry sample_field = Inr r1"
    using v by (simp add: reg_add_def empty_registry_def sample_field_def r1_def)
  obtain r2 where m: "markScaled [''amount''] r1 = Inr r2"
    by (simp add: markScaled_def mark_one_def r1_def)
  have s: "setPrecision '''' [] r2 = Inr r2" by (simp add: setPrecision_def)
  from registry_consistent [OF reg_ok_empty a m s] a m show ?thesis by simp
qed

end
