(* ===== verification/SqlParams.thy ===== *)
theory SqlParams
  imports Domain
begin

section \<open>Splicing a compiled clause behind bound parameters (RecordRuleSql.hpp, BaseModel.hpp)\<close>

text \<open>
  The scan that shifts the placeholders of a clause, and what it does to the clauses the domain
  compiler emits: it returns the clause the compiler would have emitted with the earlier
  parameters already bound.
\<close>

text \<open>\<open>offsetSqlParams\<close> and \<open>offsetParams_\<close>, which are the same scan: the number after a dollar sign
  is read with \<open>std::stoi\<close> and moved up; a sum beyond \<open>int\<close> is undefined.\<close>

function offsetParams :: "string \<Rightarrow> int \<Rightarrow> string result" where
  "offsetParams s k =
     (case s of
        [] \<Rightarrow> Inr []
      | c # cs \<Rightarrow>
          if c = CHR ''$'' \<and> cs \<noteq> [] \<and> isdigit (hd cs)
          then bindE (stoi (takeWhile isdigit cs)) (\<lambda>n.
            if n + k > 2147483647 then Inl (Undefined ''signed overflow'')
            else bindE (offsetParams (dropWhile isdigit cs) k) (\<lambda>r.
              Inr (CHR ''$'' # int_to_string (n + k) @ r)))
          else bindE (offsetParams cs k) (\<lambda>r. Inr (c # r)))"
  by pat_completeness auto

termination offsetParams
proof (relation "measure (\<lambda>(s, k). length s)", goal_cases)
  case (2 s k c cs n)
  then show ?case using length_dropWhile_le_length [of isdigit cs] by simp
qed simp_all

declare offsetParams.simps [simp del]

definition offset_sql :: "string \<Rightarrow> int \<Rightarrow> string result" where
  "offset_sql sql offset = (if offset = 0 then Inr sql else offsetParams sql offset)"

definition plain :: "string \<Rightarrow> bool" where
  "plain s \<longleftrightarrow> CHR ''$'' \<notin> set s"

lemma plain_simps [simp]: "plain []" "plain (c # s) \<longleftrightarrow> c \<noteq> CHR ''$'' \<and> plain s"
  "plain (s @ t) \<longleftrightarrow> plain s \<and> plain t"
  by (auto simp: plain_def)

definition no_digit :: "string \<Rightarrow> bool" where
  "no_digit s \<longleftrightarrow> s = [] \<or> \<not> isdigit (hd s)"

lemma offset_plain: "plain a \<Longrightarrow> offsetParams (a @ s) k = bindE (offsetParams s k) (\<lambda>r. Inr (a @ r))"
proof (induction a)
  case Nil
  then show ?case by (cases "offsetParams s k") simp_all
next
  case (Cons c a)
  then have "offsetParams ((c # a) @ s) k = bindE (offsetParams (a @ s) k) (\<lambda>r. Inr (c # r))"
    by (simp add: offsetParams.simps [of "c # _"])
  with Cons show ?case by (cases "offsetParams s k") simp_all
qed

lemma isdigit_not: "isdigit c \<Longrightarrow> \<not> isspace c \<and> c \<noteq> CHR ''-'' \<and> c \<noteq> CHR ''+''"
  by (auto simp: cctype_defs)

lemma stoi_nat_to_string:
  assumes "n \<le> 2147483647"
  shows "stoi (nat_to_string n) = Inr (int n)"
proof -
  obtain c cs where c: "nat_to_string n = c # cs" by (cases "nat_to_string n") simp_all
  with nat_to_string_digits [of n] have d: "isdigit c" "\<forall>x \<in> set cs. isdigit x" by auto
  have ws: "takeWhile isspace (nat_to_string n) = []" using d(1) isdigit_not c by auto
  have tw: "takeWhile isdigit (c # cs) = c # cs" using d by (auto simp: takeWhile_eq_all_conv)
  have "int_prefix (nat_to_string n) = Some (int n, length (nat_to_string n))"
    using isdigit_not [OF d(1)] digits_val_nat_to_string [of n]
    unfolding int_prefix_def Let_def ws by (simp add: c tw del: takeWhile.simps digits_val.simps)
  then show ?thesis using assms by (simp add: stoi_def stoi_pos_def)
qed

lemma offset_dollar:
  assumes "no_digit s" and "n + k \<le> 2147483647"
  shows "offsetParams (dollar n @ s) (int k) = bindE (offsetParams s (int k)) (\<lambda>r. Inr (dollar (n + k) @ r))"
proof -
  have d: "\<forall>c \<in> set (nat_to_string n). isdigit c" by (rule nat_to_string_digits)
  have ne: "nat_to_string n \<noteq> []" by simp
  then have hd: "isdigit (hd (nat_to_string n @ s))" using d by (cases "nat_to_string n") auto
  have tw: "takeWhile isdigit (nat_to_string n @ s) = nat_to_string n"
    "dropWhile isdigit (nat_to_string n @ s) = s"
    using d assms(1) by (cases s; auto simp: no_digit_def takeWhile_append2 dropWhile_append2)+
  have "int n + int k = int (n + k)" by simp
  then show ?thesis
    using assms(2) hd
    by (subst offsetParams.simps)
      (simp add: dollar_def tw stoi_nat_to_string int_to_string_def nat_int_add del: of_nat_add)
qed

text \<open>A leaf is a plain text, a plain text and one placeholder, or a plain text and a list of them.\<close>

definition placeholders :: "nat \<Rightarrow> nat \<Rightarrow> string" where
  "placeholders i n = join '','' (map dollar [i + 1..<i + 1 + n])"

lemma leaf_text_form:
  assumes "leaf_text dump col op v ps = Inr (t, ps')" and "plain col"
  shows "(\<exists>x. plain x \<and> (\<forall>qs. leaf_text dump col op v qs = Inr (x, qs)))
    \<or> (\<exists>x w. plain x \<and> (\<forall>qs. leaf_text dump col op v qs = Inr (x @ dollar (Suc (length qs)), qs @ [w])))
    \<or> (\<exists>x ws. plain x \<and> ws \<noteq> [] \<and> (\<forall>qs. leaf_text dump col op v qs
         = Inr (x @ placeholders (length qs) (length ws) @ '')'', qs @ ws)))"
proof -
  let ?A = "\<exists>x. plain x \<and> (\<forall>qs. leaf_text dump col op v qs = Inr (x, qs))"
  let ?B = "\<exists>x w. plain x \<and> (\<forall>qs. leaf_text dump col op v qs = Inr (x @ dollar (Suc (length qs)), qs @ [w]))"
  let ?C = "\<exists>x ws. plain x \<and> ws \<noteq> [] \<and> (\<forall>qs. leaf_text dump col op v qs
         = Inr (x @ placeholders (length qs) (length ws) @ '')'', qs @ ws))"
  have one: ?B if "plain x" and "\<And>qs. leaf_text dump col op v qs = Inr (col @ x @ dollar (Suc (length qs)), qs @ [w])" for x w
    using that assms(2) by (intro exI [of _ "col @ x"] exI [of _ w]) simp
  define E where "E = {''='', ''=?'', ''!=''}"
  define I where "I = {''in'', ''not in''}"
  define C where "C = {''<'', ''<='', ''>'', ''>='', ''like'', ''ilike'', ''not like'', ''not ilike''}"
  consider "op \<in> E" "v = JNull" | "op \<in> I" "\<nexists>x xs. v = JArray (x # xs)"
    | "op \<in> I" "\<exists>x xs. v = JArray (x # xs)" | "op \<in> E" "v \<noteq> JNull"
    | "op \<in> C" | "op \<notin> E" "op \<notin> I" "op \<notin> C"
    by blast
  then show ?thesis
  proof cases
    case 1
    then have ?A using assms(2) by (auto simp: leaf_text_def Let_def E_def)
    then show ?thesis by blast
  next
    case 2
    then have ?A
      by (intro exI [of _ "if op = ''in'' then ''FALSE'' else ''TRUE''"])
        (auto simp: leaf_text_def Let_def I_def split: json.splits list.splits)
    then show ?thesis by blast
  next
    case 3
    then obtain x xs where v: "v = JArray (x # xs)" by blast
    have ?C
      using 3(1) assms(2) v
      by (intro exI [of _ "col @ (if op = ''in'' then '' IN '' else '' NOT IN '') @ ''(''"]
          exI [of _ "map (jsonToSqlParam dump) (x # xs)"])
        (auto simp: leaf_text_def Let_def in_list_text placeholders_def I_def simp del: upt_Suc)
    then show ?thesis by blast
  next
    case 4
    let ?x = "if op = ''!='' then '' != '' else '' = ''"
    have "plain ?x" by simp
    then have ?B
      by (rule one [of ?x "jsonToSqlParam dump v"])
        (use 4 [unfolded E_def] in \<open>elim insertE emptyE; simp add: leaf_text_def bind_param_def\<close>)
    then show ?thesis by blast
  next
    case 5
    let ?x = "if op = ''<'' then '' < '' else if op = ''<='' then '' <= '' else if op = ''>'' then '' > ''
      else if op = ''>='' then '' >= '' else if op = ''like'' then '' LIKE '' else if op = ''ilike'' then '' ILIKE ''
      else if op = ''not like'' then '' NOT LIKE '' else '' NOT ILIKE ''"
    let ?w = "if op \<in> {''<'', ''<='', ''>'', ''>=''} then jsonToSqlParam dump v
      else ''%'' @ jsonToSqlParam dump v @ ''%''"
    have "plain ?x" by simp
    then have ?B
      by (rule one [of ?x ?w])
        (use 5 [unfolded C_def] in \<open>elim insertE emptyE; simp add: leaf_text_def bind_param_def\<close>)
    then show ?thesis by blast
  next
    case 6
    then have "leaf_text dump col op v ps = Inl (RuntimeError (''Domain: unsupported operator '' @ quoted op))"
      unfolding leaf_text_def Let_def E_def I_def C_def by (simp only: insert_iff empty_iff de_Morgan_disj simp_thms if_False)
    with assms(1) show ?thesis by simp
  qed
qed

lemma offset_placeholders:
  "i + n + k \<le> 2147483647 \<Longrightarrow> offsetParams (placeholders i n @ '')'' @ s) (int k)
     = bindE (offsetParams s (int k)) (\<lambda>r. Inr (placeholders (i + k) n @ '')'' @ r))"
proof (induction n arbitrary: i)
  case 0
  show ?case using offset_plain [of "'')''" s "int k"] by (simp add: placeholders_def)
next
  case (Suc n)
  have split: "placeholders i (Suc n) = dollar (Suc i) @ (if n = 0 then [] else '','' @ placeholders (Suc i) n)" for i
    by (cases n) (simp_all add: placeholders_def upt_conv_Cons del: upt_Suc)
  show ?case
  proof (cases "n = 0")
    case True
    have nd: "no_digit ('')'' @ s)" by (simp add: no_digit_def isdigit_def)
    show ?thesis
      unfolding split using offset_dollar [OF nd, of "Suc i" k] offset_plain [of "'')''" s "int k"] Suc.prems True
      by (cases "offsetParams s (int k)") simp_all
  next
    case False
    have nd: "no_digit (('','' @ placeholders (Suc i) n) @ '')'' @ s)" by (simp add: no_digit_def isdigit_def)
    have "offsetParams (('','' @ placeholders (Suc i) n) @ '')'' @ s) (int k)
      = bindE (offsetParams s (int k)) (\<lambda>r. Inr ('','' @ placeholders (Suc i + k) n @ '')'' @ r))"
      using offset_plain [of "'',''" "placeholders (Suc i) n @ '')'' @ s" "int k"] Suc.IH [of "Suc i"] Suc.prems
      by (cases "offsetParams s (int k)") simp_all
    with offset_dollar [OF nd, of "Suc i" k] Suc.prems False show ?thesis
      unfolding split by (cases "offsetParams s (int k)") simp_all
  qed
qed

text \<open>What shifting does to a compiled clause in front of any text that does not start with a digit.\<close>

definition shifts :: "nat \<Rightarrow> string \<Rightarrow> string \<Rightarrow> bool" where
  "shifts k t t' \<longleftrightarrow> (\<forall>s. no_digit s \<longrightarrow>
     offsetParams (t @ s) (int k) = bindE (offsetParams s (int k)) (\<lambda>r. Inr (t' @ r)))"

lemma shifts_plain: "plain x \<Longrightarrow> shifts k x x"
  by (simp add: shifts_def offset_plain)

lemma shifts_append:
  assumes "shifts k t t'" and "shifts k u u'" and "u = [] \<or> \<not> isdigit (hd u)"
  shows "shifts k (t @ u) (t' @ u')"
  unfolding shifts_def
proof (intro allI impI)
  fix s assume s: "no_digit s"
  have "no_digit (u @ s)" using assms(3) s by (cases u) (auto simp: no_digit_def)
  with assms(1,2) s show "offsetParams ((t @ u) @ s) (int k) = bindE (offsetParams s (int k)) (\<lambda>r. Inr ((t' @ u') @ r))"
    by (cases "offsetParams s (int k)") (simp_all add: shifts_def)
qed

lemma shifts_prefix: "plain x \<Longrightarrow> shifts k u u' \<Longrightarrow> shifts k (x @ u) (x @ u')"
  unfolding shifts_def
proof (intro allI impI)
  fix s assume "plain x" "\<forall>s. no_digit s \<longrightarrow> offsetParams (u @ s) (int k) = bindE (offsetParams s (int k)) (\<lambda>r. Inr (u' @ r))"
    "no_digit s"
  then show "offsetParams ((x @ u) @ s) (int k) = bindE (offsetParams s (int k)) (\<lambda>r. Inr ((x @ u') @ r))"
    by (cases "offsetParams s (int k)") (simp_all add: offset_plain)
qed

lemma shifts_dollar: "n + k \<le> 2147483647 \<Longrightarrow> shifts k (dollar n) (dollar (n + k))"
  by (simp add: shifts_def offset_dollar)

lemma shifts_placeholders:
  "i + n + k \<le> 2147483647 \<Longrightarrow> shifts k (placeholders i n @ '')'') (placeholders (i + k) n @ '')'')"
  by (simp add: shifts_def offset_placeholders [simplified])

lemma shifts_join:
  assumes "list_all2 (shifts k) ts ts'" and "plain sep" and "sep \<noteq> []" and "\<not> isdigit (hd sep)"
  shows "shifts k (join sep ts) (join sep ts')"
  using assms
proof (induction ts arbitrary: ts')
  case Nil
  then show ?case by (simp add: shifts_plain)
next
  case (Cons t ts)
  then obtain t' us' where t: "ts' = t' # us'" "shifts k t t'" "list_all2 (shifts k) ts us'"
    by (auto simp: list_all2_Cons1)
  show ?case
  proof (cases ts)
    case Nil
    with t show ?thesis by simp
  next
    case (Cons u us)
    with t(3) have ne: "ts \<noteq> []" "us' \<noteq> []" by auto
    have "shifts k (sep @ join sep ts) (sep @ join sep us')"
      using Cons.IH [OF t(3)] assms(2-4) by (intro shifts_prefix)
    then have "shifts k (t @ (sep @ join sep ts)) (t' @ (sep @ join sep us'))"
      using assms(3,4) by (intro shifts_append [OF t(2)]) (auto simp: hd_append)
    then show ?thesis using t(1) ne by (simp add: join_Cons)
  qed
qed

lemma col_plain: "list_all col_char s \<Longrightarrow> plain s"
  by (auto simp: plain_def list_all_iff col_char_def cctype_defs)

lemma leaf_shift:
  assumes "compile_leaf dump allowed '''' l ps = Inr (t, ps')" and "length rs + length ps' \<le> 2147483647"
  shows "\<exists>t'. compile_leaf dump allowed '''' l (rs @ ps) = Inr (t', rs @ ps') \<and> shifts (length rs) t t'"
proof -
  let ?l = "leaf_text dump (lf_field l) (lf_op l) (lf_value l)"
  obtain f where f: "sanitizeColumn allowed (lf_field l) = Inr f"
    using assms(1) by (auto simp: compile_leaf_def bindE_eq_Inr)
  then have c: "list_all col_char (lf_field l)" and f': "f = lf_field l"
    by (auto simp: exn_simps)
  have e: "compile_leaf dump allowed '''' l qs = ?l qs" for qs
    by (simp add: compile_leaf_def f f' qualify_def)
  have t: "?l ps = Inr (t, ps')" using assms(1) e by simp
  from leaf_text_form [OF t col_plain [OF c]] show ?thesis
  proof (elim disjE exE conjE)
    fix x assume x: "plain x" "\<forall>qs. ?l qs = Inr (x, qs)"
    with t show ?thesis by (auto simp: e shifts_plain)
  next
    fix x w assume x: "plain x" "\<forall>qs. ?l qs = Inr (x @ dollar (Suc (length qs)), qs @ [w])"
    with t have p: "t = x @ dollar (Suc (length ps))" "ps' = ps @ [w]" by auto
    with assms(2) have "shifts (length rs) t (x @ dollar (Suc (length ps) + length rs))"
      using shifts_prefix [OF x(1) shifts_dollar [of "Suc (length ps)" "length rs"]] by simp
    with x p show ?thesis by (auto simp: e add.commute)
  next
    fix x ws assume x: "plain x" "ws \<noteq> []"
      "\<forall>qs. ?l qs = Inr (x @ placeholders (length qs) (length ws) @ '')'', qs @ ws)"
    with t have p: "t = x @ placeholders (length ps) (length ws) @ '')''" "ps' = ps @ ws" by auto
    with assms(2) have "shifts (length rs) t (x @ placeholders (length ps + length rs) (length ws) @ '')'')"
      using shifts_prefix [OF x(1) shifts_placeholders [of "length ps" "length ws" "length rs"]] by simp
    with x p show ?thesis by (auto simp: e add.commute)
  qed
qed

lemma compile_shift:
  "compile_node dump allowed tbl d ps = Inr (t, ps') \<Longrightarrow> tbl = '''' \<Longrightarrow> length rs + length ps' \<le> 2147483647
    \<Longrightarrow> \<exists>t'. compile_node dump allowed tbl d (rs @ ps) = Inr (t', rs @ ps') \<and> shifts (length rs) t t'"
  "compile_nodes dump allowed tbl ds ps = Inr (ts, ps') \<Longrightarrow> tbl = '''' \<Longrightarrow> length rs + length ps' \<le> 2147483647
    \<Longrightarrow> \<exists>ts'. compile_nodes dump allowed tbl ds (rs @ ps) = Inr (ts', rs @ ps')
          \<and> list_all2 (shifts (length rs)) ts ts'"
proof (induction dump allowed tbl d ps and dump allowed tbl ds ps
    arbitrary: t ps' and ts ps' rule: compile_node_compile_nodes.induct)
  case (1 dump allowed tbl l ps)
  then show ?case using leaf_shift by simp
next
  case (2 dump allowed tbl cs ps)
  show ?case
  proof (cases "cs = []")
    case True
    with 2 show ?thesis by (auto intro: shifts_plain)
  next
    case False
    with "2.prems"(1) obtain ts where n: "compile_nodes dump allowed tbl cs ps = Inr (ts, ps')"
      and t: "t = ''('' @ join '' AND '' ts @ '')''" by (auto simp: exn_simps)
    from "2.IH" [OF False n "2.prems"(2,3)] obtain ts' where
      ts': "compile_nodes dump allowed tbl cs (rs @ ps) = Inr (ts', rs @ ps')"
      "list_all2 (shifts (length rs)) ts ts'" by blast
    have "shifts (length rs) (join '' AND '' ts @ '')'') (join '' AND '' ts' @ '')'')"
      by (intro shifts_append shifts_join [OF ts'(2)] shifts_plain) (simp_all add: isdigit_def)
    then have "shifts (length rs) t (''('' @ join '' AND '' ts' @ '')'')"
      unfolding t by (intro shifts_prefix) simp_all
    with ts' False show ?thesis by auto
  qed
next
  case (3 dump allowed tbl cs ps)
  show ?case
  proof (cases "cs = []")
    case True
    with 3 show ?thesis by (auto intro: shifts_plain)
  next
    case False
    with "3.prems"(1) obtain ts where n: "compile_nodes dump allowed tbl cs ps = Inr (ts, ps')"
      and t: "t = ''('' @ join '' OR '' ts @ '')''" by (auto simp: exn_simps)
    from "3.IH" [OF False n "3.prems"(2,3)] obtain ts' where
      ts': "compile_nodes dump allowed tbl cs (rs @ ps) = Inr (ts', rs @ ps')"
      "list_all2 (shifts (length rs)) ts ts'" by blast
    have "shifts (length rs) (join '' OR '' ts @ '')'') (join '' OR '' ts' @ '')'')"
      by (intro shifts_append shifts_join [OF ts'(2)] shifts_plain) (simp_all add: isdigit_def)
    then have "shifts (length rs) t (''('' @ join '' OR '' ts' @ '')'')"
      unfolding t by (intro shifts_prefix) simp_all
    with ts' False show ?thesis by auto
  qed
next
  case (4 dump allowed tbl c ps)
  then obtain u where n: "compile_node dump allowed tbl c ps = Inr (u, ps')"
    and t: "t = ''(NOT '' @ u @ '')''" by (auto simp: exn_simps)
  from "4.IH" [OF n "4.prems"(2,3)] obtain u' where
    u': "compile_node dump allowed tbl c (rs @ ps) = Inr (u', rs @ ps')" "shifts (length rs) u u'" by blast
  have "shifts (length rs) (u @ '')'') (u' @ '')'')"
    by (intro shifts_append u'(2) shifts_plain) (simp_all add: isdigit_def)
  then have "shifts (length rs) t (''(NOT '' @ u' @ '')'')"
    unfolding t by (intro shifts_prefix) simp_all
  with u' show ?case by auto
next
  case (5 dump allowed tbl ps)
  then show ?case by auto
next
  case (6 dump allowed tbl c cs ps)
  from "6.prems"(1) obtain t1 ps1 ts2 where c: "compile_node dump allowed tbl c ps = Inr (t1, ps1)"
    and cs: "compile_nodes dump allowed tbl cs ps1 = Inr (ts2, ps')" and ts: "ts = t1 # ts2"
    by (auto simp: exn_simps)
  have "length ps1 \<le> length ps'" using compile_cond(2) [OF cs] by auto
  with "6.prems"(3) have l: "length rs + length ps1 \<le> 2147483647" by linarith
  from "6.IH"(1) [OF c "6.prems"(2) l] obtain t1' where
    t1: "compile_node dump allowed tbl c (rs @ ps) = Inr (t1', rs @ ps1)" "shifts (length rs) t1 t1'" by blast
  from "6.IH"(2) [OF c refl cs "6.prems"(2,3)] obtain ts2' where
    ts2: "compile_nodes dump allowed tbl cs (rs @ ps1) = Inr (ts2', rs @ ps')"
      "list_all2 (shifts (length rs)) ts2 ts2'" by blast
  from t1 ts2 ts show ?case by auto
qed

end
