(* ===== verification/RecordScoping.thy ===== *)
theory RecordScoping
  imports FieldRegistry SqlParams Money
begin

section \<open>The generic model's SQL and its scoping (modules/base/BaseModel.hpp, RecordRuleSql.hpp)\<close>

text \<open>
  A statement is its text and its bound parameters; the database that runs it is outside the
  model. The record rule of the caller is an argument: \<open>None\<close> while the rule engine is not
  initialised, else the domain \<open>buildRuleDomain\<close> returns. What the code takes from the floating
  point and JSON libraries comes in the record \<open>json_env\<close>.
\<close>

datatype sql_param = PNull | PBool bool | PInt int | PDouble string | PText string

record statement =
  st_sql :: string
  st_params :: "sql_param list"

record json_env =
  je_dump :: "json \<Rightarrow> string"
  je_int :: "string \<Rightarrow> int"
  je_stod :: "string \<Rightarrow> (string \<times> nat) option"
  je_money :: "json \<Rightarrow> money result"

record model_cfg =
  mc_model :: string
  mc_table :: string
  mc_registry :: field_registry
  mc_has_db :: bool
  mc_company_tables :: "string list"

subsection \<open>Record rules on a statement\<close>

definition appendRuleClause :: "json_env \<Rightarrow> json option \<Rightarrow> statement \<Rightarrow> nat \<Rightarrow> statement result" where
  "appendRuleClause env rule st existing = (case rule of
       None \<Rightarrow> Inr st
     | Some r \<Rightarrow>
         if json_empty r then Inr st
         else bindE (domainFromJson r) (\<lambda>d.
              bindE (toSql (je_dump env) None '''' d) (\<lambda>(clause, ps).
              if clause = ''TRUE'' \<or> clause = '''' then Inr st
              else bindE (offset_sql clause (int existing)) (\<lambda>c.
                Inr \<lparr>st_sql = st_sql st @ '' AND '' @ c, st_params = st_params st @ map PText ps\<rparr>))))"

definition appendRecordRuleSubquery ::
  "json_env \<Rightarrow> json option \<Rightarrow> string \<Rightarrow> string \<Rightarrow> statement \<Rightarrow> nat \<Rightarrow> (statement \<times> nat) result" where
  "appendRecordRuleSubquery env rule table idExpr st existing = (case rule of
       None \<Rightarrow> Inr (st, existing)
     | Some r \<Rightarrow>
         if json_empty r then Inr (st, existing)
         else bindE (domainFromJson r) (\<lambda>d.
              bindE (toSql (je_dump env) None '''' d) (\<lambda>(clause, ps).
              if clause = '''' \<or> clause = ''TRUE'' then Inr (st, existing)
              else bindE (offset_sql clause (int existing)) (\<lambda>c.
                Inr (\<lparr>st_sql = st_sql st @ '' AND '' @ idExpr @ '' IN (SELECT id FROM '' @ table
                        @ '' WHERE '' @ c @ '')'',
                      st_params = st_params st @ map PText ps\<rparr>, existing + length ps)))))"

definition mergeRuleDomain :: "json option \<Rightarrow> json \<Rightarrow> json result" where
  "mergeRuleDomain rule userDomain = (case rule of
       None \<Rightarrow> Inr userDomain
     | Some r \<Rightarrow>
         if json_empty r then Inr userDomain
         else case userDomain of
             JArray xs \<Rightarrow> Inr (JArray (xs @ elements r))
           | JNull \<Rightarrow> Inr (JArray (elements r))
           | _ \<Rightarrow> Inl JsonTypeError)"

subsection \<open>Company scoping\<close>

definition scopeCtx :: "user_context \<Rightarrow> user_context \<Rightarrow> user_context" where
  "scopeCtx ctx current = (if uc_uid ctx > 0 then ctx else current)"

definition hasCompanyColumn :: "model_cfg \<Rightarrow> bool" where
  "hasCompanyColumn cfg \<longleftrightarrow> mc_has_db cfg
     \<and> (if mc_company_tables cfg = [] then reg_has (mc_registry cfg) ''company_id''
        else mc_table cfg \<in> set (mc_company_tables cfg))"

definition companyScoped :: "model_cfg \<Rightarrow> user_context \<Rightarrow> bool" where
  "companyScoped cfg u \<longleftrightarrow> uc_uid u > 0 \<and> hasCompanyColumn cfg"

definition companyClause :: "model_cfg \<Rightarrow> user_context \<Rightarrow> string" where
  "companyClause cfg u =
     (if \<not> companyScoped cfg u then ''''
      else if uc_companyId u > 0
      then ''(company_id IS NULL OR company_id = '' @ int_to_string (uc_companyId u) @ '')''
      else ''(company_id IS NULL)'')"

definition appendCompanyClause :: "model_cfg \<Rightarrow> user_context \<Rightarrow> statement \<Rightarrow> statement" where
  "appendCompanyClause cfg u st =
     (let c = companyClause cfg u
      in if c = '''' then st else st\<lparr>st_sql := st_sql st @ '' AND '' @ c\<rparr>)"

text \<open>JSON objects are sorted by key, as \<open>std::map\<close> keeps them.\<close>

fun str_less :: "string \<Rightarrow> string \<Rightarrow> bool" where
  "str_less s [] = False"
| "str_less [] (y # ys) = True"
| "str_less (x # xs) (y # ys) =
     ((of_char x :: nat) < of_char y \<or> (x = y \<and> str_less xs ys))"

fun obj_set :: "string \<Rightarrow> json \<Rightarrow> (string \<times> json) list \<Rightarrow> (string \<times> json) list" where
  "obj_set k v [] = [(k, v)]"
| "obj_set k v ((k', v') # ps) =
     (if k = k' then (k, v) # ps
      else if str_less k k' then (k, v) # (k', v') # ps
      else (k', v') # obj_set k v ps)"

definition obj_erase :: "string \<Rightarrow> (string \<times> json) list \<Rightarrow> (string \<times> json) list" where
  "obj_erase k ps = filter (\<lambda>(k', v). k' \<noteq> k) ps"

definition wanted_company :: "json_env \<Rightarrow> json \<Rightarrow> int" where
  "wanted_company env v = (case v of
       JInt i \<Rightarrow> wrap32 i
     | JFloat s \<Rightarrow> je_int env s
     | JString s \<Rightarrow> (case stoi s of Inr n \<Rightarrow> n | Inl _ \<Rightarrow> 0)
     | _ \<Rightarrow> 0)"

definition stampCompany ::
  "json_env \<Rightarrow> model_cfg \<Rightarrow> user_context \<Rightarrow> (string \<times> json) list \<Rightarrow> (int \<times> (string \<times> json) list) result" where
  "stampCompany env cfg u vals =
     (if \<not> companyScoped cfg u then Inr (0, vals)
      else case map_of vals ''company_id'' of
        Some v \<Rightarrow>
          if v \<noteq> JNull \<and> v \<noteq> JBool False
          then let want = wanted_company env v
               in if want > 0 \<and> want \<noteq> uc_companyId u \<and> \<not> mayUseCompany u want
                  then Inl (ValidationError ''You cannot create records for another company.'')
                  else Inr (if want > 0 then want else uc_companyId u, vals)
          else if uc_isAdmin u then Inr (0, obj_erase ''company_id'' vals)
          else if uc_companyId u > 0
          then Inr (uc_companyId u, obj_set ''company_id'' (JInt (uc_companyId u)) vals)
          else Inr (0, vals)
      | None \<Rightarrow>
          if uc_companyId u > 0
          then Inr (uc_companyId u, obj_set ''company_id'' (JInt (uc_companyId u)) vals)
          else Inr (0, vals))"

subsection \<open>Values on their way to the database\<close>

definition appendParam :: "json_env \<Rightarrow> json \<Rightarrow> sql_param" where
  "appendParam env v = (case v of
       JNull \<Rightarrow> PNull | JBool b \<Rightarrow> PBool b | JInt i \<Rightarrow> PInt i | JFloat s \<Rightarrow> PDouble s
     | JString s \<Rightarrow> PText s | _ \<Rightarrow> PText (je_dump env v))"

definition is_numeric :: "field_def \<Rightarrow> bool" where
  "is_numeric f \<longleftrightarrow> fd_scaled f \<or> fd_type f = Monetary \<or> fd_type f = Float \<or> fd_type f = Integer"

definition coerce_value :: "json_env \<Rightarrow> field_registry \<Rightarrow> string \<Rightarrow> json \<Rightarrow> json" where
  "coerce_value env r k v = (case v of
       JString s \<Rightarrow>
         (case reg_get r k of
            Inl _ \<Rightarrow> v
          | Inr fd \<Rightarrow>
              if \<not> is_numeric fd then v
              else if s = '''' then (if fd_type fd = Integer then JInt 0 else JFloat ''0.0'')
              else if fd_type fd = Integer
              then (case int_prefix s of
                      Some (n, pos) \<Rightarrow> if in_int64 n \<and> pos = length s then JInt n else v
                    | None \<Rightarrow> v)
              else (case je_stod env s of
                      Some (d, pos) \<Rightarrow> if pos = length s then JFloat d else v
                    | None \<Rightarrow> v))
     | _ \<Rightarrow> v)"

definition coerceNumericStrings ::
  "json_env \<Rightarrow> field_registry \<Rightarrow> (string \<times> json) list \<Rightarrow> (string \<times> json) list" where
  "coerceNumericStrings env r vals = map (\<lambda>(k, v). (k, coerce_value env r k v)) vals"

definition normalizeForDb :: "json_env \<Rightarrow> field_registry \<Rightarrow> json \<Rightarrow> string \<Rightarrow> json result" where
  "normalizeForDb env r val col =
     (if \<not> reg_has r col then Inr val
      else bindE (reg_get r col) (\<lambda>fd.
        if val = JBool False \<and> fd_type fd \<noteq> Boolean then Inr JNull
        else if val = JString '''' \<and> fd_type fd \<in> {Date, Datetime, Many2one} then Inr JNull
        else if fd_type fd = Many2one \<and> (case val of JInt i \<Rightarrow> wrap32 i = 0 | _ \<Rightarrow> False) then Inr JNull
        else case (if fd_type fd = Many2one then val else JNull) of
            JArray (JInt i # _) \<Rightarrow> Inr (JInt (wrap32 i))
          | _ \<Rightarrow>
            if fd_scaled fd
            then (case val of
                    JInt _ \<Rightarrow> bindE (je_money env val) (\<lambda>m. Inr (JInt (micros m)))
                  | JFloat _ \<Rightarrow> bindE (je_money env val) (\<lambda>m. Inr (JInt (micros m)))
                  | JString s \<Rightarrow>
                      if s = '''' then Inr (JInt 0)
                      else (case parse_money s 0 of Inr m \<Rightarrow> Inr (JInt (micros m)) | Inl _ \<Rightarrow> Inr val)
                  | _ \<Rightarrow> Inr val)
            else Inr val))"

definition idsToArray :: "int list \<Rightarrow> string" where
  "idsToArray ids = ''{'' @ join '','' (map int_to_string ids) @ ''}''"

subsection \<open>The statements of the generic operations\<close>

definition read_stmt ::
  "json_env \<Rightarrow> model_cfg \<Rightarrow> user_context \<Rightarrow> json option \<Rightarrow> int list \<Rightarrow> string list \<Rightarrow> statement option result" where
  "read_stmt env cfg u rule ids flds =
     (if ids = [] then Inr None
      else bindE (appendRuleClause env rule
          \<lparr>st_sql = ''SELECT '' @ buildSelectCols (mc_registry cfg) flds @ '' FROM '' @ mc_table cfg
             @ '' WHERE id = ANY($1::int[])'', st_params = [PText (idsToArray ids)]\<rparr> 1) (\<lambda>st.
        Inr (Some (appendCompanyClause cfg u st))))"

definition unlink_stmt ::
  "json_env \<Rightarrow> model_cfg \<Rightarrow> user_context \<Rightarrow> json option \<Rightarrow> int list \<Rightarrow> statement option result" where
  "unlink_stmt env cfg u rule ids =
     (if ids = [] then Inr None
      else bindE (appendRuleClause env rule
          \<lparr>st_sql = ''DELETE FROM '' @ mc_table cfg @ '' WHERE id = ANY($1::int[])'',
           st_params = [PText (idsToArray ids)]\<rparr> 1) (\<lambda>st.
        Inr (Some (appendCompanyClause cfg u st))))"

text \<open>One assignment of the SET clause per registered key, numbered as it is appended.\<close>

record set_clause =
  sc_text :: string
  sc_params :: "sql_param list"
  sc_idx :: nat

definition set_item :: "json_env \<Rightarrow> field_registry \<Rightarrow> string \<times> json \<Rightarrow> set_clause \<Rightarrow> set_clause result" where
  "set_item env r kv sc =
     (let (k, v) = kv in
      if \<not> reg_has r k then Inr sc
      else bindE (normalizeForDb env r v k) (\<lambda>nv.
        Inr \<lparr>sc_text = sc_text sc @ (if sc_params sc = [] then '''' else '','') @ k @ ''='' @ dollar (sc_idx sc),
             sc_params = sc_params sc @ [appendParam env nv], sc_idx = sc_idx sc + 1\<rparr>))"

definition write_stmt ::
  "json_env \<Rightarrow> model_cfg \<Rightarrow> user_context \<Rightarrow> json option \<Rightarrow> int list \<Rightarrow> (string \<times> json) list
    \<Rightarrow> (statement \<times> bool) option result" where
  "write_stmt env cfg u rule ids values =
     (let r = mc_registry cfg;
          vals = coerceNumericStrings env r values;
          expectedWd = (case map_of vals ''__expected_write_date'' of Some (JString s) \<Rightarrow> s | _ \<Rightarrow> '''');
          vals = obj_erase ''__expected_write_date'' vals
      in bindE (rejectUnknownFields r (mc_model cfg) (JObject vals)) (\<lambda>_.
      if ids = [] \<or> vals = [] then Inr None
      else bindE (foldE (set_item env r) vals \<lparr>sc_text = '''', sc_params = [], sc_idx = 1\<rparr>) (\<lambda>sc.
        let setClause = sc_text sc @ (if reg_has r ''write_date''
              then (if sc_text sc = '''' then '''' else '','') @ ''write_date=now()'' else '''')
        in if setClause = '''' then Inr None
        else let idx = sc_idx sc;
                 sql = ''UPDATE '' @ mc_table cfg @ '' SET '' @ setClause @ '' WHERE id = ANY('' @ dollar idx @ ''::int[])'';
                 ps = sc_params sc @ [PText (idsToArray ids)];
                 (sql, ps, n) = (if expectedWd \<noteq> ''''
                   then (sql @ '' AND write_date = '' @ dollar (idx + 1), ps @ [PText expectedWd], idx + 1)
                   else (sql, ps, idx))
             in bindE (appendRuleClause env rule \<lparr>st_sql = sql, st_params = ps\<rparr> n) (\<lambda>st.
                Inr (Some (appendCompanyClause cfg u st, expectedWd \<noteq> ''''))))))"

definition write_outcome :: "bool \<Rightarrow> nat \<Rightarrow> bool result" where
  "write_outcome expects affected =
     (if expects \<and> affected = 0
      then Inl (ConcurrencyConflict (''Record was modified by another user. ''
             @ ''Please reload and re-apply your changes.''))
      else Inr True)"

definition page_suffix :: "string \<Rightarrow> int \<Rightarrow> int \<Rightarrow> string" where
  "page_suffix order limit offset =
     (if order = '''' then '''' else '' ORDER BY '' @ order)
     @ (if limit > 0 then '' LIMIT '' @ int_to_string limit else '''')
     @ (if offset > 0 then '' OFFSET '' @ int_to_string offset else '''')"

definition where_stmt ::
  "json_env \<Rightarrow> model_cfg \<Rightarrow> user_context \<Rightarrow> json option \<Rightarrow> json \<Rightarrow> string \<Rightarrow> statement result" where
  "where_stmt env cfg u rule domain selection =
     bindE (mergeRuleDomain rule domain) (\<lambda>merged.
     bindE (domainFromJson merged) (\<lambda>d.
     bindE (toSql (je_dump env) (Some (storedColumnNames (mc_registry cfg))) '''' d) (\<lambda>(clause, ps).
       Inr (appendCompanyClause cfg u
         \<lparr>st_sql = ''SELECT '' @ selection @ '' FROM '' @ mc_table cfg @ '' WHERE '' @ clause,
          st_params = map PText ps\<rparr>))))"

definition add_suffix :: "string \<Rightarrow> statement \<Rightarrow> statement" where
  "add_suffix t st = st\<lparr>st_sql := st_sql st @ t\<rparr>"

definition search_stmt ::
  "json_env \<Rightarrow> model_cfg \<Rightarrow> user_context \<Rightarrow> json option \<Rightarrow> json \<Rightarrow> int \<Rightarrow> int \<Rightarrow> string \<Rightarrow> statement result" where
  "search_stmt env cfg u rule domain limit offset order =
     bindE (validateOrder (mc_registry cfg) order) (\<lambda>_.
     bindE (where_stmt env cfg u rule domain ''id'') (\<lambda>st.
       Inr (add_suffix (page_suffix order limit offset) st)))"

definition kMaxPageSize :: int where "kMaxPageSize = 1000"

definition page_limit :: "int \<Rightarrow> int" where
  "page_limit limit = (if limit \<le> 0 \<or> limit > kMaxPageSize then kMaxPageSize else limit)"

definition searchRead_stmt ::
  "json_env \<Rightarrow> model_cfg \<Rightarrow> user_context \<Rightarrow> json option \<Rightarrow> json \<Rightarrow> string list \<Rightarrow> int \<Rightarrow> int \<Rightarrow> string
    \<Rightarrow> statement result" where
  "searchRead_stmt env cfg u rule domain flds limit offset order =
     bindE (validateOrder (mc_registry cfg) order) (\<lambda>_.
     bindE (where_stmt env cfg u rule domain (buildSelectCols (mc_registry cfg) flds)) (\<lambda>st.
       Inr (add_suffix (page_suffix order (page_limit limit) offset) st)))"

definition searchCount_stmt ::
  "json_env \<Rightarrow> model_cfg \<Rightarrow> user_context \<Rightarrow> json option \<Rightarrow> json \<Rightarrow> statement result" where
  "searchCount_stmt env cfg u rule domain = where_stmt env cfg u rule domain ''COUNT(*)''"

text \<open>Creation: \<open>derived\<close> is the round trip through the typed members of the concrete model, which
  returns the errors of its \<open>validate\<close> and the values \<open>toJson\<close> prints.\<close>

record insert_cols =
  ic_cols :: string
  ic_holders :: string
  ic_params :: "sql_param list"

definition insert_col ::
  "json_env \<Rightarrow> field_registry \<Rightarrow> (string \<times> json) list \<Rightarrow> string \<Rightarrow> insert_cols \<Rightarrow> insert_cols result" where
  "insert_col env r full col ic = (case map_of full col of
       None \<Rightarrow> Inr ic
     | Some v \<Rightarrow>
         if col = ''id'' then Inr ic
         else bindE (normalizeForDb env r v col) (\<lambda>nv.
           let sep = (if ic_params ic = [] then '''' else '','')
           in Inr \<lparr>ic_cols = ic_cols ic @ sep @ col,
                   ic_holders = ic_holders ic @ sep @ dollar (length (ic_params ic) + 1),
                   ic_params = ic_params ic @ [appendParam env nv]\<rparr>))"

definition create_stmt ::
  "json_env \<Rightarrow> model_cfg \<Rightarrow> user_context
    \<Rightarrow> ((string \<times> json) list \<Rightarrow> string list \<times> (string \<times> json) list)
    \<Rightarrow> (string \<times> json) list \<Rightarrow> statement result" where
  "create_stmt env cfg u derived values =
     (let r = mc_registry cfg in
      bindE (rejectUnknownFields r (mc_model cfg) (JObject values)) (\<lambda>_.
      bindE (stampCompany env cfg u (coerceNumericStrings env r values)) (\<lambda>(stamped, vals).
      let (errors, full) = derived vals in
      if errors \<noteq> [] then Inl (ValidationError (hd errors))
      else bindE (foldE (insert_col env r full) (storedColumnNames r)
                   \<lparr>ic_cols = '''', ic_holders = '''', ic_params = []\<rparr>) (\<lambda>ic.
        let sep = (if ic_params ic = [] then '''' else '','');
            ic = (if stamped > 0 \<and> \<not> reg_has r ''company_id''
                  then \<lparr>ic_cols = ic_cols ic @ sep @ ''company_id'',
                        ic_holders = ic_holders ic @ sep @ dollar (length (ic_params ic) + 1),
                        ic_params = ic_params ic @ [PInt stamped]\<rparr>
                  else ic)
        in Inr \<lparr>st_sql = ''INSERT INTO '' @ mc_table cfg @ '' ('' @ ic_cols ic @ '') VALUES (''
                  @ ic_holders ic @ '') RETURNING id'', st_params = ic_params ic\<rparr>))))"

text \<open>The messages of a failed INSERT that the code turns into errors of the user.\<close>

definition contains :: "string \<Rightarrow> string \<Rightarrow> bool" where
  "contains msg p \<longleftrightarrow> str_find msg p 0 \<noteq> None"

definition notNullColumn :: "string \<Rightarrow> string" where
  "notNullColumn msg =
     (if \<not> contains msg ''not-null constraint'' then ''''
      else case str_find msg (''column '' @ [CHR 0x22]) 0 of
          None \<Rightarrow> ''''
        | Some a \<Rightarrow> (case find_char msg (CHR 0x22) (a + 8) of
              None \<Rightarrow> ''''
            | Some b \<Rightarrow> substr msg (a + 8) (b - (a + 8))))"

fun and_list :: "string list \<Rightarrow> string" where
  "and_list [] = ''''"
| "and_list [x] = x"
| "and_list [x, y] = x @ '' and '' @ y"
| "and_list (x # y # z # zs) = x @ '', '' @ and_list (y # z # zs)"

definition uniqueKeyColumns :: "string \<Rightarrow> string" where
  "uniqueKeyColumns msg = (case str_find msg ''Key ('' 0 of
       None \<Rightarrow> ''''
     | Some a \<Rightarrow> (case find_char msg (CHR '')'') (a + 5) of
           None \<Rightarrow> ''''
         | Some b \<Rightarrow>
             let raw = substr msg (a + 5) (b - (a + 5));
                 cols = map (trim_by (\<lambda>c. c = CHR '' '')) (split_on (CHR '','') raw)
             in and_list (filter (\<lambda>c. c \<noteq> '''' \<and> c \<noteq> ''company_id'') cols)))"

definition create_error :: "string \<Rightarrow> exn" where
  "create_error what =
     (let col = notNullColumn what in
      if col \<noteq> '''' then ValidationError (''The field '' @ quoted col @ '' is required.'')
      else if contains what ''violates check constraint''
      then ValidationError ''A value is out of the allowed range for this record.''
      else if contains what ''violates unique constraint''
      then ValidationError (let cols = uniqueKeyColumns what in
             if cols = '''' then ''Another record already uses this value.''
             else ''Another record already uses this '' @ cols @ ''.'')
      else if contains what ''conflicting key value violates exclusion constraint''
           \<or> contains what ''is already let''
      then ValidationError (''Those dates overlap a period this is already booked for. ''
             @ ''Choose dates that do not overlap.'')
      else RuntimeError what)"

lemma unique_key_sample:
  "uniqueKeyColumns ''Key (code, name, company_id)=(A, B, 1) already exists.'' = ''code and name''"
  by code_simp

subsection \<open>What scoping guarantees\<close>

lemma rule_clause_shifted:
  assumes d: "domainFromJson r = Inr d" and c: "toSql (je_dump env) None '''' d = Inr (clause, ps)"
    and ne: "\<not> json_empty r" "clause \<noteq> ''TRUE''" and len: "n + length ps \<le> 2147483647"
    and n: "length (st_params st) = n"
  shows "\<exists>cl. appendRuleClause env (Some r) st n
      = Inr \<lparr>st_sql = st_sql st @ '' AND '' @ cl, st_params = st_params st @ map PText ps\<rparr>
    \<and> cond (column_ok None '''') n cl (n + length ps)"
proof -
  from c ne(2) have k: "compile_node (je_dump env) None '''' d [] = Inr (clause, ps)"
    by (auto simp: toSql_def split: if_splits)
  have nn: "clause \<noteq> ''''"
  proof -
    have "cond (column_ok None '''') 0 clause (length ps)" using compile_cond(1) [OF k] by simp
    then show ?thesis by (cases rule: cond.cases) (auto simp: compare_ops_def)
  qed
  let ?rs = "replicate n ''''"
  from compile_shift(1) [OF k refl, of ?rs] len obtain cl where
    cl: "compile_node (je_dump env) None '''' d (?rs @ []) = Inr (cl, ?rs @ ps)" "shifts n clause cl"
    by auto
  have "offset_sql clause (int n) = Inr cl"
  proof (cases "n = 0")
    case True
    with cl(1) k show ?thesis by (simp add: offset_sql_def)
  next
    case False
    with cl(2) show ?thesis
      using offsetParams.simps [of "[]"] unfolding shifts_def offset_sql_def
      by (auto simp: no_digit_def dest: spec [where x = "[]"])
  qed
  moreover have "cond (column_ok None '''') n cl (n + length ps)"
    using compile_cond(1) [OF cl(1)] by simp
  ultimately show ?thesis using d c ne nn by (auto simp: appendRuleClause_def)
qed

text \<open>The record rule spliced into a by-id statement is numbered to follow the values already
  bound. The statement becomes its own text, an AND and one well-formed condition whose
  placeholders are the ones after those in use, and the values of the rule are bound in that
  order behind the others.\<close>

theorem rule_clause_numbered:
  assumes "domainFromJson r = Inr d" and "toSql (je_dump env) None '''' d = Inr (clause, ps)"
    and "\<not> json_empty r" and "clause \<noteq> ''TRUE''" and "length (st_params st) + length ps \<le> 2147483647"
  shows "\<exists>cl. appendRuleClause env (Some r) st (length (st_params st))
      = Inr \<lparr>st_sql = st_sql st @ '' AND '' @ cl, st_params = st_params st @ map PText ps\<rparr>
    \<and> cond (column_ok None '''') (length (st_params st)) cl (length (st_params st) + length ps)"
  by (rule rule_clause_shifted [OF assms refl])

definition sample_env :: json_env where
  "sample_env = \<lparr>je_dump = (\<lambda>_. ''5''), je_int = (\<lambda>_. 0), je_stod = (\<lambda>_. None),
     je_money = (\<lambda>_. Inr (zero_money 0))\<rparr>"

definition sample_rule :: json where
  "sample_rule = JArray [JArray [JString ''user_id'', JString ''='', JInt 5]]"

theorem rule_clause_numbered_witness:
  "\<exists>cl. appendRuleClause sample_env (Some sample_rule) \<lparr>st_sql = ''Q'', st_params = [PText ''{1}'']\<rparr> 1
      = Inr \<lparr>st_sql = ''Q AND '' @ cl, st_params = [PText ''{1}'', PText ''5'']\<rparr>
    \<and> cond (column_ok None '''') 1 cl 2"
proof -
  have d: "domainFromJson sample_rule = Inr (Leaf \<lparr>lf_field = ''user_id'', lf_op = ''='', lf_value = JInt 5\<rparr>)"
    by code_simp
  have t: "toSql (je_dump sample_env) None '''' (Leaf \<lparr>lf_field = ''user_id'', lf_op = ''='', lf_value = JInt 5\<rparr>)
    = Inr (''user_id = $1'', [''5''])"
    by code_simp
  have e: "\<not> json_empty sample_rule" by code_simp
  from rule_clause_numbered [OF d t e, of "\<lparr>st_sql = ''Q'', st_params = [PText ''{1}'']\<rparr>"]
  show ?thesis by (simp add: numeral_2_eq_2)
qed

subsection \<open>Rules on a search\<close>

text \<open>A search honours the record rule. When the caller's domain is complete by itself and the rule
  of the model parses, the domain the statement is compiled from selects exactly the rows that
  both select.\<close>

theorem search_honours_rule:
  assumes "parses xs" and "domain_ok r" and "mergeRuleDomain (Some r) (JArray xs) = Inr merged"
  shows "selects ev merged \<longleftrightarrow> selects ev (JArray xs) \<and> selects ev r"
proof -
  from assms(2) obtain ys where r: "r = JArray ys" "parses ys"
    by (cases r) (auto simp: domain_ok_def is_array_def elements_def)
  show ?thesis
  proof (cases "ys = []")
    case True
    with assms(3) r show ?thesis by (simp add: mergeRuleDomain_def json_empty_def elements_def)
  next
    case False
    with assms(3) r have "merged = JArray (xs @ ys)"
      by (simp add: mergeRuleDomain_def json_empty_def elements_def)
    with selects_append [OF assms(1) r(2)] r(1) show ?thesis by simp
  qed
qed

definition leaf_of :: "string \<Rightarrow> int \<Rightarrow> domain_leaf" where
  "leaf_of f n = \<lparr>lf_field = f, lf_op = ''='', lf_value = JInt n\<rparr>"

definition item_of :: "string \<Rightarrow> int \<Rightarrow> json" where
  "item_of f n = JArray [JString f, JString ''='', JInt n]"

lemma parse_item_of: "parse_item (item_of f n) s = Inr (Leaf (leaf_of f n) # s)"
  by (simp add: parse_item_def parse_leaf_def item_of_def leaf_of_def)

theorem search_honours_rule_witness:
  "\<exists>m. mergeRuleDomain (Some (JArray [item_of ''user_id'' 5])) (JArray [item_of ''id'' 9]) = Inr m
    \<and> \<not> selects (\<lambda>l. Some (lf_field l = ''id'')) m"
proof -
  let ?r = "JArray [item_of ''user_id'' 5]"
  obtain m where m: "mergeRuleDomain (Some ?r) (JArray [item_of ''id'' 9]) = Inr m"
    by (simp add: mergeRuleDomain_def json_empty_def elements_def)
  have p: "parses [item_of f n]" for f n
    by (simp add: parses_def parse_items_Cons parse_item_of)
  have s: "selects ev (JArray [item_of f n]) \<longleftrightarrow> ev (leaf_of f n) = Some True" for ev f n
    by (simp add: selects_items parse_items_Cons parse_item_of)
  have ok: "domain_ok ?r" using p by simp
  from search_honours_rule [OF p ok m] m s show ?thesis by (auto simp: leaf_of_def)
qed

text \<open>Without that hypothesis it fails: a domain that is one operand short takes the rule as its
  second operand, and the conjunction becomes a disjunction.\<close>

lemma incomplete_domain_absorbs_rule:
  "selects ev (JArray ([JString ''|'', item_of ''id'' a] @ [item_of ''user_id'' b])) \<longleftrightarrow>
     ev (leaf_of ''id'' a) = Some True \<or> ev (leaf_of ''user_id'' b) = Some True"
  "mergeRuleDomain (Some (JArray [item_of ''user_id'' b])) (JArray [JString ''|'', item_of ''id'' a])
     = Inr (JArray ([JString ''|'', item_of ''id'' a] @ [item_of ''user_id'' b]))"
  "\<not> parses [JString ''|'', item_of ''id'' a]"
proof -
  have "parse_item (JString ''|'') [Leaf (leaf_of ''id'' a), Leaf (leaf_of ''user_id'' b)]
    = Inr [NOr [Leaf (leaf_of ''user_id'' b), Leaf (leaf_of ''id'' a)]]"
    by (simp add: parse_item_def)
  moreover have short: "parse_item (JString ''|'') [n] = Inl (RuntimeError (''domainFromJson: '' @ quoted ''|''
      @ '' needs 2 operands''))" for n
    by (simp add: parse_item_def)
  ultimately show "selects ev (JArray ([JString ''|'', item_of ''id'' a] @ [item_of ''user_id'' b])) \<longleftrightarrow>
     ev (leaf_of ''id'' a) = Some True \<or> ev (leaf_of ''user_id'' b) = Some True"
    by (auto simp: selects_items parse_items_Cons parse_item_of)
  show "mergeRuleDomain (Some (JArray [item_of ''user_id'' b])) (JArray [JString ''|'', item_of ''id'' a])
     = Inr (JArray ([JString ''|'', item_of ''id'' a] @ [item_of ''user_id'' b]))"
    by (simp add: mergeRuleDomain_def json_empty_def elements_def)
  show "\<not> parses [JString ''|'', item_of ''id'' a]"
    using short by (simp add: parses_def parse_items_Cons parse_item_of)
qed

subsection \<open>Company scoping of every statement\<close>

text \<open>The rule fits when its values and the ones bound before stay within \<open>int\<close>.\<close>

definition rule_fits :: "json_env \<Rightarrow> json option \<Rightarrow> nat \<Rightarrow> bool" where
  "rule_fits env rule n \<longleftrightarrow> (case rule of None \<Rightarrow> True
     | Some r \<Rightarrow> (case domainFromJson r of Inl _ \<Rightarrow> True
       | Inr d \<Rightarrow> (case toSql (je_dump env) None '''' d of Inl _ \<Rightarrow> True
         | Inr (_, ps) \<Rightarrow> n + length ps \<le> 2147483647)))"

text \<open>What the rule adds: nothing, or one more operand of the WHERE.\<close>

definition rule_text :: "nat \<Rightarrow> string \<Rightarrow> nat \<Rightarrow> bool" where
  "rule_text n t m \<longleftrightarrow> t = '''' \<and> m = n \<or> (\<exists>cl. t = '' AND '' @ cl \<and> cond (column_ok None '''') n cl m)"

lemma appendRule_text:
  assumes "appendRuleClause env rule st n = Inr st'" and "rule_fits env rule n" and "length (st_params st) = n"
  shows "\<exists>t. st_sql st' = st_sql st @ t \<and> rule_text n t (length (st_params st'))"
proof (cases rule)
  case None
  with assms show ?thesis by (auto simp: appendRuleClause_def rule_text_def)
next
  case (Some r)
  show ?thesis
  proof (cases "json_empty r")
    case True
    with assms Some show ?thesis by (auto simp: appendRuleClause_def rule_text_def)
  next
    case False
    with assms(1) Some obtain d clause ps where d: "domainFromJson r = Inr d"
      and c: "toSql (je_dump env) None '''' d = Inr (clause, ps)"
      by (auto simp: appendRuleClause_def exn_simps)
    show ?thesis
    proof (cases "clause = ''TRUE''")
      case True
      with assms Some False d c show ?thesis by (auto simp: appendRuleClause_def rule_text_def)
    next
      case ne: False
      have "n + length ps \<le> 2147483647" using assms(2) Some d c by (simp add: rule_fits_def)
      from rule_clause_shifted [OF d c False ne this assms(3)] assms(1,3) Some
      show ?thesis by (auto simp: rule_text_def)
    qed
  qed
qed

lemma companyClause_nonempty: "companyScoped cfg u \<Longrightarrow> companyClause cfg u \<noteq> ''''"
  by (simp add: companyClause_def)

lemma appendCompany_scoped:
  "companyScoped cfg u \<Longrightarrow> appendCompanyClause cfg u st = st\<lparr>st_sql := st_sql st @ '' AND '' @ companyClause cfg u\<rparr>"
  by (simp add: appendCompanyClause_def companyClause_nonempty Let_def)

text \<open>Reading or deleting by id cannot leave the caller's company. For a signed-in user and a table
  with a company column, the WHERE of the statement is the list of ids, at most one well-formed
  record-rule condition, and the company clause, all joined by AND, with every placeholder bound.\<close>

theorem by_id_scoped:
  assumes "companyScoped cfg u" and "rule_fits env rule 1"
    and "read_stmt env cfg u rule ids flds = Inr (Some st)"
    and "unlink_stmt env cfg u rule ids = Inr (Some st')"
  shows "\<exists>t. st_sql st = ''SELECT '' @ buildSelectCols (mc_registry cfg) flds @ '' FROM '' @ mc_table cfg
        @ '' WHERE id = ANY($1::int[])'' @ t @ '' AND '' @ companyClause cfg u
      \<and> st_sql st' = ''DELETE FROM '' @ mc_table cfg @ '' WHERE id = ANY($1::int[])'' @ t
        @ '' AND '' @ companyClause cfg u
      \<and> rule_text 1 t (length (st_params st)) \<and> st_params st' = st_params st"
proof -
  let ?i = "\<lparr>st_sql = ''SELECT '' @ buildSelectCols (mc_registry cfg) flds @ '' FROM '' @ mc_table cfg
             @ '' WHERE id = ANY($1::int[])'', st_params = [PText (idsToArray ids)]\<rparr>"
  let ?j = "\<lparr>st_sql = ''DELETE FROM '' @ mc_table cfg @ '' WHERE id = ANY($1::int[])'',
           st_params = [PText (idsToArray ids)]\<rparr>"
  from assms(3) obtain s where s: "appendRuleClause env rule ?i 1 = Inr s" "st = appendCompanyClause cfg u s"
    by (auto simp: read_stmt_def exn_simps split: if_splits)
  from assms(4) obtain s' where s': "appendRuleClause env rule ?j 1 = Inr s'" "st' = appendCompanyClause cfg u s'"
    by (auto simp: unlink_stmt_def exn_simps split: if_splits)
  from appendRule_text [OF s(1) assms(2)] obtain t where
    t: "st_sql s = st_sql ?i @ t" "rule_text 1 t (length (st_params s))" by auto
  have "st_sql s' = st_sql ?j @ t \<and> st_params s' = st_params s"
    using s(1) s'(1) t(1)
    by (auto simp: appendRuleClause_def exn_simps split: option.splits if_splits)
  then show ?thesis
    using t by (intro exI [of _ t]) (simp add: s(2) s'(2) appendCompany_scoped [OF assms(1)])
qed

definition sample_user :: user_context where
  "sample_user = \<lparr>uc_uid = 5, uc_companyId = 2, uc_partnerId = 9, uc_groupIds = [3], uc_isAdmin = False,
     uc_allowedCompanyIds = [2]\<rparr>"

definition sample_cfg :: model_cfg where
  "sample_cfg = \<lparr>mc_model = ''sale.order'', mc_table = ''sale_order'', mc_registry = empty_registry,
     mc_has_db = True, mc_company_tables = [''sale_order'']\<rparr>"

lemma sample_scoped: "companyScoped sample_cfg sample_user"
  by (simp add: companyScoped_def hasCompanyColumn_def sample_cfg_def sample_user_def)

theorem by_id_scoped_witness:
  "\<exists>st. read_stmt sample_env sample_cfg sample_user None [7] [] = Inr (Some st)
    \<and> st_sql st = ''SELECT id FROM sale_order WHERE id = ANY($1::int[]) AND (company_id IS NULL OR company_id = 2)''"
proof -
  obtain st st' where a: "read_stmt sample_env sample_cfg sample_user None [7] [] = Inr (Some st)"
    and b: "unlink_stmt sample_env sample_cfg sample_user None [7] = Inr (Some st')"
    by (simp add: read_stmt_def unlink_stmt_def appendRuleClause_def)
  have f: "rule_fits sample_env None 1" by (simp add: rule_fits_def)
  have c: "companyClause sample_cfg sample_user = ''(company_id IS NULL OR company_id = 2)''" by code_simp
  have n: "st_params st = [PText (idsToArray [7])]"
    using a by (auto simp: read_stmt_def appendRuleClause_def appendCompanyClause_def Let_def)
  from by_id_scoped [OF sample_scoped f a b] obtain t where
    t: "st_sql st = ''SELECT '' @ buildSelectCols (mc_registry sample_cfg) [] @ '' FROM '' @ mc_table sample_cfg
        @ '' WHERE id = ANY($1::int[])'' @ t @ '' AND '' @ companyClause sample_cfg sample_user" by blast
  moreover have "st_sql st = ''SELECT id FROM sale_order WHERE id = ANY($1::int[]) AND (company_id IS NULL OR company_id = 2)''"
    using a by (auto simp: read_stmt_def appendRuleClause_def appendCompanyClause_def Let_def c)
      (simp_all add: sample_cfg_def buildSelectCols_def storedColumnNames_def empty_registry_def)
  ultimately show ?thesis using a by blast
qed

text \<open>A search cannot leave the caller's company or the model's columns. The WHERE of every search,
  paged search and count of a signed-in user is one well-formed condition over stored columns of
  the model and the company clause, joined by AND, and the page of a searchRead never exceeds
  1000 rows.\<close>

theorem searches_scoped:
  assumes "companyScoped cfg u"
    and "searchRead_stmt env cfg u rule domain flds limit offset order = Inr st"
  shows "\<exists>w. cond (column_ok (Some (storedColumnNames (mc_registry cfg))) '''') 0 w (length (st_params st))
    \<and> st_sql st = ''SELECT '' @ buildSelectCols (mc_registry cfg) flds @ '' FROM '' @ mc_table cfg @ '' WHERE ''
        @ w @ '' AND '' @ companyClause cfg u @ page_suffix order (page_limit limit) offset
    \<and> search_stmt env cfg u rule domain limit offset order
        = Inr (st\<lparr>st_sql := ''SELECT id FROM '' @ mc_table cfg @ '' WHERE '' @ w
            @ '' AND '' @ companyClause cfg u @ page_suffix order limit offset\<rparr>)
    \<and> searchCount_stmt env cfg u rule domain
        = Inr (st\<lparr>st_sql := ''SELECT COUNT(*) FROM '' @ mc_table cfg @ '' WHERE '' @ w
            @ '' AND '' @ companyClause cfg u\<rparr>)
    \<and> 0 < page_limit limit \<and> page_limit limit \<le> 1000"
proof -
  let ?cols = "Some (storedColumnNames (mc_registry cfg))"
  from assms(2) obtain s where v: "validateOrder (mc_registry cfg) order = Inr ()"
    and s: "where_stmt env cfg u rule domain (buildSelectCols (mc_registry cfg) flds) = Inr s"
    and st: "st = add_suffix (page_suffix order (page_limit limit) offset) s"
    by (auto simp: searchRead_stmt_def exn_simps)
  from s obtain m d clause ps where m: "mergeRuleDomain rule domain = Inr m" "domainFromJson m = Inr d"
    and c: "toSql (je_dump env) ?cols '''' d = Inr (clause, ps)"
    by (auto simp: where_stmt_def exn_simps)
  have w: "where_stmt env cfg u rule domain x = Inr \<lparr>st_sql = ''SELECT '' @ x @ '' FROM '' @ mc_table cfg
      @ '' WHERE '' @ clause @ '' AND '' @ companyClause cfg u, st_params = map PText ps\<rparr>" for x
    using m c by (simp add: where_stmt_def appendCompany_scoped [OF assms(1)])
  have k: "cond (column_ok ?cols '''') 0 clause (length ps)"
    using c compile_cond(1) [of "je_dump env" ?cols "''''" d "[]" clause ps]
    by (auto simp: toSql_def intro: cond_const split: if_splits)
  have s': "s = \<lparr>st_sql = ''SELECT '' @ buildSelectCols (mc_registry cfg) flds @ '' FROM '' @ mc_table cfg
      @ '' WHERE '' @ clause @ '' AND '' @ companyClause cfg u, st_params = map PText ps\<rparr>"
    using s w [of "buildSelectCols (mc_registry cfg) flds"] by simp
  have "0 < page_limit limit \<and> page_limit limit \<le> 1000" by (simp add: page_limit_def kMaxPageSize_def)
  then show ?thesis
    using k v w [of "''id''"] w [of "''COUNT(*)''"]
    by (intro exI [of _ clause]) (simp add: search_stmt_def searchCount_stmt_def add_suffix_def st s')
qed

theorem searches_scoped_witness:
  "\<exists>st. searchRead_stmt sample_env sample_cfg sample_user None (JArray []) [] 0 0 '''' = Inr st
    \<and> st_sql st = ''SELECT id FROM sale_order WHERE TRUE AND (company_id IS NULL OR company_id = 2) LIMIT 1000''
    \<and> page_limit 0 \<le> 1000"
proof -
  have s: "searchRead_stmt sample_env sample_cfg sample_user None (JArray []) [] 0 0 ''''
    = Inr \<lparr>st_sql = ''SELECT id FROM sale_order WHERE TRUE AND (company_id IS NULL OR company_id = 2) LIMIT 1000'',
           st_params = []\<rparr>"
    by code_simp
  from searches_scoped [OF sample_scoped s] s show ?thesis by auto
qed

text \<open>The company a new record is stamped with is one the user may write to. For a signed-in user
  with an active company, a create that is not refused is stamped with that company or one the
  user is a member of, and goes in unstamped (shared) only when an administrator asked for it by
  an explicit null or false; a foreign company is refused.\<close>

theorem stamp_allowed:
  assumes "companyScoped cfg u" and "0 < uc_companyId u"
  shows "(\<forall>c vals'. stampCompany env cfg u vals = Inr (c, vals') \<longrightarrow>
      (if c = 0 then uc_isAdmin u \<and> map_of vals ''company_id'' \<in> {Some JNull, Some (JBool False)}
         \<and> map_of vals' ''company_id'' = None
       else c = uc_companyId u \<or> mayUseCompany u c))
    \<and> (\<forall>i. map_of vals ''company_id'' = Some (JInt i) \<and> 0 < i \<and> i \<le> 2147483647 \<and> i \<noteq> uc_companyId u
         \<and> \<not> mayUseCompany u i \<longrightarrow>
       stampCompany env cfg u vals = Inl (ValidationError ''You cannot create records for another company.''))"
proof (intro conjI allI impI)
  fix c vals' assume a: "stampCompany env cfg u vals = Inr (c, vals')"
  show "if c = 0 then uc_isAdmin u \<and> map_of vals ''company_id'' \<in> {Some JNull, Some (JBool False)}
         \<and> map_of vals' ''company_id'' = None
       else c = uc_companyId u \<or> mayUseCompany u c"
  proof (cases "map_of vals ''company_id''")
    case None
    with a assms show ?thesis by (auto simp: stampCompany_def)
  next
    case (Some v)
    have e: "map_of (obj_erase ''company_id'' vals) ''company_id'' = None"
      by (auto simp: obj_erase_def map_of_eq_None_iff)
    show ?thesis
    proof (cases "v \<noteq> JNull \<and> v \<noteq> JBool False")
      case True
      with a assms Some show ?thesis by (auto simp: stampCompany_def Let_def split: if_splits)
    next
      case False
      with a assms Some e show ?thesis by (auto simp: stampCompany_def split: if_splits)
    qed
  qed
next
  fix i assume "map_of vals ''company_id'' = Some (JInt i) \<and> 0 < i \<and> i \<le> 2147483647 \<and> i \<noteq> uc_companyId u
         \<and> \<not> mayUseCompany u i"
  with assms(1) show "stampCompany env cfg u vals = Inl (ValidationError ''You cannot create records for another company.'')"
    by (simp add: stampCompany_def wanted_company_def wrap32_id)
qed

theorem stamp_allowed_witness:
  "stampCompany sample_env sample_cfg sample_user [(''company_id'', JInt 3)]
    = Inl (ValidationError ''You cannot create records for another company.'')"
proof -
  have "0 < uc_companyId sample_user" "3 \<noteq> uc_companyId sample_user" "\<not> mayUseCompany sample_user 3"
    by (simp_all add: sample_user_def mayUseCompany_def)
  with stamp_allowed [OF sample_scoped this(1), of sample_env "[(''company_id'', JInt 3)]"] show ?thesis by simp
qed

text \<open>The check reads numbers and strings only: the pair form of a many2one, which \<open>normalizeForDb_\<close>
  turns into its id, passes it untouched.\<close>

lemma stamp_ignores_pair:
  "companyScoped cfg u \<Longrightarrow> stampCompany env cfg u [(''company_id'', JArray [JInt 9, JString n])]
    = Inr (uc_companyId u, [(''company_id'', JArray [JInt 9, JString n])])"
  by (simp add: stampCompany_def wanted_company_def)

subsection \<open>The UPDATE statement\<close>

lemma join_snoc: "join sep (xs @ [x]) = (if xs = [] then x else join sep xs @ sep @ x)"
  by (induction sep xs rule: join.induct) auto

text \<open>The assignments of a list of columns, numbered from one.\<close>

definition assignments :: "string list \<Rightarrow> string" where
  "assignments ks = join '','' (map (\<lambda>i. ks ! i @ ''='' @ dollar (i + 1)) [0..<length ks])"

lemma assignments_snoc:
  "assignments (ks @ [k]) = assignments ks @ (if ks = [] then '''' else '','') @ k @ ''='' @ dollar (length ks + 1)"
proof -
  have "map (\<lambda>i. (ks @ [k]) ! i @ ''='' @ dollar (i + 1)) [0..<length (ks @ [k])]
    = map (\<lambda>i. ks ! i @ ''='' @ dollar (i + 1)) [0..<length ks] @ [k @ ''='' @ dollar (length ks + 1)]"
    by (auto simp: nth_append intro!: map_cong)
  then show ?thesis unfolding assignments_def by (simp only: join_snoc) auto
qed

lemma set_items:
  "foldE (set_item env r) vals sc = Inr sc' \<Longrightarrow> sc_text sc = assignments ks \<Longrightarrow> length (sc_params sc) = length ks
    \<Longrightarrow> sc_idx sc = length ks + 1 \<Longrightarrow>
   (let ks' = ks @ filter (reg_has r) (map fst vals)
    in sc_text sc' = assignments ks' \<and> length (sc_params sc') = length ks' \<and> sc_idx sc' = length ks' + 1)"
proof (induction vals arbitrary: sc ks)
  case (Cons kv vals)
  obtain k v where kv: "kv = (k, v)" by (cases kv)
  from Cons.prems(1) obtain s where s: "set_item env r kv sc = Inr s" "foldE (set_item env r) vals s = Inr sc'"
    by (auto simp: exn_simps)
  show ?case
  proof (cases "reg_has r k")
    case False
    with s kv have "s = sc" by (simp add: set_item_def)
    with Cons.IH [of sc ks] Cons.prems s False kv show ?thesis by simp
  next
    case True
    with s kv obtain nv where "s = \<lparr>sc_text = sc_text sc @ (if sc_params sc = [] then '''' else '','') @ k @ ''='' @ dollar (sc_idx sc),
             sc_params = sc_params sc @ [appendParam env nv], sc_idx = sc_idx sc + 1\<rparr>"
      by (auto simp: set_item_def exn_simps)
    with Cons.prems have "sc_text s = assignments (ks @ [k])" "length (sc_params s) = length (ks @ [k])"
      "sc_idx s = length (ks @ [k]) + 1"
      by (auto simp: assignments_snoc)
    from Cons.IH [OF s(2) this] True kv show ?thesis by simp
  qed
qed (simp add: Let_def)

lemma rule_fits_mono: "rule_fits env rule n \<Longrightarrow> m \<le> n \<Longrightarrow> rule_fits env rule m"
  by (auto simp: rule_fits_def split: option.splits sum.splits)


definition sample_reg :: field_registry where
  "sample_reg = \<lparr>rg_fields = [sample_field\<lparr>fd_name := ''note'', fd_type := Char\<rparr>], rg_index = [''note'' \<mapsto> 0]\<rparr>"


end
