(* ===== verification/Session.thy ===== *)
theory Session
  imports RuleEngine "HOL-Library.AList" "HOL-Library.Word"
begin

section \<open>Session stores (core/infrastructure/SessionManager.hpp, modules/portal/PortalModule.cpp)\<close>

text \<open>
  The two in-memory session stores: the one of the back office, bounded and with eviction, and the
  one of the customer portal. A store is the list of its entries in the order a loop over the
  \<open>unordered_map\<close> visits them; nothing below depends on where a new entry lands. Every operation
  runs under the lock of its store, so it is one function of the store; the instant of the steady
  clock it sees, in nanoseconds, and the bytes \<open>RAND_bytes\<close> delivers (\<open>None\<close> when it fails) are
  arguments.
\<close>

record session =
  ss_sessionId :: string
  ss_uid :: int
  ss_login :: string
  ss_db :: string
  ss_identity :: string
  ss_context :: json
  ss_name :: string
  ss_partnerId :: int
  ss_companyId :: int
  ss_companyName :: string
  ss_isAdmin :: bool
  ss_groupIds :: "int list"
  ss_allowedCompanyIds :: "int list"
  ss_allowedCompanyNames :: "string list"
  ss_createdAt :: int
  ss_accessedAt :: int

text \<open>A default-constructed \<open>Session\<close>, at an instant.\<close>

definition new_session :: "int \<Rightarrow> session" where
  "new_session now =
     \<lparr>ss_sessionId = '''', ss_uid = 0, ss_login = '''', ss_db = '''', ss_identity = '''',
      ss_context = JObject [], ss_name = '''', ss_partnerId = 0, ss_companyId = 0,
      ss_companyName = '''', ss_isAdmin = False, ss_groupIds = [], ss_allowedCompanyIds = [],
      ss_allowedCompanyNames = [], ss_createdAt = now, ss_accessedAt = now\<rparr>"

definition isAuthenticated :: "session \<Rightarrow> bool" where
  "isAuthenticated s \<longleftrightarrow> ss_uid s > 0"

definition session_hasGroup :: "session \<Rightarrow> int \<Rightarrow> bool" where
  "session_hasGroup s gid \<longleftrightarrow> gid \<in> set (ss_groupIds s)"

definition hasAnyGroup :: "session \<Rightarrow> int list \<Rightarrow> bool" where
  "hasAnyGroup s gids \<longleftrightarrow> list_ex (session_hasGroup s) gids"

definition mayUseCompanyId :: "session \<Rightarrow> int \<Rightarrow> bool" where
  "mayUseCompanyId s cid \<longleftrightarrow> cid > 0 \<and> cid \<in> set (ss_allowedCompanyIds s)"

definition id_or_false :: "int \<Rightarrow> json" where
  "id_or_false i = (if i > 0 then JInt i else JBool False)"

definition company_json :: "session \<Rightarrow> nat \<Rightarrow> json" where
  "company_json s i = JObject
     [(''id'', JInt (ss_allowedCompanyIds s ! i)),
      (''name'', JString (if i < length (ss_allowedCompanyNames s)
                          then ss_allowedCompanyNames s ! i else ''''))]"

definition session_json :: "session \<Rightarrow> json" where
  "session_json s = JObject
     [(''allowed_companies'', JArray (map (company_json s) [0..<length (ss_allowedCompanyIds s)])),
      (''session_id'', JString (ss_sessionId s)),
      (''uid'', JInt (ss_uid s)),
      (''login'', JString (ss_login s)),
      (''db'', JString (ss_db s)),
      (''context'', ss_context s),
      (''name'', JString (ss_name s)),
      (''partner_id'', id_or_false (ss_partnerId s)),
      (''company_id'', id_or_false (ss_companyId s)),
      (''company_name'', JString (ss_companyName s)),
      (''is_admin'', JBool (ss_isAdmin s)),
      (''is_system'', JBool (ss_isAdmin s)),
      (''group_ids'', JArray (map JInt (ss_groupIds s)))]"

subsection \<open>Session ids\<close>

definition kHex :: string where "kHex = ''0123456789abcdef''"

definition hex_byte :: "8 word \<Rightarrow> string" where
  "hex_byte b = [kHex ! unat (drop_bit 4 b), kHex ! unat (and b 0x0f)]"

definition generateId :: "8 word list option \<Rightarrow> string result" where
  "generateId buf = (case buf of
       None \<Rightarrow> Inl (RuntimeError ''SessionManager: RAND_bytes failed'')
     | Some bs \<Rightarrow> Inr (concat (map hex_byte bs)))"

subsection \<open>The bounded store\<close>

record session_manager =
  sm_ttl :: int
  sm_store :: "(string \<times> session) list"
  sm_max :: nat

definition second :: int where "second = 1000000000"

definition kTouchInterval :: int where "kTouchInterval = 60 * second"

definition initial_manager :: "int \<Rightarrow> session_manager" where
  "initial_manager ttl = \<lparr>sm_ttl = ttl, sm_store = [], sm_max = 50000\<rparr>"

definition isExpired :: "int \<Rightarrow> session_manager \<Rightarrow> session \<Rightarrow> bool" where
  "isExpired now m s \<longleftrightarrow> now - ss_accessedAt s > sm_ttl m * second"

definition evictExpiredLocked :: "int \<Rightarrow> session_manager \<Rightarrow> nat \<times> session_manager" where
  "evictExpiredLocked now m =
     (let kept = filter (\<lambda>(k, s). \<not> isExpired now m s) (sm_store m)
      in (length (sm_store m) - length kept, m\<lparr>sm_store := kept\<rparr>))"

text \<open>One pass that keeps the oldest anonymous entry and the oldest entry seen so far.\<close>

definition older :: "session \<Rightarrow> (string \<times> session) option \<Rightarrow> bool" where
  "older s best = (case best of None \<Rightarrow> True | Some (_, b) \<Rightarrow> ss_accessedAt s < ss_accessedAt b)"

fun oldest_scan ::
  "(string \<times> session) list \<Rightarrow> (string \<times> session) option \<Rightarrow> (string \<times> session) option
   \<Rightarrow> (string \<times> session) option \<times> (string \<times> session) option" where
  "oldest_scan [] anon any = (anon, any)"
| "oldest_scan ((k, s) # es) anon any =
     oldest_scan es
       (if \<not> isAuthenticated s \<and> older s anon then Some (k, s) else anon)
       (if older s any then Some (k, s) else any)"

definition evictOldestAnonymousLocked :: "session_manager \<Rightarrow> session_manager" where
  "evictOldestAnonymousLocked m =
     (let (anon, any) = oldest_scan (sm_store m) None None
      in case (if anon \<noteq> None then anon else any) of
           None \<Rightarrow> m
         | Some (k, _) \<Rightarrow> m\<lparr>sm_store := AList.delete k (sm_store m)\<rparr>)"

definition make_room :: "int \<Rightarrow> session_manager \<Rightarrow> session_manager" where
  "make_room now m =
     (if length (sm_store m) \<ge> sm_max m
      then let m1 = snd (evictExpiredLocked now m)
           in if length (sm_store m1) \<ge> sm_max m1 then evictOldestAnonymousLocked m1 else m1
      else m)"

definition create_session ::
  "int \<Rightarrow> 8 word list option \<Rightarrow> string \<Rightarrow> session_manager \<Rightarrow> string result \<times> session_manager" where
  "create_session now buf db m = (case generateId buf of
       Inl e \<Rightarrow> (Inl e, m)
     | Inr i \<Rightarrow>
         let s = (new_session now)\<lparr>ss_sessionId := i, ss_db := db\<rparr>;
             m1 = make_room now m
         in (Inr i, m1\<lparr>sm_store := AList.update i s (sm_store m1)\<rparr>))"

text \<open>\<open>rotate\<close> takes the entry out before it asks for a new id: a failing generator loses it.\<close>

definition rotate_session ::
  "int \<Rightarrow> 8 word list option \<Rightarrow> string \<Rightarrow> session_manager \<Rightarrow> string result \<times> session_manager" where
  "rotate_session now buf oldId m = (case map_of (sm_store m) oldId of
       None \<Rightarrow> (Inr '''', m)
     | Some s \<Rightarrow>
         if isExpired now m s then (Inr '''', m)
         else let m1 = m\<lparr>sm_store := AList.delete oldId (sm_store m)\<rparr>
              in case generateId buf of
                   Inl e \<Rightarrow> (Inl e, m1)
                 | Inr i \<Rightarrow>
                     let moved = s\<lparr>ss_sessionId := i, ss_createdAt := now, ss_accessedAt := now\<rparr>
                     in (Inr i, m1\<lparr>sm_store := AList.update i moved (sm_store m1)\<rparr>))"

definition setMaxSessions :: "nat \<Rightarrow> session_manager \<Rightarrow> session_manager" where
  "setMaxSessions n m = m\<lparr>sm_max := (if n \<noteq> 0 then n else 18446744073709551615)\<rparr>"

text \<open>The two phases of \<open>get\<close>: under the shared lock, then under the exclusive one. The outer
  option says whether the first phase has answered.\<close>

definition get_shared :: "int \<Rightarrow> session_manager \<Rightarrow> string \<Rightarrow> session option option" where
  "get_shared now m sid = (case map_of (sm_store m) sid of
       None \<Rightarrow> Some None
     | Some s \<Rightarrow>
         if isExpired now m s then Some None
         else if now - ss_accessedAt s < kTouchInterval then Some (Some s)
         else None)"

definition get_exclusive ::
  "int \<Rightarrow> session_manager \<Rightarrow> string \<Rightarrow> session option \<times> session_manager" where
  "get_exclusive now m sid = (case map_of (sm_store m) sid of
       None \<Rightarrow> (None, m)
     | Some s \<Rightarrow>
         if isExpired now m s then (None, m)
         else let s' = s\<lparr>ss_accessedAt := now\<rparr>
              in (Some s', m\<lparr>sm_store := AList.update sid s' (sm_store m)\<rparr>))"

definition get_session ::
  "int \<Rightarrow> session_manager \<Rightarrow> string \<Rightarrow> session option \<times> session_manager" where
  "get_session now m sid = (case get_shared now m sid of
       Some r \<Rightarrow> (r, m)
     | None \<Rightarrow> get_exclusive now m sid)"

definition update_session ::
  "int \<Rightarrow> (session \<Rightarrow> session) \<Rightarrow> string \<Rightarrow> session_manager \<Rightarrow> bool \<times> session_manager" where
  "update_session now patch sid m = (case map_of (sm_store m) sid of
       None \<Rightarrow> (False, m)
     | Some s \<Rightarrow>
         if isExpired now m s then (False, m)
         else (True, m\<lparr>sm_store := AList.update sid ((patch s)\<lparr>ss_accessedAt := now\<rparr>) (sm_store m)\<rparr>))"

definition destroy_session :: "string \<Rightarrow> session_manager \<Rightarrow> session_manager" where
  "destroy_session sid m = m\<lparr>sm_store := AList.delete sid (sm_store m)\<rparr>"

definition evictExpired :: "int \<Rightarrow> session_manager \<Rightarrow> nat \<times> session_manager" where
  "evictExpired now m = evictExpiredLocked now m"

definition cookieName :: string where "cookieName = ''session_id''"

definition extractFromCookie :: "string \<Rightarrow> string" where
  "extractFromCookie h = (case str_find h (cookieName @ ''='') 0 of
       None \<Rightarrow> ''''
     | Some pos \<Rightarrow>
         let start = pos + length (cookieName @ ''='')
         in case find_char h (CHR '';'') start of
              None \<Rightarrow> drop start h
            | Some e \<Rightarrow> substr h start (e - start))"

subsection \<open>The portal's store\<close>

record portal_session =
  ps_sessionId :: string
  ps_partnerId :: int
  ps_name :: string
  ps_email :: string
  ps_accessedAt :: int

record portal_manager =
  pm_ttl :: int
  pm_store :: "(string \<times> portal_session) list"

definition portal_create ::
  "int \<Rightarrow> 8 word list option \<Rightarrow> int \<Rightarrow> string \<Rightarrow> string \<Rightarrow> portal_manager \<Rightarrow> string result \<times> portal_manager" where
  "portal_create now buf pid nm em m = (case generateId buf of
       Inl e \<Rightarrow> (Inl (RuntimeError ''PortalSessionManager: RAND_bytes failed''), m)
     | Inr i \<Rightarrow> (Inr i, m\<lparr>pm_store := AList.update i
          \<lparr>ps_sessionId = i, ps_partnerId = pid, ps_name = nm, ps_email = em, ps_accessedAt = now\<rparr>
          (pm_store m)\<rparr>))"

definition portal_expired :: "int \<Rightarrow> portal_manager \<Rightarrow> portal_session \<Rightarrow> bool" where
  "portal_expired now m s \<longleftrightarrow> now - ps_accessedAt s > pm_ttl m * second"

definition portal_get ::
  "int \<Rightarrow> portal_manager \<Rightarrow> string \<Rightarrow> portal_session option \<times> portal_manager" where
  "portal_get now m sid = (case map_of (pm_store m) sid of
       None \<Rightarrow> (None, m)
     | Some s \<Rightarrow>
         if portal_expired now m s then (None, m)
         else if now - ps_accessedAt s < kTouchInterval then (Some s, m)
         else let s' = s\<lparr>ps_accessedAt := now\<rparr>
              in (Some s', m\<lparr>pm_store := AList.update sid s' (pm_store m)\<rparr>))"

definition portal_remove :: "string \<Rightarrow> portal_manager \<Rightarrow> portal_manager" where
  "portal_remove sid m = m\<lparr>pm_store := AList.delete sid (pm_store m)\<rparr>"

subsection \<open>Lemmas on stores\<close>

lemma length_AList_update:
  "length (AList.update k v al) = (if k \<in> fst ` set al then length al else Suc (length al))"
  by (induction al) auto

lemma length_AList_delete_less:
  "k \<in> fst ` set al \<Longrightarrow> length (AList.delete k al) < length al"
  unfolding AList.delete_eq by (erule imageE) (auto intro: length_filter_less)

lemma delete_in:
  "distinct (map fst al) \<Longrightarrow> x \<in> set (AList.delete k al) \<Longrightarrow> x \<in> set al \<and> fst x \<noteq> k"
  unfolding AList.delete_eq by auto

lemma map_of_filter_Some:
  assumes "distinct (map fst al)"
  shows "map_of (filter P al) k = Some s \<longleftrightarrow> map_of al k = Some s \<and> P (k, s)"
  using assms by (auto simp: distinct_map_filter map_of_eq_Some_iff)

text \<open>How many entries satisfy a predicate on their value.\<close>

definition count_such :: "('s \<Rightarrow> bool) \<Rightarrow> ('k \<times> 's) list \<Rightarrow> nat" where
  "count_such P al = length (filter (\<lambda>(k, s). P s) al)"

lemma count_such_filter: "count_such P (filter Q al) \<le> count_such P al"
  unfolding count_such_def by (induction al) auto

lemma count_such_delete: "count_such P (AList.delete k al) \<le> count_such P al"
  unfolding AList.delete_eq by (rule count_such_filter)

lemma count_such_update: "\<not> P v \<Longrightarrow> count_such P (AList.update k v al) \<le> count_such P al"
  unfolding count_such_def by (induction al) auto

lemma count_such_all: "(\<And>k s. (k, s) \<in> set al \<Longrightarrow> P s) \<Longrightarrow> count_such P al = length al"
  unfolding count_such_def by (induction al) auto

subsection \<open>Ids are tokens of 32 hexadecimal digits, one per value of the 16 bytes\<close>

definition hex_value :: "char \<Rightarrow> nat" where
  "hex_value c = (if isdigit c then of_char c - 48 else of_char c - 87)"

lemma kHex_nth:
  assumes "n < 16"
  shows "hex_value (kHex ! n) = n" and "isxdigit (kHex ! n)"
proof -
  have "list_all (\<lambda>n. hex_value (kHex ! n) = n \<and> isxdigit (kHex ! n)) [0..<16]" by code_simp
  with assms have "hex_value (kHex ! n) = n \<and> isxdigit (kHex ! n)" by (simp add: list_all_iff)
  then show "hex_value (kHex ! n) = n" "isxdigit (kHex ! n)" by auto
qed

lemma hex_byte_props:
  shows "length (hex_byte b) = 2" and "\<forall>c \<in> set (hex_byte b). isxdigit c"
    and "hex_byte b = hex_byte b' \<Longrightarrow> b = b'"
proof -
  have dv: "unat (drop_bit 4 b) = unat b div 16" for b :: "8 word"
    unfolding unat_drop_bit_eq by (simp add: drop_bit_eq_div)
  have hi: "unat (drop_bit 4 b) < 16" for b :: "8 word"
    using unsigned_less [of b, where 'a = nat] by (simp only: dv) simp
  have lo: "unat (and b 0x0f) = unat b mod 16" for b :: "8 word"
  proof -
    have "and b (mask 4) = take_bit 4 b" by (simp add: take_bit_eq_mask)
    moreover have "(mask 4 :: 8 word) = 0x0f" by (simp add: mask_eq_exp_minus_1)
    ultimately have "and b 0x0f = take_bit 4 b" by simp
    then have "unat (and b 0x0f) = take_bit 4 (unat b)" by (simp only: unsigned_take_bit_eq)
    then show ?thesis by (simp add: take_bit_eq_mod)
  qed
  show "length (hex_byte b) = 2" by (simp add: hex_byte_def)
  show "\<forall>c \<in> set (hex_byte b). isxdigit c"
    using kHex_nth(2) [OF hi] by (simp add: hex_byte_def lo kHex_nth)
  assume "hex_byte b = hex_byte b'"
  then have "unat (drop_bit 4 b) = unat (drop_bit 4 b')" "unat b mod 16 = unat b' mod 16"
    unfolding hex_byte_def lo using kHex_nth(1) [OF hi] kHex_nth(1) [of "unat _ mod 16"]
    by (metis list.inject, metis list.inject mod_less_divisor zero_less_numeral)
  then have "unat b div 16 = unat b' div 16" "unat b mod 16 = unat b' mod 16"
    by (simp_all only: dv)
  then have "unat b = unat b'" by (metis div_mult_mod_eq)
  then show "b = b'" by (simp add: word_unat_eq_iff)
qed

lemma concat_hex_bytes:
  "length (concat (map hex_byte bs)) = 2 * length bs"
  "\<forall>c \<in> set (concat (map hex_byte bs)). isxdigit c"
  using hex_byte_props(2) by (induction bs) (auto simp: hex_byte_props(1))

lemma concat_hex_bytes_inj:
  "length bs = length bs' \<Longrightarrow> concat (map hex_byte bs) = concat (map hex_byte bs') \<Longrightarrow> bs = bs'"
  by (induction bs bs' rule: list_induct2) (auto simp: hex_byte_props(1) dest: hex_byte_props(3))

lemma generateId_token:
  "generateId (Some bs) = Inr i \<Longrightarrow> length bs = 16 \<Longrightarrow> length i = 32 \<and> list_all isxdigit i"
  using concat_hex_bytes [of bs] by (auto simp: generateId_def list_all_iff)

subsection \<open>Making room: anonymous and expired entries go first\<close>

lemma oldest_scan_anon:
  assumes "oldest_scan es anon any = (a, y)"
  shows "a = None \<longleftrightarrow> anon = None \<and> (\<forall>e \<in> set es. isAuthenticated (snd e))"
    and "a = Some (k, s) \<Longrightarrow> anon = Some (k, s) \<or> (k, s) \<in> set es \<and> \<not> isAuthenticated s"
    and "y = None \<longleftrightarrow> any = None \<and> es = []"
    and "y = Some (k, s) \<Longrightarrow> any = Some (k, s) \<or> (k, s) \<in> set es"
  using assms
  by (induction es anon any rule: oldest_scan.induct) (auto simp: older_def split: if_splits)

definition logged_in_count :: "session_manager \<Rightarrow> nat" where
  "logged_in_count m = count_such isAuthenticated (sm_store m)"

lemma evict_anonymous:
  assumes d: "distinct (map fst (sm_store m))"
  shows "distinct (map fst (sm_store (evictOldestAnonymousLocked m)))"
    and "sm_store m \<noteq> [] \<Longrightarrow> length (sm_store (evictOldestAnonymousLocked m)) < length (sm_store m)"
    and "map_of (sm_store (evictOldestAnonymousLocked m)) j = Some s \<Longrightarrow> map_of (sm_store m) j = Some s"
    and "logged_in_count (evictOldestAnonymousLocked m) \<le> logged_in_count m"
    and "logged_in_count m < length (sm_store m) \<Longrightarrow> map_of (sm_store m) j = Some s \<Longrightarrow>
         isAuthenticated s \<Longrightarrow> map_of (sm_store (evictOldestAnonymousLocked m)) j = Some s"
    and "sm_ttl (evictOldestAnonymousLocked m) = sm_ttl m \<and> sm_max (evictOldestAnonymousLocked m) = sm_max m"
proof -
  obtain a y where sc: "oldest_scan (sm_store m) None None = (a, y)" by fastforce
  note sc' = oldest_scan_anon [OF sc]
  define v where "v = (if a \<noteq> None then a else y)"
  have e: "evictOldestAnonymousLocked m =
      (case v of None \<Rightarrow> m | Some (k, _) \<Rightarrow> m\<lparr>sm_store := AList.delete k (sm_store m)\<rparr>)"
    by (simp add: evictOldestAnonymousLocked_def sc v_def)
  have mem: "v = Some (k, t) \<Longrightarrow> (k, t) \<in> set (sm_store m)" for k t
    using sc'(2,4) by (auto simp: v_def split: if_splits)
  have none: "v = None \<longleftrightarrow> sm_store m = []"
    using sc'(1,3) by (auto simp: v_def)
  show "distinct (map fst (sm_store (evictOldestAnonymousLocked m)))"
    using d by (auto simp: e distinct_delete split: option.splits)
  show "sm_store m \<noteq> [] \<Longrightarrow> length (sm_store (evictOldestAnonymousLocked m)) < length (sm_store m)"
    using none mem by (auto simp: e split: option.splits intro!: length_AList_delete_less intro: rev_image_eqI)
  show "map_of (sm_store (evictOldestAnonymousLocked m)) j = Some s \<Longrightarrow> map_of (sm_store m) j = Some s"
    by (auto simp: e delete_conv split: option.splits if_splits)
  show "logged_in_count (evictOldestAnonymousLocked m) \<le> logged_in_count m"
    by (auto simp: e logged_in_count_def count_such_delete split: option.splits)
  show "sm_ttl (evictOldestAnonymousLocked m) = sm_ttl m \<and> sm_max (evictOldestAnonymousLocked m) = sm_max m"
    by (auto simp: e split: option.splits)
  assume c: "logged_in_count m < length (sm_store m)" and j: "map_of (sm_store m) j = Some s"
    and s: "isAuthenticated s"
  have "a \<noteq> None"
  proof
    assume "a = None"
    then have "\<forall>e \<in> set (sm_store m). isAuthenticated (snd e)" using sc'(1) by simp
    then have "logged_in_count m = length (sm_store m)"
      unfolding logged_in_count_def by (intro count_such_all) auto
    with c show False by simp
  qed
  then obtain k t where v: "v = Some (k, t)" "(k, t) \<in> set (sm_store m)" "\<not> isAuthenticated t"
    using sc'(2) by (cases a) (auto simp: v_def)
  have "k \<noteq> j" using v j s d by (metis map_of_eq_Some_iff option.inject)
  with j v show "map_of (sm_store (evictOldestAnonymousLocked m)) j = Some s"
    by (simp add: e delete_conv)
qed

lemma make_room:
  assumes d: "distinct (map fst (sm_store m))"
  shows "distinct (map fst (sm_store (make_room now m)))"
    and "0 < sm_max m \<Longrightarrow> length (sm_store (make_room now m)) < max (length (sm_store m)) (sm_max m)"
    and "map_of (sm_store (make_room now m)) j = Some s \<Longrightarrow> map_of (sm_store m) j = Some s"
    and "logged_in_count (make_room now m) \<le> logged_in_count m"
    and "logged_in_count m < sm_max m \<Longrightarrow> map_of (sm_store m) j = Some s \<Longrightarrow>
         isAuthenticated s \<Longrightarrow> \<not> isExpired now m s \<Longrightarrow> map_of (sm_store (make_room now m)) j = Some s"
    and "sm_ttl (make_room now m) = sm_ttl m \<and> sm_max (make_room now m) = sm_max m"
proof -
  define m1 where "m1 = snd (evictExpiredLocked now m)"
  have m1: "sm_store m1 = filter (\<lambda>(k, s). \<not> isExpired now m s) (sm_store m)" "sm_ttl m1 = sm_ttl m"
    "sm_max m1 = sm_max m" by (simp_all add: m1_def evictExpiredLocked_def Let_def)
  have d1: "distinct (map fst (sm_store m1))" using d by (simp add: m1(1) distinct_map_filter)
  have c1: "logged_in_count m1 \<le> logged_in_count m"
    by (simp add: logged_in_count_def m1(1) count_such_filter)
  have l1: "length (sm_store m1) \<le> length (sm_store m)" by (simp add: m1(1))
  have g1: "map_of (sm_store m1) k = Some t \<longleftrightarrow> map_of (sm_store m) k = Some t \<and> \<not> isExpired now m t" for k t
    by (simp add: m1(1) map_of_filter_Some [OF d])
  have e: "make_room now m = (if length (sm_store m) \<ge> sm_max m
      then if length (sm_store m1) \<ge> sm_max m then evictOldestAnonymousLocked m1 else m1 else m)"
    by (simp add: make_room_def m1_def [symmetric] m1 Let_def)
  note ev = evict_anonymous [OF d1]
  show "distinct (map fst (sm_store (make_room now m)))" using d d1 ev(1) by (simp add: e)
  show "0 < sm_max m \<Longrightarrow> length (sm_store (make_room now m)) < max (length (sm_store m)) (sm_max m)"
    using l1 ev(2) by (cases "sm_store m1 = []") (auto simp: e less_max_iff_disj)
  show "map_of (sm_store (make_room now m)) j = Some s \<Longrightarrow> map_of (sm_store m) j = Some s"
    using g1 ev(3) by (auto simp: e split: if_splits)
  show "logged_in_count (make_room now m) \<le> logged_in_count m" using c1 ev(4) by (auto simp: e)
  show "sm_ttl (make_room now m) = sm_ttl m \<and> sm_max (make_room now m) = sm_max m"
    using ev(6) by (simp add: e m1)
  assume "logged_in_count m < sm_max m" "map_of (sm_store m) j = Some s" "isAuthenticated s" "\<not> isExpired now m s"
  then show "map_of (sm_store (make_room now m)) j = Some s"
    using g1 ev(5) c1 by (auto simp: e)
qed

subsection \<open>A flood of anonymous requests\<close>

definition flood :: "(int \<times> 8 word list option \<times> string) list \<Rightarrow> session_manager \<Rightarrow> session_manager" where
  "flood reqs m = foldl (\<lambda>m (t, buf, db). snd (create_session t buf db m)) m reqs"

lemma create_session_step:
  assumes d: "distinct (map fst (sm_store m))" and m'_def: "m' = snd (create_session t buf db m)"
  shows "distinct (map fst (sm_store m'))" and "sm_ttl m' = sm_ttl m" and "sm_max m' = sm_max m"
    and "logged_in_count m' \<le> logged_in_count m"
    and "0 < sm_max m \<Longrightarrow> length (sm_store m') \<le> max (length (sm_store m)) (sm_max m)"
    and "logged_in_count m < sm_max m \<Longrightarrow> map_of (sm_store m) k = Some s \<Longrightarrow> isAuthenticated s \<Longrightarrow>
         \<not> isExpired t m s \<Longrightarrow> generateId buf \<noteq> Inr k \<Longrightarrow> map_of (sm_store m') k = Some s"
proof -
  note mr = make_room [OF d, where now = t]
  have anon: "\<not> isAuthenticated ((new_session t)\<lparr>ss_sessionId := i, ss_db := db\<rparr>)" for i
    by (simp add: isAuthenticated_def new_session_def)
  show "distinct (map fst (sm_store m'))" "sm_ttl m' = sm_ttl m" "sm_max m' = sm_max m"
    using d mr(1,6) by (auto simp: m'_def create_session_def Let_def distinct_update split: sum.splits)
  show "logged_in_count m' \<le> logged_in_count m"
  proof (cases "generateId buf")
    case (Inr i)
    have "count_such isAuthenticated (AList.update i ((new_session t)\<lparr>ss_sessionId := i, ss_db := db\<rparr>)
        (sm_store (make_room t m))) \<le> count_such isAuthenticated (sm_store (make_room t m))"
      using anon by (rule count_such_update)
    with mr(4) Inr show ?thesis by (simp add: m'_def create_session_def Let_def logged_in_count_def)
  qed (simp add: m'_def create_session_def)
  show "0 < sm_max m \<Longrightarrow> length (sm_store m') \<le> max (length (sm_store m)) (sm_max m)"
    using mr(2) by (auto simp: m'_def create_session_def Let_def length_AList_update split: sum.splits)
  show "map_of (sm_store m') k = Some s"
    if "logged_in_count m < sm_max m" "map_of (sm_store m) k = Some s" "isAuthenticated s"
       "\<not> isExpired t m s" "generateId buf \<noteq> Inr k"
    using mr(5) [OF that(1-4)] that by (auto simp: m'_def create_session_def Let_def update_conv split: sum.splits)
qed

text \<open>C36: requests that open anonymous sessions, however many, never log anybody out. While there
  are fewer signed-in sessions than the capacity, a live signed-in session is still in the store,
  unchanged, after any sequence of creations (of other ids), and the store has not outgrown its
  capacity.\<close>

theorem logged_in_survive_flood:
  assumes "distinct (map fst (sm_store m))" and "map_of (sm_store m) k = Some s" and "isAuthenticated s"
    and "count_such isAuthenticated (sm_store m) < sm_max m" and "length (sm_store m) \<le> sm_max m"
    and "list_all (\<lambda>(t, buf, db). t \<le> ss_accessedAt s + sm_ttl m * second \<and> generateId buf \<noteq> Inr k) reqs"
  shows "map_of (sm_store (flood reqs m)) k = Some s \<and> length (sm_store (flood reqs m)) \<le> sm_max m"
  using assms
proof (induction reqs arbitrary: m)
  case Nil
  then show ?case by (simp add: flood_def)
next
  case (Cons r reqs)
  obtain t buf db where r: "r = (t, buf, db)" by (cases r)
  define m' where "m' = snd (create_session t buf db m)"
  note st = create_session_step [OF Cons.prems(1) m'_def]
  have lc: "logged_in_count m < sm_max m" using Cons.prems(4) by (simp add: logged_in_count_def)
  have "\<not> isExpired t m s" "generateId buf \<noteq> Inr k"
    using Cons.prems(6) by (simp_all add: r isExpired_def)
  with st(6) [OF lc Cons.prems(2,3)] have k: "map_of (sm_store m') k = Some s" by simp
  have "map_of (sm_store (flood reqs m')) k = Some s \<and> length (sm_store (flood reqs m')) \<le> sm_max m'"
    using Cons.prems lc st k by (intro Cons.IH) (auto simp: logged_in_count_def)
  moreover have "flood (r # reqs) m = flood reqs m'" by (simp add: flood_def r m'_def)
  ultimately show ?case using st(3) by simp
qed

definition full_manager :: session_manager where
  "full_manager = \<lparr>sm_ttl = 3600, sm_store =
     [(''a'', (new_session 5)\<lparr>ss_sessionId := ''a''\<rparr>),
      (''b'', (new_session 3)\<lparr>ss_sessionId := ''b'', ss_uid := 7\<rparr>)], sm_max = 2\<rparr>"

theorem logged_in_survive_flood_witness:
  "map_of (sm_store (flood [(9, Some (replicate 16 1), ''x''), (12, Some (replicate 16 2), ''y'')]
       full_manager)) ''b'' = Some ((new_session 3)\<lparr>ss_sessionId := ''b'', ss_uid := 7\<rparr>)"
proof -
  have "distinct (map fst (sm_store full_manager))"
    "map_of (sm_store full_manager) ''b'' = Some ((new_session 3)\<lparr>ss_sessionId := ''b'', ss_uid := 7\<rparr>)"
    "isAuthenticated ((new_session 3)\<lparr>ss_sessionId := ''b'', ss_uid := 7\<rparr>)"
    "count_such isAuthenticated (sm_store full_manager) < sm_max full_manager"
    "length (sm_store full_manager) \<le> sm_max full_manager"
    "list_all (\<lambda>(t, buf, db). t \<le> ss_accessedAt ((new_session 3)\<lparr>ss_sessionId := ''b'', ss_uid := 7\<rparr>)
         + sm_ttl full_manager * second \<and> generateId buf \<noteq> Inr ''b'')
       [(9, Some (replicate 16 1), ''x''), (12, Some (replicate 16 2), ''y'')]"
    by code_simp+
  from logged_in_survive_flood [OF this] show ?thesis by simp
qed

subsection \<open>Every reachable store is well formed\<close>

definition entry_ok :: "int \<Rightarrow> string \<times> session \<Rightarrow> bool" where
  "entry_ok now e \<longleftrightarrow> ss_sessionId (snd e) = fst e \<and> length (fst e) = 32 \<and> list_all isxdigit (fst e)
     \<and> ss_createdAt (snd e) \<le> ss_accessedAt (snd e) \<and> ss_accessedAt (snd e) \<le> now"

definition store_ok :: "int \<Rightarrow> session_manager \<Rightarrow> bool" where
  "store_ok now m \<longleftrightarrow> distinct (map fst (sm_store m)) \<and> list_all (entry_ok now) (sm_store m)
     \<and> 0 < sm_max m \<and> length (sm_store m) \<le> sm_max m"

definition keeps_identity :: "(session \<Rightarrow> session) \<Rightarrow> bool" where
  "keeps_identity patch \<longleftrightarrow>
     (\<forall>s. ss_sessionId (patch s) = ss_sessionId s \<and> ss_createdAt (patch s) = ss_createdAt s)"

text \<open>Requests of all threads, one locked section at a time, on a clock that does not run
  backwards. The second phase of a \<open>get\<close> is a step of its own: others may come between the two.
  \<open>update\<close> takes a patch that leaves the id and the creation time alone, which holds for the
  patches of the code; the capacity is only ever raised or set above the population.\<close>

inductive sm_step :: "int \<times> session_manager \<Rightarrow> int \<times> session_manager \<Rightarrow> bool" where
  tick: "t \<le> t' \<Longrightarrow> sm_step (t, m) (t', m)"
| create: "(\<forall>bs. buf = Some bs \<longrightarrow> length bs = 16) \<Longrightarrow>
    sm_step (t, m) (t, snd (create_session t buf db m))"
| rotate: "(\<forall>bs. buf = Some bs \<longrightarrow> length bs = 16) \<Longrightarrow>
    sm_step (t, m) (t, snd (rotate_session t buf old m))"
| touch: "sm_step (t, m) (t, snd (get_exclusive t m sid))"
| patch: "keeps_identity p \<Longrightarrow> sm_step (t, m) (t, snd (update_session t p sid m))"
| destroy: "sm_step (t, m) (t, destroy_session sid m)"
| evict: "sm_step (t, m) (t, snd (evictExpired t m))"
| cap: "n = 0 \<or> length (sm_store m) \<le> n \<Longrightarrow> length (sm_store m) < 18446744073709551616 \<Longrightarrow>
    sm_step (t, m) (t, setMaxSessions n m)"

lemma set_AList_update: "set (AList.update k v al) \<subseteq> insert (k, v) (set al)"
  by (induction al) auto

lemma set_AList_delete: "set (AList.delete k al) \<subseteq> set al"
  by (auto simp: AList.delete_eq)

lemma entries_update:
  "list_all P al \<Longrightarrow> P (k, v) \<Longrightarrow> list_all P (AList.update k v al)"
  using set_AList_update [of k v al] by (auto simp: list_all_iff)

lemma entries_delete: "list_all P al \<Longrightarrow> list_all P (AList.delete k al)"
  using set_AList_delete [of k al] by (auto simp: list_all_iff)

lemma entry_at: "list_all P al \<Longrightarrow> map_of al k = Some v \<Longrightarrow> P (k, v)"
  by (auto simp: list_all_iff dest: map_of_SomeD)

lemma length_update_at: "map_of al k = Some v \<Longrightarrow> length (AList.update k w al) = length al"
  by (auto simp: length_AList_update dest: map_of_SomeD intro: rev_image_eqI)

lemma entries_make_room:
  assumes "distinct (map fst (sm_store m))" and "list_all (entry_ok t) (sm_store m)"
  shows "list_all (entry_ok t) (sm_store (make_room t m))"
proof -
  have "e \<in> set (sm_store m)" if "e \<in> set (sm_store (make_room t m))" for e
  proof -
    from that have "map_of (sm_store (make_room t m)) (fst e) = Some (snd e)"
      using make_room(1) [OF assms(1)] by simp
    from make_room(3) [OF assms(1) this] show ?thesis by (metis map_of_SomeD prod.collapse)
  qed
  with assms(2) show ?thesis by (simp add: list_all_iff)
qed

lemma generate_entry:
  assumes "generateId buf = Inr i" and "\<forall>bs. buf = Some bs \<longrightarrow> length bs = 16"
  shows "length i = 32" and "list_all isxdigit i"
  using assms generateId_token by (cases buf; force simp: generateId_def)+

lemma store_ok_create:
  assumes "store_ok t m" and "\<forall>bs. buf = Some bs \<longrightarrow> length bs = 16"
  shows "store_ok t (snd (create_session t buf db m))"
proof (cases "generateId buf")
  case (Inr i)
  have d: "distinct (map fst (sm_store m))" using assms(1) by (simp add: store_ok_def)
  have "list_all (entry_ok t) (sm_store (make_room t m))"
    using assms(1) d by (intro entries_make_room) (simp_all add: store_ok_def)
  moreover have "entry_ok t (i, (new_session t)\<lparr>ss_sessionId := i, ss_db := db\<rparr>)"
    using generate_entry [OF Inr assms(2)] by (simp add: entry_ok_def new_session_def)
  ultimately have "list_all (entry_ok t) (sm_store (snd (create_session t buf db m)))"
    by (simp add: create_session_def Inr Let_def entries_update)
  with assms(1) create_session_step(1,3,5) [OF d refl, of t buf db] show ?thesis
    by (simp add: store_ok_def)
qed (use assms in \<open>simp add: create_session_def\<close>)

lemma store_ok_rotate:
  assumes "store_ok t m" and "\<forall>bs. buf = Some bs \<longrightarrow> length bs = 16"
  shows "store_ok t (snd (rotate_session t buf old m))"
proof (cases "map_of (sm_store m) old")
  case (Some s)
  have "length (AList.delete old (sm_store m)) < length (sm_store m)"
    using Some by (intro length_AList_delete_less) (auto dest: map_of_SomeD intro: rev_image_eqI)
  moreover have "entry_ok t (i, s\<lparr>ss_sessionId := i, ss_createdAt := t, ss_accessedAt := t\<rparr>)"
    if "generateId buf = Inr i" for i
    using generate_entry [OF that assms(2)] by (simp add: entry_ok_def)
  ultimately show ?thesis
    using assms(1) by (auto simp: rotate_session_def Some Let_def store_ok_def entries_delete
        entries_update distinct_update distinct_delete length_AList_update split: sum.splits)
qed (use assms in \<open>simp add: rotate_session_def\<close>)

lemma store_ok_replace:
  assumes "store_ok t m" and "map_of (sm_store m) sid = Some s" and "entry_ok t (sid, s')"
  shows "store_ok t (m\<lparr>sm_store := AList.update sid s' (sm_store m)\<rparr>)"
  using assms by (simp add: store_ok_def entries_update distinct_update length_update_at)

lemma store_ok_step:
  assumes "sm_step x y" and "store_ok (fst x) (snd x)"
  shows "store_ok (fst y) (snd y)"
  using assms
proof (induction rule: sm_step.induct)
  case (tick t t' m)
  have "entry_ok t e \<Longrightarrow> entry_ok t' e" for e using tick(1) by (auto simp: entry_ok_def)
  with tick show ?case by (auto simp: store_ok_def list_all_iff)
next
  case (touch t m sid)
  have "entry_ok t (sid, s) \<Longrightarrow> entry_ok t (sid, s\<lparr>ss_accessedAt := t\<rparr>)" for s
    by (auto simp: entry_ok_def)
  with touch show ?case
    using store_ok_replace entry_at
    by (fastforce simp: get_exclusive_def Let_def store_ok_def split: option.splits)
next
  case (patch p t m sid)
  have "entry_ok t (sid, s) \<Longrightarrow> entry_ok t (sid, (p s)\<lparr>ss_accessedAt := t\<rparr>)" for s
    using patch(1) by (auto simp: entry_ok_def keeps_identity_def)
  with patch show ?case
    using store_ok_replace entry_at
    by (fastforce simp: update_session_def store_ok_def split: option.splits)
next
  case (destroy t m sid)
  have "length (AList.delete sid (sm_store m)) \<le> length (sm_store m)" by (rule length_delete_le)
  with destroy show ?case by (simp add: destroy_session_def store_ok_def entries_delete distinct_delete)
next
  case (evict t m)
  have "length (filter P (sm_store m)) \<le> length (sm_store m)" for P by simp
  moreover have "length (sm_store m) \<le> sm_max m" using evict by (simp add: store_ok_def)
  ultimately have "length (filter P (sm_store m)) \<le> sm_max m" for P by (meson le_trans)
  with evict show ?case
    by (auto simp: evictExpired_def evictExpiredLocked_def Let_def store_ok_def distinct_map_filter
        list_all_iff)
next
  case (create buf t m db)
  then show ?case by (simp add: store_ok_create)
next
  case (rotate buf t m old)
  then show ?case by (simp add: store_ok_rotate)
qed (auto simp: setMaxSessions_def store_ok_def)

interpretation session_run: kept sm_step "\<lambda>x. store_ok (fst x) (snd x)"
  by unfold_locales (rule store_ok_step)

lemmas store_ok_reachable = session_run.runs_ok

text \<open>Whatever requests have come in, from the empty store on, its ids are distinct 32-digit
  hexadecimal tokens that agree with the sessions filed under them, no session was used before it
  was created or after the present, and the store is within its capacity.\<close>

theorem session_store_invariant:
  assumes "sm_step\<^sup>*\<^sup>* (t0, initial_manager ttl) (t, m)"
  shows "distinct (map fst (sm_store m))
    \<and> list_all (\<lambda>(k, s). ss_sessionId s = k \<and> length k = 32 \<and> list_all isxdigit k
         \<and> ss_createdAt s \<le> ss_accessedAt s \<and> ss_accessedAt s \<le> t) (sm_store m)
    \<and> length (sm_store m) \<le> sm_max m"
proof -
  have "store_ok t0 (initial_manager ttl)" by (simp add: store_ok_def initial_manager_def)
  then have "store_ok t m" using store_ok_reachable [OF assms] by simp
  moreover have "entry_ok t = (\<lambda>(k, s). ss_sessionId s = k \<and> length k = 32 \<and> list_all isxdigit k
      \<and> ss_createdAt s \<le> ss_accessedAt s \<and> ss_accessedAt s \<le> t)"
    by (rule ext) (simp add: entry_ok_def split_beta)
  ultimately show ?thesis by (simp only: store_ok_def)
qed

theorem session_store_invariant_witness:
  "length (sm_store (snd (rotate_session 9 (Some (replicate 16 3)) (concat (replicate 16 ''01''))
     (snd (create_session 4 (Some (replicate 16 1)) ''db'' (initial_manager 3600)))))) \<le> 50000"
proof -
  define m1 where "m1 = snd (create_session 4 (Some (replicate 16 1)) ''db'' (initial_manager 3600))"
  define m2 where "m2 = snd (rotate_session 9 (Some (replicate 16 3)) (concat (replicate 16 ''01'')) m1)"
  have "sm_step (4, initial_manager 3600) (4, m1)" unfolding m1_def by (rule sm_step.create) simp
  moreover have "sm_step (4, m1) (9, m1)" by (rule sm_step.tick) simp
  moreover have "sm_step (9, m1) (9, m2)" unfolding m2_def by (rule sm_step.rotate) simp
  ultimately have "sm_step\<^sup>*\<^sup>* (4, initial_manager 3600) (9, m2)"
    by (meson converse_rtranclp_into_rtranclp rtranclp.rtrancl_refl)
  from session_store_invariant [OF this] have "length (sm_store m2) \<le> sm_max m2" by simp
  moreover have "sm_max m2 = sm_max m1"
    by (simp add: m2_def rotate_session_def Let_def split: option.splits sum.splits)
  moreover have "sm_max m1 = 50000"
    using create_session_step(3) [of "initial_manager 3600" m1] by (simp add: m1_def initial_manager_def)
  ultimately show ?thesis by (simp add: m2_def m1_def)
qed

text \<open>Signing in re-keys the session. The rotation of a live session moves it, with everything
  but its id and times, to a fresh id; the id known before resolves to nothing any more, and every
  other session is left as it was. An unknown or expired id is answered with the empty string and
  nothing changes.\<close>

lemma rotate_rekeys:
  assumes "generateId buf = Inr new" and "new \<noteq> old"
  shows "rotate_session now buf old m =
    (case map_of (sm_store m) old of
       None \<Rightarrow> (Inr '''', m)
     | Some s \<Rightarrow> if now - ss_accessedAt s > sm_ttl m * second then (Inr '''', m)
         else (Inr new, snd (rotate_session now buf old m)))
   \<and> (case map_of (sm_store m) old of
       None \<Rightarrow> True
     | Some s \<Rightarrow> now - ss_accessedAt s > sm_ttl m * second
         \<or> map_of (sm_store (snd (rotate_session now buf old m))) = (map_of (sm_store m))
             (old := None, new \<mapsto> s\<lparr>ss_sessionId := new, ss_createdAt := now, ss_accessedAt := now\<rparr>)
           \<and> fst (get_session later (snd (rotate_session now buf old m)) old) = None)"
  using assms
  by (auto simp: rotate_session_def isExpired_def Let_def update_conv' delete_conv' get_session_def
      get_shared_def split: option.splits)

lemma rotate_rekeys_witness:
  "rotate_session 9 (Some (replicate 16 3)) ''b'' full_manager
     = (Inr (concat (replicate 16 ''03'')), snd (rotate_session 9 (Some (replicate 16 3)) ''b'' full_manager))"
proof -
  have "generateId (Some (replicate 16 3)) = Inr (concat (replicate 16 ''03''))"
    "concat (replicate 16 ''03'') \<noteq> ''b''" by code_simp+
  from rotate_rekeys [OF this, of 9 full_manager 0] show ?thesis
    by (simp add: full_manager_def second_def new_session_def)
qed

subsection \<open>The contract of a touched table\<close>

text \<open>
  Both stores answer a look-up until the entry has been idle for its time to live, and record an
  access only when the recorded one is at least \<open>kTouchInterval\<close> old. A client of either store
  relies on this: whoever comes back within the time to live less that interval is never logged
  out, whatever the other clients of the store do in between.
\<close>

fun served :: "(int \<Rightarrow> 'm \<Rightarrow> 'k \<Rightarrow> 's option \<times> 'm) \<Rightarrow> 'k \<Rightarrow> (int \<times> 'k) list \<Rightarrow> 'm \<Rightarrow> bool" where
  "served fetch k [] m = True"
| "served fetch k ((t, j) # evs) m =
     ((j = k \<longrightarrow> fst (fetch t m j) \<noteq> None) \<and> served fetch k evs (snd (fetch t m j)))"

fun paced :: "int \<Rightarrow> 'k \<Rightarrow> int \<Rightarrow> (int \<times> 'k) list \<Rightarrow> bool" where
  "paced gap k prev [] = True"
| "paced gap k prev ((t, j) # evs) =
     (if j = k then prev \<le> t \<and> t - prev \<le> gap \<and> paced gap k t evs else paced gap k prev evs)"

locale touched_table =
  fixes fetch :: "int \<Rightarrow> 'm \<Rightarrow> 'k \<Rightarrow> 's option \<times> 'm"
    and last_access :: "'m \<Rightarrow> 'k \<Rightarrow> int option"
    and life :: "'m \<Rightarrow> int"
    and touch :: int
  assumes fetch_live: "last_access m k = Some a \<Longrightarrow> t - a \<le> life m \<Longrightarrow> fst (fetch t m k) \<noteq> None"
    and fetch_touch: "last_access m k = Some a \<Longrightarrow> t - a \<le> life m \<Longrightarrow>
      last_access (snd (fetch t m k)) k = Some (if t - a < touch then a else t)"
    and fetch_other: "j \<noteq> k \<Longrightarrow> last_access (snd (fetch t m j)) k = last_access m k"
    and fetch_life: "life (snd (fetch t m k)) = life m"
    and touch_pos: "0 < touch"
begin

lemma kept_alive:
  assumes "last_access m k = Some a" and "prev - a < touch" and "paced (life m - touch) k prev evs"
  shows "served fetch k evs m"
  using assms
proof (induction evs arbitrary: m a prev)
  case (Cons e evs)
  obtain t j where e: "e = (t, j)" by (cases e)
  show ?case
  proof (cases "j = k")
    case False
    with Cons show ?thesis by (simp add: e fetch_other fetch_life)
  next
    case True
    with Cons.prems have p: "prev \<le> t" "t - prev \<le> life m - touch" "paced (life m - touch) k t evs"
      by (simp_all add: e)
    then have live: "t - a \<le> life m" using Cons.prems(2) by linarith
    have "served fetch k evs (snd (fetch t m k))"
      by (rule Cons.IH [OF fetch_touch [OF Cons.prems(1) live], where prev = t])
        (use p touch_pos in \<open>simp_all add: fetch_life\<close>)
    with fetch_live [OF Cons.prems(1) live] show ?thesis by (simp add: e True)
  qed
qed simp

end

definition session_access :: "session_manager \<Rightarrow> string \<Rightarrow> int option" where
  "session_access m k = map_option ss_accessedAt (map_of (sm_store m) k)"

definition portal_access :: "portal_manager \<Rightarrow> string \<Rightarrow> int option" where
  "portal_access m k = map_option ps_accessedAt (map_of (pm_store m) k)"

interpretation office: touched_table get_session session_access "\<lambda>m. sm_ttl m * second" kTouchInterval
  by unfold_locales
    (auto simp: get_session_def get_shared_def get_exclusive_def session_access_def isExpired_def
      Let_def update_conv' kTouchInterval_def second_def split: option.splits if_splits)

interpretation customers: touched_table portal_get portal_access "\<lambda>m. pm_ttl m * second" kTouchInterval
  by unfold_locales
    (auto simp: portal_get_def portal_access_def portal_expired_def
      Let_def update_conv' kTouchInterval_def second_def split: option.splits if_splits)

text \<open>Activity keeps a session alive. If the entry was last recorded less than a minute before
  \<open>prev\<close> and its client comes back at gaps of at most the time to live less the touch interval
  (59 minutes for the default hour), every one of its look-ups succeeds, in the back office and in
  the portal, whatever other clients look up in between.\<close>

theorem activity_keeps_alive:
  assumes "map_of (sm_store m) k = Some s" and "prev - ss_accessedAt s < 60 * second"
    and "paced ((sm_ttl m - 60) * second) k prev evs"
    and "map_of (pm_store pm) pk = Some ps" and "pprev - ps_accessedAt ps < 60 * second"
    and "paced ((pm_ttl pm - 60) * second) pk pprev pevs"
  shows "served get_session k evs m \<and> served portal_get pk pevs pm"
  using office.kept_alive [of m k "ss_accessedAt s" prev evs]
    customers.kept_alive [of pm pk "ps_accessedAt ps" pprev pevs] assms
  by (simp add: session_access_def portal_access_def kTouchInterval_def algebra_simps)

definition sample_portal :: portal_manager where
  "sample_portal = \<lparr>pm_ttl = 28800, pm_store = [(''p'', \<lparr>ps_sessionId = ''p'', ps_partnerId = 4,
     ps_name = ''Ann'', ps_email = ''a@b'', ps_accessedAt = 0\<rparr>)]\<rparr>"

theorem activity_keeps_alive_witness:
  "served get_session ''b'' [(3500 * second, ''b''), (3600 * second, ''a''), (7000 * second, ''b'')] full_manager
   \<and> served portal_get ''p'' [(28000 * second, ''p'')] sample_portal"
proof -
  have "map_of (sm_store full_manager) ''b'' = Some ((new_session 3)\<lparr>ss_sessionId := ''b'', ss_uid := 7\<rparr>)"
    "3 - ss_accessedAt ((new_session 3)\<lparr>ss_sessionId := ''b'', ss_uid := 7\<rparr>) < 60 * second"
    "paced ((sm_ttl full_manager - 60) * second) ''b'' 3
       [(3500 * second, ''b''), (3600 * second, ''a''), (7000 * second, ''b'')]"
    "map_of (pm_store sample_portal) ''p'' = Some \<lparr>ps_sessionId = ''p'', ps_partnerId = 4,
     ps_name = ''Ann'', ps_email = ''a@b'', ps_accessedAt = 0\<rparr>"
    "0 - ps_accessedAt \<lparr>ps_sessionId = ''p'', ps_partnerId = 4,
     ps_name = ''Ann'', ps_email = ''a@b'', ps_accessedAt = 0\<rparr> < 60 * second"
    "paced ((pm_ttl sample_portal - 60) * second) ''p'' 0 [(28000 * second, ''p'')]"
    by code_simp+
  then show ?thesis by (rule activity_keeps_alive)
qed

end
