(* ===== verification/RateLimit.thy ===== *)
theory RateLimit
  imports Session
begin

section \<open>Client address and login limiter (core/infrastructure/ClientIp.hpp, JsonRpcDispatcher.hpp)\<close>

text \<open>
  Whom a request is attributed to, and how many failed log-ins an address gets. The request is its
  socket peer and its header fields, which drogon looks up; a missing header reads as the empty
  string. The limiter's table is a list of entries with distinct keys, the clock that of the
  session store.
\<close>

subsection \<open>ClientIpResolver\<close>

definition is_blank_char :: "char \<Rightarrow> bool" where
  "is_blank_char c \<longleftrightarrow> c = CHR '' '' \<or> c = CHR 0x09"

definition trim_ip :: "string \<Rightarrow> string" where
  "trim_ip s = trim_by is_blank_char s"

definition kMapped :: string where "kMapped = ''::ffff:''"

definition normalize_ip :: "string \<Rightarrow> string" where
  "normalize_ip ip = (if starts_with kMapped ip then drop (length kMapped) ip else ip)"

definition addTrusted :: "string \<Rightarrow> string list \<Rightarrow> string list" where
  "addTrusted raw trusted =
     (let ip = normalize_ip (trim_ip raw) in if ip \<noteq> '''' then List.insert ip trusted else trusted)"

fun trusted_loop :: "string \<Rightarrow> string \<Rightarrow> string list \<Rightarrow> string list" where
  "trusted_loop [] cur trusted = addTrusted cur trusted"
| "trusted_loop (c # cs) cur trusted =
     (if c = CHR '','' then trusted_loop cs '''' (addTrusted cur trusted)
      else trusted_loop cs (cur @ [c]) trusted)"

definition setTrusted :: "string \<Rightarrow> string list" where
  "setTrusted csv = trusted_loop csv '''' []"

definition after_last_comma :: "string \<Rightarrow> string" where
  "after_last_comma s = rev (takeWhile (\<lambda>c. c \<noteq> CHR '','') (rev s))"

definition client_ip :: "string list \<Rightarrow> string \<Rightarrow> (string \<Rightarrow> string) \<Rightarrow> string" where
  "client_ip trusted peer_addr header =
     (let peer = normalize_ip peer_addr
      in if peer \<notin> set trusted then peer
         else let realIp = normalize_ip (trim_ip (header ''x-real-ip''))
              in if realIp \<noteq> '''' then realIp
                 else let xff = header ''x-forwarded-for'';
                          last = trim_ip (after_last_comma xff)
                      in if xff \<noteq> '''' \<and> last \<noteq> '''' then normalize_ip last else peer)"

lemma takeWhile_all: "\<forall>c \<in> set s. P c \<Longrightarrow> takeWhile P s = s"
  by (induction s) auto

lemma dropWhile_none: "\<forall>c \<in> set s. \<not> P c \<Longrightarrow> dropWhile P s = s"
  by (cases s) auto

lemma trim_by_plain: "\<forall>c \<in> set s. \<not> P c \<Longrightarrow> trim_by P s = s"
  by (simp add: trim_by_def dropWhile_none)

lemma after_last_comma_append:
  assumes "CHR '','' \<notin> set t"
  shows "after_last_comma (s @ CHR '','' # t) = t"
proof -
  have "takeWhile (\<lambda>c. c \<noteq> CHR '','') (rev t @ CHR '','' # rev s) = rev t"
    using assms by (subst takeWhile_append2) auto
  then show ?thesis by (simp add: after_last_comma_def)
qed

lemma after_last_comma_none: "CHR '','' \<notin> set s \<Longrightarrow> after_last_comma s = s"
  unfolding after_last_comma_def by (subst takeWhile_all) auto

lemma trim_ip_plain: "\<forall>c \<in> set s. \<not> is_blank_char c \<Longrightarrow> trim_ip s = s"
  by (simp add: trim_ip_def trim_by_plain)

lemma trim_ip_space: "trim_ip (CHR '' '' # s) = trim_ip s"
  by (simp add: trim_ip_def trim_by_def is_blank_char_def)



subsection \<open>LoginRateLimiter\<close>

record rate_entry =
  re_windowStart :: int
  re_count :: int

record limiter =
  rl_lastPrune :: int
  rl_table :: "(string \<times> rate_entry) list"

definition kMaxAttempts :: int where "kMaxAttempts = 10"
definition kWindow :: int where "kWindow = 300 * second"

definition new_limiter :: "int \<Rightarrow> limiter" where
  "new_limiter now = \<lparr>rl_lastPrune = now, rl_table = []\<rparr>"

definition prune :: "int \<Rightarrow> (string \<times> rate_entry) list \<Rightarrow> (string \<times> rate_entry) list" where
  "prune now tbl = filter (\<lambda>(k, e). \<not> now - re_windowStart e > 2 * kWindow) tbl"

text \<open>\<open>table_[ip]\<close> inserts an entry that starts now with count 0 when there is none.\<close>

definition entry_of :: "int \<Rightarrow> (string \<times> rate_entry) list \<Rightarrow> string \<Rightarrow> rate_entry" where
  "entry_of now tbl ip = (case map_of tbl ip of
       None \<Rightarrow> \<lparr>re_windowStart = now, re_count = 0\<rparr> | Some e \<Rightarrow> e)"

definition allow :: "int \<Rightarrow> string \<Rightarrow> limiter \<Rightarrow> bool \<times> limiter" where
  "allow now ip l =
     (let l1 = (if now - rl_lastPrune l \<ge> kWindow
                then \<lparr>rl_lastPrune = now, rl_table = prune now (rl_table l)\<rparr> else l);
          e = entry_of now (rl_table l1) ip
      in if re_count e \<ge> kMaxAttempts \<and> now - re_windowStart e < kWindow
         then (False, l1\<lparr>rl_table := AList.update ip e (rl_table l1)\<rparr>)
         else let e' = (if now - re_windowStart e \<ge> kWindow
                        then \<lparr>re_windowStart = now, re_count = 0\<rparr> else e)
              in (True, l1\<lparr>rl_table := AList.update ip e' (rl_table l1)\<rparr>))"

definition recordFailure :: "int \<Rightarrow> string \<Rightarrow> limiter \<Rightarrow> limiter" where
  "recordFailure now ip l =
     (let e = entry_of now (rl_table l) ip;
          e1 = (if now - re_windowStart e \<ge> kWindow
                then \<lparr>re_windowStart = now, re_count = 0\<rparr> else e)
      in l\<lparr>rl_table := AList.update ip (e1\<lparr>re_count := re_count e1 + 1\<rparr>) (rl_table l)\<rparr>)"

definition recordSuccess :: "string \<Rightarrow> limiter \<Rightarrow> limiter" where
  "recordSuccess ip l = l\<lparr>rl_table := AList.delete ip (rl_table l)\<rparr>"

text \<open>One log-in as the request handler runs it: refused, or let through and then recorded.\<close>

definition attempt :: "int \<Rightarrow> string \<Rightarrow> bool \<Rightarrow> limiter \<Rightarrow> bool \<times> limiter" where
  "attempt now ip success l =
     (let (ok, l1) = allow now ip l
      in if \<not> ok then (False, l1)
         else (True, if success then recordSuccess ip l1 else recordFailure now ip l1))"

subsection \<open>How many failures an address gets\<close>

fun let_through :: "string \<Rightarrow> (int \<times> string \<times> bool) list \<Rightarrow> limiter \<Rightarrow> nat" where
  "let_through ip [] l = 0"
| "let_through ip ((t, j, s) # evs) l =
     (let (ok, l') = attempt t j s l
      in (if ok \<and> j = ip then 1 else 0) + let_through ip evs l')"

text \<open>What is left to an address whose failures all fall into \<open>[from, from + kWindow)\<close>.\<close>

definition budget :: "int \<Rightarrow> (string \<times> rate_entry) list \<Rightarrow> string \<Rightarrow> int" where
  "budget from tbl ip = (case map_of tbl ip of
       None \<Rightarrow> kMaxAttempts
     | Some e \<Rightarrow> max 0 (kMaxAttempts - re_count e) + (if re_windowStart e < from then kMaxAttempts else 0))"

definition limiter_ok :: "limiter \<Rightarrow> bool" where
  "limiter_ok l \<longleftrightarrow> distinct (map fst (rl_table l)) \<and> list_all (\<lambda>(k, e). 0 \<le> re_count e) (rl_table l)"

lemma prune_lookup:
  assumes "distinct (map fst tbl)"
  shows "map_of (prune now tbl) k = (case map_of tbl k of
      Some e \<Rightarrow> if now - re_windowStart e > 2 * kWindow then None else Some e | None \<Rightarrow> None)"
proof -
  have s: "map_of (prune now tbl) k = Some e \<longleftrightarrow>
      map_of tbl k = Some e \<and> \<not> now - re_windowStart e > 2 * kWindow" for e
    unfolding prune_def using map_of_filter_Some [OF assms] by simp
  show ?thesis
  proof (cases "map_of (prune now tbl) k")
    case None
    with s show ?thesis by (cases "map_of tbl k") auto
  next
    case (Some e)
    with s [of e] show ?thesis by auto
  qed
qed

definition pruned :: "int \<Rightarrow> limiter \<Rightarrow> limiter" where
  "pruned now l = (if now - rl_lastPrune l \<ge> kWindow
     then \<lparr>rl_lastPrune = now, rl_table = prune now (rl_table l)\<rparr> else l)"

lemma pruned_ok: "limiter_ok l \<Longrightarrow> limiter_ok (pruned now l)"
  by (auto simp: limiter_ok_def pruned_def prune_def distinct_map_filter list_all_iff)

lemma pruned_budget:
  assumes "limiter_ok l" and "t < from + kWindow"
  shows "budget from (rl_table (pruned t l)) ip \<le> budget from (rl_table l) ip"
proof -
  have "0 < kWindow" by (simp add: kWindow_def second_def)
  then show ?thesis
    using assms by (auto simp: budget_def pruned_def prune_lookup limiter_ok_def kMaxAttempts_def
        split: option.splits)
qed

text \<open>The entry an address has after a let-through failure, from the one it had before.\<close>

definition failed_entry :: "int \<Rightarrow> rate_entry \<Rightarrow> rate_entry" where
  "failed_entry t e = (if t - re_windowStart e \<ge> kWindow then \<lparr>re_windowStart = t, re_count = 1\<rparr>
     else e\<lparr>re_count := re_count e + 1\<rparr>)"

lemma kWindow_pos: "0 < kWindow"
  by (simp add: kWindow_def second_def)

lemma attempt_failure:
  "attempt t ip False l =
     (let l1 = pruned t l; e = entry_of t (rl_table l1) ip
      in if re_count e \<ge> kMaxAttempts \<and> t - re_windowStart e < kWindow
         then (False, l1\<lparr>rl_table := AList.update ip e (rl_table l1)\<rparr>)
         else (True, l1\<lparr>rl_table := AList.update ip (failed_entry t e)
                  (AList.update ip (if t - re_windowStart e \<ge> kWindow
                     then \<lparr>re_windowStart = t, re_count = 0\<rparr> else e) (rl_table l1))\<rparr>))"
  using kWindow_pos
  by (auto simp: attempt_def allow_def pruned_def [symmetric] recordFailure_def entry_of_def
      failed_entry_def Let_def update_conv')

lemma entry_nonneg: "limiter_ok l \<Longrightarrow> 0 \<le> re_count (entry_of t (rl_table l) ip)"
  by (auto simp: limiter_ok_def entry_of_def list_all_iff split: option.splits dest!: map_of_SomeD)

lemma limiter_ok_update:
  "limiter_ok l \<Longrightarrow> 0 \<le> re_count e \<Longrightarrow> limiter_ok (l\<lparr>rl_table := AList.update ip e (rl_table l)\<rparr>)"
  by (auto simp: limiter_ok_def distinct_update entries_update)

lemma own_failure:
  assumes ok: "limiter_ok l" and t: "from \<le> t" "t < from + kWindow"
    and a: "attempt t ip False l = (b, l')"
  shows "budget from (rl_table l') ip + (if b then 1 else 0) \<le> budget from (rl_table l) ip"
proof -
  define e where "e = entry_of t (rl_table (pruned t l)) ip"
  have n: "0 \<le> re_count e" unfolding e_def by (intro entry_nonneg pruned_ok ok)
  have "budget from (rl_table l') ip + (if b then 1 else 0) \<le> budget from (rl_table (pruned t l)) ip"
  proof (cases "map_of (rl_table (pruned t l)) ip")
    case None
    then have "e = \<lparr>re_windowStart = t, re_count = 0\<rparr>" by (simp add: e_def entry_of_def)
    with None a t kWindow_pos show ?thesis
      by (auto simp: attempt_failure e_def [symmetric] Let_def budget_def update_conv' failed_entry_def
          kMaxAttempts_def)
  next
    case (Some d)
    then have "e = d" by (simp add: e_def entry_of_def)
    with Some a t n kWindow_pos show ?thesis
      by (auto simp: attempt_failure e_def [symmetric] Let_def budget_def update_conv' failed_entry_def
          kMaxAttempts_def split: if_splits)
  qed
  with pruned_budget [OF ok t(2)] show ?thesis by (meson order_trans)
qed

lemma attempt_ok: "limiter_ok l \<Longrightarrow> limiter_ok (snd (attempt t j s l))"
  using pruned_ok [of l t] entry_nonneg [OF pruned_ok [of l t], of t j]
  by (cases s) (auto simp: attempt_def allow_def pruned_def [symmetric] recordFailure_def recordSuccess_def
      Let_def entry_of_def limiter_ok_def distinct_update entries_update distinct_delete entries_delete
      update_conv' split: option.splits)

lemma attempt_other:
  "j \<noteq> ip \<Longrightarrow> map_of (rl_table (snd (attempt t j s l))) ip = map_of (rl_table (pruned t l)) ip"
  by (auto simp: attempt_def allow_def pruned_def [symmetric] recordFailure_def recordSuccess_def
      Let_def update_conv' delete_conv')

lemma other_attempt:
  assumes "limiter_ok l" and "t < from + kWindow" and "j \<noteq> ip"
  shows "budget from (rl_table (snd (attempt t j s l))) ip \<le> budget from (rl_table l) ip"
  using pruned_budget [OF assms(1,2)] attempt_other [OF assms(3)] by (simp add: budget_def)

lemma budget_spent:
  assumes "limiter_ok l"
    and "list_all (\<lambda>(t, j, s). from \<le> t \<and> t < from + kWindow \<and> (j = ip \<longrightarrow> \<not> s)) evs"
  shows "int (let_through ip evs l) \<le> budget from (rl_table l) ip"
  using assms
proof (induction evs arbitrary: l)
  case Nil
  then show ?case by (auto simp: budget_def kMaxAttempts_def split: option.splits)
next
  case (Cons ev evs)
  obtain t j s where ev: "ev = (t, j, s)" by (cases ev)
  obtain b l' where a: "attempt t j s l = (b, l')" by fastforce
  have ok': "limiter_ok l'" using attempt_ok [OF Cons.prems(1), of t j s] a by simp
  have ih: "int (let_through ip evs l') \<le> budget from (rl_table l') ip"
    using Cons.IH [OF ok'] Cons.prems(2) by simp
  show ?case
  proof (cases "j = ip")
    case True
    with Cons.prems(2) ev a have f: "s = False" "attempt t ip False l = (b, l')" "from \<le> t" "t < from + kWindow"
      by auto
    from own_failure [OF Cons.prems(1) f(3,4,2)] ih show ?thesis by (cases b) (simp_all add: ev True f(1,2))
  next
    case False
    with other_attempt [OF Cons.prems(1) _ False, of t "from" s] Cons.prems(2) ih show ?thesis
      by (simp add: ev a)
  qed
qed



text \<open>The window is a fixed one, not a sliding one: around its end an address gets 19 attempts
  through within two seconds.\<close>

lemma two_windows:
  "let_through ''x'' (replicate 9 (299 * second, ''x'', False) @ replicate 11 (300 * second, ''x'', False))
     (snd (attempt 0 ''x'' False (new_limiter 0))) = 19"
  by code_simp

end
