(* ===== verification/Dispatcher.thy ===== *)
theory Dispatcher
  imports RateLimit TtlCache
begin

section \<open>JSON-RPC dispatch (core/infrastructure/JsonRpcDispatcher.hpp, DbConnection.hpp)\<close>

text \<open>
  The way of a request through the dispatcher: resolving its session and its tenant database, the
  log-in limiter, the authentication and model access checks, the identity handed to the models,
  the call, and the session a successful log-in is given. The view models themselves are a
  parameter, as are the queries of the control plane and of the company table; they see the rest of
  the server (\<open>'w\<close>) and the session store. An instant of the clock and the random bytes of the ids
  made are arguments, as for the session store.
\<close>

subsection \<open>Reading and writing JSON objects\<close>

definition jget :: "json \<Rightarrow> string \<Rightarrow> json option" where
  "jget j k = (case j of JObject kvs \<Rightarrow> map_of kvs k | _ \<Rightarrow> None)"

definition value_json :: "json \<Rightarrow> string \<Rightarrow> json \<Rightarrow> json result" where
  "value_json j k d = (case j of
       JObject kvs \<Rightarrow> Inr (case map_of kvs k of None \<Rightarrow> d | Some v \<Rightarrow> v)
     | _ \<Rightarrow> Inl JsonTypeError)"

definition as_str :: "json \<Rightarrow> string result" where
  "as_str v = (case v of JString s \<Rightarrow> Inr s | _ \<Rightarrow> Inl JsonTypeError)"

definition value_str :: "json \<Rightarrow> string \<Rightarrow> string \<Rightarrow> string result" where
  "value_str j k d = bindE (value_json j k (JString d)) as_str"

definition json_at :: "json \<Rightarrow> string \<Rightarrow> json result" where
  "json_at j k = (case j of
       JObject kvs \<Rightarrow> (case map_of kvs k of
           None \<Rightarrow> Inl (OutOfRange (''key not found: '' @ k)) | Some v \<Rightarrow> Inr v)
     | _ \<Rightarrow> Inl JsonTypeError)"

definition jput :: "json \<Rightarrow> string \<Rightarrow> json \<Rightarrow> json result" where
  "jput j k v = (case j of
       JObject kvs \<Rightarrow> Inr (JObject (AList.update k v kvs))
     | JNull \<Rightarrow> Inr (JObject [(k, v)])
     | _ \<Rightarrow> Inl JsonTypeError)"

subsection \<open>The request\<close>

record request =
  rq_cookie :: string
  rq_host :: string
  rq_peer :: string
  rq_header :: "string \<Rightarrow> string"

record call_kw =
  ck_model :: string
  ck_method :: string
  ck_args :: json
  ck_kwargs :: json

definition login_params :: "json \<Rightarrow> json result" where
  "login_params p =
     bindE (value_str p ''db'' '''') (\<lambda>db.
     bindE (value_str p ''login'' '''') (\<lambda>login.
     bindE (value_str p ''password'' '''') (\<lambda>password.
       Inr (JObject [(''model'', JString ''res.users''), (''method'', JString ''authenticate''),
         (''args'', JArray [JString db, JString login, JString password]), (''kwargs'', JObject [])]))))"

definition rewrite_login :: "json \<Rightarrow> json result" where
  "rewrite_login body = (case jget body ''params'' of
       None \<Rightarrow> Inr body
     | Some p \<Rightarrow>
         if jget p ''model'' = None \<and> jget p ''login'' \<noteq> None
         then bindE (login_params p) (jput body ''params'')
         else Inr body)"

definition parseCallKw :: "json \<Rightarrow> call_kw result" where
  "parseCallKw params =
     bindE (bindE (json_at params ''model'') as_str) (\<lambda>model.
     bindE (bindE (json_at params ''method'') as_str) (\<lambda>method.
     bindE (value_json params ''args'' (JArray [])) (\<lambda>args.
     bindE (value_json params ''kwargs'' (JObject [])) (\<lambda>kwargs.
       Inr \<lparr>ck_model = model, ck_method = method, ck_args = args, ck_kwargs = kwargs\<rparr>))))"

definition isPublicMethod :: "string \<Rightarrow> bool" where
  "isPublicMethod m \<longleftrightarrow>
     m \<in> set [''authenticate'', ''get_session_info'', ''logout'', ''list_db'', ''server_version'']"

subsection \<open>Model access\<close>

definition kAllowed :: "string list" where
  "kAllowed =
     [''ir.ui.menu'', ''ir.actions.act_window'', ''res.currency'', ''res.partner'', ''res.users'',
      ''uom.uom'', ''product.product'', ''product.category'', ''product.supplierinfo'',
      ''part.footprint'', ''part.unit'', ''part.parameter'', ''part.manufacturer.info'',
      ''mail.message'', ''portal.partner'', ''audit.log'', ''decimal.precision'']"

definition kRequired :: "(string \<times> int) list" where
  "kRequired =
     [(''account.move'', 5), (''account.move.line'', 5), (''account.account'', 5),
      (''account.journal'', 5), (''account.tax'', 5), (''account.payment'', 5),
      (''account.payment.term'', 5), (''account.analytic.account'', 5),
      (''account.analytic.line'', 5), (''account.bank.statement'', 5),
      (''account.bank.statement.line'', 5),
      (''hr.employee'', 15), (''hr.department'', 15), (''hr.job'', 15),
      (''stock.move'', 11), (''stock.picking'', 11), (''stock.location'', 11),
      (''stock.picking.type'', 11), (''stock.warehouse'', 11), (''stock.quant'', 11),
      (''stock.valuation.layer'', 11), (''stock.production.lot'', 11),
      (''stock.landed.cost'', 11), (''stock.landed.cost.line'', 11),
      (''stock.warehouse.orderpoint'', 11), (''stock.putaway.rule'', 11),
      (''sale.order'', 7), (''sale.order.line'', 7),
      (''purchase.order'', 9), (''purchase.order.line'', 9),
      (''mrp.bom'', 13), (''mrp.bom.line'', 13), (''mrp.production'', 13),
      (''mrp.workcenter'', 13), (''mrp.routing.workcenter'', 13), (''mrp.workorder'', 13),
      (''mrp.production.schedule'', 13), (''mrp.forecast'', 13),
      (''res.company'', 4), (''res.groups'', 4), (''ir.config.parameter'', 3)]"

definition checkModelAccess :: "string \<Rightarrow> session \<Rightarrow> unit result" where
  "checkModelAccess model s =
     (if ss_isAdmin s then Inr ()
      else if model \<in> set kAllowed
      then (if \<not> session_hasGroup s 2
            then Inl (AccessDenied (''Access denied: internal login required to access '' @ model))
            else Inr ())
      else case map_of kRequired model of
          Some g \<Rightarrow>
            if \<not> session_hasGroup s g
            then Inl (AccessDenied (''Access denied: insufficient permissions to access '' @ model))
            else Inr ()
        | None \<Rightarrow>
            if \<not> session_hasGroup s 2
            then Inl (AccessDenied (''Access denied: internal login required to access '' @ model))
            else Inr ())"

subsection \<open>Tenant databases\<close>

record tenants =
  tn_dbs :: "string list"
  tn_default :: string
  tn_subdomains :: "(string \<times> string) list"
  tn_emails :: "(string \<times> string) list"

definition registerTenant :: "string \<Rightarrow> string \<Rightarrow> string list \<Rightarrow> tenants \<Rightarrow> tenants" where
  "registerTenant name subdomain emailDomains t =
     t\<lparr>tn_dbs := List.insert name (tn_dbs t),
       tn_subdomains := (if subdomain \<noteq> '''' then AList.update (lower subdomain) name (tn_subdomains t)
                         else tn_subdomains t),
       tn_emails := foldl (\<lambda>m d. AList.update (lower d) name m) (tn_emails t) emailDomains\<rparr>"

definition new_tenants :: "string \<Rightarrow> tenants" where
  "new_tenants name = registerTenant name '''' []
     \<lparr>tn_dbs = [], tn_default = name, tn_subdomains = [], tn_emails = []\<rparr>"

definition hasTenant :: "tenants \<Rightarrow> string \<Rightarrow> bool" where
  "hasTenant t db \<longleftrightarrow> db \<in> set (tn_dbs t)"

definition resolveHost :: "tenants \<Rightarrow> string \<Rightarrow> string" where
  "resolveHost t host =
     (let h = (case find_char host (CHR '':'') 0 of None \<Rightarrow> host | Some i \<Rightarrow> substr host 0 i);
          sub = lower (case find_char h (CHR ''.'') 0 of None \<Rightarrow> h | Some i \<Rightarrow> substr h 0 i)
      in case map_of (tn_subdomains t) sub of None \<Rightarrow> '''' | Some db \<Rightarrow> db)"

definition resolveEmailDomain :: "tenants \<Rightarrow> string \<Rightarrow> string" where
  "resolveEmailDomain t login = (case find_char login (CHR ''@'') 0 of
       None \<Rightarrow> ''''
     | Some i \<Rightarrow>
         case map_of (tn_emails t) (lower (drop (i + 1) login)) of None \<Rightarrow> '''' | Some db \<Rightarrow> db)"

text \<open>The pool a connection is taken from while a tenant is selected (\<open>acquire\<close>).\<close>

definition pool_of :: "tenants \<Rightarrow> string \<Rightarrow> string" where
  "pool_of t current =
     (let key = (if current = '''' then tn_default t else current)
      in if hasTenant t key then key else tn_default t)"

definition str_arg :: "json \<Rightarrow> nat \<Rightarrow> string option" where
  "str_arg args i = (case args of
       JArray xs \<Rightarrow> if i < length xs then (case xs ! i of JString s \<Rightarrow> Some s | _ \<Rightarrow> None) else None
     | _ \<Rightarrow> None)"

definition known :: "tenants \<Rightarrow> string \<Rightarrow> bool" where
  "known t db \<longleftrightarrow> db \<noteq> '''' \<and> hasTenant t db"

definition resolveTenant :: "tenants option \<Rightarrow> request \<Rightarrow> call_kw \<Rightarrow> session \<Rightarrow> string" where
  "resolveTenant db rq call s = (case db of
       None \<Rightarrow> ''''
     | Some t \<Rightarrow>
         let t1 = (if ck_method call = ''authenticate''
                   then (case str_arg (ck_args call) 0 of None \<Rightarrow> '''' | Some x \<Rightarrow> x)
                   else if isAuthenticated s then ss_db s else '''');
             t2 = (if ck_method call = ''authenticate'' \<and> \<not> known t t1
                      \<and> resolveHost t (rq_host rq) \<noteq> ''''
                   then resolveHost t (rq_host rq) else t1);
             t3 = (if ck_method call = ''authenticate'' \<and> \<not> known t t2
                   then (case str_arg (ck_args call) 1 of
                           None \<Rightarrow> t2
                         | Some x \<Rightarrow> if resolveEmailDomain t x \<noteq> '''' then resolveEmailDomain t x else t2)
                   else t2)
         in if known t t3 then t3 else tn_default t)"

subsection \<open>The companies of a user\<close>

definition allowed_rows :: "(int \<times> string) list \<Rightarrow> session \<Rightarrow> session" where
  "allowed_rows rows s =
     s\<lparr>ss_allowedCompanyIds := map fst rows, ss_allowedCompanyNames := map snd rows\<rparr>"

definition loadAllowedCompaniesTxn :: "(int \<times> string) list \<Rightarrow> session \<Rightarrow> session" where
  "loadAllowedCompaniesTxn rows s =
     (let s1 = allowed_rows rows s;
          s2 = (if ss_allowedCompanyIds s1 = [] \<and> ss_companyId s1 > 0
                then s1\<lparr>ss_allowedCompanyIds := [ss_companyId s1],
                        ss_allowedCompanyNames := [ss_companyName s1]\<rparr> else s1)
      in if ss_allowedCompanyIds s2 \<noteq> [] \<and> ss_companyId s2 \<notin> set (ss_allowedCompanyIds s2)
         then s2\<lparr>ss_companyId := hd (ss_allowedCompanyIds s2),
                 ss_companyName := (if ss_allowedCompanyNames s2 = [] then ''''
                                    else hd (ss_allowedCompanyNames s2))\<rparr>
         else s2)"

definition loadAllowedCompanies ::
  "bool \<Rightarrow> (string \<Rightarrow> int \<Rightarrow> (int \<times> string) list) \<Rightarrow> session \<Rightarrow> session" where
  "loadAllowedCompanies have_db rows s =
     (if \<not> have_db \<or> ss_uid s \<le> 0 then s
      else loadAllowedCompaniesTxn (rows (ss_db s) (ss_uid s)) s)"

subsection \<open>The server and its handlers\<close>

record 'w server =
  sv_sessions :: session_manager
  sv_limiter :: limiter
  sv_fields :: "(string, json) ttl_cache"
  sv_world :: 'w

text \<open>A handler of a model's methods: the published caller, the selected tenant and the call.\<close>

type_synonym 'w handler =
  "user_context \<Rightarrow> string \<Rightarrow> call_kw \<Rightarrow> 'w \<times> session_manager \<Rightarrow> json result \<times> ('w \<times> session_manager)"

record 'w env =
  ev_trusted :: "string list"
  ev_db :: "tenants option"
  ev_devMode :: bool
  ev_hasModel :: "string \<Rightarrow> bool"
  ev_callKw :: "'w handler"
  ev_getViews :: "'w handler option"
  ev_readGroup :: "'w handler option"
  ev_identityFor :: "(string \<Rightarrow> string \<Rightarrow> string) option"
  ev_companies :: "'w \<Rightarrow> string \<Rightarrow> int \<Rightarrow> (int \<times> string) list"
  ev_jsonWhat :: string

definition onSessions :: "(session_manager \<Rightarrow> 'a \<times> session_manager) \<Rightarrow> ('w server, 'a) act" where
  "onSessions f sv = (let (r, m) = f (sv_sessions sv) in (Inr r, sv\<lparr>sv_sessions := m\<rparr>))"

definition onLimiter :: "(limiter \<Rightarrow> 'a \<times> limiter) \<Rightarrow> ('w server, 'a) act" where
  "onLimiter f sv = (let (r, l) = f (sv_limiter sv) in (Inr r, sv\<lparr>sv_limiter := l\<rparr>))"

definition runHandler :: "'w handler \<Rightarrow> user_context \<Rightarrow> string \<Rightarrow> call_kw \<Rightarrow> ('w server, json) act" where
  "runHandler h u tenant call sv =
     (let (r, (w, m)) = h u tenant call (sv_world sv, sv_sessions sv)
      in (r, sv\<lparr>sv_world := w, sv_sessions := m\<rparr>))"

subsection \<open>Responses\<close>

definition successResponse :: "json \<Rightarrow> json \<Rightarrow> json" where
  "successResponse i r = JObject [(''jsonrpc'', JString ''2.0''), (''id'', i), (''result'', r)]"

definition errorResponse :: "json \<Rightarrow> int \<Rightarrow> string \<Rightarrow> string \<Rightarrow> string \<Rightarrow> json" where
  "errorResponse i code message detail name = JObject
     [(''jsonrpc'', JString ''2.0''), (''id'', i),
      (''error'', JObject
        [(''code'', JInt code), (''message'', JString message),
         (''data'', JObject
           [(''name'', JString name),
            (''message'', JString (if detail = '''' then message else detail))])])]"

definition userError :: string where "userError = ''cerp.exceptions.UserError''"

definition internal :: "'w env \<Rightarrow> exn \<Rightarrow> string" where
  "internal ev e = (if ev_devMode ev then exn_what (ev_jsonWhat ev) e else ''An internal error occurred'')"

definition error_to_response :: "'w env \<Rightarrow> json \<Rightarrow> exn \<Rightarrow> json" where
  "error_to_response ev i e = (case e of
       AccessDenied m \<Rightarrow> errorResponse i 403 ''Access Denied'' m userError
     | ValidationError m \<Rightarrow> errorResponse i 400 ''Validation Error'' m ''cerp.exceptions.ValidationError''
     | ConcurrencyConflict m \<Rightarrow> errorResponse i 409 ''Conflict'' m ''cerp.exceptions.ConcurrencyConflict''
     | PoolExhausted m \<Rightarrow> errorResponse i 503 ''Service Unavailable''
         ''The server is temporarily overloaded. Please retry.'' userError
     | OutOfRange m \<Rightarrow> errorResponse i 400 ''Missing required field'' (internal ev e) userError
     | _ \<Rightarrow> errorResponse i 200 ''the reference ERP Server Error'' (internal ev e) userError)"

subsection \<open>Resolving the session\<close>

definition is_live :: "int \<Rightarrow> string \<Rightarrow> ('w server, bool) act" where
  "is_live now sid = onSessions (\<lambda>m. let (r, m') = get_session now m sid in (r \<noteq> None, m'))"

definition live_or_empty :: "int \<Rightarrow> string \<Rightarrow> ('w server, string) act" where
  "live_or_empty now sid =
     (if sid = '''' then returnA ''''
      else bindA (is_live now sid) (\<lambda>ok. returnA (if ok then sid else '''')))"

definition resolveSessionId :: "int \<Rightarrow> request \<Rightarrow> call_kw \<Rightarrow> ('w server, string) act" where
  "resolveSessionId now rq call =
     bindA (live_or_empty now (rq_cookie rq)) (\<lambda>c.
       if c \<noteq> '''' then returnA c
       else case jget (ck_kwargs call) ''context'' of
           None \<Rightarrow> returnA ''''
         | Some ctx \<Rightarrow> bindA (liftA (value_str ctx ''session_id'' '''')) (live_or_empty now))"

definition lookup_session :: "int \<Rightarrow> string \<Rightarrow> ('w server, session) act" where
  "lookup_session now sid = onSessions (\<lambda>m. let (r, m') = get_session now m sid
     in (case r of None \<Rightarrow> new_session now | Some s \<Rightarrow> s, m'))"

text \<open>The line that logs the request reads the body's session id, and throws where it is no string.\<close>

definition log_check :: "call_kw \<Rightarrow> unit result" where
  "log_check call = (case jget (ck_kwargs call) ''context'' of
       None \<Rightarrow> Inr ()
     | Some ctx \<Rightarrow> bindE (value_str ctx ''session_id'' ''(none)'') (\<lambda>_. Inr ()))"

definition bind_login_tenant :: "string \<Rightarrow> call_kw \<Rightarrow> call_kw" where
  "bind_login_tenant tenant call = (case ck_args call of
       JArray (a # as) \<Rightarrow>
         if ck_method call = ''authenticate'' \<and> (a = JString '''' \<or> as_str a = Inl JsonTypeError)
         then call\<lparr>ck_args := JArray (JString tenant # as)\<rparr> else call
     | _ \<Rightarrow> call)"

subsection \<open>Checks before the call, and the identity handed on\<close>

definition check_limit :: "'w env \<Rightarrow> int \<Rightarrow> request \<Rightarrow> call_kw \<Rightarrow> ('w server, bool) act" where
  "check_limit ev now rq call =
     (if ck_method call = ''authenticate''
      then onLimiter (allow now (client_ip (ev_trusted ev) (rq_peer rq) (rq_header rq)))
      else returnA True)"

definition int_list_json :: "int list \<Rightarrow> json" where
  "int_list_json is = JArray (map JInt is)"

definition put_identity :: "string \<Rightarrow> session \<Rightarrow> json \<Rightarrow> json result" where
  "put_identity sid s ctx =
     bindE (jput ctx ''uid'' (JInt (ss_uid s))) (\<lambda>c.
     bindE (jput c ''session_id'' (JString sid)) (\<lambda>c.
     bindE (jput c ''company_id'' (JInt (ss_companyId s))) (\<lambda>c.
     bindE (jput c ''partner_id'' (JInt (ss_partnerId s))) (\<lambda>c.
     bindE (jput c ''is_admin'' (JBool (ss_isAdmin s))) (\<lambda>c.
     bindE (jput c ''group_ids'' (int_list_json (ss_groupIds s))) (\<lambda>c.
       jput c ''allowed_company_ids'' (int_list_json (ss_allowedCompanyIds s))))))))"

definition inject_identity :: "string \<Rightarrow> session \<Rightarrow> call_kw \<Rightarrow> call_kw result" where
  "inject_identity sid s call =
     bindE (case jget (ck_kwargs call) ''context'' of
              None \<Rightarrow> bindE (jput (ck_kwargs call) ''context'' (JObject [])) (\<lambda>_. Inr (JObject []))
            | Some ctx \<Rightarrow> Inr ctx) (\<lambda>ctx0.
     bindE (put_identity sid s ctx0) (\<lambda>ctx.
     bindE (jput (ck_kwargs call) ''context'' ctx) (\<lambda>kw.
       Inr (call\<lparr>ck_kwargs := kw\<rparr>))))"

definition ambient :: "session \<Rightarrow> user_context" where
  "ambient s = \<lparr>uc_uid = ss_uid s, uc_companyId = ss_companyId s, uc_partnerId = ss_partnerId s,
     uc_groupIds = ss_groupIds s, uc_isAdmin = ss_isAdmin s,
     uc_allowedCompanyIds = ss_allowedCompanyIds s\<rparr>"

subsection \<open>The call\<close>

definition positive_uid :: "json \<Rightarrow> int option" where
  "positive_uid result = (case jget result ''uid'' of
       Some (JInt u) \<Rightarrow> if wrap32 u > 0 then Some (wrap32 u) else None | _ \<Rightarrow> None)"

text \<open>\<open>result.contains\<close> and \<open>result[...]\<close> on a result that is no object find nothing.\<close>

definition call_login :: "'w env \<Rightarrow> int \<Rightarrow> request \<Rightarrow> user_context \<Rightarrow> string \<Rightarrow> call_kw \<Rightarrow> ('w server, json) act" where
  "call_login ev now rq u tenant call sv =
     (let ip = client_ip (ev_trusted ev) (rq_peer rq) (rq_header rq)
      in case runHandler (ev_callKw ev) u tenant call sv of
           (Inl e, sv1) \<Rightarrow> (Inl e, sv1\<lparr>sv_limiter := recordFailure now ip (sv_limiter sv1)\<rparr>)
         | (Inr result, sv1) \<Rightarrow>
             (Inr result, sv1\<lparr>sv_limiter :=
                (if positive_uid result \<noteq> None then recordSuccess ip (sv_limiter sv1)
                 else recordFailure now ip (sv_limiter sv1))\<rparr>))"

definition is_object :: "json \<Rightarrow> bool" where
  "is_object j = (case j of JObject _ \<Rightarrow> True | _ \<Rightarrow> False)"

definition cache_fields :: "int \<Rightarrow> call_kw \<Rightarrow> json \<Rightarrow> ('w server, unit) act" where
  "cache_fields now call result sv =
     (Inr (), if ck_method call = ''fields_get'' \<and> is_object result
        then sv\<lparr>sv_fields := cache_set now (sv_fields sv) (ck_model call) result (300 * second)\<rparr> else sv)"

definition cached_fields :: "int \<Rightarrow> call_kw \<Rightarrow> ('w server, json option) act" where
  "cached_fields now call sv =
     (if ck_method call = ''fields_get''
      then let (r, c) = cache_get now (sv_fields sv) (ck_model call) in (Inr r, sv\<lparr>sv_fields := c\<rparr>)
      else (Inr None, sv))"

subsection \<open>After a log-in\<close>

text \<open>The assignments of the lambda given to \<open>update\<close>, in order; one that throws leaves those before it
  in place.\<close>

fun run_steps :: "(session \<Rightarrow> session result) list \<Rightarrow> session \<Rightarrow> exn option \<times> session" where
  "run_steps [] s = (None, s)"
| "run_steps (f # fs) s = (case f s of Inl e \<Rightarrow> (Some e, s) | Inr s' \<Rightarrow> run_steps fs s')"

definition update_steps ::
  "int \<Rightarrow> (session \<Rightarrow> session result) list \<Rightarrow> string \<Rightarrow> (session_manager, bool) act" where
  "update_steps now fs sid m = (case map_of (sm_store m) sid of
       None \<Rightarrow> (Inr False, m)
     | Some s \<Rightarrow>
         if isExpired now m s then (Inr False, m)
         else case run_steps fs s of
             (Some e, s') \<Rightarrow> (Inl e, m\<lparr>sm_store := AList.update sid s' (sm_store m)\<rparr>)
           | (None, s') \<Rightarrow>
               (Inr True, m\<lparr>sm_store := AList.update sid (s'\<lparr>ss_accessedAt := now\<rparr>) (sm_store m)\<rparr>))"

definition as_bool :: "json \<Rightarrow> bool result" where
  "as_bool v = (case v of JBool b \<Rightarrow> Inr b | _ \<Rightarrow> Inl JsonTypeError)"

definition int_field :: "json \<Rightarrow> string \<Rightarrow> int \<Rightarrow> int" where
  "int_field j k d = (case jget j k of Some (JInt i) \<Rightarrow> wrap32 i | _ \<Rightarrow> d)"

definition group_field :: "json \<Rightarrow> int list \<Rightarrow> int list" where
  "group_field j d = (case jget j ''group_ids'' of
       Some (JArray xs) \<Rightarrow> List.map_filter (\<lambda>g. case g of JInt i \<Rightarrow> Some (wrap32 i) | _ \<Rightarrow> None) xs
     | _ \<Rightarrow> d)"

definition login_context :: "int \<Rightarrow> json" where
  "login_context uid = JObject [(''uid'', JInt uid), (''lang'', JString ''en_US''), (''tz'', JString ''UTC'')]"

definition login_steps :: "json \<Rightarrow> int \<Rightarrow> string \<Rightarrow> string \<Rightarrow> (session \<Rightarrow> session result) list" where
  "login_steps result uid tenant identity =
     [\<lambda>s. Inr (s\<lparr>ss_uid := uid\<rparr>),
      \<lambda>s. bindE (value_str result ''login'' '''') (\<lambda>v. Inr (s\<lparr>ss_login := v\<rparr>)),
      \<lambda>s. bindE (if tenant = '''' then value_str result ''db'' '''' else Inr tenant)
            (\<lambda>v. Inr (s\<lparr>ss_db := v\<rparr>)),
      \<lambda>s. Inr (s\<lparr>ss_identity := identity\<rparr>),
      \<lambda>s. bindE (value_str result ''name'' '''') (\<lambda>v. Inr (s\<lparr>ss_name := v\<rparr>)),
      \<lambda>s. bindE (bindE (value_json result ''is_admin'' (JBool False)) as_bool) (\<lambda>v. Inr (s\<lparr>ss_isAdmin := v\<rparr>)),
      \<lambda>s. Inr (s\<lparr>ss_partnerId := int_field result ''partner_id'' (ss_partnerId s)\<rparr>),
      \<lambda>s. Inr (s\<lparr>ss_companyId := int_field result ''company_id'' (ss_companyId s)\<rparr>),
      \<lambda>s. Inr (s\<lparr>ss_context := login_context (ss_uid s)\<rparr>),
      \<lambda>s. Inr (s\<lparr>ss_groupIds := group_field result (ss_groupIds s)\<rparr>)]"

definition withSessions :: "(session_manager, 'a) act \<Rightarrow> ('w server, 'a) act" where
  "withSessions f sv = (let (r, m) = f (sv_sessions sv) in (r, sv\<lparr>sv_sessions := m\<rparr>))"

definition login_identity :: "'w env \<Rightarrow> string \<Rightarrow> json \<Rightarrow> string result" where
  "login_identity ev tenant result =
     bindE (case ev_identityFor ev of
              None \<Rightarrow> Inr ''''
            | Some f \<Rightarrow> bindE (value_str result ''login'' '''') (\<lambda>l. Inr (f tenant l))) (\<lambda>i.
       if i = '''' then value_str result ''login'' '''' else Inr i)"

definition login_sid :: "int \<Rightarrow> 8 word list option \<Rightarrow> string \<Rightarrow> ('w server, string) act" where
  "login_sid now buf sid =
     bindA (live_or_empty now sid) (\<lambda>c.
       if c = '''' then withSessions (create_session now buf '''') else returnA c)"

definition rekey :: "int \<Rightarrow> 8 word list option \<Rightarrow> string \<Rightarrow> ('w server, string) act" where
  "rekey now buf sid =
     bindA (withSessions (rotate_session now buf sid)) (\<lambda>r. returnA (if r \<noteq> '''' then r else sid))"

definition sync_login ::
  "'w env \<Rightarrow> int \<Rightarrow> 8 word list option \<Rightarrow> 8 word list option \<Rightarrow> string \<Rightarrow> string \<Rightarrow> int \<Rightarrow> json
   \<Rightarrow> ('w server, json \<times> string) act" where
  "sync_login ev now buf1 buf2 sid tenant uid result =
     bindA (liftA (value_str result ''session_id'' sid)) (\<lambda>sid0.
     bindA (login_sid now buf1 sid0) (\<lambda>sid1.
     bindA (rekey now buf2 sid1) (\<lambda>new.
     bindA (liftA (jput result ''session_id'' (JString new))) (\<lambda>result'.
     bindA (liftA (login_identity ev tenant result')) (\<lambda>identity.
     bindA (withSessions (update_steps now (login_steps result' uid tenant identity) new)) (\<lambda>_.
     bindA (\<lambda>sv. withSessions (\<lambda>m. let (b, m') = update_session now
                (loadAllowedCompanies (ev_db ev \<noteq> None) (ev_companies ev (sv_world sv))) new m
              in (Inr b, m')) sv) (\<lambda>_.
       returnA (result', new))))))))"

subsection \<open>The handler\<close>

definition unknown_model :: "json \<Rightarrow> string \<Rightarrow> json" where
  "unknown_model i model = errorResponse i 404 ''Unknown model''
     (''The server has no model '' @ quoted model @ ''. If a menu led here, this page is older than ''
      @ ''the server '' @ [CHR 0xE2, CHR 0x80, CHR 0x94] @ '' reload it (Ctrl+Shift+R).'') userError"

definition model_call ::
  "'w env \<Rightarrow> int \<Rightarrow> 8 word list option \<Rightarrow> 8 word list option \<Rightarrow> request \<Rightarrow> json \<Rightarrow> string \<Rightarrow> session
   \<Rightarrow> string \<Rightarrow> call_kw \<Rightarrow> ('w server, json \<times> string option) act" where
  "model_call ev now buf1 buf2 rq i sid s tenant call =
     bindA (if ck_method call = ''authenticate'' then call_login ev now rq (ambient s) tenant call
            else runHandler (ev_callKw ev) (ambient s) tenant call) (\<lambda>result.
     bindA (cache_fields now call result) (\<lambda>_.
       case (if ck_method call = ''authenticate'' then positive_uid result else None) of
         None \<Rightarrow> returnA (successResponse i result, None)
       | Some uid \<Rightarrow>
           bindA (sync_login ev now buf1 buf2 sid tenant uid result) (\<lambda>(result', new).
             returnA (successResponse i result', Some new))))"

definition plain_call :: "'w handler \<Rightarrow> json \<Rightarrow> session \<Rightarrow> string \<Rightarrow> call_kw \<Rightarrow> ('w server, json \<times> string option) act" where
  "plain_call h i s tenant call =
     bindA (runHandler h (ambient s) tenant call) (\<lambda>r. returnA (successResponse i r, None))"

definition own_handler :: "'w env \<Rightarrow> call_kw \<Rightarrow> 'w handler option" where
  "own_handler ev call =
     (if ck_method call = ''get_views'' then ev_getViews ev
      else if ck_method call = ''read_group'' \<or> ck_method call = ''web_read_group''
      then ev_readGroup ev else None)"

definition dispatch ::
  "'w env \<Rightarrow> int \<Rightarrow> 8 word list option \<Rightarrow> 8 word list option \<Rightarrow> request \<Rightarrow> json \<Rightarrow> string \<Rightarrow> session
   \<Rightarrow> string \<Rightarrow> call_kw \<Rightarrow> ('w server, json \<times> string option) act" where
  "dispatch ev now buf1 buf2 rq i sid s tenant call =
     (case own_handler ev call of
        Some h \<Rightarrow> plain_call h i s tenant call
      | None \<Rightarrow>
          bindA (cached_fields now call) (\<lambda>c. case c of
              Some v \<Rightarrow> returnA (successResponse i v, None)
            | None \<Rightarrow>
                if \<not> ev_hasModel ev (ck_model call) then returnA (unknown_model i (ck_model call), None)
                else model_call ev now buf1 buf2 rq i sid s tenant call))"

definition checked ::
  "'w env \<Rightarrow> int \<Rightarrow> 8 word list option \<Rightarrow> 8 word list option \<Rightarrow> request \<Rightarrow> json \<Rightarrow> string \<Rightarrow> session
   \<Rightarrow> string \<Rightarrow> call_kw \<Rightarrow> ('w server, json \<times> string option) act" where
  "checked ev now buf1 buf2 rq i sid s tenant call =
     bindA (check_limit ev now rq call) (\<lambda>ok.
       if \<not> ok then returnA (errorResponse i 429 ''Too many requests''
           ''Too many failed login attempts. Try again later.'' userError, None)
       else if \<not> isPublicMethod (ck_method call) \<and> \<not> isAuthenticated s
       then returnA (errorResponse i 100 ''Session expired'' ''Please authenticate first.'' userError, None)
       else bindA (liftA (if isAuthenticated s then checkModelAccess (ck_model call) s else Inr ())) (\<lambda>_.
            bindA (liftA (inject_identity sid s call)) (dispatch ev now buf1 buf2 rq i sid s tenant)))"

definition serve ::
  "'w env \<Rightarrow> int \<Rightarrow> 8 word list option \<Rightarrow> 8 word list option \<Rightarrow> request \<Rightarrow> json \<Rightarrow> json
   \<Rightarrow> ('w server, json \<times> string option) act" where
  "serve ev now buf1 buf2 rq i body =
     bindA (liftA (rewrite_login body)) (\<lambda>body'.
     bindA (liftA (bindE (json_at body' ''params'') parseCallKw)) (\<lambda>call.
     bindA (resolveSessionId now rq call) (\<lambda>sid.
     bindA (lookup_session now sid) (\<lambda>s.
       let tenant = resolveTenant (ev_db ev) rq call s;
           call1 = bind_login_tenant tenant call
       in bindA (liftA (log_check call1)) (\<lambda>_.
            checked ev now buf1 buf2 rq i sid s tenant call1)))))"

definition handleCallKw ::
  "'w env \<Rightarrow> int \<Rightarrow> 8 word list option \<Rightarrow> 8 word list option \<Rightarrow> request \<Rightarrow> json
   \<Rightarrow> ('w server, json \<times> string option) act" where
  "handleCallKw ev now buf1 buf2 rq body sv = (case value_json body ''id'' JNull of
       Inl e \<Rightarrow> (Inl e, sv)
     | Inr i \<Rightarrow> (case serve ev now buf1 buf2 rq i body sv of
           (Inl e, sv') \<Rightarrow> (Inr (error_to_response ev i e, None), sv')
         | (Inr r, sv') \<Rightarrow> (Inr r, sv')))"

subsection \<open>Reading and writing JSON objects: lemmas\<close>

lemma jput_get:
  "jput j k v = Inr j' \<Longrightarrow> jget j' i = (if i = k then Some v else jget j i)"
  by (auto simp: jput_def jget_def update_conv' split: json.splits)

lemma put_identity_get:
  assumes "put_identity sid s ctx = Inr c"
  shows "jget c ''uid'' = Some (JInt (ss_uid s))" and "jget c ''session_id'' = Some (JString sid)"
    and "jget c ''company_id'' = Some (JInt (ss_companyId s))"
    and "jget c ''partner_id'' = Some (JInt (ss_partnerId s))"
    and "jget c ''is_admin'' = Some (JBool (ss_isAdmin s))"
    and "jget c ''group_ids'' = Some (int_list_json (ss_groupIds s))"
    and "jget c ''allowed_company_ids'' = Some (int_list_json (ss_allowedCompanyIds s))"
  using assms by (auto simp: put_identity_def exn_simps jput_get)

lemma inject_identity_get:
  assumes "inject_identity sid s call = Inr call'"
  obtains c ctx where "jget (ck_kwargs call') ''context'' = Some c" and "put_identity sid s ctx = Inr c"
    and "ck_model call' = ck_model call" and "ck_method call' = ck_method call"
  using assms by (auto simp: inject_identity_def exn_simps jput_get)

subsection \<open>The session a request acts under\<close>

lemma get_session_hit:
  assumes "get_session now m k = (Some s, m')" and "0 \<le> sm_ttl m"
  shows "map_of (sm_store m') k = Some s" and "get_session now m' k = (Some s, m')"
proof -
  have p: "0 \<le> sm_ttl m * second" "0 < kTouchInterval"
    using assms(2) by (simp_all add: second_def kTouchInterval_def)
  show "map_of (sm_store m') k = Some s" "get_session now m' k = (Some s, m')"
    using assms(1) p
    by (auto simp: get_session_def get_shared_def get_exclusive_def isExpired_def Let_def update_conv'
        split: option.splits if_splits)
qed

lemma get_session_miss: "get_session now m k = (None, m') \<Longrightarrow> m' = m"
  by (auto simp: get_session_def get_shared_def get_exclusive_def Let_def split: option.splits if_splits)

lemma get_session_other:
  "map_of (sm_store m) j = None \<Longrightarrow> map_of (sm_store (snd (get_session now m k))) j = None"
  by (auto simp: get_session_def get_shared_def get_exclusive_def Let_def update_conv'
      split: option.splits if_splits)

lemma get_session_ttl: "sm_ttl (snd (get_session now m k)) = sm_ttl m"
  by (auto simp: get_session_def get_shared_def get_exclusive_def Let_def split: option.splits if_splits)

definition sane :: "session_manager \<Rightarrow> bool" where
  "sane m \<longleftrightarrow> map_of (sm_store m) '''' = None \<and> 0 \<le> sm_ttl m"

lemma sane_get: "sane m \<Longrightarrow> sane (snd (get_session now m k))"
  by (simp add: sane_def get_session_other get_session_ttl)

text \<open>The id \<open>sid\<close> resolves to a live session of the store, or to nothing.\<close>

definition resolved :: "int \<Rightarrow> string \<Rightarrow> session_manager \<Rightarrow> bool" where
  "resolved now sid m \<longleftrightarrow> sid = '''' \<or> (\<exists>s. get_session now m sid = (Some s, m))"

lemma live_or_empty:
  assumes "live_or_empty now sid sv = (Inr r, sv')" and "sane (sv_sessions sv)"
  shows "r = sid \<or> r = ''''" and "sane (sv_sessions sv')" and "resolved now r (sv_sessions sv')"
    and "sv' = sv\<lparr>sv_sessions := sv_sessions sv'\<rparr>"
proof -
  obtain q m' where g: "get_session now (sv_sessions sv) sid = (q, m')" by fastforce
  have "sane m'" using sane_get [OF assms(2), of now sid] g by simp
  moreover have "q \<noteq> None \<Longrightarrow> resolved now sid m'"
    using get_session_hit(2) [of now "sv_sessions sv" sid] g assms(2)
    by (auto simp: resolved_def sane_def)
  ultimately show "r = sid \<or> r = ''''" "sane (sv_sessions sv')" "resolved now r (sv_sessions sv')"
    "sv' = sv\<lparr>sv_sessions := sv_sessions sv'\<rparr>"
    using assms by (auto simp: live_or_empty_def is_live_def onSessions_def g act_simps Let_def
        resolved_def split: if_splits)
qed

lemma resolveSessionId:
  assumes "resolveSessionId now rq call sv = (Inr sid, sv')" and "sane (sv_sessions sv)"
  shows "sane (sv_sessions sv')" and "resolved now sid (sv_sessions sv')"
    and "sv' = sv\<lparr>sv_sessions := sv_sessions sv'\<rparr>"
proof -
  from assms(1) obtain c sv1 where c: "live_or_empty now (rq_cookie rq) sv = (Inr c, sv1)"
    and rest: "(if c \<noteq> '''' then returnA c
       else case jget (ck_kwargs call) ''context'' of
           None \<Rightarrow> returnA ''''
         | Some ctx \<Rightarrow> bindA (liftA (value_str ctx ''session_id'' '''')) (live_or_empty now)) sv1 = (Inr sid, sv')"
    unfolding resolveSessionId_def by (rule bindA_E)
  note l1 = live_or_empty [OF c assms(2)]
  have "sane (sv_sessions sv') \<and> resolved now sid (sv_sessions sv') \<and> sv' = sv1\<lparr>sv_sessions := sv_sessions sv'\<rparr>"
  proof (cases "c \<noteq> '''' \<or> jget (ck_kwargs call) ''context'' = None")
    case True
    with rest l1 show ?thesis by (auto simp: returnA_def resolved_def split: if_splits)
  next
    case False
    then obtain ctx where "jget (ck_kwargs call) ''context'' = Some ctx" by auto
    with False rest obtain k where "live_or_empty now k sv1 = (Inr sid, sv')"
      by (auto simp: act_simps split: prod.splits sum.splits)
    from live_or_empty [OF this l1(2)] show ?thesis by simp
  qed
  then have r: "sane (sv_sessions sv')" "resolved now sid (sv_sessions sv')"
    "sv' = sv1\<lparr>sv_sessions := sv_sessions sv'\<rparr>" by auto
  then show "sane (sv_sessions sv')" "resolved now sid (sv_sessions sv')" by auto
  from r(3) l1(4) show "sv' = sv\<lparr>sv_sessions := sv_sessions sv'\<rparr>"
    by (cases sv; cases sv1; cases sv') simp
qed

text \<open>The caller a session id stands for: the session filed under it, or an anonymous one.\<close>

definition caller_of :: "session_manager \<Rightarrow> string \<Rightarrow> session" where
  "caller_of m sid = (case map_of (sm_store m) sid of None \<Rightarrow> new_session 0 | Some s \<Rightarrow> s)"

lemma ambient_decides:
  assumes "ambient s = ambient t"
  shows "isAuthenticated s = isAuthenticated t" and "checkModelAccess model s = checkModelAccess model t"
    and "put_identity sid s = put_identity sid t"
proof -
  have e: "ss_uid s = ss_uid t" "ss_companyId s = ss_companyId t" "ss_partnerId s = ss_partnerId t"
    "ss_groupIds s = ss_groupIds t" "ss_isAdmin s = ss_isAdmin t"
    "ss_allowedCompanyIds s = ss_allowedCompanyIds t"
    using assms by (simp_all add: ambient_def)
  then have "session_hasGroup s = session_hasGroup t" by (simp add: session_hasGroup_def fun_eq_iff)
  with e show "checkModelAccess model s = checkModelAccess model t"
    by (simp only: checkModelAccess_def)
  from e show "isAuthenticated s = isAuthenticated t" "put_identity sid s = put_identity sid t"
    by (simp_all add: isAuthenticated_def put_identity_def fun_eq_iff)
qed

lemma lookup_session:
  assumes "resolved now sid (sv_sessions sv)" and "sane (sv_sessions sv)"
  shows "\<exists>s. lookup_session now sid sv = (Inr s, sv) \<and> ambient s = ambient (caller_of (sv_sessions sv) sid)
    \<and> ss_db s = ss_db (caller_of (sv_sessions sv) sid)"
proof (cases "map_of (sm_store (sv_sessions sv)) sid")
  case None
  then have "get_session now (sv_sessions sv) sid = (None, sv_sessions sv)"
    by (simp add: get_session_def get_shared_def)
  with None show ?thesis
    by (auto simp: lookup_session_def onSessions_def caller_of_def ambient_def new_session_def)
next
  case (Some t)
  with assms obtain s where s: "get_session now (sv_sessions sv) sid = (Some s, sv_sessions sv)"
    by (auto simp: resolved_def sane_def)
  from get_session_hit(1) [OF this] assms(2) Some have "t = s" by (simp add: sane_def)
  with s Some show ?thesis by (auto simp: lookup_session_def onSessions_def caller_of_def)
qed

subsection \<open>Models are only called for the identity of a stored session\<close>

text \<open>
  What a call must satisfy: the published caller and every identity field of the call's context are
  those of the session its id stands for, that session may call this method of this model, and the
  selected tenant is that session's (a log-in chooses its own).
\<close>

definition home_tenant :: "tenants option \<Rightarrow> session \<Rightarrow> string" where
  "home_tenant db s = (case db of None \<Rightarrow> ''''
     | Some t \<Rightarrow> if isAuthenticated s \<and> known t (ss_db s) then ss_db s else tn_default t)"

definition same_identity :: "user_context \<Rightarrow> json \<Rightarrow> bool" where
  "same_identity u c \<longleftrightarrow> jget c ''uid'' = Some (JInt (uc_uid u))
     \<and> jget c ''company_id'' = Some (JInt (uc_companyId u))
     \<and> jget c ''partner_id'' = Some (JInt (uc_partnerId u))
     \<and> jget c ''is_admin'' = Some (JBool (uc_isAdmin u))
     \<and> jget c ''group_ids'' = Some (int_list_json (uc_groupIds u))
     \<and> jget c ''allowed_company_ids'' = Some (int_list_json (uc_allowedCompanyIds u))"

definition lawful :: "tenants option \<Rightarrow> user_context \<Rightarrow> string \<Rightarrow> call_kw \<Rightarrow> session_manager \<Rightarrow> bool" where
  "lawful db u tenant call m = (case jget (ck_kwargs call) ''context'' of
       None \<Rightarrow> False
     | Some c \<Rightarrow> (case jget c ''session_id'' of
           Some (JString sid) \<Rightarrow>
             let s = caller_of m sid
             in u = ambient s \<and> same_identity u c
                \<and> (if isAuthenticated s then checkModelAccess (ck_model call) s = Inr ()
                   else isPublicMethod (ck_method call))
                \<and> (ck_method call = ''authenticate'' \<or> tenant = home_tenant db s)
         | _ \<Rightarrow> False))"

definition lawful_only :: "tenants option \<Rightarrow> 'w handler \<Rightarrow> 'w handler" where
  "lawful_only db h u tenant call wm =
     (if lawful db u tenant call (snd wm) then h u tenant call wm
      else (Inl (Undefined ''unlawful call''), wm))"

definition lawful_env :: "'w env \<Rightarrow> 'w env" where
  "lawful_env ev = ev\<lparr>ev_callKw := lawful_only (ev_db ev) (ev_callKw ev),
     ev_getViews := map_option (lawful_only (ev_db ev)) (ev_getViews ev),
     ev_readGroup := map_option (lawful_only (ev_db ev)) (ev_readGroup ev)\<rparr>"

lemma lawful_env_simps [simp]:
  "ev_trusted (lawful_env ev) = ev_trusted ev" "ev_db (lawful_env ev) = ev_db ev"
  "ev_hasModel (lawful_env ev) = ev_hasModel ev" "ev_devMode (lawful_env ev) = ev_devMode ev"
  "ev_jsonWhat (lawful_env ev) = ev_jsonWhat ev" "ev_identityFor (lawful_env ev) = ev_identityFor ev"
  "ev_companies (lawful_env ev) = ev_companies ev"
  "ev_callKw (lawful_env ev) = lawful_only (ev_db ev) (ev_callKw ev)"
  "ev_getViews (lawful_env ev) = map_option (lawful_only (ev_db ev)) (ev_getViews ev)"
  "ev_readGroup (lawful_env ev) = map_option (lawful_only (ev_db ev)) (ev_readGroup ev)"
  by (simp_all add: lawful_env_def)

lemma sync_login_env [simp]: "sync_login (lawful_env ev) = sync_login ev"
  by (simp add: sync_login_def login_identity_def fun_eq_iff)

lemma runHandler_lawful:
  "lawful db u tenant call (sv_sessions sv) \<Longrightarrow>
   runHandler (lawful_only db h) u tenant call sv = runHandler h u tenant call sv"
  by (simp add: runHandler_def lawful_only_def)

lemma call_login_lawful:
  "lawful (ev_db ev) u tenant call (sv_sessions sv) \<Longrightarrow>
   call_login (lawful_env ev) now rq u tenant call sv = call_login ev now rq u tenant call sv"
  by (simp add: call_login_def runHandler_lawful)

lemma model_call_lawful:
  assumes "lawful (ev_db ev) (ambient s) tenant call (sv_sessions sv)"
  shows "model_call (lawful_env ev) now b1 b2 rq i sid s tenant call sv = model_call ev now b1 b2 rq i sid s tenant call sv"
  unfolding model_call_def using assms
  by (intro bindA_cong) (simp_all add: call_login_lawful runHandler_lawful split: option.splits)

lemma dispatch_lawful:
  assumes "lawful (ev_db ev) (ambient s) tenant call (sv_sessions sv)"
  shows "dispatch (lawful_env ev) now b1 b2 rq i sid s tenant call sv = dispatch ev now b1 b2 rq i sid s tenant call sv"
proof -
  have p: "own_handler (lawful_env ev) call = map_option (lawful_only (ev_db ev)) (own_handler ev call)"
    by (simp add: own_handler_def)
  show ?thesis
  proof (cases "own_handler ev call")
    case (Some h)
    with p assms show ?thesis by (simp add: dispatch_def plain_call_def bindA_def runHandler_lawful)
  next
    case None
    have "sv_sessions (snd (cached_fields now call sv)) = sv_sessions sv"
      by (simp add: cached_fields_def Let_def split: prod.splits)
    with assms have m: "model_call (lawful_env ev) now b1 b2 rq i sid s tenant call t
        = model_call ev now b1 b2 rq i sid s tenant call t" if "cached_fields now call sv = (Inr x, t)" for x t
      using that by (intro model_call_lawful) simp
    show ?thesis
      unfolding dispatch_def p None option.map option.case
      by (intro bindA_cong refl) (simp add: m split: option.splits)
  qed
qed

lemma check_limit_sessions:
  "sv_sessions (snd (check_limit ev now rq call sv)) = sv_sessions sv"
  by (simp add: check_limit_def onLimiter_def returnA_def Let_def split: prod.splits)

lemma bind_login_tenant_simps [simp]:
  "ck_model (bind_login_tenant t call) = ck_model call"
  "ck_method (bind_login_tenant t call) = ck_method call"
  "ck_kwargs (bind_login_tenant t call) = ck_kwargs call"
  by (auto simp: bind_login_tenant_def split: json.splits list.splits)

lemma resolveTenant_home:
  "ck_method call \<noteq> ''authenticate'' \<Longrightarrow> resolveTenant db rq call s = home_tenant db s"
  by (auto simp: resolveTenant_def home_tenant_def Let_def known_def split: option.splits)

lemma checked_lawful:
  assumes a: "ambient s = ambient (caller_of (sv_sessions sv) sid)"
    and d: "ss_db s = ss_db (caller_of (sv_sessions sv) sid)"
    and t: "ck_method call \<noteq> ''authenticate'' \<Longrightarrow> tenant = home_tenant (ev_db ev) s"
  shows "checked (lawful_env ev) now b1 b2 rq i sid s tenant call sv = checked ev now b1 b2 rq i sid s tenant call sv"
proof -
  define c where "c = caller_of (sv_sessions sv) sid"
  note same = ambient_decides [OF a, folded c_def]
  have lim: "check_limit (lawful_env ev) = check_limit ev" by (simp add: check_limit_def fun_eq_iff)
  have "dispatch (lawful_env ev) now b1 b2 rq i sid s tenant call' sv'
      = dispatch ev now b1 b2 rq i sid s tenant call' sv'"
    if "inject_identity sid s call = Inr call'" and "sv_sessions sv' = sv_sessions sv"
      and m: "isAuthenticated s \<or> isPublicMethod (ck_method call)"
      and acc: "isAuthenticated s \<Longrightarrow> checkModelAccess (ck_model call) s = Inr ()" for call' sv'
  proof (rule dispatch_lawful)
    from that(1) obtain ctx ctx0 where ctx: "jget (ck_kwargs call') ''context'' = Some ctx"
      and put: "put_identity sid s ctx0 = Inr ctx"
      and eq: "ck_model call' = ck_model call" "ck_method call' = ck_method call"
      by (rule inject_identity_get)
    have "home_tenant (ev_db ev) s = home_tenant (ev_db ev) c"
      using same(1) d by (simp add: home_tenant_def c_def split: option.splits)
    moreover have "same_identity (ambient s) ctx"
      using put_identity_get [OF put] by (simp add: same_identity_def ambient_def)
    ultimately show "lawful (ev_db ev) (ambient s) tenant call' (sv_sessions sv')"
      using put_identity_get(2) [OF put] m acc t same a
      by (cases "isAuthenticated c") (auto simp: lawful_def ctx that(2) eq c_def [symmetric] Let_def)
  qed
  with check_limit_sessions [of ev now rq call sv] show ?thesis
    unfolding checked_def lim
    by (intro bindA_cong) (auto simp: act_simps split: sum.splits prod.splits if_splits)
qed

text \<open>C39: no request, whatever its body, cookie and headers say, reaches a model under any other
  identity than its session's. Every model call the dispatcher makes is published and annotated
  with the user, company, partner, groups, administrator flag and companies of the stored session
  that the call's session id stands for; unless the method is one of the five public ones that
  session is signed in, and it has the group the model asks for; and the database selected is the
  session's own. The statement compares the dispatcher with one whose models refuse every other call:
  the two answer alike and leave the same state.\<close>

theorem models_called_lawfully:
  assumes "map_of (sm_store (sv_sessions sv)) '''' = None" and "0 \<le> sm_ttl (sv_sessions sv)"
  shows "handleCallKw ev now b1 b2 rq body sv = handleCallKw (lawful_env ev) now b1 b2 rq body sv"
proof -
  have sane: "sane (sv_sessions sv)" using assms by (simp add: sane_def)
  have "serve (lawful_env ev) now b1 b2 rq i body sv = serve ev now b1 b2 rq i body sv" for i
    unfolding serve_def
  proof (intro bindA_cong refl)
    fix body' sv1 call sv2 sid sv3 s sv4
    assume 1: "liftA (rewrite_login body) sv = (Inr body', sv1)"
      "liftA (bindE (json_at body' ''params'') parseCallKw) sv1 = (Inr call, sv2)"
      and r: "resolveSessionId now rq call sv2 = (Inr sid, sv3)"
      and l: "lookup_session now sid sv3 = (Inr s, sv4)"
    from 1 have "sv2 = sv" by (simp add: liftA_def)
    note res = resolveSessionId [OF r, unfolded this, OF sane]
    from lookup_session [OF res(2,1)] l
    have s: "ambient s = ambient (caller_of (sv_sessions sv4) sid)"
      "ss_db s = ss_db (caller_of (sv_sessions sv4) sid)" by auto
    let ?t = "resolveTenant (ev_db ev) rq call s"
    have "checked (lawful_env ev) now b1 b2 rq i sid s ?t (bind_login_tenant ?t call) sv4
        = checked ev now b1 b2 rq i sid s ?t (bind_login_tenant ?t call) sv4"
      using s by (intro checked_lawful) (simp_all add: resolveTenant_home)
    then show "(let tenant = resolveTenant (ev_db (lawful_env ev)) rq call s;
           call1 = bind_login_tenant tenant call
       in bindA (liftA (log_check call1)) (\<lambda>_. checked (lawful_env ev) now b1 b2 rq i sid s tenant call1)) sv4
      = (let tenant = resolveTenant (ev_db ev) rq call s;
           call1 = bind_login_tenant tenant call
       in bindA (liftA (log_check call1)) (\<lambda>_. checked ev now b1 b2 rq i sid s tenant call1)) sv4"
      by (simp add: Let_def bindA_def liftA_def split: sum.splits)
  qed
  moreover have "error_to_response (lawful_env ev) = error_to_response ev"
    by (simp add: error_to_response_def internal_def fun_eq_iff split: exn.splits)
  ultimately show ?thesis
    by (cases "value_json body ''id'' JNull") (simp_all add: handleCallKw_def split: prod.splits sum.splits)
qed

definition no_handler :: "'w handler" where
  "no_handler u t call wm = (Inr JNull, wm)"

definition sample_env :: "(string list) env" where
  "sample_env = \<lparr>ev_trusted = [], ev_db = None, ev_devMode = False, ev_hasModel = (\<lambda>m. True),
     ev_callKw = (\<lambda>u t call (w, m). (Inr (JInt (uc_uid u)), (w @ [ck_method call], m))),
     ev_getViews = None, ev_readGroup = None, ev_identityFor = None, ev_companies = (\<lambda>w t u. []),
     ev_jsonWhat = ''json''\<rparr>"

definition sample_server :: "(string list) server" where
  "sample_server = \<lparr>sv_sessions = full_manager, sv_limiter = new_limiter 0, sv_fields = Map.empty, sv_world = []\<rparr>"

definition sample_body :: json where
  "sample_body = JObject [(''id'', JInt 1), (''params'', JObject
     [(''model'', JString ''res.partner''), (''method'', JString ''search''), (''args'', JArray []),
      (''kwargs'', JObject [(''context'', JObject [(''uid'', JInt 1), (''is_admin'', JBool True),
         (''session_id'', JString ''a'')])])])]"

definition sample_request :: request where
  "sample_request = \<lparr>rq_cookie = '''', rq_host = '''', rq_peer = ''1.2.3.4'', rq_header = (\<lambda>h. '''')\<rparr>"

theorem models_called_lawfully_witness:
  "handleCallKw sample_env 9 None None sample_request sample_body sample_server
   = handleCallKw (lawful_env sample_env) 9 None None sample_request sample_body sample_server"
proof -
  have "map_of (sm_store (sv_sessions sample_server)) '''' = None" "0 \<le> sm_ttl (sv_sessions sample_server)"
    by (simp_all add: sample_server_def full_manager_def)
  then show ?thesis by (rule models_called_lawfully)
qed

subsection \<open>Anonymous requests\<close>

definition anonymous :: "session_manager \<Rightarrow> string \<Rightarrow> bool" where
  "anonymous m k \<longleftrightarrow> \<not> isAuthenticated (caller_of m k)"

definition body_sid :: "call_kw \<Rightarrow> string" where
  "body_sid call = (case jget (ck_kwargs call) ''context'' of
       None \<Rightarrow> ''''
     | Some c \<Rightarrow> (case jget c ''session_id'' of Some (JString s) \<Rightarrow> s | _ \<Rightarrow> ''''))"

lemma get_session_anonymous:
  "anonymous m j \<Longrightarrow> anonymous (snd (get_session now m k)) j"
  by (auto simp: anonymous_def caller_of_def get_session_def get_shared_def get_exclusive_def Let_def
      update_conv' isAuthenticated_def split: option.splits if_splits)

lemma live_or_empty_anonymous:
  "live_or_empty now sid sv = (Inr r, sv') \<Longrightarrow> anonymous (sv_sessions sv) j \<Longrightarrow> anonymous (sv_sessions sv') j"
  using get_session_anonymous [of "sv_sessions sv" j now sid]
  by (auto simp: live_or_empty_def is_live_def onSessions_def act_simps Let_def split: if_splits prod.splits)

lemma value_str_session:
  "jget (ck_kwargs call) ''context'' = Some ctx \<Longrightarrow> value_str ctx ''session_id'' '''' = Inr k \<Longrightarrow> k = body_sid call"
  by (auto simp: value_str_def value_json_def exn_simps as_str_def body_sid_def jget_def
      split: json.splits option.splits)

lemma resolve_anonymous:
  assumes "resolveSessionId now rq call sv = (Inr sid, sv')" and "sane (sv_sessions sv)"
    and "anonymous (sv_sessions sv) (rq_cookie rq)" and "anonymous (sv_sessions sv) (body_sid call)"
  shows "anonymous (sv_sessions sv') sid"
proof -
  from assms(1) obtain c sv1 where c: "live_or_empty now (rq_cookie rq) sv = (Inr c, sv1)"
    and rest: "(if c \<noteq> '''' then returnA c
       else case jget (ck_kwargs call) ''context'' of
           None \<Rightarrow> returnA ''''
         | Some ctx \<Rightarrow> bindA (liftA (value_str ctx ''session_id'' '''')) (live_or_empty now)) sv1 = (Inr sid, sv')"
    unfolding resolveSessionId_def by (rule bindA_E)
  have empty: "sane m \<Longrightarrow> anonymous m ''''" for m
    by (simp add: sane_def anonymous_def caller_of_def isAuthenticated_def new_session_def)
  note l1 = live_or_empty [OF c assms(2)]
  have a1: "anonymous (sv_sessions sv1) (rq_cookie rq)" "anonymous (sv_sessions sv1) (body_sid call)"
    using live_or_empty_anonymous [OF c] assms(3,4) by auto
  show ?thesis
  proof (cases "c \<noteq> '''' \<or> jget (ck_kwargs call) ''context'' = None")
    case True
    with rest l1 a1 empty show ?thesis by (auto simp: returnA_def split: if_splits)
  next
    case False
    then obtain ctx where x: "jget (ck_kwargs call) ''context'' = Some ctx" by auto
    with False rest obtain k where k: "value_str ctx ''session_id'' '''' = Inr k"
      "live_or_empty now k sv1 = (Inr sid, sv')"
      by (auto simp: act_simps split: prod.splits sum.splits)
    note l2 = live_or_empty [OF k(2) l1(2)]
    from value_str_session [OF x k(1)] live_or_empty_anonymous [OF k(2)] a1 l2 empty
    show ?thesis by auto
  qed
qed

lemma live_or_empty_only:
  "snd (live_or_empty now k sv) = sv\<lparr>sv_sessions := sv_sessions (snd (live_or_empty now k sv))\<rparr>"
  by (cases sv) (auto simp: live_or_empty_def is_live_def onSessions_def act_simps Let_def split: prod.splits)

lemma resolve_only:
  "snd (resolveSessionId now rq call sv) = sv\<lparr>sv_sessions := sv_sessions (snd (resolveSessionId now rq call sv))\<rparr>"
proof -
  obtain c sv1 where c: "live_or_empty now (rq_cookie rq) sv = (c, sv1)" by fastforce
  then have 1: "sv1 = sv\<lparr>sv_sessions := sv_sessions sv1\<rparr>"
    using live_or_empty_only [of now "rq_cookie rq" sv] by simp
  have 2: "snd (live_or_empty now k sv1) = sv\<lparr>sv_sessions := sv_sessions (snd (live_or_empty now k sv1))\<rparr>" for k
    using live_or_empty_only [of now k sv1] 1 by (metis server.update_convs(1) server.surjective)
  from c 1 2 show ?thesis
    by (cases c) (auto simp: resolveSessionId_def act_simps split: option.splits sum.splits)
qed

definition refused :: "(json \<times> string option) result \<Rightarrow> bool" where
  "refused r = (case r of Inl _ \<Rightarrow> True | Inr (resp, cookie) \<Rightarrow> jget resp ''result'' = None \<and> cookie = None)"

lemma refused_error [simp]: "refused (Inr (errorResponse i c m d n, None))"
  by (simp add: refused_def errorResponse_def jget_def)

lemma refused_exn [simp]: "refused (Inr (error_to_response ev i e, None))"
  by (cases e) (simp_all add: error_to_response_def)

text \<open>Without a session that is signed in, a request for any method but the five public ones is
  refused with an error response and sets no cookie, and everything outside the session store -- the
  data behind the models, the caches and the log-in limiter -- is as it was before, whatever the
  handlers of the models would do.\<close>

theorem anonymous_refused:
  assumes "map_of (sm_store (sv_sessions sv)) '''' = None" and "0 \<le> sm_ttl (sv_sessions sv)"
    and "bindE (rewrite_login body) (\<lambda>b. bindE (json_at b ''params'') parseCallKw) = Inr call"
    and "\<not> isPublicMethod (ck_method call)"
    and "anonymous (sv_sessions sv) (rq_cookie rq)" and "anonymous (sv_sessions sv) (body_sid call)"
  shows "refused (fst (handleCallKw ev now b1 b2 rq body sv))
    \<and> snd (handleCallKw ev now b1 b2 rq body sv)
      = sv\<lparr>sv_sessions := sv_sessions (snd (handleCallKw ev now b1 b2 rq body sv))\<rparr>"
proof -
  have sane: "sane (sv_sessions sv)" using assms by (simp add: sane_def)
  from assms(3) obtain b where b: "rewrite_login body = Inr b" "bindE (json_at b ''params'') parseCallKw = Inr call"
    by (auto simp: exn_simps)
  have "refused (fst (serve ev now b1 b2 rq i body sv))
      \<and> snd (serve ev now b1 b2 rq i body sv)
        = sv\<lparr>sv_sessions := sv_sessions (snd (serve ev now b1 b2 rq i body sv))\<rparr>" for i
  proof (cases "resolveSessionId now rq call sv")
    case (Pair r sv1)
    have only: "sv1 = sv\<lparr>sv_sessions := sv_sessions sv1\<rparr>"
      using resolve_only [of now rq call sv] Pair by simp
    show ?thesis
    proof (cases r)
      case (Inl e)
      with Pair b only show ?thesis by (simp add: serve_def act_simps refused_def)
    next
      case (Inr sid)
      note res = Pair [unfolded Inr]
      note facts = resolveSessionId [OF res sane]
      obtain s where l: "lookup_session now sid sv1 = (Inr s, sv1)" "ambient s = ambient (caller_of (sv_sessions sv1) sid)"
        using lookup_session [OF facts(2,1)] by auto
      have "\<not> isAuthenticated s"
        using resolve_anonymous [OF res sane assms(5,6)] ambient_decides(1) [OF l(2)] by (simp add: anonymous_def)
      moreover have "ck_method call \<noteq> ''authenticate''" using assms(4) by (auto simp: isPublicMethod_def)
      ultimately have "checked ev now b1 b2 rq i sid s t (bind_login_tenant t call) sv1
          = (Inr (errorResponse i 100 ''Session expired'' ''Please authenticate first.'' userError, None), sv1)" for t
        using assms(4) by (simp add: checked_def check_limit_def act_simps)
      then show ?thesis
        using b res l(1) only
        by (cases "log_check (bind_login_tenant (resolveTenant (ev_db ev) rq call s) call)")
          (simp_all add: serve_def act_simps Let_def refused_def errorResponse_def jget_def)
    qed
  qed
  note sv = this
  show ?thesis
  proof (cases "value_json body ''id'' JNull")
    case (Inl e)
    then show ?thesis by (simp add: handleCallKw_def refused_def)
  next
    case (Inr i)
    obtain r sv' where e: "serve ev now b1 b2 rq i body sv = (r, sv')" by fastforce
    have "refused r" "sv' = sv\<lparr>sv_sessions := sv_sessions sv'\<rparr>" using sv [of i] by (simp_all add: e)
    with Inr e show ?thesis by (cases r) (simp_all add: handleCallKw_def)
  qed
qed

theorem anonymous_refused_witness:
  "refused (fst (handleCallKw sample_env 9 None None sample_request sample_body sample_server))"
proof -
  have "map_of (sm_store (sv_sessions sample_server)) '''' = None" "0 \<le> sm_ttl (sv_sessions sample_server)"
    by (simp_all add: sample_server_def full_manager_def)
  note s = this
  define call where "call = \<lparr>ck_model = ''res.partner'', ck_method = ''search'', ck_args = JArray [],
     ck_kwargs = JObject [(''context'', JObject [(''uid'', JInt 1), (''is_admin'', JBool True),
         (''session_id'', JString ''a'')])]\<rparr>"
  have "bindE (rewrite_login sample_body) (\<lambda>b. bindE (json_at b ''params'') parseCallKw) = Inr call"
    "\<not> isPublicMethod (ck_method call)"
    "anonymous (sv_sessions sample_server) (rq_cookie sample_request)"
    "anonymous (sv_sessions sample_server) (body_sid call)"
    unfolding call_def by code_simp+
  from anonymous_refused [OF s this] show ?thesis by blast
qed

end
