(* ===== verification/Csv.thy ===== *)
theory Csv
  imports Prelude
begin

section \<open>CSV import and export (core/infrastructure/CsvParser.hpp)\<close>

text \<open>
  The parser's loop over the characters with its one-character look-ahead, and the writer. The state
  of the loop is the quote flag, the field and the row under construction, and the rows finished.
\<close>

definition QUOTE :: char where "QUOTE = CHR 0x22"
definition CR :: char where "CR = CHR 0x0D"
definition LF :: char where "LF = CHR 0x0A"

lemma csv_chars [simp]:
  "QUOTE \<noteq> CR" "QUOTE \<noteq> LF" "CR \<noteq> LF" "CR \<noteq> QUOTE" "LF \<noteq> QUOTE" "LF \<noteq> CR"
  "CHR '','' \<noteq> QUOTE" "CHR '','' \<noteq> CR" "CHR '','' \<noteq> LF"
  "QUOTE \<noteq> CHR '',''" "CR \<noteq> CHR '',''" "LF \<noteq> CHR '',''"
  by (simp_all add: QUOTE_def CR_def LF_def)

definition starts_char :: "char \<Rightarrow> string \<Rightarrow> bool" where
  "starts_char c s = (case s of [] \<Rightarrow> False | d # _ \<Rightarrow> d = c)"

lemma starts_char_simps [simp]: "starts_char c [] = False" "starts_char c (d # s) = (d = c)"
  by (simp_all add: starts_char_def)

function csv_loop ::
  "string \<Rightarrow> bool \<Rightarrow> string \<Rightarrow> string list \<Rightarrow> string list list \<Rightarrow> string \<times> string list \<times> string list list" where
  "csv_loop [] q field row rows = (field, row, rows)"
| "csv_loop (c # cs) q field row rows =
     (if q then
        if c = QUOTE then
          if starts_char QUOTE cs then csv_loop (tl cs) True (field @ [QUOTE]) row rows
          else csv_loop cs False field row rows
        else if c = CR \<and> starts_char LF cs then csv_loop (tl cs) True (field @ [LF]) row rows
        else csv_loop cs True (field @ [c]) row rows
      else
        if c = QUOTE then csv_loop cs True field row rows
        else if c = CHR '','' then csv_loop cs False '''' (row @ [field]) rows
        else if c = LF \<or> (c = CR \<and> starts_char LF cs)
        then csv_loop (if c = CR then tl cs else cs) False '''' [] (rows @ [row @ [field]])
        else if c = CR then csv_loop cs False '''' [] (rows @ [row @ [field]])
        else csv_loop cs False (field @ [c]) row rows)"
  by pat_completeness auto

termination
  by (relation "measure (\<lambda>(s, q, field, row, rows). length s)") auto

definition parseCsv :: "string \<Rightarrow> string list list" where
  "parseCsv text =
     (if text = '''' then []
      else let (field, row, rows) = csv_loop text False '''' [] []
           in if field \<noteq> '''' \<or> row \<noteq> [] then rows @ [row @ [field]] else rows)"

definition needs_quote :: "string \<Rightarrow> bool" where
  "needs_quote field \<longleftrightarrow> list_ex (\<lambda>c. c = CHR '','' \<or> c = QUOTE \<or> c = CR \<or> c = LF) field"

fun escape_quotes :: "string \<Rightarrow> string" where
  "escape_quotes [] = []"
| "escape_quotes (c # cs) = (if c = QUOTE then [QUOTE, c] else [c]) @ escape_quotes cs"

definition csv_field :: "string \<Rightarrow> string" where
  "csv_field field = (if needs_quote field then QUOTE # escape_quotes field @ [QUOTE] else field)"

fun csv_row :: "bool \<Rightarrow> string list \<Rightarrow> string" where
  "csv_row first [] = [CR, LF]"
| "csv_row first (f # fs) = (if first then [] else '','') @ csv_field f @ csv_row False fs"

definition buildCsv :: "string list list \<Rightarrow> string" where
  "buildCsv rows = concat (map (csv_row True) rows)"

subsection \<open>Round trip\<close>

text \<open>What a field and a row come back as: CR LF inside a field is read as LF, and a row without
  fields is written as an empty line, which reads as one empty field.\<close>

fun lf_only :: "string \<Rightarrow> string" where
  "lf_only [] = []"
| "lf_only (c # cs) = (if c = CR \<and> starts_char LF cs then lf_only cs else c # lf_only cs)"

definition row_back :: "string list \<Rightarrow> string list" where
  "row_back fs = (if fs = [] then [''''] else map lf_only fs)"

lemma starts_escape: "starts_char LF (escape_quotes cs @ QUOTE # rest) = starts_char LF cs"
  by (cases cs) auto

lemma tl_escape: "starts_char LF cs \<Longrightarrow> tl (escape_quotes cs @ rest) = escape_quotes (tl cs) @ rest"
  by (cases cs) auto

lemma lf_only_cr: "starts_char LF cs \<Longrightarrow> lf_only (CR # cs) = LF # lf_only (tl cs)"
  by (cases cs) auto

lemma loop_quoted:
  assumes "\<not> starts_char QUOTE rest"
  shows "csv_loop (escape_quotes f @ QUOTE # rest) True field row rows
       = csv_loop rest False (field @ lf_only f) row rows"
proof (induction "length f" arbitrary: f field rule: less_induct)
  case less
  show ?case
  proof (cases f)
    case Nil
    with assms show ?thesis by simp
  next
    case (Cons c cs)
    show ?thesis
    proof (cases "c = CR \<and> starts_char LF cs")
      case True
      then have l: "length (tl cs) < length f" by (simp add: Cons)
      from True less [OF l, of "field @ [LF]"] show ?thesis
        by (simp add: Cons starts_escape tl_escape lf_only_cr del: lf_only.simps)
    next
      case False
      have "length cs < length f" by (simp add: Cons)
      from less [OF this, of "field @ [c]"] False show ?thesis
        by (auto simp: Cons starts_escape)
    qed
  qed
qed

lemma loop_plain:
  "\<not> needs_quote f \<Longrightarrow> csv_loop (f @ rest) False field row rows = csv_loop rest False (field @ f) row rows"
  by (induction f arbitrary: field) (auto simp: needs_quote_def)

lemma lf_only_plain: "\<not> needs_quote f \<Longrightarrow> lf_only f = f"
  by (induction f) (auto simp: needs_quote_def)

lemma loop_field:
  assumes "\<not> starts_char QUOTE rest"
  shows "csv_loop (csv_field f @ rest) False '''' row rows = csv_loop rest False (lf_only f) row rows"
  using loop_quoted [OF assms, of f "''''"] loop_plain [of f rest "''''"] lf_only_plain [of f]
  by (simp add: csv_field_def)

lemma row_starts: "\<not> starts_char QUOTE (csv_row False fs @ rest)"
  by (cases fs) simp_all

lemma loop_row_rest:
  "csv_loop (csv_row False fs @ rest) False field row rows
   = csv_loop rest False '''' [] (rows @ [row @ field # map lf_only fs])"
proof (induction fs arbitrary: field row)
  case (Cons f fs)
  then show ?case by (simp add: loop_field [OF row_starts])
qed simp

lemma loop_row:
  "csv_loop (csv_row True fs @ rest) False '''' [] rows = csv_loop rest False '''' [] (rows @ [row_back fs])"
  by (cases fs) (simp_all add: row_back_def loop_field [OF row_starts] loop_row_rest)

lemma loop_rows: "csv_loop (buildCsv rs) False '''' [] rows = ('''', [], rows @ map row_back rs)"
  by (induction rs arbitrary: rows) (simp_all add: buildCsv_def loop_row)

lemma buildCsv_empty: "buildCsv rs = '''' \<longleftrightarrow> rs = []"
proof -
  have "csv_row b r \<noteq> []" for b r by (induction b r rule: csv_row.induct) auto
  then show ?thesis by (cases rs) (simp_all add: buildCsv_def)
qed

text \<open>C34: what is exported is read back. Parsing the text written for any table gives the table,
  whatever commas, quotes and line ends its fields hold, with CR LF inside a field read as LF and a
  row without fields read as one empty field.\<close>

theorem csv_roundtrip: "parseCsv (buildCsv rows) = map row_back rows"
  by (simp add: parseCsv_def buildCsv_empty loop_rows)

text \<open>A table of non-empty rows whose fields hold no CR LF comes back as it was.\<close>

lemma csv_roundtrip_exact:
  assumes "list_all (\<lambda>r. r \<noteq> [] \<and> list_all (\<lambda>f. lf_only f = f) r) rows"
  shows "map row_back rows = rows"
  using assms by (induction rows) (auto simp: row_back_def list_all_iff intro: map_idI)

end
