(* ===== verification/Sequence.thy ===== *)
theory Sequence
  imports Prelude
begin

section \<open>Document numbering (core/IrSequence.cpp)\<close>

text \<open>
  The table \<open>ir_sequence\<close> and the allocation of a number from it. Its columns are \<open>NOT NULL\<close> except
  the company. \<open>SELECT ... FOR UPDATE\<close> holds the row until the caller's transaction ends, so one
  allocation is one step, and the transaction either keeps its effect or restores the table. The two
  readings of the clock (for the period and for the text) are two arguments, broken down in UTC.
\<close>

record tm =
  tm_year :: nat
  tm_mon :: nat
  tm_mday :: nat

record seq_row =
  sq_id :: int
  sq_code :: string
  sq_company :: "int option"
  sq_active :: bool
  sq_prefix :: string
  sq_suffix :: string
  sq_padding :: int
  sq_number_next :: int
  sq_increment :: int
  sq_reset_policy :: string
  sq_last_period :: string

definition two_digits :: "nat \<Rightarrow> string" where
  "two_digits n = [digit_char (n div 10 mod 10), digit_char (n mod 10)]"

definition periodKey :: "string \<Rightarrow> tm \<Rightarrow> string" where
  "periodKey policy t =
     (if policy \<noteq> ''yearly'' \<and> policy \<noteq> ''monthly'' then ''''
      else if policy = ''yearly'' then nat_to_string (tm_year t)
      else nat_to_string (tm_year t) @ ''-'' @ two_digits (tm_mon t))"

subsection \<open>The text of a number\<close>

datatype stamp = YEAR | YEAR2 | MONTH | DAY

fun stamp_token :: "stamp \<Rightarrow> string" where
  "stamp_token YEAR = ''%(year)s''"
| "stamp_token YEAR2 = ''%(y)s''"
| "stamp_token MONTH = ''%(month)s''"
| "stamp_token DAY = ''%(day)s''"

fun stamp_value :: "stamp \<Rightarrow> tm \<Rightarrow> string" where
  "stamp_value YEAR t = nat_to_string (tm_year t)"
| "stamp_value YEAR2 t = two_digits (tm_year t mod 100)"
| "stamp_value MONTH t = two_digits (tm_mon t)"
| "stamp_value DAY t = two_digits (tm_mday t)"

text \<open>The loop that replaces a token ends because each replacement takes one percent sign away.\<close>

definition percents :: "string \<Rightarrow> nat" where
  "percents s = length (filter (\<lambda>c. c = CHR ''%'') s)"

lemma percents_append: "percents (s @ t) = percents s + percents t"
  by (simp add: percents_def)

lemma isdigit_not_percent: "isdigit c \<Longrightarrow> c \<noteq> CHR ''%''"
  by (auto simp: isdigit_def)

lemma two_digits_digits: "\<forall>c \<in> set (two_digits n). isdigit c"
  by (simp add: two_digits_def digit_char_props)

lemma percents_digits: "\<forall>c \<in> set s. isdigit c \<Longrightarrow> percents s = 0"
  by (auto simp: percents_def filter_empty_conv dest: isdigit_not_percent)

lemma percents_value: "percents (stamp_value k t) = 0"
  by (cases k) (simp_all add: percents_digits nat_to_string_digits two_digits_digits)

lemma percents_token: "percents (stamp_token k) = 1"
  by (cases k) (simp_all add: percents_def)

lemma replace_decreases:
  assumes "str_find s (stamp_token k) 0 = Some p"
  shows "percents (take p s @ stamp_value k t @ drop (p + length (stamp_token k)) s) < percents s"
proof -
  from str_find_Some(3) [OF assms] obtain r where r: "drop p s = stamp_token k @ r"
    by (auto simp: starts_with_iff)
  then have "drop (p + length (stamp_token k)) s = r"
    by (metis append_eq_conv_conj drop_drop add.commute)
  moreover have "s = take p s @ stamp_token k @ r" using r by (metis append_take_drop_id)
  then have "percents s = percents (take p s) + (1 + percents r)"
    by (metis percents_append percents_token)
  ultimately show ?thesis by (simp add: percents_append percents_value)
qed

function replace_stamp :: "stamp \<Rightarrow> tm \<Rightarrow> string \<Rightarrow> string" where
  "replace_stamp k t s = (case str_find s (stamp_token k) 0 of
       None \<Rightarrow> s
     | Some p \<Rightarrow> replace_stamp k t (take p s @ stamp_value k t @ drop (p + length (stamp_token k)) s))"
  by pat_completeness auto

termination
  by (relation "measure (\<lambda>(k, t, s). percents s)") (simp_all only: in_measure wf_measure split_conv replace_decreases)

declare replace_stamp.simps [simp del]

definition expand :: "tm \<Rightarrow> string \<Rightarrow> string" where
  "expand t s = foldl (\<lambda>s k. replace_stamp k t s) s [YEAR, YEAR2, MONTH, DAY]"

definition pad_number :: "int \<Rightarrow> int \<Rightarrow> string" where
  "pad_number padding n =
     (let s = int_to_string n in replicate (nat padding - length s) (CHR ''0'') @ s)"

definition format_number :: "tm \<Rightarrow> string \<Rightarrow> string \<Rightarrow> int \<Rightarrow> int \<Rightarrow> string" where
  "format_number t prefix suffix n padding = expand t prefix @ pad_number padding n @ expand t suffix"

subsection \<open>Allocation\<close>

definition company_key :: "int \<Rightarrow> int option" where
  "company_key c = (if c > 0 then Some c else None)"

definition find_seq :: "string \<Rightarrow> int \<Rightarrow> seq_row list \<Rightarrow> seq_row option" where
  "find_seq code company tbl =
     (case find (\<lambda>r. sq_code r = code \<and> sq_company r = company_key company \<and> sq_active r) tbl of
        Some r \<Rightarrow> Some r
      | None \<Rightarrow> find (\<lambda>r. sq_code r = code \<and> sq_company r = None \<and> sq_active r) tbl)"

definition rolled :: "string \<Rightarrow> seq_row \<Rightarrow> bool" where
  "rolled period r \<longleftrightarrow> period \<noteq> '''' \<and> period \<noteq> sq_last_period r"

definition number_of :: "string \<Rightarrow> seq_row \<Rightarrow> int" where
  "number_of period r = (if rolled period r then 1 else sq_number_next r)"

definition consume_row :: "int \<Rightarrow> int \<Rightarrow> string \<Rightarrow> seq_row list \<Rightarrow> seq_row list" where
  "consume_row i n period tbl = map (\<lambda>r. if sq_id r = i
     then r\<lparr>sq_number_next := n, sq_last_period := period\<rparr> else r) tbl"

definition next_number ::
  "tm \<Rightarrow> tm \<Rightarrow> bool \<Rightarrow> string \<Rightarrow> int \<Rightarrow> seq_row list \<Rightarrow> (string \<times> seq_row list) result" where
  "next_number t1 t2 consume code company tbl = (case find_seq code company tbl of
       None \<Rightarrow> Inl (ValidationError (''No active sequence configured for '' @ quoted code @ ''.''))
     | Some r \<Rightarrow>
         let period = periodKey (sq_reset_policy r) t1;
             n = number_of period r;
             value = format_number t2 (sq_prefix r) (sq_suffix r) n (sq_padding r)
         in Inr (value, if consume
              then consume_row (sq_id r) (wrap64 (n + sq_increment r)) period tbl else tbl))"

definition nextByCode :: "tm \<Rightarrow> tm \<Rightarrow> string \<Rightarrow> int \<Rightarrow> seq_row list \<Rightarrow> (string \<times> seq_row list) result" where
  "nextByCode t1 t2 code company tbl = next_number t1 t2 True code company tbl"

definition peek :: "tm \<Rightarrow> tm \<Rightarrow> string \<Rightarrow> int \<Rightarrow> seq_row list \<Rightarrow> string option" where
  "peek t1 t2 code company tbl = (case next_number t1 t2 False code company tbl of
       Inl _ \<Rightarrow> None | Inr (v, _) \<Rightarrow> Some v)"

definition has_sequence :: "string \<Rightarrow> int \<Rightarrow> seq_row list \<Rightarrow> bool" where
  "has_sequence code company tbl \<longleftrightarrow> list_ex (\<lambda>r. sq_code r = code \<and> sq_active r
     \<and> (sq_company r = None \<or> sq_company r = Some company)) tbl"

text \<open>Callers that allocate inside their own transaction, in the order the row lock gives: one that
  rolls back leaves the table as it found it. The result lists the numbers of those that commit.\<close>

fun transactions ::
  "string \<Rightarrow> int \<Rightarrow> (tm \<times> tm \<times> bool) list \<Rightarrow> seq_row list \<Rightarrow> string list \<times> seq_row list" where
  "transactions code company [] tbl = ([], tbl)"
| "transactions code company ((t1, t2, commits) # txs) tbl =
     (case nextByCode t1 t2 code company tbl of
        Inl _ \<Rightarrow> transactions code company txs tbl
      | Inr (v, tbl') \<Rightarrow>
          if commits
          then (let (vs, tbl'') = transactions code company txs tbl' in (v # vs, tbl''))
          else transactions code company txs tbl)"

subsection \<open>Numbers are consecutive\<close>

lemma find_map_stable: "(\<And>x. P (f x) = P x) \<Longrightarrow> find P (map f xs) = map_option f (find P xs)"
  by (induction xs) auto

lemma find_seq_consume:
  "find_seq code company (consume_row i n p tbl)
   = map_option (\<lambda>r. if sq_id r = i then r\<lparr>sq_number_next := n, sq_last_period := p\<rparr> else r)
       (find_seq code company tbl)"
  unfolding find_seq_def consume_row_def
  by (subst (1 2) find_map_stable) (auto split: option.splits)

lemma enumerate_Suc: "enumerate (Suc n) xs = map (\<lambda>(i, x). (Suc i, x)) (enumerate n xs)"
  by (induction xs arbitrary: n) simp_all

lemma number_of_consumed: "number_of p (r\<lparr>sq_number_next := n, sq_last_period := p\<rparr>) = n"
  by (simp add: number_of_def rolled_def)

lemma allocate:
  assumes "find_seq code company tbl = Some r" and "periodKey (sq_reset_policy r) t1 = p"
  shows "nextByCode t1 t2 code company tbl =
    Inr (format_number t2 (sq_prefix r) (sq_suffix r) (number_of p r) (sq_padding r),
         consume_row (sq_id r) (wrap64 (number_of p r + sq_increment r)) p tbl)"
  using assms by (simp add: nextByCode_def next_number_def Let_def)

lemma committed_numbers:
  assumes "find_seq code company tbl = Some r"
    and "list_all (\<lambda>(t1, t2, c). periodKey (sq_reset_policy r) t1 = p) txs"
    and "0 \<le> number_of p r" and "0 \<le> sq_increment r"
    and "number_of p r + int (length txs) * sq_increment r \<le> INT64_MAX"
  shows "fst (transactions code company txs tbl)
       = map (\<lambda>(i, t1, t2, c). format_number t2 (sq_prefix r) (sq_suffix r)
               (number_of p r + int i * sq_increment r) (sq_padding r))
           (enumerate 0 (filter (\<lambda>(t1, t2, c). c) txs))"
  using assms
proof (induction txs arbitrary: tbl r)
  case (Cons tx txs)
  obtain t1 t2 c where tx: "tx = (t1, t2, c)" by (cases tx)
  define n where "n = number_of p r"
  define k where "k = sq_increment r"
  have "0 \<le> int (length txs) * k" using Cons.prems(4) by (simp add: k_def)
  moreover have "n + (k + int (length txs) * k) \<le> INT64_MAX"
    using Cons.prems(5) by (simp add: n_def [symmetric] k_def [symmetric] algebra_simps)
  moreover have "0 \<le> n" "0 \<le> k" using Cons.prems(3,4) by (simp_all add: n_def k_def)
  ultimately have le: "n + k \<le> INT64_MAX" "n + int (length txs) * k \<le> INT64_MAX"
    "n + k + int (length txs) * k \<le> INT64_MAX" "0 \<le> n + k"
    by linarith+
  have w: "wrap64 (n + k) = n + k"
    using le by (intro wrap64_id) (simp add: in_int64_def INT64_MIN_def)
  have p: "periodKey (sq_reset_policy r) t1 = p" using Cons.prems(2) by (simp add: tx)
  note a = allocate [OF Cons.prems(1) p, of t2, folded n_def k_def, unfolded w]
  show ?case
  proof (cases c)
    case False
    have "fst (transactions code company txs tbl)
       = map (\<lambda>(i, t1, t2, c). format_number t2 (sq_prefix r) (sq_suffix r)
               (number_of p r + int i * sq_increment r) (sq_padding r))
           (enumerate 0 (filter (\<lambda>(t1, t2, c). c) txs))"
      using Cons.prems le by (intro Cons.IH) (simp_all add: n_def k_def)
    with False a show ?thesis by (simp add: tx)
  next
    case True
    define r' where "r' = r\<lparr>sq_number_next := n + k, sq_last_period := p\<rparr>"
    have f: "find_seq code company (consume_row (sq_id r) (n + k) p tbl) = Some r'"
      by (simp add: find_seq_consume Cons.prems(1) r'_def)
    have n': "number_of p r' = n + k" by (simp add: r'_def number_of_consumed)
    have "fst (transactions code company txs (consume_row (sq_id r) (n + k) p tbl))
       = map (\<lambda>(i, t1, t2, c). format_number t2 (sq_prefix r') (sq_suffix r')
               (number_of p r' + int i * sq_increment r') (sq_padding r'))
           (enumerate 0 (filter (\<lambda>(t1, t2, c). c) txs))"
      using Cons.prems le by (intro Cons.IH [OF f]) (simp_all add: n', simp_all add: r'_def k_def)
    then show ?thesis
      using True a n'
      by (simp add: tx enumerate_Suc r'_def n_def [symmetric] k_def [symmetric] case_prod_unfold o_def algebra_simps
          split: prod.splits)
  qed
qed simp

text \<open>C20: a series allocated inside its callers' transactions has no gaps and no duplicates. Within
  one reset period the committed documents carry, in order, the numbers from the current one on in
  steps of the increment -- from 1 when the period is new -- however many callers in between roll
  back; the series that the company or the shared row selects is used throughout.\<close>

theorem sequence_gapless:
  assumes "find_seq code company tbl = Some r"
    and "list_all (\<lambda>(t1, t2, c). periodKey (sq_reset_policy r) t1 = p) txs"
    and "0 < sq_number_next r" and "0 < sq_increment r"
    and "number_of p r + int (length txs) * sq_increment r \<le> INT64_MAX"
  shows "fst (transactions code company txs tbl)
       = map (\<lambda>(i, t1, t2, c). format_number t2 (sq_prefix r) (sq_suffix r)
               ((if p \<noteq> '''' \<and> p \<noteq> sq_last_period r then 1 else sq_number_next r) + int i * sq_increment r)
               (sq_padding r))
           (enumerate 0 (filter (\<lambda>(t1, t2, c). c) txs))"
proof -
  have "0 \<le> number_of p r" using assms(3) by (simp add: number_of_def)
  from committed_numbers [OF assms(1,2) this _ assms(5)] assms(4) show ?thesis
    by (simp add: number_of_def rolled_def)
qed

definition sample_seq :: "seq_row list" where
  "sample_seq = [\<lparr>sq_id = 1, sq_code = ''account.move.INV'', sq_company = None, sq_active = True,
     sq_prefix = ''INV/%(year)s/'', sq_suffix = '''', sq_padding = 4, sq_number_next = 12,
     sq_increment = 1, sq_reset_policy = ''yearly'', sq_last_period = ''2025''\<rparr>]"

theorem sequence_gapless_witness:
  "fst (transactions ''account.move.INV'' 7
     (map (\<lambda>c. (\<lparr>tm_year = 2026, tm_mon = 1, tm_mday = 3\<rparr>, \<lparr>tm_year = 2026, tm_mon = 1, tm_mday = 3\<rparr>, c))
        [True, False, True]) sample_seq) = [''INV/2026/0001'', ''INV/2026/0002'']"
proof -
  define t where "t = \<lparr>tm_year = 2026, tm_mon = 1, tm_mday = 3\<rparr>"
  define r where "r = hd sample_seq"
  have "find_seq ''account.move.INV'' 7 sample_seq = Some r"
    "list_all (\<lambda>(t1, t2, c). periodKey (sq_reset_policy r) t1 = ''2026'')
       [(t, t, True), (t, t, False), (t, t, True)]"
    "0 < sq_number_next r" "0 < sq_increment r"
    "number_of ''2026'' r + int (length [(t, t, True), (t, t, False), (t, t, True)]) * sq_increment r \<le> INT64_MAX"
    unfolding r_def t_def by code_simp+
  from sequence_gapless [OF this] have
    "fst (transactions ''account.move.INV'' 7 [(t, t, True), (t, t, False), (t, t, True)] sample_seq)
     = [format_number t (sq_prefix r) (sq_suffix r) 1 (sq_padding r),
        format_number t (sq_prefix r) (sq_suffix r) 2 (sq_padding r)]"
    by (simp add: r_def sample_seq_def)
  moreover have "format_number t (sq_prefix r) (sq_suffix r) 1 (sq_padding r) = ''INV/2026/0001''"
    "format_number t (sq_prefix r) (sq_suffix r) 2 (sq_padding r) = ''INV/2026/0002''"
    unfolding r_def t_def by code_simp+
  ultimately show ?thesis by (simp add: t_def)
qed

subsection \<open>Texts of different numbers differ; a preview takes nothing\<close>

lemma digits_val_pad: "0 \<le> n \<Longrightarrow> digits_val 0 (pad_number p n) = n"
  by (simp add: pad_number_def int_to_string_def Let_def digits_val_zeros digits_val_nat_to_string)

lemma format_number_inj:
  assumes "format_number t pre suf n pad = format_number t pre suf m pad" and "0 \<le> n" and "0 \<le> m"
  shows "n = m"
proof -
  have "pad_number pad n = pad_number pad m" using assms(1) by (simp add: format_number_def)
  then have "digits_val 0 (pad_number pad n) = digits_val 0 (pad_number pad m)" by simp
  with assms(2,3) show ?thesis by (simp add: digits_val_pad)
qed

lemma peek_is_next:
  "peek t1 t2 code company tbl = (case nextByCode t1 t2 code company tbl of Inl _ \<Rightarrow> None | Inr (v, _) \<Rightarrow> Some v)"
  by (simp add: peek_def nextByCode_def next_number_def Let_def split: option.splits)

text \<open>A yearly or monthly series whose row carries no period yet starts at 1, whatever its
  \<open>number_next\<close> says.\<close>

lemma first_period_starts_at_one:
  assumes "sq_reset_policy r = ''yearly''" and "sq_last_period r = ''''"
  shows "number_of (periodKey (sq_reset_policy r) t) r = 1"
  using assms by (simp add: number_of_def rolled_def periodKey_def)

end
