(* ===== verification/Cron.thy ===== *)
theory Cron
  imports Prelude
begin

section \<open>Scheduled jobs (core/IrCron.cpp)\<close>

text \<open>
  The scheduler's state is the registered job codes, the set of guard keys of the jobs under way, the
  codes already warned about, and the table \<open>ir_cron\<close> of each tenant database. Times are in
  microseconds. What a job does is a parameter: its effect on the rest of the system and whether it
  throws. Whether an access to the database fails is an argument of each operation.
\<close>

record cron_row =
  cr_id :: int
  cr_code :: string
  cr_active :: bool
  cr_interval :: int
  cr_next_run :: int
  cr_failures :: int
  cr_last_run :: "int option"
  cr_last_error :: "string option"

record cron =
  cn_jobs :: "string list"
  cn_running :: "string list"
  cn_warned :: "string list"
  cn_rows :: "string \<Rightarrow> cron_row list"

definition minute :: int where "minute = 60000000"

definition registerJob :: "string \<Rightarrow> cron \<Rightarrow> cron" where
  "registerJob code cn = cn\<lparr>cn_jobs := List.insert code (cn_jobs cn)\<rparr>"

definition due_rows :: "int \<Rightarrow> cron_row list \<Rightarrow> cron_row list" where
  "due_rows now rows =
     take 20 (sort_key cr_next_run (filter (\<lambda>r. cr_active r \<and> cr_next_run r \<le> now) rows))"

definition guard_key :: "string \<Rightarrow> string \<Rightarrow> string" where
  "guard_key tenant code = tenant @ ''|'' @ code"

datatype guard = Skipped | NoHandler | Started

definition begin_job :: "string \<Rightarrow> string \<Rightarrow> cron \<Rightarrow> guard \<times> cron" where
  "begin_job tenant code cn =
     (if guard_key tenant code \<in> set (cn_running cn) then (Skipped, cn)
      else if code \<notin> set (cn_jobs cn)
      then (NoHandler, cn\<lparr>cn_warned := List.insert code (cn_warned cn)\<rparr>)
      else (Started, cn\<lparr>cn_running := guard_key tenant code # cn_running cn\<rparr>))"

definition set_row :: "string \<Rightarrow> int \<Rightarrow> (cron_row \<Rightarrow> cron_row) \<Rightarrow> cron \<Rightarrow> cron" where
  "set_row tenant i f cn = cn\<lparr>cn_rows := (cn_rows cn)
     (tenant := map (\<lambda>r. if cr_id r = i then f r else r) (cn_rows cn tenant))\<rparr>"

definition markSuccess :: "bool \<Rightarrow> int \<Rightarrow> string \<Rightarrow> int \<Rightarrow> int \<Rightarrow> cron \<Rightarrow> cron" where
  "markSuccess db_ok now tenant i interval cn =
     (if \<not> db_ok then cn
      else set_row tenant i (\<lambda>r. r\<lparr>cr_last_run := Some now, cr_next_run := now + interval * minute,
        cr_failures := 0, cr_last_error := None\<rparr>) cn)"

definition backoff :: "int \<Rightarrow> int" where
  "backoff failures = min (60 * 8) (2 ^ nat (min failures 9))"

definition markFailure :: "bool \<Rightarrow> int \<Rightarrow> string \<Rightarrow> int \<Rightarrow> string \<Rightarrow> int \<Rightarrow> cron \<Rightarrow> cron" where
  "markFailure db_ok now tenant i err failures cn =
     (if \<not> db_ok then cn
      else set_row tenant i (\<lambda>r. r\<lparr>cr_last_run := Some now,
        cr_next_run := now + backoff failures * minute,
        cr_failures := failures, cr_last_error := Some (take 500 err)\<rparr>) cn)"

text \<open>The interval and the failure count a job starts with; the defaults when they cannot be read.\<close>

definition read_row :: "bool \<Rightarrow> string \<Rightarrow> int \<Rightarrow> cron \<Rightarrow> int \<times> int" where
  "read_row db_ok tenant i cn =
     (case (if db_ok then find (\<lambda>r. cr_id r = i) (cn_rows cn tenant) else None) of
        None \<Rightarrow> (60, 0) | Some r \<Rightarrow> (cr_interval r, cr_failures r))"

definition release :: "string \<Rightarrow> string \<Rightarrow> cron \<Rightarrow> cron" where
  "release tenant code cn = cn\<lparr>cn_running := removeAll (guard_key tenant code) (cn_running cn)\<rparr>"

text \<open>What a finished job leaves: \<open>None\<close> for a normal return, \<open>Some\<close> of the error's text otherwise.\<close>

definition end_job ::
  "bool \<Rightarrow> int \<Rightarrow> string \<Rightarrow> int \<Rightarrow> string \<Rightarrow> int \<times> int \<Rightarrow> string option \<Rightarrow> cron \<Rightarrow> cron" where
  "end_job db_ok now tenant i code ivf outcome cn =
     release tenant code
       (case outcome of
          None \<Rightarrow> markSuccess db_ok now tenant i (fst ivf) cn
        | Some err \<Rightarrow> markFailure db_ok now tenant i err (snd ivf + 1) cn)"

text \<open>One execution from guard to release: whether the two accesses to the database succeed, when it
  ends, and the job.\<close>

record 'w execution =
  ex_read_ok :: bool
  ex_mark_ok :: bool
  ex_end :: int
  ex_fn :: "string \<Rightarrow> 'w \<Rightarrow> string option \<times> 'w"

definition executeJob ::
  "'w execution \<Rightarrow> string \<Rightarrow> int \<Rightarrow> string \<Rightarrow> cron \<times> 'w \<Rightarrow> cron \<times> 'w" where
  "executeJob ex tenant i code st =
     (let (cn, w) = st in
      case begin_job tenant code cn of
        (Started, cn1) \<Rightarrow>
          let ivf = read_row (ex_read_ok ex) tenant i cn1;
              (outcome, w') = ex_fn ex code w
          in (end_job (ex_mark_ok ex) (ex_end ex) tenant i code ivf outcome cn1, w')
      | (_, cn1) \<Rightarrow> (cn1, w))"

definition tickTenant ::
  "bool \<Rightarrow> int \<Rightarrow> (nat \<Rightarrow> 'w execution) \<Rightarrow> string \<Rightarrow> cron \<times> 'w \<Rightarrow> cron \<times> 'w" where
  "tickTenant db_ok now ex tenant st =
     (if \<not> db_ok then st
      else foldl (\<lambda>st (k, r). executeJob (ex k) tenant (cr_id r) (cr_code r) st) st
             (enumerate 0 (due_rows now (cn_rows (fst st) tenant))))"

definition tick ::
  "int \<Rightarrow> (string \<Rightarrow> bool) \<Rightarrow> (string \<Rightarrow> nat \<Rightarrow> 'w execution) \<Rightarrow> string list \<Rightarrow> cron \<times> 'w \<Rightarrow> cron \<times> 'w" where
  "tick now db_ok ex tenants st =
     foldl (\<lambda>st t. tickTenant (db_ok t) now (ex t) t st) st (if tenants = [] then [''''] else tenants)"

definition runNow :: "bool \<Rightarrow> 'w execution \<Rightarrow> string \<Rightarrow> string \<Rightarrow> cron \<times> 'w \<Rightarrow> bool \<times> (cron \<times> 'w)" where
  "runNow db_ok ex tenant code st =
     (let cn = fst st in
      if guard_key tenant code \<in> set (cn_running cn) then (False, st)
      else if code \<notin> set (cn_jobs cn) then (False, st)
      else if \<not> db_ok then (False, st)
      else case find (\<lambda>r. cr_code r = code) (cn_rows cn tenant) of
          None \<Rightarrow> (False, st)
        | Some r \<Rightarrow> (True, executeJob ex tenant (cr_id r) code st))"

subsection \<open>No job overlaps itself\<close>

text \<open>
  Executions on all threads, interleaved at the two locked sections: the guard of \<open>executeJob\<close> and
  its end. The second component lists the executions under way.
\<close>

type_synonym run = "string \<times> int \<times> string"

definition run_key :: "run \<Rightarrow> string" where
  "run_key r = (case r of (tenant, _, code) \<Rightarrow> guard_key tenant code)"

inductive cron_step :: "cron \<times> run list \<Rightarrow> cron \<times> run list \<Rightarrow> bool" where
  register: "cron_step (cn, rs) (registerJob code cn, rs)"
| start: "begin_job tenant code cn = (Started, cn') \<Longrightarrow> cron_step (cn, rs) (cn', (tenant, i, code) # rs)"
| refuse: "begin_job tenant code cn = (g, cn') \<Longrightarrow> g \<noteq> Started \<Longrightarrow> cron_step (cn, rs) (cn', rs)"
| finish: "(tenant, i, code) \<in> set rs \<Longrightarrow>
    cron_step (cn, rs) (end_job ok now tenant i code ivf outcome cn, remove1 (tenant, i, code) rs)"

definition guarded :: "cron \<times> run list \<Rightarrow> bool" where
  "guarded st \<longleftrightarrow> distinct (map run_key (snd st)) \<and> set (cn_running (fst st)) = run_key ` set (snd st)"

lemma end_job_running:
  "cn_running (end_job ok now t i c ivf out cn) = removeAll (guard_key t c) (cn_running cn)"
  by (simp add: end_job_def release_def markSuccess_def markFailure_def set_row_def split: option.splits)

lemma remove1_keys:
  assumes "distinct (map f xs)" and "x \<in> set xs"
  shows "distinct (map f (remove1 x xs))" and "f ` set (remove1 x xs) = f ` set xs - {f x}"
  using assms by (induction xs) (auto dest: set_mp [OF set_remove1_subset])

lemma guarded_step: "cron_step x y \<Longrightarrow> guarded x \<Longrightarrow> guarded y"
proof (induction rule: cron_step.induct)
  case (finish tenant i code rs cn ok now ivf outcome)
  then have "distinct (map run_key rs)" by (simp add: guarded_def)
  note remove1_keys [OF this finish(1)]
  with finish show ?case by (simp add: guarded_def end_job_running run_key_def)
next
  case (start tenant code cn cn' rs i)
  then have c: "cn_running cn' = guard_key tenant code # cn_running cn"
    and n: "guard_key tenant code \<notin> set (cn_running cn)"
    by (auto simp: begin_job_def split: if_splits)
  have k: "run_key (tenant, i, code) = guard_key tenant code" by (simp add: run_key_def)
  from n start(2) have "run_key (tenant, i, code) \<notin> run_key ` set rs" by (simp add: guarded_def k)
  with start(2) show ?case by (simp add: guarded_def c k)
qed (auto simp: guarded_def begin_job_def registerJob_def split: if_splits)

interpretation cron_run: kept cron_step guarded
  by unfold_locales (rule guarded_step)

text \<open>C21: a job never overlaps itself. Whatever ticks, manual runs and registrations are interleaved
  on however many threads, at most one execution of a code is under way in each tenant database, and
  the guard set names exactly the executions under way, so a finished job can start again.\<close>

theorem cron_no_overlap:
  assumes "cron_step\<^sup>*\<^sup>* (\<lparr>cn_jobs = [], cn_running = [], cn_warned = [], cn_rows = tbl\<rparr>, []) (cn, rs)"
  shows "distinct (map (\<lambda>(tenant, i, code). (tenant, code)) rs)
    \<and> (\<forall>tenant code. fst (begin_job tenant code cn) = Skipped
         \<longleftrightarrow> guard_key tenant code \<in> (\<lambda>(t, i, c). guard_key t c) ` set rs)"
proof -
  have "guarded (cn, rs)" using cron_run.runs_ok [OF assms] by (simp add: guarded_def)
  then have d: "distinct (map run_key rs)" and s: "set (cn_running cn) = run_key ` set rs"
    by (simp_all add: guarded_def)
  have "map run_key rs = map (\<lambda>(t, c). guard_key t c) (map (\<lambda>(tenant, i, code). (tenant, code)) rs)"
    by (simp add: run_key_def o_def case_prod_unfold)
  with d have "distinct (map (\<lambda>(tenant, i, code). (tenant, code)) rs)" by (metis distinct_map)
  moreover have "run_key = (\<lambda>(t, i, c). guard_key t c)" by (simp add: run_key_def fun_eq_iff)
  ultimately show ?thesis using s by (auto simp: begin_job_def)
qed

theorem cron_no_overlap_witness:
  "distinct (map (\<lambda>(tenant, i, code). (tenant, code)) [(''db'', 1 :: int, ''bill''), (''db2'', 1, ''bill'')])"
proof -
  define c0 where "c0 = \<lparr>cn_jobs = [], cn_running = [], cn_warned = [], cn_rows = (\<lambda>t. [])\<rparr>"
  define c1 where "c1 = registerJob ''bill'' c0"
  define c2 where "c2 = snd (begin_job ''db2'' ''bill'' c1)"
  define c3 where "c3 = snd (begin_job ''db'' ''bill'' c2)"
  have "cron_step (c0, []) (c1, [])" unfolding c1_def by (rule cron_step.register)
  moreover have "cron_step (c1, []) (c2, [(''db2'', 1, ''bill'')])"
    unfolding c2_def c1_def c0_def by (rule cron_step.start) (simp add: begin_job_def registerJob_def guard_key_def)
  moreover have "cron_step (c2, [(''db2'', 1, ''bill'')]) (c3, [(''db'', 1, ''bill''), (''db2'', 1, ''bill'')])"
    unfolding c3_def c2_def c1_def c0_def by (rule cron_step.start) (simp add: begin_job_def registerJob_def guard_key_def)
  ultimately have "cron_step\<^sup>*\<^sup>* (c0, []) (c3, [(''db'', 1, ''bill''), (''db2'', 1, ''bill'')])"
    by (meson converse_rtranclp_into_rtranclp rtranclp.rtrancl_refl)
  from cron_no_overlap [OF this [unfolded c0_def]] show ?thesis by (rule conjunct1)
qed

subsection \<open>A job is always scheduled again\<close>

lemma backoff_bounds: "0 \<le> f \<Longrightarrow> 2 \<le> backoff (f + 1) \<and> backoff (f + 1) \<le> 480"
proof -
  assume f: "0 \<le> f"
  have "(2::int) ^ 1 \<le> 2 ^ nat (min (f + 1) 9)" using f by (intro power_increasing) auto
  then show ?thesis by (simp add: backoff_def)
qed

lemma backoff_doubles: "1 \<le> f \<Longrightarrow> f \<le> 8 \<Longrightarrow> backoff f = 2 ^ nat f"
proof -
  assume "1 \<le> f" "f \<le> 8"
  then have "(2::int) ^ nat f \<le> 2 ^ 8" by (intro power_increasing) auto
  with \<open>f \<le> 8\<close> show ?thesis by (simp add: backoff_def)
qed

lemma executeJob_rows:
  assumes "begin_job tenant code cn = (Started, cn1)" and "ex_fn ex code w = (outcome, w')"
  shows "executeJob ex tenant i code (cn, w)
    = (end_job (ex_mark_ok ex) (ex_end ex) tenant i code (read_row (ex_read_ok ex) tenant i cn1) outcome cn1, w')"
  using assms by (simp add: executeJob_def Let_def)

text \<open>C23: a job that ran is always scheduled again, whatever it did. It stays active; after a normal
  return its next run lies its interval after its end, with the failures forgotten; after an
  exception it lies between 2 and 480 minutes after its end, doubling with each failure in a row
  up to the eighth. The other rows and the other tenants' tables are not touched.\<close>

theorem cron_rescheduled:
  assumes "begin_job tenant code cn = (Started, cn1)" and "ex_fn ex code w = (outcome, w')"
    and "ex_read_ok ex" and "ex_mark_ok ex"
    and "find (\<lambda>r. cr_id r = i) (cn_rows cn tenant) = Some r" and "0 \<le> cr_failures r"
    and "distinct (map cr_id (cn_rows cn tenant))"
  shows "let cn' = fst (executeJob ex tenant i code (cn, w));
             wait = (if outcome = None then cr_interval r else backoff (cr_failures r + 1))
         in find (\<lambda>r. cr_id r = i) (cn_rows cn' tenant)
              = Some (r\<lparr>cr_last_run := Some (ex_end ex), cr_next_run := ex_end ex + wait * minute,
                  cr_failures := (if outcome = None then 0 else cr_failures r + 1),
                  cr_last_error := map_option (take 500) outcome\<rparr>)
          \<and> (outcome \<noteq> None \<longrightarrow> 2 \<le> wait \<and> wait \<le> 480
               \<and> (cr_failures r < 8 \<longrightarrow> wait = 2 ^ nat (cr_failures r + 1)))
          \<and> (\<forall>j t. t \<noteq> tenant \<or> j \<noteq> i \<longrightarrow>
               find (\<lambda>r. cr_id r = j) (cn_rows cn' t) = find (\<lambda>r. cr_id r = j) (cn_rows cn t))"
proof -
  have rows: "cn_rows cn1 = cn_rows cn" using assms(1) by (auto simp: begin_job_def split: if_splits)
  have rr: "read_row True tenant i cn1 = (cr_interval r, cr_failures r)"
    by (simp add: read_row_def rows assms(5))
  have id: "cr_id r = i" using assms(5) by (auto simp: find_Some_iff)
  have upd: "find (\<lambda>r. cr_id r = j) (map (\<lambda>r. if cr_id r = i then f r else r) tbl)
      = (if j = i then map_option f (find (\<lambda>r. cr_id r = i) tbl) else find (\<lambda>r. cr_id r = j) tbl)"
    if "\<And>r. cr_id (f r) = cr_id r" for f j tbl
    using that by (induction tbl) auto
  have b: "outcome \<noteq> None \<longrightarrow> 2 \<le> backoff (cr_failures r + 1) \<and> backoff (cr_failures r + 1) \<le> 480
      \<and> (cr_failures r < 8 \<longrightarrow> backoff (cr_failures r + 1) = 2 ^ nat (cr_failures r + 1))"
    using backoff_bounds [OF assms(6)] backoff_doubles [of "cr_failures r + 1"] assms(6) by simp
  show ?thesis
    unfolding executeJob_rows [OF assms(1,2)] using assms(3,4,5) b
    by (auto simp: Let_def rr end_job_def markSuccess_def markFailure_def set_row_def release_def rows upd
        split: option.splits)
qed

definition billing_row :: cron_row where
  "billing_row = \<lparr>cr_id = 4, cr_code = ''bill'', cr_active = True, cr_interval = 60, cr_next_run = 0,
     cr_failures = 2, cr_last_run = None, cr_last_error = None\<rparr>"

definition billing_cron :: cron where
  "billing_cron = \<lparr>cn_jobs = [''bill''], cn_running = [], cn_warned = [], cn_rows = (\<lambda>t. [billing_row])\<rparr>"

definition failing :: "unit execution" where
  "failing = \<lparr>ex_read_ok = True, ex_mark_ok = True, ex_end = 100, ex_fn = (\<lambda>c w. (Some ''down'', w))\<rparr>"

theorem cron_rescheduled_witness:
  "find (\<lambda>r. cr_id r = 4) (cn_rows (fst (executeJob failing ''db'' 4 ''bill'' (billing_cron, ()))) ''db'')
   = Some (billing_row\<lparr>cr_last_run := Some 100, cr_next_run := 100 + 8 * minute, cr_failures := 3,
       cr_last_error := Some ''down''\<rparr>)"
proof -
  have "begin_job ''db'' ''bill'' billing_cron = (Started, billing_cron\<lparr>cn_running := [''db|bill'']\<rparr>)"
    by (simp add: begin_job_def billing_cron_def guard_key_def)
  moreover have "ex_fn failing ''bill'' () = (Some ''down'', ())" "ex_read_ok failing" "ex_mark_ok failing"
    by (simp_all add: failing_def)
  moreover have "find (\<lambda>r. cr_id r = 4) (cn_rows billing_cron ''db'') = Some billing_row"
    "0 \<le> cr_failures billing_row" "distinct (map cr_id (cn_rows billing_cron ''db''))"
    by (simp_all add: billing_cron_def billing_row_def)
  ultimately have "let cn' = fst (executeJob failing ''db'' 4 ''bill'' (billing_cron, ()));
             wait = (if Some ''down'' = None then cr_interval billing_row else backoff (cr_failures billing_row + 1))
         in find (\<lambda>r. cr_id r = 4) (cn_rows cn' ''db'')
              = Some (billing_row\<lparr>cr_last_run := Some (ex_end failing), cr_next_run := ex_end failing + wait * minute,
                  cr_failures := (if Some ''down'' = None then 0 else cr_failures billing_row + 1),
                  cr_last_error := map_option (take 500) (Some ''down'')\<rparr>)"
    using cron_rescheduled [of "''db''" "''bill''" billing_cron _ failing "()" "Some ''down''" "()" 4 billing_row]
    by (simp add: Let_def)
  then show ?thesis by (simp add: Let_def failing_def billing_row_def backoff_def)
qed

text \<open>Rows without a handler are selected on every tick and never rescheduled: twenty of them keep
  every later job from being selected.\<close>

lemma orphans_starve_jobs:
  assumes "length orphans = 20" and "\<forall>r \<in> set orphans. cr_active r \<and> cr_next_run r \<le> cr_next_run job"
    and "sorted (map cr_next_run orphans)" and "cr_active job" and "cr_next_run job \<le> now"
  shows "due_rows now (orphans @ [job]) = orphans"
proof -
  have "filter (\<lambda>r. cr_active r \<and> cr_next_run r \<le> now) (orphans @ [job]) = orphans @ [job]"
    using assms(2,4,5) by (auto simp: filter_id_conv)
  moreover have "sorted (map cr_next_run (orphans @ [job]))"
    using assms(2,3) by (auto simp: sorted_append)
  ultimately show ?thesis
    using assms(1) by (simp add: due_rows_def sort_key_id_if_sorted)
qed

end
