(* ===== verification/Migrations.thy ===== *)
theory Migrations
  imports Prelude "HOL-Library.Multiset"
begin

section \<open>Schema migrations (core/infrastructure/MigrationRunner.cpp)\<close>

text \<open>
  The runner over a database: its schema and data (\<open>'s\<close>), and the table \<open>schema_migrations\<close>, \<open>None\<close>
  until it is created. What the SQL of a migration does is the parameter \<open>run\<close>; one that fails, or
  whose version is already a key of the table, leaves the database as its transaction found it.
\<close>

record migration =
  mg_version :: int
  mg_description :: string
  mg_upSql :: string

record 's mig_db =
  md_data :: 's
  md_applied :: "(int \<times> string) list option"

definition registerMigration :: "migration \<Rightarrow> migration list \<Rightarrow> migration list" where
  "registerMigration m ms = ms @ [m]"

definition ensureMigrationsTable :: "'s mig_db \<Rightarrow> 's mig_db" where
  "ensureMigrationsTable db = (case md_applied db of
       None \<Rightarrow> db\<lparr>md_applied := Some []\<rparr> | Some _ \<Rightarrow> db)"

definition table_of :: "'s mig_db \<Rightarrow> (int \<times> string) list" where
  "table_of db = (case md_applied db of None \<Rightarrow> [] | Some t \<Rightarrow> t)"

definition appliedVersions :: "'s mig_db \<Rightarrow> int set" where
  "appliedVersions db = set (map fst (table_of db))"

text \<open>One migration in its transaction; the error is the text the database gives.\<close>

definition apply_migration ::
  "(string \<Rightarrow> 's \<Rightarrow> string + 's) \<Rightarrow> migration \<Rightarrow> 's mig_db \<Rightarrow> string option \<times> 's mig_db" where
  "apply_migration run m db = (case run (mg_upSql m) (md_data db) of
       Inl e \<Rightarrow> (Some e, db)
     | Inr d \<Rightarrow>
         if mg_version m \<in> appliedVersions db then (Some ''duplicate key value'', db)
         else (None, \<lparr>md_data = d, md_applied = Some (table_of db @ [(mg_version m, mg_description m)])\<rparr>))"

definition failure :: "migration \<Rightarrow> string \<Rightarrow> exn" where
  "failure m e = RuntimeError (''[migrations] v'' @ int_to_string (mg_version m) @ '' ''
     @ quoted (mg_description m) @ '' FAILED: '' @ e)"

fun run_loop ::
  "(string \<Rightarrow> 's \<Rightarrow> string + 's) \<Rightarrow> int set \<Rightarrow> migration list \<Rightarrow> ('s mig_db, unit) act" where
  "run_loop run applied [] db = (Inr (), db)"
| "run_loop run applied (m # ms) db =
     (if mg_version m \<in> applied then run_loop run applied ms db
      else case apply_migration run m db of
          (Some e, db') \<Rightarrow> (Inl (failure m e), db')
        | (None, db') \<Rightarrow> run_loop run applied ms db')"

definition runPending ::
  "(string \<Rightarrow> 's \<Rightarrow> string + 's) \<Rightarrow> migration list \<Rightarrow> ('s mig_db, unit) act" where
  "runPending run ms db =
     (let db0 = ensureMigrationsTable db
      in run_loop run (appliedVersions db0) (sort_key mg_version ms) db0)"

subsection \<open>Each migration once, in order of version\<close>

text \<open>The reference: the pending migrations in ascending order, applied up to the first that fails.\<close>

fun upto_failure :: "(string \<Rightarrow> 's \<Rightarrow> string + 's) \<Rightarrow> migration list \<Rightarrow> 's \<Rightarrow> migration list \<times> 's" where
  "upto_failure run [] d = ([], d)"
| "upto_failure run (m # ms) d = (case run (mg_upSql m) d of
     Inl e \<Rightarrow> ([], d)
   | Inr d' \<Rightarrow> (let (past, d'') = upto_failure run ms d' in (m # past, d'')))"

definition pending :: "migration list \<Rightarrow> 's mig_db \<Rightarrow> migration list" where
  "pending ms db = filter (\<lambda>m. mg_version m \<notin> appliedVersions db) (sort_key mg_version ms)"

definition log_entry :: "migration \<Rightarrow> int \<times> string" where
  "log_entry m = (mg_version m, mg_description m)"

lemma run_loop_spec:
  assumes "distinct (map mg_version ms)" and "md_applied db = Some t"
    and "\<forall>m \<in> set ms. mg_version m \<notin> applied \<longrightarrow> mg_version m \<notin> fst ` set t"
  shows "run_loop run applied ms db =
    (let todo = filter (\<lambda>m. mg_version m \<notin> applied) ms;
         (past, d) = upto_failure run todo (md_data db);
         db' = \<lparr>md_data = d, md_applied = Some (t @ map log_entry past)\<rparr>
     in (if length past = length todo then Inr ()
         else Inl (failure (todo ! length past)
                (case run (mg_upSql (todo ! length past)) d of Inl e \<Rightarrow> e | Inr _ \<Rightarrow> '''')), db'))"
  using assms
proof (induction ms arbitrary: db t)
  case Nil
  then show ?case by (cases db) (simp add: Let_def)
next
  case (Cons m ms)
  show ?case
  proof (cases "mg_version m \<in> applied")
    case True
    with Cons show ?thesis by simp
  next
    case False
    then have new: "mg_version m \<notin> appliedVersions db"
      using Cons.prems by (auto simp: appliedVersions_def table_of_def)
    show ?thesis
    proof (cases "run (mg_upSql m) (md_data db)")
      case (Inl e)
      with False Cons.prems(2) show ?thesis by (cases db) (simp add: apply_migration_def Let_def)
    next
      case (Inr d)
      define db1 where "db1 = \<lparr>md_data = d, md_applied = Some (t @ [log_entry m])\<rparr>"
      have a: "apply_migration run m db = (None, db1)"
        using Cons.prems(2) new Inr by (simp add: apply_migration_def db1_def table_of_def log_entry_def)
      have c: "\<forall>x \<in> set ms. mg_version x \<notin> applied \<longrightarrow> mg_version x \<notin> fst ` set (t @ [log_entry m])"
      proof (intro ballI impI)
        fix x assume x: "x \<in> set ms" and "mg_version x \<notin> applied"
        moreover have "mg_version x \<noteq> mg_version m" using Cons.prems(1) x by (metis distinct.simps(2) image_eqI list.simps(9) list.set_map)
        ultimately show "mg_version x \<notin> fst ` set (t @ [log_entry m])"
          using Cons.prems(3) by (auto simp: log_entry_def)
      qed
      obtain past d2 where u: "upto_failure run (filter (\<lambda>m. mg_version m \<notin> applied) ms) d = (past, d2)"
        by fastforce
      have "run_loop run applied ms db1 = (let todo = filter (\<lambda>m. mg_version m \<notin> applied) ms;
         (past, d) = upto_failure run todo (md_data db1);
         db' = \<lparr>md_data = d, md_applied = Some ((t @ [log_entry m]) @ map log_entry past)\<rparr>
       in (if length past = length todo then Inr ()
         else Inl (failure (todo ! length past)
                (case run (mg_upSql (todo ! length past)) d of Inl e \<Rightarrow> e | Inr _ \<Rightarrow> '''')), db'))"
        by (rule Cons.IH) (use Cons.prems(1) c in \<open>simp_all add: db1_def\<close>)
      moreover have "run_loop run applied (m # ms) db = run_loop run applied ms db1" using False a by simp
      ultimately show ?thesis
        using False Inr by (simp add: db1_def Let_def u)
    qed
  qed
qed

lemma appliedVersions_ensure: "appliedVersions (ensureMigrationsTable db) = appliedVersions db"
  by (simp add: appliedVersions_def ensureMigrationsTable_def table_of_def split: option.splits)

lemma distinct_sorted_versions:
  assumes "distinct (map mg_version ms)"
  shows "distinct (map mg_version (sort_key mg_version ms))"
proof -
  have "mset (map mg_version (sort_key mg_version ms)) = mset (map mg_version ms)"
    by (simp add: mset_map)
  with assms show ?thesis by (metis mset_eq_imp_distinct_iff)
qed

lemma runPending_spec:
  assumes "distinct (map mg_version ms)"
  shows "runPending run ms db =
    (let todo = pending ms db;
         (past, d) = upto_failure run todo (md_data db);
         db' = \<lparr>md_data = d, md_applied = Some (table_of db @ map log_entry past)\<rparr>
     in (if length past = length todo then Inr ()
         else Inl (failure (todo ! length past)
                (case run (mg_upSql (todo ! length past)) d of Inl e \<Rightarrow> e | Inr _ \<Rightarrow> '''')), db'))"
proof -
  define db0 where "db0 = ensureMigrationsTable db"
  have t: "md_applied db0 = Some (table_of db)" "md_data db0 = md_data db"
    by (simp_all add: db0_def ensureMigrationsTable_def table_of_def split: option.splits)
  have v: "appliedVersions db0 = appliedVersions db" by (simp add: db0_def appliedVersions_ensure)
  note d = distinct_sorted_versions [OF assms]
  have n: "\<forall>m \<in> set (sort_key mg_version ms). mg_version m \<notin> appliedVersions db
      \<longrightarrow> mg_version m \<notin> fst ` set (table_of db)"
    by (auto simp: appliedVersions_def)
  show ?thesis
    unfolding runPending_def db0_def [symmetric] Let_def v
    unfolding run_loop_spec [OF d t(1) n] by (simp add: pending_def t(2) Let_def split: prod.splits)
qed

lemma upto_failure_prefix: "\<exists>rest. ms = fst (upto_failure run ms d) @ rest"
proof (induction ms arbitrary: d)
  case (Cons m ms)
  show ?case
  proof (cases "run (mg_upSql m) d")
    case (Inr d')
    from Cons.IH [of d'] Inr show ?thesis by (auto split: prod.splits)
  qed simp
qed simp

lemma upto_failure_rest:
  "upto_failure run (past @ rest) d = (past, d') \<Longrightarrow> upto_failure run rest d' = ([], d')"
proof (induction past arbitrary: d)
  case Nil
  then show ?case by (cases rest) (auto split: sum.splits prod.splits)
next
  case (Cons m past)
  then show ?case by (cases "run (mg_upSql m) d") (auto split: prod.splits)
qed

text \<open>C24: migrations are applied each once and in ascending order of version, whatever the order they
  were registered in. Running them takes the pending ones in order up to the first that fails,
  which leaves no trace and is the error reported; those before it are recorded, and running again
  starts with the one that failed: it finds the database exactly as the failed run left it. When
  none fails the second run does nothing.\<close>

theorem migrations_once_in_order:
  assumes "distinct (map mg_version ms)" and "runPending run ms db = (r, db')"
  shows "sorted (map mg_version (pending ms db))
    \<and> set (pending ms db) = {m \<in> set ms. mg_version m \<notin> appliedVersions db}
    \<and> (\<exists>past rest. pending ms db = past @ rest
         \<and> past = fst (upto_failure run (pending ms db) (md_data db))
         \<and> md_data db' = snd (upto_failure run (pending ms db) (md_data db))
         \<and> table_of db' = table_of db @ map log_entry past
         \<and> (r = Inr () \<longleftrightarrow> rest = [])
         \<and> pending ms db' = rest)
    \<and> runPending run ms db' = (r, db')"
proof -
  define todo where "todo = pending ms db"
  obtain past d where u: "upto_failure run todo (md_data db) = (past, d)" by fastforce
  obtain rest where todo: "todo = past @ rest"
    using upto_failure_prefix [of todo run "md_data db"] u by auto
  note spec = runPending_spec [OF assms(1), of run db, folded todo_def, unfolded u Let_def prod.case]
  from spec assms(2) have db': "db' = \<lparr>md_data = d, md_applied = Some (table_of db @ map log_entry past)\<rparr>"
    and r: "r = (if length past = length todo then Inr ()
         else Inl (failure (todo ! length past)
                (case run (mg_upSql (todo ! length past)) d of Inl e \<Rightarrow> e | Inr _ \<Rightarrow> '''')))"
    by simp_all
  have v': "appliedVersions db' = appliedVersions db \<union> mg_version ` set past"
    by (auto simp: appliedVersions_def table_of_def db' log_entry_def image_image)
  have dist: "distinct (map mg_version todo)"
    using distinct_sorted_versions [OF assms(1)] by (simp add: todo_def pending_def distinct_map_filter)
  have "pending ms db' = filter (\<lambda>m. mg_version m \<notin> mg_version ` set past) todo"
    by (simp add: pending_def todo_def v' conj_commute)
  also have "\<dots> = rest"
    using dist by (auto simp: todo filter_empty_conv filter_id_conv)
  finally have p': "pending ms db' = rest" .
  have "upto_failure run rest d = ([], d)"
    by (rule upto_failure_rest [OF u [unfolded todo]])
  with runPending_spec [OF assms(1), of run db'] p'
  have again: "runPending run ms db' = (r, db')"
    by (simp add: Let_def r db' todo table_of_def nth_append)
  have "sorted (map mg_version todo)"
    by (simp add: todo_def pending_def sorted_filter)
  moreover have "set todo = {m \<in> set ms. mg_version m \<notin> appliedVersions db}"
    by (auto simp: todo_def pending_def)
  moreover have "\<exists>past rest. todo = past @ rest \<and> past = fst (upto_failure run todo (md_data db))
         \<and> md_data db' = snd (upto_failure run todo (md_data db))
         \<and> table_of db' = table_of db @ map log_entry past \<and> (r = Inr () \<longleftrightarrow> rest = []) \<and> pending ms db' = rest"
    using todo u p' by (intro exI [of _ past] exI [of _ rest]) (simp add: db' r table_of_def)
  ultimately show ?thesis using again by (simp add: todo_def)
qed

definition sample_run :: "string \<Rightarrow> string list \<Rightarrow> string + string list" where
  "sample_run sql d = (if sql = ''bad'' then Inl ''syntax error'' else Inr (d @ [sql]))"

definition sample_migrations :: "migration list" where
  "sample_migrations = [\<lparr>mg_version = 200, mg_description = ''b'', mg_upSql = ''bad''\<rparr>,
     \<lparr>mg_version = 100, mg_description = ''a'', mg_upSql = ''create''\<rparr>]"

theorem migrations_once_in_order_witness:
  "runPending sample_run sample_migrations \<lparr>md_data = [''create''], md_applied = Some [(100, ''a'')]\<rparr>
   = (Inl (RuntimeError (''[migrations] v200 '' @ quoted ''b'' @ '' FAILED: syntax error'')),
      \<lparr>md_data = [''create''], md_applied = Some [(100, ''a'')]\<rparr>)"
proof -
  have "distinct (map mg_version sample_migrations)" by (simp add: sample_migrations_def)
  moreover have "runPending sample_run sample_migrations \<lparr>md_data = [], md_applied = None\<rparr>
    = (Inl (RuntimeError (''[migrations] v200 '' @ quoted ''b'' @ '' FAILED: syntax error'')),
       \<lparr>md_data = [''create''], md_applied = Some [(100, ''a'')]\<rparr>)"
    by code_simp
  ultimately show ?thesis using migrations_once_in_order by blast
qed

text \<open>Two migrations registered under one version: the second one stops the first start, and every
  later start skips it for ever.\<close>

lemma duplicate_version_lost:
  "let ms = [\<lparr>mg_version = 7, mg_description = ''a'', mg_upSql = ''one''\<rparr>,
             \<lparr>mg_version = 7, mg_description = ''b'', mg_upSql = ''two''\<rparr>];
       (r1, db1) = runPending sample_run ms \<lparr>md_data = [], md_applied = None\<rparr>;
       (r2, db2) = runPending sample_run ms db1
   in r1 \<noteq> Inr () \<and> r2 = Inr () \<and> md_data db2 = [''one'']"
  by code_simp

end
