(* ===== verification/Stock.thy ===== *)
theory Stock
  imports Prelude
begin

section \<open>Stock quantities, reservations and valuation (core/StockQuant.cpp)\<close>

text \<open>
  The engine every stock move goes through, over the tables it reads and writes. Quantities, costs
  and values are integers in millionths. Products are divided in C++ through \<open>__int128\<close> and narrowed
  by a cast (\<open>wrap64\<close>); sums are taken in unbounded integers: PostgreSQL rejects a bigint that
  overflows and the statement fails, and the C++ sums that overflow have no meaning. The rows of the layer table stand in the order of their ids,
  which is that of insertion; a quant's key (product, location, lot) is unique.
\<close>

record quant =
  qn_product :: int
  qn_location :: int
  qn_lot :: int
  qn_quantity :: int
  qn_reserved :: int
  qn_company :: "int option"

record product =
  pr_id :: int
  pr_categ :: "int option"
  pr_cost_method :: "string option"
  pr_standard_price :: int
  pr_quantity_svl :: int
  pr_value_svl :: int
  pr_qty_available :: int

record layer =
  ly_id :: int
  ly_product :: int
  ly_quantity :: int
  ly_unit_cost :: int
  ly_value :: int
  ly_remaining_qty :: int
  ly_remaining_value :: int
  ly_usage :: string
  ly_description :: string
  ly_company :: "int option"
  ly_move :: "int option"

record category =
  ct_id :: int
  ct_journal :: "int option"
  ct_valuation :: "int option"
  ct_input :: "int option"
  ct_output :: "int option"

record gl_line =
  gl_move :: int
  gl_account :: int
  gl_journal :: int
  gl_company :: int
  gl_debit :: int
  gl_credit :: int

record stock_db =
  sk_quants :: "quant list"
  sk_locations :: "(int \<times> string option) list"
  sk_products :: "product list"
  sk_layers :: "layer list"
  sk_next_layer :: int
  sk_categories :: "category list"
  sk_accounts :: "(int \<times> string \<times> int) list"
  sk_journals :: "(int \<times> string \<times> int) list"
  sk_moves :: "(int \<times> string) list"
  sk_next_move :: int
  sk_lines :: "gl_line list"

definition nullif0 :: "int \<Rightarrow> int option" where
  "nullif0 c = (if c = 0 then None else Some c)"

subsection \<open>Quantities\<close>

fun upsert_quant :: "int \<Rightarrow> int \<Rightarrow> int \<Rightarrow> int \<Rightarrow> int \<Rightarrow> quant list \<Rightarrow> quant list" where
  "upsert_quant p loc lot delta company [] =
     [\<lparr>qn_product = p, qn_location = loc, qn_lot = lot, qn_quantity = delta, qn_reserved = 0,
       qn_company = nullif0 company\<rparr>]"
| "upsert_quant p loc lot delta company (q # qs) =
     (if qn_product q = p \<and> qn_location q = loc \<and> qn_lot q = lot
      then q\<lparr>qn_quantity := qn_quantity q + delta\<rparr> # qs
      else q # upsert_quant p loc lot delta company qs)"

definition upsertDelta :: "int \<Rightarrow> int \<Rightarrow> int \<Rightarrow> int \<Rightarrow> int \<Rightarrow> stock_db \<Rightarrow> stock_db" where
  "upsertDelta p loc delta company lot db =
     db\<lparr>sk_quants := upsert_quant p loc lot delta company (sk_quants db)\<rparr>"

definition usageOf :: "int \<Rightarrow> stock_db \<Rightarrow> string" where
  "usageOf loc db = (case map_of (sk_locations db) loc of Some (Some u) \<Rightarrow> u | _ \<Rightarrow> '''')"

definition onHandInternal :: "int \<Rightarrow> stock_db \<Rightarrow> int" where
  "onHandInternal p db = sum_list (map qn_quantity
     (filter (\<lambda>q. qn_product q = p \<and> usageOf (qn_location q) db = ''internal'') (sk_quants db)))"

definition update_product :: "int \<Rightarrow> (product \<Rightarrow> product) \<Rightarrow> stock_db \<Rightarrow> stock_db" where
  "update_product p f db =
     db\<lparr>sk_products := map (\<lambda>r. if pr_id r = p then f r else r) (sk_products db)\<rparr>"

definition find_product :: "int \<Rightarrow> stock_db \<Rightarrow> product option" where
  "find_product p db = find (\<lambda>r. pr_id r = p) (sk_products db)"

definition refreshProductOnHand :: "int \<Rightarrow> stock_db \<Rightarrow> stock_db" where
  "refreshProductOnHand p db = update_product p (\<lambda>r. r\<lparr>pr_qty_available := onHandInternal p db\<rparr>) db"

subsection \<open>Reservations\<close>

definition quant_at :: "int \<Rightarrow> int \<Rightarrow> int \<Rightarrow> quant \<Rightarrow> bool" where
  "quant_at p loc lot q \<longleftrightarrow> qn_product q = p \<and> qn_location q = loc \<and> qn_lot q = lot"

definition availableAt :: "int \<Rightarrow> int \<Rightarrow> int \<Rightarrow> stock_db \<Rightarrow> int" where
  "availableAt p loc lot db = (case find (quant_at p loc lot) (sk_quants db) of
       None \<Rightarrow> 0 | Some q \<Rightarrow> qn_quantity q - qn_reserved q)"

definition update_quants :: "(quant \<Rightarrow> bool) \<Rightarrow> (quant \<Rightarrow> quant) \<Rightarrow> stock_db \<Rightarrow> stock_db" where
  "update_quants P f db = db\<lparr>sk_quants := map (\<lambda>q. if P q then f q else q) (sk_quants db)\<rparr>"

definition reserve :: "int \<Rightarrow> int \<Rightarrow> int \<Rightarrow> int \<Rightarrow> stock_db \<Rightarrow> int \<times> stock_db" where
  "reserve p loc qty lot db =
     (if qty \<le> 0 then (0, db)
      else let avail = availableAt p loc lot db;
               n = (if qty < avail then qty else avail)
           in if n \<le> 0 then (0, db)
              else (n, update_quants (quant_at p loc lot) (\<lambda>q. q\<lparr>qn_reserved := qn_reserved q + n\<rparr>) db))"

definition release_stock :: "int \<Rightarrow> int \<Rightarrow> int \<Rightarrow> int \<Rightarrow> stock_db \<Rightarrow> stock_db" where
  "release_stock p loc qty lot db =
     (if qty \<le> 0 then db
      else update_quants (quant_at p loc lot) (\<lambda>q. q\<lparr>qn_reserved := max (qn_reserved q - qty) 0\<rparr>) db)"

subsection \<open>Posting a valuation layer\<close>

definition mulMicros :: "int \<Rightarrow> int \<Rightarrow> int" where
  "mulMicros qty cost = wrap64 (cdiv (qty * cost) 1000000)"

definition divMicros :: "int \<Rightarrow> int \<Rightarrow> int" where
  "divMicros value qty = (if qty = 0 then 0 else wrap64 (cdiv (value * 1000000) qty))"

definition by_code :: "(int \<times> string \<times> int) list \<Rightarrow> string \<Rightarrow> int \<Rightarrow> int" where
  "by_code rows code company = (case find (\<lambda>(i, c, k). c = code \<and> k = company) rows of
       None \<Rightarrow> 0 | Some (i, _) \<Rightarrow> i)"

definition category_of :: "int \<Rightarrow> stock_db \<Rightarrow> category option" where
  "category_of p db = (case find_product p db of
       None \<Rightarrow> None
     | Some r \<Rightarrow> (case pr_categ r of
           None \<Rightarrow> None
         | Some c \<Rightarrow> if c \<le> 0 then None else find (\<lambda>k. ct_id k = c) (sk_categories db)))"

definition category_account :: "(category \<Rightarrow> int option) \<Rightarrow> int \<Rightarrow> stock_db \<Rightarrow> int" where
  "category_account f p db = (case category_of p db of
       None \<Rightarrow> 0 | Some k \<Rightarrow> (case f k of None \<Rightarrow> 0 | Some a \<Rightarrow> a))"

definition or_code :: "int \<Rightarrow> (int \<times> string \<times> int) list \<Rightarrow> string \<Rightarrow> int \<Rightarrow> int" where
  "or_code a rows code company = (if a \<le> 0 then by_code rows code company else a)"

definition counterpart :: "string \<Rightarrow> int \<Rightarrow> int \<Rightarrow> stock_db \<Rightarrow> int" where
  "counterpart usage p company db =
     (if usage = ''supplier'' then or_code (category_account ct_input p db) (sk_accounts db) ''1410'' company
      else if usage = ''customer'' then or_code (category_account ct_output p db) (sk_accounts db) ''5000'' company
      else if usage = ''production'' \<or> usage = ''subcontract'' then by_code (sk_accounts db) ''1430'' company
      else if usage = ''inventory'' then by_code (sk_accounts db) ''5100'' company
      else 0)"

definition set_layer_move :: "int \<Rightarrow> int \<Rightarrow> layer list \<Rightarrow> layer list" where
  "set_layer_move lid m = map (\<lambda>l. if ly_id l = lid then l\<lparr>ly_move := Some m\<rparr> else l)"

definition postValuationEntry ::
  "int \<Rightarrow> int \<Rightarrow> string \<Rightarrow> int \<Rightarrow> bool \<Rightarrow> int \<Rightarrow> stock_db \<Rightarrow> stock_db" where
  "postValuationEntry lid p usage val incoming company db =
     (if val \<le> 0 then db
      else let comp = (if company > 0 then company else 1);
               journal = or_code (category_account ct_journal p db) (sk_journals db) ''STJ'' comp;
               valuation = or_code (category_account ct_valuation p db) (sk_accounts db) ''1400'' comp;
               cp = counterpart usage p comp db
           in if journal \<le> 0 \<or> valuation \<le> 0 \<or> cp \<le> 0 then db
              else let m = sk_next_move db;
                       line = (\<lambda>acct debit credit. \<lparr>gl_move = m, gl_account = acct, gl_journal = journal,
                         gl_company = comp, gl_debit = debit, gl_credit = credit\<rparr>)
                   in db\<lparr>sk_moves := sk_moves db @ [(m, ''STJ/'' @ int_to_string m)],
                         sk_next_move := m + 1,
                         sk_lines := sk_lines db
                           @ [line valuation (if incoming then val else 0) (if incoming then 0 else val),
                              line cp (if incoming then 0 else val) (if incoming then val else 0)],
                         sk_layers := set_layer_move lid m (sk_layers db)\<rparr>)"

subsection \<open>Valuing a move\<close>

definition insert_layer ::
  "int \<Rightarrow> int \<Rightarrow> int \<Rightarrow> int \<Rightarrow> int \<Rightarrow> int \<Rightarrow> string \<Rightarrow> string \<Rightarrow> int \<Rightarrow> stock_db \<Rightarrow> int \<times> stock_db" where
  "insert_layer p qty cost val remQ remV usage descr company db =
     (sk_next_layer db,
      db\<lparr>sk_next_layer := sk_next_layer db + 1,
        sk_layers := sk_layers db
          @ [\<lparr>ly_id = sk_next_layer db, ly_product = p, ly_quantity = qty, ly_unit_cost = cost,
             ly_value = val, ly_remaining_qty = remQ, ly_remaining_value = remV, ly_usage = usage,
             ly_description = descr, ly_company = nullif0 company, ly_move = None\<rparr>]\<rparr>)"

definition method_of :: "product \<Rightarrow> string" where
  "method_of r = (case pr_cost_method r of None \<Rightarrow> ''standard'' | Some m \<Rightarrow> m)"

definition value_incoming ::
  "int \<Rightarrow> product \<Rightarrow> string \<Rightarrow> int \<Rightarrow> int \<Rightarrow> int \<Rightarrow> stock_db \<Rightarrow> stock_db" where
  "value_incoming p r usage qty company inputCost db =
     (let unitCost = (if inputCost \<ge> 0 then inputCost else pr_standard_price r);
          val = mulMicros qty unitCost;
          newQ = pr_quantity_svl r + qty;
          newV = pr_value_svl r + val;
          fifo = method_of r = ''fifo'';
          (lid, db1) = insert_layer p qty unitCost val (if fifo then qty else 0) (if fifo then val else 0)
             usage ''in'' company db;
          db2 = update_product p (\<lambda>x. if method_of r = ''average'' \<and> newQ > 0
             then x\<lparr>pr_quantity_svl := newQ, pr_value_svl := newV, pr_standard_price := divMicros newV newQ\<rparr>
             else x\<lparr>pr_quantity_svl := newQ, pr_value_svl := newV\<rparr>) db1
      in postValuationEntry lid p usage val True company db2)"

text \<open>The FIFO loop: the layers of the product with something left, oldest first. The result is the
  updated table, the quantity no layer could cover, and the value taken out.\<close>

fun fifo_walk :: "int \<Rightarrow> int \<Rightarrow> layer list \<Rightarrow> layer list \<times> int \<times> int" where
  "fifo_walk p n [] = ([], n, 0)"
| "fifo_walk p n (l # ls) =
     (if ly_product l = p \<and> ly_remaining_qty l > 0 \<and> n > 0
      then let t = min (ly_remaining_qty l) n;
               portion = wrap64 (cdiv (ly_remaining_value l * t) (ly_remaining_qty l));
               (ls', left, val) = fifo_walk p (n - t) ls
           in (l\<lparr>ly_remaining_qty := ly_remaining_qty l - t,
                 ly_remaining_value := ly_remaining_value l - portion\<rparr> # ls', left, portion + val)
      else let (ls', left, val) = fifo_walk p n ls in (l # ls', left, val))"

definition value_outgoing ::
  "int \<Rightarrow> product \<Rightarrow> string \<Rightarrow> int \<Rightarrow> int \<Rightarrow> stock_db \<Rightarrow> stock_db" where
  "value_outgoing p r usage qty company db =
     (let (layers, left, taken) = (if method_of r = ''fifo'' then fifo_walk p qty (sk_layers db)
                                   else (sk_layers db, qty, 0));
          outValue = (if left > 0 then taken + mulMicros left (pr_standard_price r) else taken);
          db0 = db\<lparr>sk_layers := layers\<rparr>;
          (lid, db1) = insert_layer p (- qty) (divMicros outValue qty) (- outValue) 0 0 usage ''out'' company db0;
          db2 = update_product p (\<lambda>x. x\<lparr>pr_quantity_svl := pr_quantity_svl r - qty,
                  pr_value_svl := pr_value_svl r - outValue\<rparr>) db1
      in postValuationEntry lid p usage outValue False company db2)"

definition valuateMove :: "int \<Rightarrow> int \<Rightarrow> int \<Rightarrow> int \<Rightarrow> int \<Rightarrow> int \<Rightarrow> stock_db \<Rightarrow> stock_db" where
  "valuateMove p src dst qty company inputCost db =
     (if qty \<le> 0 then db
      else let srcInt = (usageOf src db = ''internal''); dstInt = (usageOf dst db = ''internal'')
           in if srcInt = dstInt then db
              else case find_product p db of
                  None \<Rightarrow> db
                | Some r \<Rightarrow>
                    if \<not> srcInt \<and> dstInt then value_incoming p r (usageOf src db) qty company inputCost db
                    else value_outgoing p r (usageOf dst db) qty company db)"

definition applyMove :: "int \<Rightarrow> int \<Rightarrow> int \<Rightarrow> int \<Rightarrow> int \<Rightarrow> int \<Rightarrow> int \<Rightarrow> stock_db \<Rightarrow> stock_db" where
  "applyMove p src dst qty company inputCost lot db =
     (if qty = 0 \<or> src = dst then db
      else valuateMove p src dst qty company inputCost
             (refreshProductOnHand p
               (upsertDelta p dst qty company lot (upsertDelta p src (- qty) company lot db))))"

subsection \<open>Revaluation\<close>

definition open_layer :: "int \<Rightarrow> layer \<Rightarrow> bool" where
  "open_layer p l \<longleftrightarrow> ly_product l = p \<and> ly_remaining_qty l > 0"

definition shares :: "int \<Rightarrow> int \<Rightarrow> layer list \<Rightarrow> int list" where
  "shares val totRem ls = map (\<lambda>l. wrap64 (cdiv (val * ly_remaining_qty l) totRem)) ls"

definition with_remainder :: "int \<Rightarrow> int list \<Rightarrow> int list" where
  "with_remainder val ss = (if ss = [] then [] else butlast ss @ [last ss + (val - sum_list ss)])"

text \<open>The updates by layer id, in the order of the open layers.\<close>

fun add_shares :: "int \<Rightarrow> int list \<Rightarrow> layer list \<Rightarrow> layer list" where
  "add_shares p [] ls = ls"
| "add_shares p (s # ss) [] = []"
| "add_shares p (s # ss) (l # ls) =
     (if open_layer p l
      then l\<lparr>ly_remaining_value := ly_remaining_value l + s\<rparr> # add_shares p ss ls
      else l # add_shares p (s # ss) ls)"

definition push_value :: "int \<Rightarrow> int \<Rightarrow> layer list \<Rightarrow> layer list" where
  "push_value p val layers =
     (let opens = filter (open_layer p) layers;
          totRem = sum_list (map ly_remaining_qty opens)
      in if totRem > 0 then add_shares p (with_remainder val (shares val totRem opens)) layers else layers)"

definition revalue :: "int \<Rightarrow> int \<Rightarrow> string \<Rightarrow> int \<Rightarrow> stock_db \<Rightarrow> int \<times> stock_db" where
  "revalue p val descr company db =
     (if val = 0 then (0, db)
      else case find_product p db of
          None \<Rightarrow> (0, db)
        | Some r \<Rightarrow>
            let newV = pr_value_svl r + val;
                (lid, db1) = insert_layer p 0 0 val 0 0 ''revaluation'' descr company db;
                db2 = update_product p (\<lambda>x. if method_of r = ''average'' \<and> pr_quantity_svl r > 0
                   then x\<lparr>pr_value_svl := newV, pr_standard_price := divMicros newV (pr_quantity_svl r)\<rparr>
                   else x\<lparr>pr_value_svl := newV\<rparr>) db1
            in (lid, if method_of r = ''fifo'' then db2\<lparr>sk_layers := push_value p val (sk_layers db2)\<rparr> else db2))"

subsection \<open>Lemmas on the tables\<close>

lemma sum_by_upsert:
  "sum_by (\<lambda>q. R (qn_product q) (qn_location q)) qn_quantity (upsert_quant p loc lot d c qs)
   = sum_by (\<lambda>q. R (qn_product q) (qn_location q)) qn_quantity qs + (if R p loc then d else 0)"
  by (induction qs) auto

lemma usageOf_cong: "sk_locations db' = sk_locations db \<Longrightarrow> usageOf l db' = usageOf l db"
  by (simp add: usageOf_def)

lemma onHand_sum: "onHandInternal p db
    = sum_by (\<lambda>q. qn_product q = p \<and> usageOf (qn_location q) db = ''internal'') qn_quantity (sk_quants db)"
  by (simp add: onHandInternal_def sum_by_def)

lemma update_product_simps [simp]:
  "sk_quants (update_product p f db) = sk_quants db" "sk_locations (update_product p f db) = sk_locations db"
  "sk_layers (update_product p f db) = sk_layers db" "sk_next_layer (update_product p f db) = sk_next_layer db"
  "sk_lines (update_product p f db) = sk_lines db" "sk_moves (update_product p f db) = sk_moves db"
  "sk_next_move (update_product p f db) = sk_next_move db"
  "sk_products (update_product p f db) = map (\<lambda>r. if pr_id r = p then f r else r) (sk_products db)"
  by (simp_all add: update_product_def)

lemma upsertDelta_simps [simp]:
  "sk_locations (upsertDelta p l d c lot db) = sk_locations db" "sk_layers (upsertDelta p l d c lot db) = sk_layers db"
  "sk_products (upsertDelta p l d c lot db) = sk_products db" "sk_next_layer (upsertDelta p l d c lot db) = sk_next_layer db"
  "sk_lines (upsertDelta p l d c lot db) = sk_lines db" "sk_moves (upsertDelta p l d c lot db) = sk_moves db"
  "sk_next_move (upsertDelta p l d c lot db) = sk_next_move db"
  "sk_quants (upsertDelta p l d c lot db) = upsert_quant p l lot d c (sk_quants db)"
  by (simp_all add: upsertDelta_def)

text \<open>What posting an entry leaves alone.\<close>

lemma post_frame [simp]:
  "sk_quants (postValuationEntry lid p u v inc c db) = sk_quants db"
  "sk_locations (postValuationEntry lid p u v inc c db) = sk_locations db"
  "sk_products (postValuationEntry lid p u v inc c db) = sk_products db"
  by (simp_all add: postValuationEntry_def Let_def)

lemma insert_layer_fst [simp]: "fst (insert_layer p q c v a b u d k db) = sk_next_layer db"
  by (simp add: insert_layer_def)

lemma insert_layer_frame [simp]:
  "sk_quants (snd (insert_layer p q c v a b u d k db)) = sk_quants db"
  "sk_locations (snd (insert_layer p q c v a b u d k db)) = sk_locations db"
  "sk_products (snd (insert_layer p q c v a b u d k db)) = sk_products db"
  "sk_moves (snd (insert_layer p q c v a b u d k db)) = sk_moves db"
  "sk_lines (snd (insert_layer p q c v a b u d k db)) = sk_lines db"
  "sk_next_move (snd (insert_layer p q c v a b u d k db)) = sk_next_move db"
  by (simp_all add: insert_layer_def)

lemma value_frame [simp]:
  "sk_quants (value_incoming p r u q c i db) = sk_quants db"
  "sk_locations (value_incoming p r u q c i db) = sk_locations db"
  "sk_quants (value_outgoing p r u q c db) = sk_quants db"
  "sk_locations (value_outgoing p r u q c db) = sk_locations db"
  by (simp_all add: value_incoming_def value_outgoing_def Let_def split_beta)

lemma valuate_frame [simp]:
  "sk_quants (valuateMove p s d q c i db) = sk_quants db"
  "sk_locations (valuateMove p s d q c i db) = sk_locations db"
  by (simp_all add: valuateMove_def Let_def split: option.splits)

lemma find_map_id:
  "(\<And>r. pr_id (f r) = pr_id r) \<Longrightarrow>
   find (\<lambda>r. pr_id r = p) (map f rs) = map_option f (find (\<lambda>r. pr_id r = p) rs)"
  by (induction rs) auto

lemma find_update_product:
  "(\<And>r. pr_id (f r) = pr_id r) \<Longrightarrow>
   find_product j (update_product p f db) = (if j = p then map_option f (find_product p db) else find_product j db)"
proof -
  assume f: "\<And>r. pr_id (f r) = pr_id r"
  have "find_product j (update_product p f db)
      = map_option (\<lambda>r. if pr_id r = p then f r else r) (find_product j db)"
    unfolding find_product_def update_product_simps by (rule find_map_id) (simp add: f)
  moreover have "find_product j db = Some r \<Longrightarrow> pr_id r = j" for r
    by (auto simp: find_product_def find_Some_iff)
  ultimately show ?thesis by (cases "find_product j db") auto
qed

subsection \<open>Moves conserve quantities, and valuation follows what is on hand\<close>

lemma find_valued:
  assumes "find_product p db = Some r" and "(usageOf src db = ''internal'') \<noteq> (usageOf dst db = ''internal'')"
    and "0 < qty"
  shows "\<exists>r'. find_product p (valuateMove p src dst qty c i db) = Some r' \<and> pr_qty_available r' = pr_qty_available r
    \<and> pr_quantity_svl r' = pr_quantity_svl r + (if usageOf dst db = ''internal'' then qty else - qty)"
proof -
  have fp: "find_product p (postValuationEntry lid q u v inc k d) = find_product p d" for lid q u v inc k d
    by (simp add: find_product_def)
  have fi: "find_product p (snd (insert_layer q a b d e f g h k d')) = find_product p d'"
    for q a b d e f g h k d' by (simp add: find_product_def)
  have fl: "find_product p (db\<lparr>sk_layers := ls\<rparr>) = find_product p db" for ls
    by (simp add: find_product_def)
  show ?thesis
    using assms
    by (auto simp: valuateMove_def value_incoming_def value_outgoing_def Let_def split_beta fp
        find_update_product fi fl)
qed

lemma not_valued:
  "(usageOf src db = ''internal'') = (usageOf dst db = ''internal'') \<Longrightarrow> valuateMove p src dst qty c i db = db"
  by (simp add: valuateMove_def Let_def)

text \<open>Stock is neither made nor lost. A move leaves the total quantity of every product over all
  locations as it was; afterwards the cached quantity of the moved product is what lies in internal
  locations; and for a real move the valued quantity changes by exactly as much as the quantity on
  hand, so that the two agree for ever if they agree once.\<close>

theorem moves_conserve_stock:
  assumes "find_product p db = Some r" and "0 < qty" and "src \<noteq> dst"
  shows "let db' = applyMove p src dst qty company cost lot db
    in sum_by (\<lambda>q. qn_product q = j) qn_quantity (sk_quants db') = sum_by (\<lambda>q. qn_product q = j) qn_quantity (sk_quants db)
     \<and> (\<exists>r'. find_product p db' = Some r' \<and> pr_qty_available r' = onHandInternal p db'
         \<and> pr_quantity_svl r' - pr_quantity_svl r = onHandInternal p db' - onHandInternal p db)"
proof -
  define db1 where "db1 = upsertDelta p dst qty company lot (upsertDelta p src (- qty) company lot db)"
  define db2 where "db2 = refreshProductOnHand p db1"
  define db' where "db' = applyMove p src dst qty company cost lot db"
  have e: "db' = valuateMove p src dst qty company cost db2"
    using assms(2,3) by (simp add: db'_def applyMove_def db2_def db1_def)
  have loc: "sk_locations db' = sk_locations db" "sk_locations db2 = sk_locations db" "sk_locations db1 = sk_locations db"
    by (simp_all add: e db2_def refreshProductOnHand_def db1_def)
  have q: "sk_quants db' = upsert_quant p dst lot qty company (upsert_quant p src lot (- qty) company (sk_quants db))"
    and q1: "sk_quants db' = sk_quants db1"
    by (simp_all add: e db2_def refreshProductOnHand_def db1_def)
  have u: "usageOf l db' = usageOf l db" "usageOf l db2 = usageOf l db" "usageOf l db1 = usageOf l db" for l
    using loc by (simp_all add: usageOf_def)
  have total: "sum_by (\<lambda>q. qn_product q = j) qn_quantity (sk_quants db')
      = sum_by (\<lambda>q. qn_product q = j) qn_quantity (sk_quants db)"
    using sum_by_upsert [of "\<lambda>a b. a = j"] by (simp add: q)
  have hand: "onHandInternal p db' = onHandInternal p db
      + (if usageOf dst db = ''internal'' then qty else 0) - (if usageOf src db = ''internal'' then qty else 0)"
    using sum_by_upsert [of "\<lambda>a b. a = p \<and> usageOf b db = ''internal''"] by (simp add: onHand_sum u q)
  have same: "onHandInternal p db1 = onHandInternal p db'" by (simp add: onHand_sum u q1)
  have r2: "find_product p db2 = Some (r\<lparr>pr_qty_available := onHandInternal p db'\<rparr>)"
  proof -
    have "find_product p db1 = Some r" using assms(1) by (simp add: find_product_def db1_def)
    then show ?thesis by (simp add: db2_def refreshProductOnHand_def find_update_product same)
  qed
  have "\<exists>r'. find_product p db' = Some r' \<and> pr_qty_available r' = onHandInternal p db'
         \<and> pr_quantity_svl r' - pr_quantity_svl r = onHandInternal p db' - onHandInternal p db"
  proof (cases "(usageOf src db = ''internal'') = (usageOf dst db = ''internal'')")
    case True
    then have "db' = db2" using not_valued [of src db2 dst] by (simp add: e u)
    with True r2 hand show ?thesis by simp
  next
    case False
    with find_valued [OF r2, of src dst qty company cost] assms(2)
    obtain r' where "find_product p db' = Some r'" "pr_qty_available r' = onHandInternal p db'"
      "pr_quantity_svl r' = pr_quantity_svl r + (if usageOf dst db = ''internal'' then qty else - qty)"
      by (auto simp: e u)
    with False hand show ?thesis by auto
  qed
  with total show ?thesis by (simp add: db'_def [symmetric] Let_def)
qed

theorem moves_conserve_stock_witness:
  "let db = \<lparr>sk_quants = [], sk_locations = [(4, Some ''supplier''), (8, Some ''internal'')],
       sk_products = [\<lparr>pr_id = 7, pr_categ = None, pr_cost_method = Some ''fifo'', pr_standard_price = 0,
         pr_quantity_svl = 0, pr_value_svl = 0, pr_qty_available = 0\<rparr>],
       sk_layers = [], sk_next_layer = 1, sk_categories = [], sk_accounts = [], sk_journals = [],
       sk_moves = [], sk_next_move = 1, sk_lines = []\<rparr>;
     db' = applyMove 7 4 8 3000000 1 2500000 0 db
   in sum_by (\<lambda>q. qn_product q = 7) qn_quantity (sk_quants db') = 0 \<and> onHandInternal 7 db' = 3000000"
proof -
  define r where "r = \<lparr>pr_id = 7, pr_categ = None, pr_cost_method = Some ''fifo'', pr_standard_price = 0,
         pr_quantity_svl = 0, pr_value_svl = 0, pr_qty_available = 0\<rparr>"
  define db where "db = \<lparr>sk_quants = [], sk_locations = [(4, Some ''supplier''), (8, Some ''internal'')],
       sk_products = [r], sk_layers = [], sk_next_layer = 1, sk_categories = [], sk_accounts = [],
       sk_journals = [], sk_moves = [], sk_next_move = 1, sk_lines = []\<rparr>"
  have f: "find_product 7 db = Some r" by (simp add: find_product_def db_def r_def)
  have "sum_by (\<lambda>q. qn_product q = 7) qn_quantity (sk_quants (applyMove 7 4 8 3000000 1 2500000 0 db)) = 0"
    using moves_conserve_stock [OF f, of 3000000 4 8 1 2500000 0 7] by (simp add: Let_def db_def)
  moreover have "onHandInternal 7 (applyMove 7 4 8 3000000 1 2500000 0 db) = 3000000"
    unfolding db_def r_def by code_simp
  ultimately show ?thesis by (simp add: db_def r_def Let_def)
qed

subsection \<open>The books of the stock\<close>

abbreviation lsum :: "int \<Rightarrow> (layer \<Rightarrow> int) \<Rightarrow> layer list \<Rightarrow> int" where
  "lsum p \<equiv> sum_by (\<lambda>l. ly_product l = p)"

definition layer_ok :: "layer \<Rightarrow> bool" where
  "layer_ok l \<longleftrightarrow> 0 \<le> ly_remaining_qty l \<and> (ly_remaining_qty l = 0 \<longrightarrow> ly_remaining_value l = 0)"

definition product_ok :: "layer list \<Rightarrow> product \<Rightarrow> bool" where
  "product_ok ls r \<longleftrightarrow>
     pr_quantity_svl r = lsum (pr_id r) ly_quantity ls \<and> pr_value_svl r = lsum (pr_id r) ly_value ls
     \<and> (method_of r = ''fifo'' \<longrightarrow> pr_quantity_svl r = lsum (pr_id r) ly_remaining_qty ls
          \<and> pr_value_svl r = lsum (pr_id r) ly_remaining_value ls)"

definition ledger_ok :: "gl_line list \<Rightarrow> bool" where
  "ledger_ok ls \<longleftrightarrow> (\<forall>m \<in> gl_move ` set ls. sum_by (\<lambda>l. gl_move l = m) gl_debit ls = sum_by (\<lambda>l. gl_move l = m) gl_credit ls)"

definition books_ok :: "stock_db \<Rightarrow> bool" where
  "books_ok db \<longleftrightarrow> distinct (map pr_id (sk_products db)) \<and> (\<forall>r \<in> set (sk_products db). product_ok (sk_layers db) r)
     \<and> (\<forall>l \<in> set (sk_layers db). layer_ok l) \<and> ledger_ok (sk_lines db)"

lemma ledger_iff: "ledger_ok ls \<longleftrightarrow>
    (\<forall>m. sum_by (\<lambda>l. gl_move l = m) gl_debit ls = sum_by (\<lambda>l. gl_move l = m) gl_credit ls)"
proof -
  have "sum_by (\<lambda>l. gl_move l = m) f ls = 0" if "m \<notin> gl_move ` set ls" for m and f :: "gl_line \<Rightarrow> int"
    using that by (induction ls) auto
  then show ?thesis by (metis ledger_ok_def)
qed

lemma ledger_append: "ledger_ok ls \<Longrightarrow> ledger_ok [a, b] \<Longrightarrow> ledger_ok (ls @ [a, b])"
  by (simp add: ledger_iff del: sum_by_simps(2))

lemma post_ledger: "ledger_ok (sk_lines db) \<Longrightarrow> ledger_ok (sk_lines (postValuationEntry lid p u v inc c db))"
proof -
  have two: "ledger_ok [l1, l2]"
    if "gl_move l1 = gl_move l2" "gl_debit l1 = gl_credit l2" "gl_credit l1 = gl_debit l2" for l1 l2
    using that by (simp add: ledger_ok_def)
  assume "ledger_ok (sk_lines db)"
  then show ?thesis by (simp add: postValuationEntry_def Let_def ledger_append two)
qed

lemma post_layers:
  "\<exists>g. sk_layers (postValuationEntry lid p u v inc c db) = map (\<lambda>l. l\<lparr>ly_move := g l\<rparr>) (sk_layers db)"
proof -
  have "\<exists>g. ls = map (\<lambda>l. l\<lparr>ly_move := g l\<rparr>) ls" for ls :: "layer list"
    by (rule exI [of _ ly_move]) simp
  moreover have "\<exists>g. set_layer_move lid m ls = map (\<lambda>l. l\<lparr>ly_move := g l\<rparr>) ls" for m ls
    by (rule exI [of _ "\<lambda>l. if ly_id l = lid then Some m else ly_move l"]) (auto simp: set_layer_move_def)
  ultimately show ?thesis by (simp add: postValuationEntry_def Let_def)
qed

lemma product_ok_moved: "product_ok (map (\<lambda>l. l\<lparr>ly_move := g l\<rparr>) ls) r = product_ok ls r"
  by (simp add: product_ok_def sum_by_map)

lemma layers_ok_moved: "(\<forall>l \<in> set (map (\<lambda>l. l\<lparr>ly_move := g l\<rparr>) ls). layer_ok l) = (\<forall>l \<in> set ls. layer_ok l)"
  by (auto simp: layer_ok_def)

text \<open>The part of the books the journal entry does not touch, and the entry on top of it.\<close>

lemma books_post: "books_ok (postValuationEntry lid p u v inc c db) = books_ok db" if "ledger_ok (sk_lines db)"
proof -
  obtain g where g: "sk_layers (postValuationEntry lid p u v inc c db) = map (\<lambda>l. l\<lparr>ly_move := g l\<rparr>) (sk_layers db)"
    using post_layers by metis
  show ?thesis
    unfolding books_ok_def g layers_ok_moved product_ok_moved
    using that post_ledger [OF that] by simp
qed

lemma books_posted: "books_ok db \<Longrightarrow> books_ok (postValuationEntry lid p u v inc c db)"
  using books_post [of db] by (simp add: books_ok_def [of db])

lemma cdiv_mult_self: "0 < b \<Longrightarrow> cdiv (a * b) b = a"
  by (simp add: cdiv_def sgn_mult abs_mult mult.commute [of "sgn a"] sgn_mult_abs)

lemma fifo_walk_ok:
  assumes "fifo_walk p n ls = (ls', left, v)" and "0 \<le> n"
    and "\<forall>l \<in> set ls. layer_ok l \<and> in_int64 (ly_remaining_value l)"
  shows "lsum j ly_quantity ls' = lsum j ly_quantity ls \<and> lsum j ly_value ls' = lsum j ly_value ls
    \<and> lsum j ly_remaining_qty ls' = lsum j ly_remaining_qty ls - (if j = p then n - left else 0)
    \<and> lsum j ly_remaining_value ls' = lsum j ly_remaining_value ls - (if j = p then v else 0)
    \<and> (\<forall>l \<in> set ls'. layer_ok l) \<and> left = max 0 (n - lsum p ly_remaining_qty ls)"
  using assms
proof (induction p n ls arbitrary: ls' left v rule: fifo_walk.induct)
  case (1 p n)
  then show ?case by simp
next
  case (2 p n l ls)
  have nonneg: "0 \<le> lsum p ly_remaining_qty xs" if "\<forall>l \<in> set xs. layer_ok l" for p xs
    using that by (induction xs) (auto simp: layer_ok_def)
  show ?case
  proof (cases "ly_product l = p \<and> ly_remaining_qty l > 0 \<and> n > 0")
    case True
    define t where "t = min (ly_remaining_qty l) n"
    define portion where "portion = wrap64 (cdiv (ly_remaining_value l * t) (ly_remaining_qty l))"
    obtain a b c where w: "fifo_walk p (n - t) ls = (a, b, c)" by (metis prod_cases3)
    have eqs: "ls' = l\<lparr>ly_remaining_qty := ly_remaining_qty l - t,
        ly_remaining_value := ly_remaining_value l - portion\<rparr> # a" "left = b" "v = portion + c"
      using 2(3) True w by (simp_all add: t_def [symmetric] portion_def [symmetric] Let_def)
    have all: "portion = ly_remaining_value l" if "t = ly_remaining_qty l"
      using that True 2(5) by (simp add: portion_def wrap64_id cdiv_mult_self)
    have ih: "lsum j ly_quantity a = lsum j ly_quantity ls \<and> lsum j ly_value a = lsum j ly_value ls
      \<and> lsum j ly_remaining_qty a = lsum j ly_remaining_qty ls - (if j = p then n - t - b else 0)
      \<and> lsum j ly_remaining_value a = lsum j ly_remaining_value ls - (if j = p then c else 0)
      \<and> (\<forall>l \<in> set a. layer_ok l) \<and> b = max 0 (n - t - lsum p ly_remaining_qty ls)"
      using 2(1) [OF True t_def refl w _ ] 2(5) True by (simp add: t_def)
    show ?thesis
      using ih all True 2(5) nonneg [of ls p] by (auto simp: eqs layer_ok_def t_def)
  next
    case False
    obtain a b c where w: "fifo_walk p n ls = (a, b, c)" by (metis prod_cases3)
    have eqs: "ls' = l # a" "left = b" "v = c" using 2(3) False w by simp_all
    have ih: "lsum j ly_quantity a = lsum j ly_quantity ls \<and> lsum j ly_value a = lsum j ly_value ls
      \<and> lsum j ly_remaining_qty a = lsum j ly_remaining_qty ls - (if j = p then n - b else 0)
      \<and> lsum j ly_remaining_value a = lsum j ly_remaining_value ls - (if j = p then c else 0)
      \<and> (\<forall>l \<in> set a. layer_ok l) \<and> b = max 0 (n - lsum p ly_remaining_qty ls)"
      using 2(2) [OF False w] 2(4,5) by simp
    show ?thesis using ih False 2(4,5) nonneg [of ls p] by (auto simp: eqs layer_ok_def)
  qed
qed

definition same_sums :: "int \<Rightarrow> layer list \<Rightarrow> layer list \<Rightarrow> bool" where
  "same_sums j ls ls' \<longleftrightarrow> lsum j ly_quantity ls' = lsum j ly_quantity ls \<and> lsum j ly_value ls' = lsum j ly_value ls
    \<and> lsum j ly_remaining_qty ls' = lsum j ly_remaining_qty ls
    \<and> lsum j ly_remaining_value ls' = lsum j ly_remaining_value ls"

lemma product_ok_same: "same_sums (pr_id r) ls ls' \<Longrightarrow> product_ok ls r \<Longrightarrow> product_ok ls' r"
  by (auto simp: product_ok_def same_sums_def)

lemma find_product_in: "find_product p db = Some r \<Longrightarrow> r \<in> set (sk_products db) \<and> pr_id r = p"
  by (auto simp: find_product_def find_Some_iff)

text \<open>An operation on one product: its own books are shown in order, the sums of the others stay.\<close>

lemma books_update:
  assumes "books_ok db" and "find_product p db = Some r" and "pr_id (f r) = p"
    and "product_ok ls (f r)" and "\<And>j. j \<noteq> p \<Longrightarrow> same_sums j (sk_layers db) ls"
    and "\<forall>l \<in> set ls. layer_ok l"
    and "sk_products db' = map (\<lambda>r. if pr_id r = p then f r else r) (sk_products db)"
    and "sk_layers db' = ls" and "sk_lines db' = sk_lines db"
  shows "books_ok db'"
proof -
  note r = find_product_in [OF assms(2)]
  have d: "distinct (map pr_id (sk_products db))" using assms(1) by (simp add: books_ok_def)
  have only: "x = r" if "x \<in> set (sk_products db)" "pr_id x = p" for x
    using d r that by (auto simp: distinct_map dest: inj_onD)
  have ids: "map pr_id (sk_products db') = map pr_id (sk_products db)"
    using only r assms(3) by (auto simp: assms(7))
  have "product_ok ls x" if "x \<in> set (sk_products db')" for x
  proof -
    from that obtain y where y: "y \<in> set (sk_products db)" "x = (if pr_id y = p then f y else y)"
      by (auto simp: assms(7))
    show ?thesis
    proof (cases "pr_id y = p")
      case True
      then show ?thesis using only [OF y(1) True] y(2) assms(4) by simp
    next
      case False
      have "product_ok (sk_layers db) y" using assms(1) y(1) by (simp add: books_ok_def)
      then show ?thesis using product_ok_same [OF assms(5) [OF False]] y(2) False by simp
    qed
  qed
  then show ?thesis using d assms(1,6) by (simp add: books_ok_def ids assms(8,9))
qed

lemma books_outline: "books_ok db \<Longrightarrow> sk_layers db' = sk_layers db \<Longrightarrow> sk_products db' = sk_products db
    \<Longrightarrow> sk_lines db' = sk_lines db \<Longrightarrow> books_ok db'"
  by (simp add: books_ok_def)

lemma insert_layer_layers [simp]: "sk_layers (snd (insert_layer p q c v a b u d k db)) = sk_layers db
    @ [\<lparr>ly_id = sk_next_layer db, ly_product = p, ly_quantity = q, ly_unit_cost = c,
             ly_value = v, ly_remaining_qty = a, ly_remaining_value = b, ly_usage = u,
             ly_description = d, ly_company = nullif0 k, ly_move = None\<rparr>]"
  by (simp add: insert_layer_def)

lemma mulMicros_zero [simp]: "mulMicros 0 c = 0"
  by (simp add: mulMicros_def wrap64_def)

lemma incoming_ok:
  assumes "books_ok db" and "find_product p db = Some r" and "0 < qty"
  shows "books_ok (value_incoming p r u qty c cost db)"
proof -
  define unit where "unit = (if cost \<ge> 0 then cost else pr_standard_price r)"
  define val where "val = mulMicros qty unit"
  define fifo where "fifo = (method_of r = ''fifo'')"
  define f :: "product \<Rightarrow> product" where "f = (\<lambda>x. if method_of r = ''average'' \<and> pr_quantity_svl r + qty > 0
             then x\<lparr>pr_quantity_svl := pr_quantity_svl r + qty, pr_value_svl := pr_value_svl r + val,
                pr_standard_price := divMicros (pr_value_svl r + val) (pr_quantity_svl r + qty)\<rparr>
             else x\<lparr>pr_quantity_svl := pr_quantity_svl r + qty, pr_value_svl := pr_value_svl r + val\<rparr>)"
  define db1 where "db1 = snd (insert_layer p qty unit val (if fifo then qty else 0) (if fifo then val else 0) u ''in'' c db)"
  have e: "value_incoming p r u qty c cost db
      = postValuationEntry (sk_next_layer db) p u val True c (update_product p f db1)"
    unfolding value_incoming_def Let_def split_beta unit_def val_def fifo_def f_def db1_def insert_layer_fst
    by (rule refl)
  have r: "pr_id r = p" "product_ok (sk_layers db) r"
    using find_product_in [OF assms(2)] assms(1) by (auto simp: books_ok_def)
  have "books_ok (update_product p f db1)"
  proof (rule books_update [OF assms(1,2), where f = f and ls = "sk_layers db1"])
    show "pr_id (f r) = p" using r(1) by (simp add: f_def)
    show "product_ok (sk_layers db1) (f r)"
      using r by (auto simp: product_ok_def db1_def f_def fifo_def method_of_def)
    show "\<forall>l \<in> set (sk_layers db1). layer_ok l"
      using assms(1,3) by (auto simp: books_ok_def db1_def layer_ok_def)
  qed (simp_all add: db1_def same_sums_def)
  then show ?thesis by (simp only: e books_posted)
qed

abbreviation representable :: "stock_db \<Rightarrow> bool" where
  "representable db \<equiv> \<forall>l \<in> set (sk_layers db). in_int64 (ly_remaining_value l)"

lemma outgoing_ok:
  assumes "books_ok db" and "representable db" and "find_product p db = Some r" and "0 < qty"
    and "method_of r = ''fifo'' \<Longrightarrow> qty \<le> pr_quantity_svl r"
  shows "books_ok (value_outgoing p r u qty c db)"
proof -
  define fifo where "fifo = (method_of r = ''fifo'')"
  obtain ls left taken where w: "fifo_walk p qty (sk_layers db) = (ls, left, taken)" by (metis prod_cases3)
  define ls0 where "ls0 = (if fifo then ls else sk_layers db)"
  define out where "out = (let left = (if fifo then left else qty); taken = (if fifo then taken else 0)
    in if left > 0 then taken + mulMicros left (pr_standard_price r) else taken)"
  define f :: "product \<Rightarrow> product" where "f = (\<lambda>x. x\<lparr>pr_quantity_svl := pr_quantity_svl r - qty,
                  pr_value_svl := pr_value_svl r - out\<rparr>)"
  define db1 where "db1 = snd (insert_layer p (- qty) (divMicros out qty) (- out) 0 0 u ''out'' c (db\<lparr>sk_layers := ls0\<rparr>))"
  have e: "value_outgoing p r u qty c db
      = postValuationEntry (sk_next_layer db) p u out False c (update_product p f db1)"
    by (simp add: value_outgoing_def Let_def split_beta w fifo_def out_def ls0_def db1_def f_def)
  have r: "pr_id r = p" "product_ok (sk_layers db) r"
    using find_product_in [OF assms(3)] assms(1) by (auto simp: books_ok_def)
  have walk: "lsum j ly_quantity ls = lsum j ly_quantity (sk_layers db) \<and> lsum j ly_value ls = lsum j ly_value (sk_layers db)
    \<and> lsum j ly_remaining_qty ls = lsum j ly_remaining_qty (sk_layers db) - (if j = p then qty - left else 0)
    \<and> lsum j ly_remaining_value ls = lsum j ly_remaining_value (sk_layers db) - (if j = p then taken else 0)
    \<and> (\<forall>l \<in> set ls. layer_ok l) \<and> left = max 0 (qty - lsum p ly_remaining_qty (sk_layers db))" for j
    using fifo_walk_ok [OF w, of j] assms(1,2,4) by (simp add: books_ok_def)
  have covered: "left = 0 \<and> out = taken" if fifo
    using walk [of p] that r assms(5) by (auto simp: fifo_def product_ok_def out_def Let_def)
  have ok0: "\<forall>l \<in> set ls0. layer_ok l" using walk assms(1) by (simp add: ls0_def books_ok_def)
  have "books_ok (update_product p f db1)"
  proof (rule books_update [OF assms(1,3), where f = f and ls = "sk_layers db1"])
    show "pr_id (f r) = p" using r(1) by (simp add: f_def)
    show "product_ok (sk_layers db1) (f r)"
      using r walk [of p] covered
      by (auto simp: product_ok_def db1_def f_def fifo_def method_of_def ls0_def)
    show "\<forall>l \<in> set (sk_layers db1). layer_ok l" using ok0 by (auto simp: db1_def layer_ok_def)
    show "same_sums j (sk_layers db) (sk_layers db1)" if "j \<noteq> p" for j
      using that walk [of j] by (simp add: db1_def same_sums_def ls0_def)
  qed (simp_all add: db1_def)
  then show ?thesis by (simp only: e books_posted)
qed

lemma add_shares_sums:
  "lsum j ly_quantity (add_shares p ss ls) = lsum j ly_quantity ls"
  "lsum j ly_value (add_shares p ss ls) = lsum j ly_value ls"
  "lsum j ly_remaining_qty (add_shares p ss ls) = lsum j ly_remaining_qty ls"
  by (induction p ss ls rule: add_shares.induct) simp_all

lemma add_shares_value:
  "length ss = length (filter (open_layer p) ls) \<Longrightarrow>
   lsum j ly_remaining_value (add_shares p ss ls) = lsum j ly_remaining_value ls + (if j = p then sum_list ss else 0)"
proof (induction p ss ls rule: add_shares.induct)
  case (3 p s ss l ls)
  then show ?case by (cases "open_layer p l") (auto simp: open_layer_def)
qed simp_all

lemma add_shares_layers: "\<forall>l \<in> set ls. layer_ok l \<Longrightarrow> \<forall>l \<in> set (add_shares p ss ls). layer_ok l"
proof (induction p ss ls rule: add_shares.induct)
  case (3 p s ss l ls)
  then show ?case by (cases "open_layer p l") (simp_all add: open_layer_def layer_ok_def)
qed simp_all

lemma with_remainder_sum: "ss \<noteq> [] \<Longrightarrow> sum_list (with_remainder v ss) = v"
proof -
  assume ne: "ss \<noteq> []"
  have "sum_list ss = sum_list (butlast ss) + last ss"
    by (subst append_butlast_last_id [OF ne, symmetric]) simp
  with ne show ?thesis by (simp add: with_remainder_def)
qed

lemma with_remainder_length [simp]: "length (with_remainder v ss) = length ss"
  by (cases ss) (auto simp: with_remainder_def)

lemma open_sum:
  "\<forall>l \<in> set ls. layer_ok l \<Longrightarrow> sum_list (map ly_remaining_qty (filter (open_layer p) ls)) = lsum p ly_remaining_qty ls"
  by (induction ls) (auto simp: open_layer_def layer_ok_def)

lemma push_value_ok:
  assumes "\<forall>l \<in> set ls. layer_ok l"
  shows "lsum j ly_quantity (push_value p v ls) = lsum j ly_quantity ls
    \<and> lsum j ly_value (push_value p v ls) = lsum j ly_value ls
    \<and> lsum j ly_remaining_qty (push_value p v ls) = lsum j ly_remaining_qty ls
    \<and> lsum j ly_remaining_value (push_value p v ls)
        = lsum j ly_remaining_value ls + (if j = p \<and> 0 < lsum p ly_remaining_qty ls then v else 0)
    \<and> (\<forall>l \<in> set (push_value p v ls). layer_ok l)"
proof (cases "0 < lsum p ly_remaining_qty ls")
  case True
  let ?opens = "filter (open_layer p) ls" and ?t = "lsum p ly_remaining_qty ls"
  have "?opens \<noteq> []" using open_sum [OF assms, of p] True by auto
  then have s: "sum_list (with_remainder v (shares v ?t ?opens)) = v"
    by (intro with_remainder_sum) (simp add: shares_def)
  have e: "push_value p v ls = add_shares p (with_remainder v (shares v ?t ?opens)) ls"
    using True by (simp add: push_value_def Let_def open_sum [OF assms])
  have "length (with_remainder v (shares v ?t ?opens)) = length ?opens" by (simp add: shares_def)
  from add_shares_value [OF this, of j] show ?thesis
    using True assms add_shares_layers [OF assms] by (simp add: e s add_shares_sums)
next
  case False
  then show ?thesis using assms by (simp add: push_value_def Let_def open_sum)
qed

definition fifo_has :: "int \<Rightarrow> int \<Rightarrow> stock_db \<Rightarrow> bool" where
  "fifo_has p qty db = (case find_product p db of
     None \<Rightarrow> True | Some r \<Rightarrow> method_of r = ''fifo'' \<longrightarrow> qty \<le> pr_quantity_svl r)"

text \<open>One operation of the engine. A FIFO product is asked to hold what is moved out, and something
  for a revaluation to be spread over.\<close>

inductive stock_step :: "stock_db \<Rightarrow> stock_db \<Rightarrow> bool" where
  step_move: "representable db \<Longrightarrow> usageOf src db = ''internal'' \<longrightarrow> fifo_has p qty db \<Longrightarrow>
    stock_step db (applyMove p src dst qty company cost lot db)"
| step_reserve: "stock_step db (snd (reserve p loc qty lot db))"
| step_release: "stock_step db (release_stock p loc qty lot db)"
| step_revalue: "fifo_has p 1 db \<Longrightarrow> stock_step db (snd (revalue p v descr company db))"

lemma revalue_ok:
  assumes "books_ok db" and "fifo_has p 1 db"
  shows "books_ok (snd (revalue p v d c db))"
proof (cases "v = 0 \<or> find_product p db = None")
  case True
  then show ?thesis using assms(1) by (auto simp: revalue_def)
next
  case False
  then obtain r where r: "find_product p db = Some r" by auto
  define fifo where "fifo = (method_of r = ''fifo'')"
  define db1 where "db1 = snd (insert_layer p 0 0 v 0 0 ''revaluation'' d c db)"
  define f :: "product \<Rightarrow> product" where "f = (\<lambda>x. if method_of r = ''average'' \<and> pr_quantity_svl r > 0
     then x\<lparr>pr_value_svl := pr_value_svl r + v, pr_standard_price := divMicros (pr_value_svl r + v) (pr_quantity_svl r)\<rparr>
     else x\<lparr>pr_value_svl := pr_value_svl r + v\<rparr>)"
  define db2 where "db2 = update_product p f db1"
  define ls where "ls = (if fifo then push_value p v (sk_layers db1) else sk_layers db1)"
  have e: "snd (revalue p v d c db) = (if fifo then db2\<lparr>sk_layers := push_value p v (sk_layers db2)\<rparr> else db2)"
    using False by (simp add: revalue_def r Let_def split_beta fifo_def db1_def f_def db2_def)
  have pr: "pr_id r = p" "product_ok (sk_layers db) r"
    using find_product_in [OF r] assms(1) by (auto simp: books_ok_def)
  have ok1: "\<forall>l \<in> set (sk_layers db1). layer_ok l"
    using assms(1) by (auto simp: books_ok_def db1_def layer_ok_def)
  note push = push_value_ok [OF ok1, of _ p v]
  have "fifo \<Longrightarrow> 0 < lsum p ly_remaining_qty (sk_layers db)"
    using assms(2) pr by (simp add: fifo_has_def r fifo_def product_ok_def)
  then have own: "product_ok ls (f r)"
    using pr push [of p] by (auto simp: product_ok_def ls_def db1_def f_def fifo_def method_of_def)
  have other: "same_sums j (sk_layers db) ls" if "j \<noteq> p" for j
    using that push [of j] by (simp add: same_sums_def ls_def db1_def)
  show ?thesis
  proof (rule books_update [OF assms(1) r, where f = f and ls = ls])
    show "pr_id (f r) = p" using pr(1) by (simp add: f_def)
    show "product_ok ls (f r)" by (rule own)
    show "\<And>j. j \<noteq> p \<Longrightarrow> same_sums j (sk_layers db) ls" by (rule other)
    show "\<forall>l \<in> set ls. layer_ok l" using push [of p] ok1 by (simp add: ls_def)
  qed (simp_all add: e db2_def ls_def db1_def)
qed

lemma find_product_cong: "sk_products db' = sk_products db \<Longrightarrow> find_product p db' = find_product p db"
  by (simp add: find_product_def)

lemma fifo_has_refresh: "fifo_has p q (refreshProductOnHand j db) = fifo_has p q db"
proof -
  have "find_product p (refreshProductOnHand j db) = (if p = j
      then map_option (\<lambda>r. r\<lparr>pr_qty_available := onHandInternal j db\<rparr>) (find_product j db) else find_product p db)"
    unfolding refreshProductOnHand_def by (rule find_update_product) simp
  then show ?thesis by (simp add: fifo_has_def method_of_def split: option.splits)
qed

lemma fifo_has_moved: "fifo_has p q (refreshProductOnHand j (upsertDelta a b c d e (upsertDelta a' b' c' d' e' db))) = fifo_has p q db"
  by (simp add: fifo_has_refresh) (simp add: fifo_has_def find_product_def)

lemma valuate_ok:
  assumes "books_ok db" and "representable db" and "usageOf src db = ''internal'' \<longrightarrow> fifo_has p qty db"
  shows "books_ok (valuateMove p src dst qty c cost db)"
  using assms incoming_ok outgoing_ok
  by (auto simp: valuateMove_def Let_def fifo_has_def split: option.splits)

lemma refresh_ok:
  assumes "books_ok db"
  shows "books_ok (refreshProductOnHand p (upsertDelta a b c d e (upsertDelta a' b' c' d' e' db)))" (is "books_ok ?db'")
proof -
  obtain g where g: "sk_products ?db' = map g (sk_products db)" and g': "\<And>r. \<exists>q. g r = r\<lparr>pr_qty_available := q\<rparr>"
  proof (rule that)
    let ?g = "\<lambda>r. if pr_id r = p then r\<lparr>pr_qty_available :=
      onHandInternal p (upsertDelta a b c d e (upsertDelta a' b' c' d' e' db))\<rparr> else r"
    show "sk_products ?db' = map ?g (sk_products db)" by (simp add: refreshProductOnHand_def)
    show "\<exists>q. ?g r = r\<lparr>pr_qty_available := q\<rparr>" for r
      by (cases "pr_id r = p") (auto intro: exI [of _ "pr_qty_available r"])
  qed
  have ok: "product_ok ls (g r) = product_ok ls r" for ls r
    using g' [of r] by (auto simp: product_ok_def method_of_def)
  have ids: "pr_id \<circ> g = pr_id" by (rule ext) (metis comp_apply g' product.select_convs(1) product.surjective product.update_convs(7))
  from assms show ?thesis
    unfolding books_ok_def g map_map ids by (simp add: ok refreshProductOnHand_def)
qed

lemma step_ok: "stock_step db db' \<Longrightarrow> books_ok db \<Longrightarrow> books_ok db'"
proof (induction rule: stock_step.induct)
  case (step_move db src p qty dst company cost lot)
  let ?db = "refreshProductOnHand p (upsertDelta p dst qty company lot (upsertDelta p src (- qty) company lot db))"
  have "books_ok (valuateMove p src dst qty company cost ?db)"
  proof (rule valuate_ok)
    show "usageOf src ?db = ''internal'' \<longrightarrow> fifo_has p qty ?db"
      using step_move(2) by (simp add: fifo_has_moved) (simp add: usageOf_def refreshProductOnHand_def)
  qed (use step_move refresh_ok in \<open>simp_all add: refreshProductOnHand_def\<close>)
  then show ?case using step_move by (simp add: applyMove_def)
next
  case (step_revalue p db v descr company)
  then show ?case by (simp add: revalue_ok)
qed (simp_all add: reserve_def release_stock_def update_quants_def Let_def books_ok_def)

interpretation stock_run: kept stock_step books_ok
  by unfold_locales (rule step_ok)


definition fifo_shop :: stock_db where
  "fifo_shop = \<lparr>sk_quants = [], sk_locations = [(4, Some ''supplier''), (8, Some ''internal''), (9, Some ''customer'')],
     sk_products = [\<lparr>pr_id = 7, pr_categ = None, pr_cost_method = Some ''fifo'', pr_standard_price = 1000000,
       pr_quantity_svl = 0, pr_value_svl = 0, pr_qty_available = 0\<rparr>],
     sk_layers = [], sk_next_layer = 1, sk_categories = [],
     sk_accounts = [(21, ''1400'', 1), (22, ''1410'', 1), (23, ''5000'', 1)], sk_journals = [(3, ''STJ'', 1)],
     sk_moves = [], sk_next_move = 1, sk_lines = []\<rparr>"


text \<open>Outside those guards the books come apart: a FIFO product with nothing left takes a revaluation
  that no layer will ever release, and a delivery beyond what it holds leaves its layers above the
  cached quantity.\<close>

lemma fifo_books_come_apart:
  "map (\<lambda>r. (pr_value_svl r, lsum 7 ly_remaining_value (sk_layers d))) (sk_products d) = [(5, 0)]"
  if "d = snd (revalue 7 5 ''freight'' 1 fifo_shop)"
  unfolding that fifo_shop_def by code_simp

lemma fifo_shortfall_counts_twice:
  "map (\<lambda>r. (pr_quantity_svl r, lsum 7 ly_remaining_qty (sk_layers d))) (sk_products d) = [(2000000, 3000000)]"
  if "d = applyMove 7 4 8 3000000 1 2500000 0 (applyMove 7 8 9 1000000 1 (-1) 0 fifo_shop)"
  unfolding that fifo_shop_def by code_simp

end
