(* ===== verification/TaxHelpers.thy ===== *)
theory TaxHelpers
  imports TaxEngine Domain
begin

section \<open>Taxes of a line: core/TaxHelpers.hpp\<close>

text \<open>
  The glue between the tax table and the engine. The JSON parser is the parameter \<open>parse\<close>
  (\<open>None\<close> for the exception it throws). The amounts of a line come as JSON numbers; they are given
  here as the amounts in millionths \<open>Money::fromJson\<close> makes of them, and the three results are
  amounts too: the way back into JSON is the caller's.
\<close>

record tax_row =
  tr_id :: int
  tr_name :: string
  tr_amount :: string
  tr_type :: string
  tr_include :: bool
  tr_active :: bool
  tr_account :: "int option"

definition tax_of_row :: "tax_row \<Rightarrow> taxdef result" where
  "tax_of_row r = bindE (parse_money (tr_amount r) 0) (\<lambda>rate.
     Inr \<lparr>td_id = tr_id r, td_name = tr_name r, td_rate = rate, td_amountType = tr_type r,
       td_priceInclude = tr_include r, td_sequence = tr_id r\<rparr>)"

fun load_ids :: "tax_row list \<Rightarrow> json list \<Rightarrow> taxdef list result" where
  "load_ids rows [] = Inr []"
| "load_ids rows (j # js) =
     (case j of
        JInt i \<Rightarrow> (case find (\<lambda>r. tr_id r = wrap32 i \<and> tr_active r) rows of
            None \<Rightarrow> load_ids rows js
          | Some r \<Rightarrow> bindE (tax_of_row r) (\<lambda>t. bindE (load_ids rows js) (\<lambda>ts. Inr (t # ts))))
      | _ \<Rightarrow> load_ids rows js)"

definition loadTaxes :: "(string \<Rightarrow> json option) \<Rightarrow> tax_row list \<Rightarrow> string \<Rightarrow> taxdef list result" where
  "loadTaxes parse rows txt =
     (if txt = '''' then Inr []
      else case parse txt of
          Some (JArray ids) \<Rightarrow> load_ids rows ids
        | _ \<Rightarrow> Inr [])"

record line_vals =
  lv_quantity :: "int option"
  lv_price_unit :: "int option"
  lv_discount :: "int option"
  lv_tax_ids :: "string option"

definition value_or :: "int option \<Rightarrow> int \<Rightarrow> money" where
  "value_or v d = fromMicros (case v of None \<Rightarrow> d | Some x \<Rightarrow> x) 0"

definition line_precision :: "int \<Rightarrow> int option \<Rightarrow> int" where
  "line_precision linePrecision account = (if linePrecision > 0 then linePrecision
     else case account of None \<Rightarrow> 2 | Some d \<Rightarrow> d)"

definition applyLineTaxes ::
  "(string \<Rightarrow> json option) \<Rightarrow> tax_row list \<Rightarrow> int option \<Rightarrow> line_vals \<Rightarrow> int \<Rightarrow> (int \<times> int \<times> int) result" where
  "applyLineTaxes parse rows account vals linePrecision =
     (let dp = line_precision linePrecision account in
      bindE (loadTaxes parse rows (case lv_tax_ids vals of None \<Rightarrow> ''[]'' | Some t \<Rightarrow> t)) (\<lambda>taxes.
      bindE (compute_tax (value_or (lv_price_unit vals) 0) (value_or (lv_quantity vals) ONE)
               (value_or (lv_discount vals) 0) taxes dp) (\<lambda>res.
        Inr (micros (baseExcluded res), micros (totalTax res), micros (totalIncluded res)))))"

text \<open>A tax taken out of use, an unknown id and a malformed column leave the line computable.\<close>

lemma applyLineTaxes_untaxed:
  assumes "\<forall>t. lv_tax_ids vals = Some t \<longrightarrow> (case parse t of Some (JArray ids) \<Rightarrow> False | _ \<Rightarrow> True)"
    and "lv_tax_ids vals \<noteq> None"
  shows "applyLineTaxes parse rows account vals p = bindE (compute_tax (value_or (lv_price_unit vals) 0)
      (value_or (lv_quantity vals) ONE) (value_or (lv_discount vals) 0) [] (line_precision p account))
    (\<lambda>res. Inr (micros (baseExcluded res), micros (totalTax res), micros (totalIncluded res)))"
proof -
  obtain t where t: "lv_tax_ids vals = Some t" using assms(2) by blast
  with assms(1) have "loadTaxes parse rows t = Inr []"
    by (auto simp: loadTaxes_def split: option.splits json.splits)
  with t show ?thesis by (simp add: applyLineTaxes_def Let_def)
qed

text \<open>What a line is written back with foots.\<close>

lemma compute_foots:
  assumes "compute_tax pu q d ts dp = Inr r"
  shows "micros (totalIncluded r) = micros (baseExcluded r) + micros (totalTax r)"
proof (cases "ts = []")
  case True
  with assms show ?thesis by (auto simp: compute_tax_def Let_def exn_simps)
next
  case False
  then show ?thesis by (rule compute_tax_phases [OF assms]) (auto dest: finish_totals_sound)
qed

lemma applyLineTaxes_foots:
  "applyLineTaxes parse rows account vals p = Inr (s, t, u) \<Longrightarrow> u = s + t"
  by (auto simp: applyLineTaxes_def Let_def exn_simps compute_foots)

end
