(* ===== verification/Dates.thy ===== *)
theory Dates
  imports Prelude
begin

section \<open>Calendar dates as PostgreSQL computes them\<close>

text \<open>
  The repository leaves month lengths and leap years to PostgreSQL and hands dates over as
  \<open>YYYY-MM-DD\<close>. A date is its year, month and day; the order is the one of the text, which for
  four-digit years is the one of time. Only the operations the rental modules ask the database for
  are defined: the neighbours of a day, \<open>date_trunc('month', d)\<close>, months added to the first of a
  month, the last day of a month, and \<open>date - integer\<close>.
\<close>

datatype date = Date (dt_year: int) (dt_month: int) (dt_day: int)

instantiation date :: linorder
begin

definition less_eq_date :: "date \<Rightarrow> date \<Rightarrow> bool" where
  "less_eq_date a b \<longleftrightarrow> dt_year a < dt_year b \<or> dt_year a = dt_year b \<and>
     (dt_month a < dt_month b \<or> dt_month a = dt_month b \<and> dt_day a \<le> dt_day b)"

definition less_date :: "date \<Rightarrow> date \<Rightarrow> bool" where
  "less_date a b \<longleftrightarrow> dt_year a < dt_year b \<or> dt_year a = dt_year b \<and>
     (dt_month a < dt_month b \<or> dt_month a = dt_month b \<and> dt_day a < dt_day b)"

instance
  by intro_classes (auto simp: less_eq_date_def less_date_def date.expand)

end

lemma date_le [simp]: "Date y m d \<le> Date y' m' d' \<longleftrightarrow> y < y' \<or> y = y' \<and> (m < m' \<or> m = m' \<and> d \<le> d')"
  by (simp add: less_eq_date_def)

lemma date_less [simp]: "Date y m d < Date y' m' d' \<longleftrightarrow> y < y' \<or> y = y' \<and> (m < m' \<or> m = m' \<and> d < d')"
  by (simp add: less_date_def)

definition leap :: "int \<Rightarrow> bool" where
  "leap y \<longleftrightarrow> y mod 4 = 0 \<and> (y mod 100 \<noteq> 0 \<or> y mod 400 = 0)"

definition days_in_month :: "int \<Rightarrow> int \<Rightarrow> int" where
  "days_in_month y m = (if m = 2 then if leap y then 29 else 28
     else if m = 4 \<or> m = 6 \<or> m = 9 \<or> m = 11 then 30 else 31)"

definition valid_date :: "date \<Rightarrow> bool" where
  "valid_date d \<longleftrightarrow> 1 \<le> dt_month d \<and> dt_month d \<le> 12 \<and> 1 \<le> dt_day d
     \<and> dt_day d \<le> days_in_month (dt_year d) (dt_month d)"

definition month_first :: "date \<Rightarrow> date" where
  "month_first d = Date (dt_year d) (dt_month d) 1"

definition month_last :: "date \<Rightarrow> date" where
  "month_last d = Date (dt_year d) (dt_month d) (days_in_month (dt_year d) (dt_month d))"

text \<open>Months counted through, so that months are added by adding.\<close>

definition month_index :: "date \<Rightarrow> int" where
  "month_index d = dt_year d * 12 + (dt_month d - 1)"

definition of_index :: "int \<Rightarrow> int \<Rightarrow> date" where
  "of_index k d = Date (k div 12) (k mod 12 + 1) d"

definition add_months :: "int \<Rightarrow> date \<Rightarrow> date" where
  "add_months n d = of_index (month_index d + n) (dt_day d)"

definition next_day :: "date \<Rightarrow> date" where
  "next_day d =
     (if dt_day d < days_in_month (dt_year d) (dt_month d) then Date (dt_year d) (dt_month d) (dt_day d + 1)
      else add_months 1 (month_first d))"

definition prev_day :: "date \<Rightarrow> date" where
  "prev_day d = (if 1 < dt_day d then Date (dt_year d) (dt_month d) (dt_day d - 1)
     else month_last (add_months (- 1) (month_first d)))"

fun add_days :: "nat \<Rightarrow> date \<Rightarrow> date" where
  "add_days 0 d = d"
| "add_days (Suc n) d = add_days n (next_day d)"

fun less_days :: "nat \<Rightarrow> date \<Rightarrow> date" where
  "less_days 0 d = d"
| "less_days (Suc n) d = less_days n (prev_day d)"

definition minus_days :: "int \<Rightarrow> date \<Rightarrow> date" where
  "minus_days n d = (if 0 \<le> n then less_days (nat n) d else add_days (nat (- n)) d)"

text \<open>\<open>to_char(d, 'YYYY-MM-DD')\<close>, and a number that orders dates as their texts do.\<close>

definition pad_zero :: "nat \<Rightarrow> int \<Rightarrow> string" where
  "pad_zero w v = (let s = int_to_string v in replicate (w - length s) (CHR ''0'') @ s)"

definition date_text :: "date \<Rightarrow> string" where
  "date_text d = pad_zero 4 (dt_year d) @ ''-'' @ pad_zero 2 (dt_month d) @ ''-'' @ pad_zero 2 (dt_day d)"

definition date_key :: "date \<Rightarrow> int" where
  "date_key d = (dt_year d * 12 + dt_month d) * 32 + dt_day d"

subsection \<open>Lemmas\<close>

lemma days_in_month_bounds: "28 \<le> days_in_month y m" "days_in_month y m \<le> 31"
  by (simp_all add: days_in_month_def)

lemma index_simps [simp]:
  "month_index (of_index k d) = k" "dt_day (of_index k d) = d" "month_index (Date y m d) = y * 12 + (m - 1)"
  by (simp_all add: month_index_def of_index_def)

lemma of_index_month: "1 \<le> m \<Longrightarrow> m \<le> 12 \<Longrightarrow> of_index (y * 12 + (m - 1)) d = Date y m d"
  by (simp add: of_index_def)

lemma of_index_self: "1 \<le> dt_month d \<Longrightarrow> dt_month d \<le> 12 \<Longrightarrow> of_index (month_index d) (dt_day d) = d"
  by (cases d) (simp add: month_index_def of_index_month)

lemma index_month_range [simp]: "1 \<le> dt_month (of_index k d)" "dt_month (of_index k d) \<le> 12"
  by (simp_all add: of_index_def)

lemma month_first_simps [simp]:
  "month_first (of_index k d) = of_index k 1" "month_first (Date y m d) = Date y m 1"
  "add_months n (of_index k d) = of_index (k + n) d" "add_months n (Date y m d) = of_index (y * 12 + (m - 1) + n) d"
  by (simp_all add: month_first_def of_index_def add_months_def month_index_def)

lemma month_index_less: "month_index a < month_index b \<Longrightarrow> 1 \<le> dt_month a \<Longrightarrow> dt_month a \<le> 12 \<Longrightarrow>
    1 \<le> dt_month b \<Longrightarrow> dt_month b \<le> 12 \<Longrightarrow> a < b"
  by (cases a; cases b; simp; arith)

lemma valid_first: "valid_date (of_index k 1)"
  using days_in_month_bounds(1) [of "dt_year (of_index k 1)" "dt_month (of_index k 1)"]
  by (simp add: valid_date_def)

lemma next_day_cases:
  assumes "valid_date d"
  obtains (within) y m a where "d = Date y m a" "a < days_in_month y m" "next_day d = Date y m (a + 1)"
  | (over) y m where "d = Date y m (days_in_month y m)" "next_day d = of_index (y * 12 + m) 1"
proof (cases d)
  case (Date y m a)
  show ?thesis
  proof (cases "a < days_in_month y m")
    case True
    then show ?thesis using Date within by (simp add: next_day_def)
  next
    case False
    then have "a = days_in_month y m" using assms by (simp add: Date valid_date_def)
    then show ?thesis using Date over by (simp add: next_day_def)
  qed
qed

lemma valid_next_day: "valid_date d \<Longrightarrow> valid_date (next_day d)"
  by (cases rule: next_day_cases, assumption) (simp_all add: valid_first, simp add: valid_date_def)

lemma next_day_greater: "valid_date d \<Longrightarrow> d < next_day d"
  by (cases rule: next_day_cases, assumption) (simp, intro month_index_less, simp_all add: valid_date_def)

lemma prev_next_day:
  assumes "valid_date d"
  shows "prev_day (next_day d) = d"
  using assms
proof (cases rule: next_day_cases)
  case (within y m a)
  with assms show ?thesis by (simp add: prev_day_def valid_date_def)
next
  case (over y m)
  have "of_index (y * 12 + m - 1) 1 = Date y m 1"
    using of_index_month [of m y 1] assms over(1) by (simp add: valid_date_def add_diff_eq)
  with over show ?thesis by (simp add: prev_day_def month_last_def)
qed

lemma add_days_within: "1 \<le> d \<Longrightarrow> d + int n \<le> days_in_month y m \<Longrightarrow> add_days n (Date y m d) = Date y m (d + int n)"
  by (induction n arbitrary: d) (simp_all add: next_day_def)

lemma valid_add_days: "valid_date d \<Longrightarrow> valid_date (add_days n d)"
  by (induction n arbitrary: d) (simp_all add: valid_next_day)

lemma add_days_Suc: "add_days (Suc n) d = next_day (add_days n d)"
  by (induction n arbitrary: d) simp_all

lemma add_days_mono: "valid_date d \<Longrightarrow> k \<le> n \<Longrightarrow> add_days k d \<le> add_days n d"
proof (induction n)
  case (Suc n)
  have "add_days n d < add_days (Suc n) d"
    unfolding add_days_Suc by (rule next_day_greater [OF valid_add_days [OF Suc(2)]])
  with Suc show ?case by (cases "k = Suc n") auto
qed simp

lemma add_days_greater: "valid_date d \<Longrightarrow> 0 < n \<Longrightarrow> d < add_days n d"
  using add_days_mono [of d 1 n] next_day_greater [of d] by simp

lemma date_key_mono: "valid_date a \<Longrightarrow> valid_date b \<Longrightarrow> date_key a < date_key b \<longleftrightarrow> a < b"
  using days_in_month_bounds(2) [of "dt_year a" "dt_month a"] days_in_month_bounds(2) [of "dt_year b" "dt_month b"]
  by (cases a; cases b) (auto simp: date_key_def valid_date_def)

text \<open>Going back undoes going forward.\<close>

lemma minus_add_days: "valid_date d \<Longrightarrow> minus_days (int n) (add_days n d) = d"
proof -
  have "valid_date d \<Longrightarrow> less_days n (add_days n d) = d"
  proof (induction n arbitrary: d)
    case (Suc n)
    have "less_days (Suc n) (add_days (Suc n) d) = less_days n (prev_day (next_day (add_days n d)))"
      by (simp only: less_days.simps add_days_Suc)
    also have "\<dots> = d" using Suc by (simp add: prev_next_day valid_add_days)
    finally show ?case .
  qed simp
  then show "valid_date d \<Longrightarrow> ?thesis" by (simp add: minus_days_def)
qed

end
