(* ===== verification/Rental.thy ===== *)
theory Rental
  imports Dates Domain
begin

section \<open>Rental: tables, triggers and unit states (modules/rental)\<close>

text \<open>
  The tables of the rental module with the triggers and constraints its migrations put on them
  (\<open>RentalMigrations.cpp\<close>), the events (\<open>RentalEvents.cpp\<close>) and the states of the units
  (\<open>RentalUnits.cpp\<close>). A write of a contract line runs the BEFORE triggers in the order PostgreSQL
  fires them, that of their names, then the constraints, then the trigger that derives the state of
  the unit. The booking calendar and the billing run stand in their own theories.
\<close>

record rental_unit =
  ru_id :: int
  ru_code :: string
  ru_name :: string
  ru_type :: "int option"
  ru_state :: string
  ru_company :: int
  ru_active :: bool

record unit_type =
  ut_id :: int
  ut_name :: string
  ut_code :: string
  ut_default_rate :: "int option"

record rental_contract =
  rt_id :: int
  rt_name :: string
  rt_partner :: int
  rt_state :: string
  rt_start :: "date option"
  rt_billing_period :: string
  rt_interval :: "int option"
  rt_unit :: "string option"
  rt_whole_month :: bool
  rt_due_on_move_in :: bool
  rt_currency :: "int option"
  rt_journal :: "int option"
  rt_company :: int

record rental_line =
  ln_id :: int
  ln_contract :: "int option"
  ln_unit :: "int option"
  ln_partner :: "int option"
  ln_start :: date
  ln_end :: "date option"
  ln_price :: int
  ln_discount :: int
  ln_taxes :: string
  ln_anchor :: int
  ln_next :: "date option"
  ln_invoiced :: "date option"
  ln_mode :: string
  ln_interval :: "int option"
  ln_bunit :: "string option"
  ln_lead_days :: int
  ln_span :: string
  ln_state :: string
  ln_company :: int

record invoice_link =
  lk_move :: int
  lk_contract :: "int option"
  lk_line :: int
  lk_start :: date
  lk_end :: date
  lk_amount :: int
  lk_company :: int

record rental_event =
  re_type :: string
  re_contract :: "int option"
  re_line :: "int option"
  re_unit :: "int option"
  re_partner :: "int option"
  re_user :: "int option"
  re_summary :: string
  re_detail :: json
  re_ref_model :: "string option"
  re_ref :: "int option"
  re_company :: int

record rental_move =
  rm_id :: int
  rm_name :: string
  rm_date :: date
  rm_due :: date
  rm_journal :: int
  rm_partner :: int
  rm_company :: int
  rm_currency :: "int option"
  rm_narration :: string
  rm_origin :: string
  rm_contract :: "int option"
  rm_untaxed :: int
  rm_tax :: int
  rm_total :: int
  rm_residual :: int

record rental_move_line =
  ml_move :: int
  ml_account :: int
  ml_journal :: int
  ml_company :: int
  ml_name :: string
  ml_partner :: "int option"
  ml_debit :: int
  ml_credit :: int
  ml_tax_line :: "int option"

record rental_db =
  rd_units :: "rental_unit list"
  rd_types :: "unit_type list"
  rd_partners :: "(int \<times> string) list"
  rd_contracts :: "rental_contract list"
  rd_next_contract :: int
  rd_lines :: "rental_line list"
  rd_next_line :: int
  rd_links :: "invoice_link list"
  rd_events :: "rental_event list"
  rd_moves :: "rental_move list"
  rd_next_move :: int
  rd_move_lines :: "rental_move_line list"

definition find_unit :: "int \<Rightarrow> rental_db \<Rightarrow> rental_unit option" where
  "find_unit u db = find (\<lambda>r. ru_id r = u) (rd_units db)"

definition find_contract :: "int \<Rightarrow> rental_db \<Rightarrow> rental_contract option" where
  "find_contract c db = find (\<lambda>r. rt_id r = c) (rd_contracts db)"

definition live_line :: "rental_line \<Rightarrow> bool" where
  "live_line l \<longleftrightarrow> ln_state l = ''pending'' \<or> ln_state l = ''active''"

subsection \<open>The billing period of a contract\<close>

definition derive_period :: "rental_contract \<Rightarrow> rental_contract" where
  "derive_period c = (let p = rt_billing_period c; fixed = (\<lambda>n u. c\<lparr>rt_interval := Some n, rt_unit := Some u\<rparr>) in
     if p = ''daily'' then fixed 1 ''day''
     else if p = ''weekly'' then fixed 1 ''week''
     else if p = ''monthly'' then fixed 1 ''month''
     else if p = ''quarterly'' then fixed 3 ''month''
     else if p = ''biannual'' then fixed 6 ''month''
     else if p = ''yearly'' then fixed 1 ''year''
     else if p = ''custom'' then
       c\<lparr>rt_interval := Some (max 1 (min 366 (case rt_interval c of None \<Rightarrow> 1 | Some n \<Rightarrow> n))),
         rt_unit := Some (case rt_unit c of None \<Rightarrow> ''month'' | Some u \<Rightarrow> u)\<rparr>
     else c\<lparr>rt_interval := None, rt_unit := None\<rparr>)"

text \<open>\<open>rental_next_period(from, anchor, interval, unit)\<close>.\<close>

definition rental_next_period :: "date \<Rightarrow> int \<Rightarrow> int \<Rightarrow> string \<Rightarrow> date" where
  "rental_next_period d anchor interval unit =
     (let n = max 1 interval in
      if unit = ''day'' then add_days (nat n) d
      else if unit = ''week'' then add_days (nat (n * 7)) d
      else let n = (if unit = ''year'' then n * 12 else n);
               a = max 1 (min 31 anchor);
               start = add_months n (month_first d)
           in min (add_days (nat (a - 1)) start) (month_last start))"

subsection \<open>The triggers on a contract line\<close>

definition ranges_meet :: "date \<Rightarrow> date option \<Rightarrow> date \<Rightarrow> date option \<Rightarrow> bool" where
  "ranges_meet s e s' e' \<longleftrightarrow> (case e' of None \<Rightarrow> True | Some d \<Rightarrow> s \<le> d) \<and> (case e of None \<Rightarrow> True | Some d \<Rightarrow> s' \<le> d)"

definition range_ok :: "date \<Rightarrow> date option \<Rightarrow> bool" where
  "range_ok s e \<longleftrightarrow> (case e of None \<Rightarrow> True | Some d \<Rightarrow> s \<le> d)"

definition partner_matches :: "rental_db \<Rightarrow> rental_line \<Rightarrow> rental_line result" where
  "partner_matches db l = (case ln_contract l of
       None \<Rightarrow> Inr l
     | Some c \<Rightarrow> (case (find_contract c db, ln_partner l) of
           (Some r, Some p) \<Rightarrow> if rt_partner r \<noteq> p
             then Inl (RuntimeError ''line partner does not match contract partner'') else Inr l
         | _ \<Rightarrow> Inr l))"

definition default_next_period :: "rental_line \<Rightarrow> rental_line" where
  "default_next_period l =
     (if ln_next l = None \<and> ln_mode l = ''recurring'' then l\<lparr>ln_next := Some (ln_start l)\<rparr> else l)"

definition clashes :: "rental_line \<Rightarrow> rental_line \<Rightarrow> bool" where
  "clashes n l \<longleftrightarrow> ln_unit l = ln_unit n \<and> ln_id l \<noteq> ln_id n \<and> live_line l
     \<and> ranges_meet (ln_start l) (ln_end l) (ln_start n) (ln_end n)"

definition check_overlap :: "rental_db \<Rightarrow> rental_line \<Rightarrow> rental_line result" where
  "check_overlap db n =
     (if ln_unit n = None \<or> \<not> live_line n then Inr n
      else if \<not> range_ok (ln_start n) (ln_end n)
      then Inl (RuntimeError ''range lower bound must be less than or equal to range upper bound'')
      else if list_ex (clashes n) (rd_lines db) then Inl (RuntimeError ''This unit is already let'')
      else Inr n)"

definition inherit_partner :: "rental_db \<Rightarrow> rental_line \<Rightarrow> rental_line" where
  "inherit_partner db l = (case (ln_partner l, ln_contract l) of
       (None, Some c) \<Rightarrow> (case find_contract c db of None \<Rightarrow> l | Some r \<Rightarrow> l\<lparr>ln_partner := Some (rt_partner r)\<rparr>)
     | _ \<Rightarrow> l)"

definition line_checks :: "rental_db \<Rightarrow> rental_line \<Rightarrow> rental_line result" where
  "line_checks db l =
     (if ln_partner l = None then Inl (RuntimeError ''null value in column partner_id'')
      else if ln_mode l \<notin> set [''manual'', ''recurring'', ''oneoff'', ''ondemand'']
        \<or> ln_state l \<notin> set [''pending'', ''active'', ''ended'', ''cancelled'']
        \<or> ln_span l \<notin> set [''contract'', ''month'', ''dates''] \<or> ln_anchor l < 1 \<or> 31 < ln_anchor l
        \<or> (case ln_interval l of None \<Rightarrow> False | Some n \<Rightarrow> n < 1 \<or> 366 < n)
        \<or> (case ln_bunit l of None \<Rightarrow> False | Some u \<Rightarrow> u \<notin> set [''day'', ''week'', ''month'', ''year''])
      then Inl (RuntimeError ''violates check constraint'')
      else if (case ln_unit l of None \<Rightarrow> False | Some u \<Rightarrow> find_unit u db = None)
        \<or> (case ln_contract l of None \<Rightarrow> False | Some c \<Rightarrow> find_contract c db = None)
      then Inl (RuntimeError ''violates foreign key constraint'')
      else Inr l)"

text \<open>\<open>rental_unit_derive_state\<close>: operator facts win, everything else follows from the live lines.\<close>

definition derived_state :: "int \<Rightarrow> rental_line list \<Rightarrow> string" where
  "derived_state u ls = (let own = filter (\<lambda>l. ln_unit l = Some u \<and> live_line l) ls in
     if list_ex (\<lambda>l. ln_state l = ''active'') own then ''occupied''
     else if list_ex (\<lambda>l. ln_state l = ''pending'') own then ''reserved'' else ''available'')"

definition operator_fact :: "string \<Rightarrow> bool" where
  "operator_fact s \<longleftrightarrow> s = ''maintenance'' \<or> s = ''retired''"

definition derive_state :: "int option \<Rightarrow> rental_db \<Rightarrow> rental_db" where
  "derive_state u db = (case u of None \<Rightarrow> db | Some u \<Rightarrow>
     db\<lparr>rd_units := map (\<lambda>r. if ru_id r = u \<and> \<not> operator_fact (ru_state r)
       then r\<lparr>ru_state := derived_state u (rd_lines db)\<rparr> else r) (rd_units db)\<rparr>)"

subsection \<open>Writing a contract line\<close>

definition insert_line :: "rental_line \<Rightarrow> rental_db \<Rightarrow> (int \<times> rental_db) result" where
  "insert_line row db =
     (let l0 = row\<lparr>ln_id := rd_next_line db\<rparr> in
      bindE (partner_matches db l0) (\<lambda>l1.
      bindE (check_overlap db (default_next_period l1)) (\<lambda>l2.
      bindE (line_checks db (inherit_partner db l2)) (\<lambda>l3.
        Inr (ln_id l3, derive_state (ln_unit l3)
          (db\<lparr>rd_lines := rd_lines db @ [l3], rd_next_line := rd_next_line db + 1\<rparr>))))))"

definition put_line :: "rental_line \<Rightarrow> rental_line list \<Rightarrow> rental_line list" where
  "put_line n = map (\<lambda>l. if ln_id l = ln_id n then n else l)"

text \<open>The overlap trigger fires only when the statement names one of its columns
  (\<open>UPDATE OF unit_id, date_start, date_end, state\<close>).\<close>

definition update_line :: "bool \<Rightarrow> rental_line \<Rightarrow> rental_line \<Rightarrow> rental_db \<Rightarrow> rental_db result" where
  "update_line names old row db =
      bindE (partner_matches db row) (\<lambda>l1.
      bindE (if names then check_overlap db l1 else Inr l1) (\<lambda>l2.
      bindE (line_checks db (inherit_partner db l2)) (\<lambda>l3.
        Inr (derive_state (ln_unit l3) (derive_state (ln_unit old)
          (db\<lparr>rd_lines := put_line l3 (rd_lines db)\<rparr>))))))"

definition delete_line :: "rental_line \<Rightarrow> rental_db \<Rightarrow> rental_db" where
  "delete_line old db = derive_state (ln_unit old)
     (db\<lparr>rd_lines := filter (\<lambda>l. ln_id l \<noteq> ln_id old) (rd_lines db)\<rparr>)"

subsection \<open>Events\<close>

record event_ctx =
  ec_contract :: int
  ec_line :: int
  ec_unit :: int
  ec_partner :: int
  ec_user :: int
  ec_company :: int
  ec_ref_model :: string
  ec_ref :: int

definition positive :: "int \<Rightarrow> int option" where
  "positive v = (if v > 0 then Some v else None)"

definition emit :: "string \<Rightarrow> event_ctx \<Rightarrow> string \<Rightarrow> json \<Rightarrow> rental_db \<Rightarrow> rental_db" where
  "emit kind c summary detail db = db\<lparr>rd_events := rd_events db @
     [\<lparr>re_type = kind, re_contract = positive (ec_contract c), re_line = positive (ec_line c),
       re_unit = positive (ec_unit c), re_partner = positive (ec_partner c), re_user = positive (ec_user c),
       re_summary = summary, re_detail = detail,
       re_ref_model = (if ec_ref_model c = '''' then None else Some (ec_ref_model c)),
       re_ref = positive (ec_ref c), re_company = ec_company c\<rparr>]\<rparr>"

subsection \<open>The states of the units\<close>

definition stateOf :: "int \<Rightarrow> rental_db \<Rightarrow> string" where
  "stateOf u db = (case find_unit u db of None \<Rightarrow> '''' | Some r \<Rightarrow> ru_state r)"

definition recompute :: "int \<Rightarrow> rental_db \<Rightarrow> rental_db" where
  "recompute u db = (if u \<le> 0 then db else derive_state (Some u) db)"

definition recomputeAll :: "rental_db \<Rightarrow> int \<times> rental_db" where
  "recomputeAll db = (let db' = fold (\<lambda>r. derive_state (Some (ru_id r))) (rd_units db) db in
     (int (length (filter (\<lambda>(a, b). ru_state a \<noteq> ru_state b) (zip (rd_units db) (rd_units db')))), db'))"

definition unit_label :: "int \<Rightarrow> rental_db \<Rightarrow> string" where
  "unit_label u db = (case find_unit u db of None \<Rightarrow> int_to_string u | Some r \<Rightarrow> ru_code r)"

definition emitTransition :: "int \<Rightarrow> string \<Rightarrow> string \<Rightarrow> event_ctx \<Rightarrow> rental_db \<Rightarrow> rental_db" where
  "emitTransition u before after c db =
     (if u \<le> 0 \<or> before = after then db
      else let c = c\<lparr>ec_unit := u\<rparr>; code = unit_label u db;
               detail = JObject [(''from'', JString before), (''to'', JString after)]
           in if after = ''occupied'' \<or> after = ''reserved''
              then emit ''unit_assigned'' c (''Unit '' @ code @ '' '' @ after @ '' (was '' @ before @ '')'') detail db
              else if after = ''available''
              then emit ''unit_released'' c (''Unit '' @ code @ '' released (was '' @ before @ '')'') detail db
              else db)"

definition set_unit_state :: "int \<Rightarrow> string \<Rightarrow> rental_db \<Rightarrow> rental_db" where
  "set_unit_state u s db =
     db\<lparr>rd_units := map (\<lambda>r. if ru_id r = u then r\<lparr>ru_state := s\<rparr> else r) (rd_units db)\<rparr>"

definition openMaintenance :: "int \<Rightarrow> string \<Rightarrow> event_ctx \<Rightarrow> rental_db \<Rightarrow> rental_db" where
  "openMaintenance u reason c db =
     (let before = stateOf u db in
      if before = '''' then db
      else emit ''maintenance_opened'' (c\<lparr>ec_unit := u\<rparr>)
             (''Unit taken out of service'' @ (if reason = '''' then '''' else '': '' @ reason))
             (JObject [(''from'', JString before), (''reason'', JString reason)])
             (set_unit_state u ''maintenance'' db))"

definition closeMaintenance :: "int \<Rightarrow> event_ctx \<Rightarrow> rental_db \<Rightarrow> rental_db" where
  "closeMaintenance u c db =
     (if stateOf u db \<noteq> ''maintenance'' then db
      else let db1 = recompute u (set_unit_state u ''available'' db); after = stateOf u db1
           in emit ''maintenance_closed'' (c\<lparr>ec_unit := u\<rparr>) (''Unit returned to service as '' @ after)
                (JObject [(''to'', JString after)]) db1)"

subsection \<open>Two tenants never hold one unit at one time\<close>

definition no_overlap :: "rental_line list \<Rightarrow> bool" where
  "no_overlap ls \<longleftrightarrow> (\<forall>l \<in> set ls. live_line l \<and> ln_unit l \<noteq> None \<longrightarrow> \<not> list_ex (clashes l) ls)"

definition units_derived :: "rental_db \<Rightarrow> bool" where
  "units_derived db \<longleftrightarrow> (\<forall>r \<in> set (rd_units db). operator_fact (ru_state r) \<or> ru_state r = derived_state (ru_id r) (rd_lines db))"

definition rental_ok :: "rental_db \<Rightarrow> bool" where
  "rental_ok db \<longleftrightarrow> distinct (map ln_id (rd_lines db)) \<and> (\<forall>l \<in> set (rd_lines db). ln_id l < rd_next_line db)
     \<and> no_overlap (rd_lines db) \<and> units_derived db \<and> (\<forall>r \<in> set (rd_units db). 0 < ru_id r)"

text \<open>The part of a line the two invariants look at.\<close>

definition let_key :: "rental_line \<Rightarrow> int \<times> int option \<times> date \<times> date option \<times> string" where
  "let_key l = (ln_id l, ln_unit l, ln_start l, ln_end l, ln_state l)"

lemma let_key_clashes: "let_key a = let_key a' \<Longrightarrow> let_key b = let_key b' \<Longrightarrow> clashes a b = clashes a' b'"
  by (simp add: let_key_def clashes_def live_line_def)

lemma let_key_live: "let_key a = let_key a' \<Longrightarrow> live_line a = live_line a'"
  by (simp add: let_key_def live_line_def)

lemma clashes_sym: "live_line a \<Longrightarrow> clashes a b \<Longrightarrow> clashes b a"
  by (auto simp: clashes_def ranges_meet_def split: option.splits)

lemma no_overlap_pairs:
  "no_overlap ls \<longleftrightarrow> (\<forall>a \<in> set ls. \<forall>b \<in> set ls. live_line a \<and> ln_unit a \<noteq> None \<longrightarrow> \<not> clashes a b)"
  by (auto simp: no_overlap_def list_ex_iff)

lemma no_overlap_subset: "no_overlap ls \<Longrightarrow> set ls' \<subseteq> set ls \<Longrightarrow> no_overlap ls'"
  by (auto simp: no_overlap_pairs)

text \<open>Adding a line the trigger let through to lines that do not carry its id.\<close>

lemma no_overlap_add:
  assumes "no_overlap ls" and "live_line n \<and> ln_unit n \<noteq> None \<longrightarrow> \<not> list_ex (clashes n) ls"
    and "set ls' \<subseteq> insert n (set ls)"
  shows "no_overlap ls'"
proof -
  have n: "\<not> clashes n b" if "live_line n" "ln_unit n \<noteq> None" "b \<in> set ls" for b
    using assms(2) that by (auto simp: list_ex_iff)
  have self: "\<not> clashes n n" by (simp add: clashes_def)
  have "\<not> clashes a n" if "a \<in> set ls" "live_line a" "ln_unit a \<noteq> None" for a
  proof
    assume c: "clashes a n"
    then have "live_line n" "ln_unit n \<noteq> None" using that(3) by (auto simp: clashes_def)
    with n [OF _ _ that(1)] clashes_sym [OF that(2) c] show False by simp
  qed
  moreover have "a = n \<or> a \<in> set ls" if "a \<in> set ls'" for a using that assms(3) by auto
  ultimately show ?thesis using n self assms(1) unfolding no_overlap_pairs by metis
qed

lemma check_overlap_Inr:
  "check_overlap db l = Inr l' \<Longrightarrow> l' = l \<and> (live_line l \<and> ln_unit l \<noteq> None \<longrightarrow> \<not> list_ex (clashes l) (rd_lines db)
     \<and> range_ok (ln_start l) (ln_end l))"
  by (auto simp: check_overlap_def split: if_splits)

lemma checks_same:
  "partner_matches db l = Inr l' \<Longrightarrow> l' = l"
  "line_checks db l = Inr l' \<Longrightarrow> l' = l"
  by (auto simp: partner_matches_def line_checks_def split: option.splits if_splits)

lemma inherit_key [simp]: "let_key (inherit_partner db l) = let_key l"
  by (auto simp: inherit_partner_def let_key_def split: option.splits)

lemma default_key [simp]: "let_key (default_next_period l) = let_key l"
  by (simp add: default_next_period_def let_key_def)

lemma list_ex_clashes_key: "let_key a = let_key b \<Longrightarrow> list_ex (clashes a) ls = list_ex (clashes b) ls"
  by (simp add: list_ex_iff let_key_clashes [of a b])

text \<open>What the trigger leaves of the units.\<close>

lemma derive_state_frame [simp]:
  "map ru_id (rd_units (derive_state u db)) = map ru_id (rd_units db)"
  "rd_lines (derive_state u db) = rd_lines db" "rd_next_line (derive_state u db) = rd_next_line db"
  "rd_contracts (derive_state u db) = rd_contracts db" "rd_links (derive_state u db) = rd_links db"
  "rd_moves (derive_state u db) = rd_moves db" "rd_next_move (derive_state u db) = rd_next_move db"
  "rd_move_lines (derive_state u db) = rd_move_lines db"
  by (simp_all add: derive_state_def split: option.splits)

lemma derive_state_ids [simp]: "(\<forall>r \<in> set (rd_units (derive_state u db)). 0 < ru_id r) = (\<forall>r \<in> set (rd_units db). 0 < ru_id r)"
proof -
  have e: "(\<forall>r \<in> set rs. 0 < ru_id r) = (\<forall>i \<in> set (map ru_id rs). 0 < i)" for rs by simp
  show ?thesis unfolding e derive_state_frame(1) by (rule refl)
qed

definition derived_but :: "int option set \<Rightarrow> rental_db \<Rightarrow> bool" where
  "derived_but U db \<longleftrightarrow> (\<forall>r \<in> set (rd_units db). Some (ru_id r) \<in> U \<or> operator_fact (ru_state r)
     \<or> ru_state r = derived_state (ru_id r) (rd_lines db))"

lemma derived_but_derive: "derived_but (insert u U) db \<Longrightarrow> derived_but U (derive_state u db)"
  by (auto simp: derived_but_def derive_state_def split: option.splits)

lemma derived_but_empty: "derived_but {} db = units_derived db"
  by (simp add: derived_but_def units_derived_def)

lemma derived_state_cong:
  assumes "filter (\<lambda>l. ln_unit l = Some u) ls = filter (\<lambda>l. ln_unit l = Some u) ls'"
  shows "derived_state u ls = derived_state u ls'"
proof -
  have "filter (\<lambda>l. ln_unit l = Some u \<and> live_line l) xs = filter live_line (filter (\<lambda>l. ln_unit l = Some u) xs)" for xs
    by (induction xs) auto
  then show ?thesis unfolding derived_state_def by (simp only: assms)
qed

lemma derived_but_lines:
  assumes "units_derived db" and "rd_units db' = rd_units db"
    and "\<And>u. Some u \<notin> U \<Longrightarrow> filter (\<lambda>l. ln_unit l = Some u) (rd_lines db') = filter (\<lambda>l. ln_unit l = Some u) (rd_lines db)"
  shows "derived_but U db'"
  using assms by (fastforce simp: units_derived_def derived_but_def intro: derived_state_cong [symmetric])

lemma insert_line_ok:
  assumes "rental_ok db" and "insert_line row db = Inr (i, db')"
  shows "rental_ok db'"
proof -
  obtain n where over: "check_overlap db (default_next_period (row\<lparr>ln_id := rd_next_line db\<rparr>)) = Inr n"
    and db': "db' = derive_state (ln_unit (inherit_partner db n))
      (db\<lparr>rd_lines := rd_lines db @ [inherit_partner db n], rd_next_line := rd_next_line db + 1\<rparr>)"
    using assms(2) by (auto simp: insert_line_def Let_def exn_simps dest!: checks_same)
  define m where "m = inherit_partner db n"
  note o = check_overlap_Inr [OF over]
  have k: "let_key m = let_key n" by (simp add: m_def)
  have id: "ln_id m = rd_next_line db"
    using k o default_key [of "row\<lparr>ln_id := rd_next_line db\<rparr>"] by (simp add: let_key_def)
  have free: "live_line m \<and> ln_unit m \<noteq> None \<longrightarrow> \<not> list_ex (clashes m) (rd_lines db)"
    using o k let_key_live [OF k] list_ex_clashes_key [OF k] by (simp add: let_key_def)
  have ok: "no_overlap (rd_lines db)" "units_derived db" "distinct (map ln_id (rd_lines db))"
    "\<forall>l \<in> set (rd_lines db). ln_id l < rd_next_line db" "\<forall>r \<in> set (rd_units db). 0 < ru_id r"
    using assms(1) by (simp_all add: rental_ok_def)
  have "derived_but {ln_unit m} (db\<lparr>rd_lines := rd_lines db @ [m], rd_next_line := rd_next_line db + 1\<rparr>)"
    by (rule derived_but_lines [OF ok(2)]) simp_all
  then have d: "units_derived db'"
    unfolding derived_but_empty [symmetric] db' m_def by (rule derived_but_derive)
  have lines: "rd_lines db' = rd_lines db @ [m]" "rd_next_line db' = rd_next_line db + 1"
    "\<forall>r \<in> set (rd_units db'). 0 < ru_id r"
    using ok(5) by (simp_all add: db' m_def)
  have "no_overlap (rd_lines db')" by (rule no_overlap_add [OF ok(1) free]) (simp add: lines)
  then show ?thesis using ok(3,4) d id by (auto simp: rental_ok_def lines dest: bspec)
qed

lemma put_line_ids [simp]: "map ln_id (put_line n ls) = map ln_id ls"
  by (induction ls) (auto simp: put_line_def)

lemma put_line_set: "set (put_line n ls) \<subseteq> insert n (set ls)"
  by (auto simp: put_line_def)

lemma put_line_unit:
  assumes "distinct (map ln_id ls)" and "old \<in> set ls" and "ln_id n = ln_id old"
    and "ln_unit n \<noteq> Some u" and "ln_unit old \<noteq> Some u"
  shows "filter (\<lambda>l. ln_unit l = Some u) (put_line n ls) = filter (\<lambda>l. ln_unit l = Some u) ls"
proof -
  have "l = old" if "l \<in> set ls" "ln_id l = ln_id n" for l
    using assms(1-3) that by (auto simp: distinct_map dest: inj_onD)
  with assms(4,5) show ?thesis
    by (induction ls) (auto simp: put_line_def)
qed

text \<open>An update that leaves the columns of the overlap trigger alone cannot create an overlap.\<close>

lemma no_overlap_keyed:
  assumes "no_overlap ls" and "\<And>a. a \<in> set ls' \<Longrightarrow> \<exists>b \<in> set ls. let_key b = let_key a"
  shows "no_overlap ls'"
  unfolding no_overlap_pairs
proof (intro ballI impI)
  fix a b assume ab: "a \<in> set ls'" "b \<in> set ls'" "live_line a \<and> ln_unit a \<noteq> None"
  obtain a' b' where k: "a' \<in> set ls" "let_key a' = let_key a" "b' \<in> set ls" "let_key b' = let_key b"
    using assms(2) ab(1,2) by blast
  then have "live_line a' \<and> ln_unit a' \<noteq> None" using ab(3) let_key_live [OF k(2)] by (simp add: let_key_def)
  then have "\<not> clashes a' b'" using assms(1) k(1,3) by (simp add: no_overlap_pairs)
  then show "\<not> clashes a b" using let_key_clashes [OF k(2,4)] by simp
qed

lemma update_line_ok:
  assumes "rental_ok db" and "update_line names old row db = Inr db'" and "old \<in> set (rd_lines db)"
    and "ln_id row = ln_id old" and "\<not> names \<longrightarrow> let_key row = let_key old"
  shows "rental_ok db'"
proof -
  obtain n where over: "(if names then check_overlap db row else Inr row) = Inr n"
    and db': "db' = derive_state (ln_unit (inherit_partner db n)) (derive_state (ln_unit old)
      (db\<lparr>rd_lines := put_line (inherit_partner db n) (rd_lines db)\<rparr>))"
    using assms(2) by (auto simp: update_line_def exn_simps dest!: checks_same)
  define m where "m = inherit_partner db n"
  have k: "let_key m = let_key row"
    using over check_overlap_Inr [of db row n] by (auto simp: m_def split: if_splits)
  have ok: "no_overlap (rd_lines db)" "units_derived db" "distinct (map ln_id (rd_lines db))"
    "\<forall>l \<in> set (rd_lines db). ln_id l < rd_next_line db" "\<forall>r \<in> set (rd_units db). 0 < ru_id r"
    using assms(1) by (simp_all add: rental_ok_def)
  have id: "ln_id m = ln_id old" using k assms(4) by (simp add: let_key_def)
  have lines: "rd_lines db' = put_line m (rd_lines db)" "rd_next_line db' = rd_next_line db"
    "\<forall>r \<in> set (rd_units db'). 0 < ru_id r"
    using ok(5) by (simp_all add: db' m_def)
  have "derived_but {ln_unit old, ln_unit m} (db\<lparr>rd_lines := put_line m (rd_lines db)\<rparr>)"
    by (rule derived_but_lines [OF ok(2)])
       (use put_line_unit [OF ok(3) assms(3) id] in \<open>simp_all add: eq_commute [of "Some _"]\<close>)
  then have d: "units_derived db'"
    unfolding derived_but_empty [symmetric] db' m_def by (intro derived_but_derive)
  have "no_overlap (rd_lines db')"
  proof (cases names)
    case True
    then have "live_line m \<and> ln_unit m \<noteq> None \<longrightarrow> \<not> list_ex (clashes m) (rd_lines db)"
      using over check_overlap_Inr [of db row n] k let_key_live [OF k] list_ex_clashes_key [OF k]
      by (auto simp: let_key_def)
    then show ?thesis using no_overlap_add [OF ok(1)] put_line_set by (simp add: lines)
  next
    case False
    then have "let_key m = let_key old" using k assms(5) by simp
    then show ?thesis
      by (intro no_overlap_keyed [OF ok(1)]) (use assms(3) put_line_set in \<open>fastforce simp: lines\<close>)
  qed
  moreover have "\<forall>l \<in> set (rd_lines db'). ln_id l < rd_next_line db'"
    using ok(4) id assms(3) put_line_set by (fastforce simp: lines)
  ultimately show ?thesis using ok(3) d by (simp add: rental_ok_def lines)
qed

lemma delete_line_ok:
  assumes "rental_ok db" and "old \<in> set (rd_lines db)"
  shows "rental_ok (delete_line old db)"
proof -
  have ok: "no_overlap (rd_lines db)" "units_derived db" "distinct (map ln_id (rd_lines db))"
    "\<forall>l \<in> set (rd_lines db). ln_id l < rd_next_line db" "\<forall>r \<in> set (rd_units db). 0 < ru_id r"
    using assms(1) by (simp_all add: rental_ok_def)
  have only: "l = old" if "l \<in> set (rd_lines db)" "ln_id l = ln_id old" for l
    using ok(3) assms(2) that by (auto simp: distinct_map dest: inj_onD)
  have "derived_but {ln_unit old} (db\<lparr>rd_lines := filter (\<lambda>l. ln_id l \<noteq> ln_id old) (rd_lines db)\<rparr>)"
    by (rule derived_but_lines [OF ok(2)]) (auto intro!: filter_cong dest: only)
  then have "units_derived (delete_line old db)"
    unfolding derived_but_empty [symmetric] delete_line_def by (rule derived_but_derive)
  moreover have "no_overlap (filter (\<lambda>l. ln_id l \<noteq> ln_id old) (rd_lines db))"
    by (rule no_overlap_subset [OF ok(1)]) auto
  ultimately show ?thesis using ok(3,4,5) by (simp add: rental_ok_def delete_line_def distinct_map_filter)
qed

text \<open>Operations that leave the lines alone.\<close>

lemma rental_ok_units:
  "rental_ok db \<Longrightarrow> rd_lines db' = rd_lines db \<Longrightarrow> rd_next_line db' = rd_next_line db \<Longrightarrow>
   map ru_id (rd_units db') = map ru_id (rd_units db) \<Longrightarrow> units_derived db' \<Longrightarrow> rental_ok db'"
  unfolding rental_ok_def by (metis image_iff list.set_map)

lemma rental_ok_derive:
  assumes "rental_ok db"
  shows "rental_ok (derive_state u db)"
proof -
  have "derived_but {u} db" using assms by (auto simp: rental_ok_def units_derived_def derived_but_def)
  then have "units_derived (derive_state u db)" by (simp add: derived_but_empty [symmetric] derived_but_derive)
  then show ?thesis by (intro rental_ok_units [OF assms]) simp_all
qed

lemma emit_frame [simp]:
  "rd_units (emit k c s d db) = rd_units db" "rd_lines (emit k c s d db) = rd_lines db"
  "rd_next_line (emit k c s d db) = rd_next_line db"
  by (simp_all add: emit_def)

lemma rental_ok_events: "rental_ok (emit k c s d db) = rental_ok db"
  by (simp add: rental_ok_def units_derived_def)

lemma set_unit_state_frame [simp]:
  "rd_lines (set_unit_state u s db) = rd_lines db" "rd_next_line (set_unit_state u s db) = rd_next_line db"
  "map ru_id (rd_units (set_unit_state u s db)) = map ru_id (rd_units db)"
  by (simp_all add: set_unit_state_def)

lemma openMaintenance_ok:
  assumes "rental_ok db"
  shows "rental_ok (openMaintenance u reason c db)"
proof -
  have "units_derived (set_unit_state u ''maintenance'' db)"
    using assms by (auto simp: rental_ok_def set_unit_state_def units_derived_def operator_fact_def)
  then have "rental_ok (set_unit_state u ''maintenance'' db)" by (intro rental_ok_units [OF assms]) simp_all
  then show ?thesis using assms by (simp add: openMaintenance_def Let_def rental_ok_events)
qed

lemma closeMaintenance_ok:
  assumes "rental_ok db"
  shows "rental_ok (closeMaintenance u c db)"
proof (cases "stateOf u db = ''maintenance''")
  case True
  then obtain r where "find_unit u db = Some r" by (cases "find_unit u db") (simp_all add: stateOf_def)
  then have "r \<in> set (rd_units db)" "ru_id r = u" by (auto simp: find_unit_def find_Some_iff)
  then have pos: "\<not> u \<le> 0" using assms by (auto simp: rental_ok_def)
  let ?db = "set_unit_state u ''available'' db"
  have "derived_but {Some u} ?db"
    using assms by (auto simp: derived_but_def rental_ok_def units_derived_def set_unit_state_def)
  then have "units_derived (derive_state (Some u) ?db)" by (simp add: derived_but_empty [symmetric] derived_but_derive)
  then have "rental_ok (derive_state (Some u) ?db)" by (intro rental_ok_units [OF assms]) simp_all
  then show ?thesis using True pos by (simp add: closeMaintenance_def recompute_def Let_def rental_ok_events)
next
  case False
  then show ?thesis using assms by (simp add: closeMaintenance_def)
qed

lemma recomputeAll_ok: "rental_ok db \<Longrightarrow> rental_ok (snd (recomputeAll db))"
proof -
  have "rental_ok db' \<Longrightarrow> rental_ok (fold (\<lambda>r. derive_state (Some (ru_id r))) rs db')" for rs db'
    by (induction rs arbitrary: db') (simp_all add: rental_ok_derive)
  then show "rental_ok db \<Longrightarrow> ?thesis" by (simp add: recomputeAll_def Let_def)
qed

subsection \<open>The billing day does not drift\<close>

definition month_days :: "int \<Rightarrow> int" where
  "month_days k = days_in_month (k div 12) (k mod 12 + 1)"

lemma clamp_to_month:
  assumes "1 \<le> a"
  shows "min (add_days (nat (a - 1)) (of_index k 1)) (month_last (of_index k 1)) = of_index k (min a (month_days k))"
proof -
  let ?y = "k div 12" and ?m = "k mod 12 + 1"
  have last: "month_last (of_index k 1) = Date ?y ?m (days_in_month ?y ?m)"
    by (simp add: month_last_def of_index_def)
  show ?thesis
  proof (cases "a \<le> month_days k")
    case True
    then have "add_days (nat (a - 1)) (of_index k 1) = Date ?y ?m a"
      using add_days_within [of 1 "nat (a - 1)" ?y ?m] assms by (simp add: of_index_def month_days_def)
    with True last show ?thesis by (simp add: of_index_def month_days_def min_def)
  next
    case False
    let ?n = "nat (month_days k - 1)"
    have "add_days ?n (of_index k 1) = Date ?y ?m (month_days k)"
      using add_days_within [of 1 ?n ?y ?m] days_in_month_bounds(1) [of ?y ?m]
      by (simp add: of_index_def month_days_def)
    moreover have "add_days ?n (of_index k 1) \<le> add_days (nat (a - 1)) (of_index k 1)"
      using False by (intro add_days_mono valid_first) simp
    ultimately have "month_last (of_index k 1) \<le> add_days (nat (a - 1)) (of_index k 1)"
      by (simp add: last month_days_def)
    moreover have "of_index k (min a (month_days k)) = month_last (of_index k 1)"
      unfolding last using False by (simp add: of_index_def month_days_def)
    ultimately show ?thesis by (simp only: min_absorb2)
  qed
qed

lemma next_period_month:
  assumes "1 \<le> a" and "a \<le> 31" and "1 \<le> n"
  shows "rental_next_period d a n ''month'' = of_index (month_index d + n) (min a (month_days (month_index d + n)))"
proof -
  have "add_months n (month_first d) = of_index (month_index d + n) 1"
    by (cases d) (simp add: month_first_def)
  with clamp_to_month [OF assms(1)] show ?thesis using assms by (simp add: rental_next_period_def Let_def)
qed

text \<open>However often a monthly tenancy advances, it is billed on its anchor day, or on the last day of a
  month too short for it, and never loses that day again.\<close>

lemma billing_day_kept:
  assumes "1 \<le> a" and "a \<le> 31" and "1 \<le> n"
  shows "((\<lambda>d. rental_next_period d a n ''month'') ^^ Suc k) d
    = of_index (month_index d + (int k + 1) * n) (min a (month_days (month_index d + (int k + 1) * n)))"
proof (induction k)
  case 0
  then show ?case by (simp add: next_period_month [OF assms])
next
  case (Suc k)
  show ?case
    unfolding funpow.simps(2) [of "Suc k"] comp_apply Suc
    by (simp add: next_period_month [OF assms] algebra_simps)
qed

lemma next_period_later:
  assumes "valid_date d" and "1 \<le> a"
  shows "d < rental_next_period d a n u"
proof (cases "u = ''day'' \<or> u = ''week''")
  case True
  then show ?thesis using add_days_greater [OF assms(1)] by (auto simp: rental_next_period_def Let_def)
next
  case False
  define m where "m = (if u = ''year'' then max 1 n * 12 else max 1 n)"
  have s: "add_months m (month_first d) = of_index (month_index d + m) 1"
    by (cases d) (simp add: month_first_def)
  have "rental_next_period d a n u = of_index (month_index d + m) (min (max 1 (min 31 a)) (month_days (month_index d + m)))"
    using False clamp_to_month [of "max 1 (min 31 a)"] s by (simp add: rental_next_period_def Let_def m_def)
  moreover have "d < of_index (month_index d + m) x" for x
    using assms(1) by (intro month_index_less) (auto simp: m_def valid_date_def)
  ultimately show ?thesis by simp
qed

end
