(* ===== verification/RentalCalendar.thy ===== *)
theory RentalCalendar
  imports Rental "HOL-Library.Product_Lexorder"
begin

section \<open>Rental: the booking calendar (modules/rental/RentalCalendar.cpp)\<close>

text \<open>
  The month view folds the lines that touch a month into one day array per lettable unit; a booking
  is one contract line, with a contract opened when none is given. The order of names under the
  database's collation is the parameter \<open>rank\<close>, today's date a parameter, and the price of a request
  is given as its amount in millionths (\<open>None\<close> for a negative one). The percentages of the reply,
  quotients of the fields modelled here, are left out.
\<close>

subsection \<open>The month view\<close>

fun monthStart :: "date \<Rightarrow> string \<Rightarrow> date result" where
  "monthStart today [a, b, c, d, s, e, f] =
     (let m = digit_val e * 10 + digit_val f;
          y = ((digit_val a * 10 + digit_val b) * 10 + digit_val c) * 10 + digit_val d
      in if s = CHR ''-'' \<and> list_all isdigit [a, b, c, d, e, f] \<and> 1 \<le> m \<and> m \<le> 12
         then if y = 0 then Inl (RuntimeError ''date/time field value out of range'') else Inr (Date y m 1)
         else Inr (month_first today))"
| "monthStart today _ = Inr (month_first today)"

record join_row =
  jr_unit :: rental_unit
  jr_type_id :: int
  jr_type_name :: string
  jr_type_code :: string
  jr_line :: "rental_line option"

definition touches_month :: "date \<Rightarrow> date \<Rightarrow> rental_line \<Rightarrow> bool" where
  "touches_month d_from d_to l \<longleftrightarrow> live_line l \<and> ln_start l \<le> d_to
     \<and> (case ln_end l of None \<Rightarrow> True | Some e \<Rightarrow> d_from \<le> e)"

definition lettable :: "int \<Rightarrow> int \<Rightarrow> rental_unit \<Rightarrow> bool" where
  "lettable company type u \<longleftrightarrow> ru_active u \<and> ru_state u \<noteq> ''retired''
     \<and> (company > 0 \<longrightarrow> ru_company u = company) \<and> (type > 0 \<longrightarrow> ru_type u = Some type)"

definition find_type :: "int option \<Rightarrow> rental_db \<Rightarrow> unit_type option" where
  "find_type t db = (case t of None \<Rightarrow> None | Some i \<Rightarrow> find (\<lambda>r. ut_id r = i) (rd_types db))"

definition rows_of :: "date \<Rightarrow> date \<Rightarrow> rental_db \<Rightarrow> rental_unit \<Rightarrow> join_row list" where
  "rows_of d_from d_to db u =
     (let t = find_type (ru_type u) db;
          row = (\<lambda>l. \<lparr>jr_unit = u, jr_type_id = (case ru_type u of None \<Rightarrow> 0 | Some i \<Rightarrow> i),
            jr_type_name = (case t of None \<Rightarrow> ''Unclassified'' | Some r \<Rightarrow> ut_name r),
            jr_type_code = (case t of None \<Rightarrow> '''' | Some r \<Rightarrow> ut_code r), jr_line = l\<rparr>);
          own = filter (\<lambda>l. ln_unit l = Some (ru_id u) \<and> touches_month d_from d_to l) (rd_lines db)
      in if own = [] then [row None] else map (\<lambda>l. row (Some l)) own)"

definition month_rows :: "(string \<Rightarrow> nat) \<Rightarrow> date \<Rightarrow> date \<Rightarrow> int \<Rightarrow> int \<Rightarrow> rental_db \<Rightarrow> join_row list" where
  "month_rows rank d_from d_to company type db =
     sort_key (\<lambda>r. (rank (jr_type_name r), rank (ru_code (jr_unit r)),
                    case jr_line r of None \<Rightarrow> (1::nat, d_from) | Some l \<Rightarrow> (0, ln_start l)))
       (concat (map (rows_of d_from d_to db) (filter (lettable company type) (rd_units db))))"

record booking =
  bk_line :: int
  bk_contract :: int
  bk_contract_ref :: string
  bk_partner :: int
  bk_partner_name :: string
  bk_from :: date
  bk_to :: "date option"
  bk_state :: string

record unit_acc =
  ua_id :: int
  ua_code :: string
  ua_name :: string
  ua_state :: string
  ua_type_id :: int
  ua_type_name :: string
  ua_type_code :: string
  ua_days :: "int list"
  ua_bookings :: "booking list"

definition new_acc :: "int \<Rightarrow> join_row \<Rightarrow> unit_acc" where
  "new_acc nDays r = \<lparr>ua_id = ru_id (jr_unit r), ua_code = ru_code (jr_unit r), ua_name = ru_name (jr_unit r),
     ua_state = ru_state (jr_unit r), ua_type_id = jr_type_id r, ua_type_name = jr_type_name r,
     ua_type_code = jr_type_code r, ua_days = replicate (nat nDays) 0, ua_bookings = []\<rparr>"

text \<open>The loop over the days of the line that lie in the month.\<close>

definition mark_days :: "int \<Rightarrow> int \<Rightarrow> int list \<Rightarrow> int list" where
  "mark_days a b days = fold (\<lambda>d ds. ds[nat (d - 1) := 1]) [a..b] days"

definition booking_of :: "rental_db \<Rightarrow> rental_line \<Rightarrow> booking" where
  "booking_of db l = \<lparr>bk_line = ln_id l, bk_contract = (case ln_contract l of None \<Rightarrow> 0 | Some c \<Rightarrow> c),
     bk_contract_ref = (case ln_contract l of None \<Rightarrow> '''' | Some c \<Rightarrow>
       (case find_contract c db of None \<Rightarrow> '''' | Some r \<Rightarrow> rt_name r)),
     bk_partner = (case ln_partner l of None \<Rightarrow> 0 | Some p \<Rightarrow> p),
     bk_partner_name = (case ln_partner l of None \<Rightarrow> '''' | Some p \<Rightarrow>
       (case map_of (rd_partners db) p of None \<Rightarrow> '''' | Some n \<Rightarrow> n)),
     bk_from = ln_start l, bk_to = ln_end l, bk_state = ln_state l\<rparr>"

definition fold_row :: "rental_db \<Rightarrow> date \<Rightarrow> date \<Rightarrow> int \<Rightarrow> join_row \<Rightarrow> unit_acc list \<Rightarrow> unit_acc list" where
  "fold_row db d_from d_to nDays r units =
     (let uid = ru_id (jr_unit r);
          known = (if list_ex (\<lambda>a. ua_id a = uid) units then units else units @ [new_acc nDays r])
      in case jr_line r of
           None \<Rightarrow> known
         | Some l \<Rightarrow>
             let firstDay = (if ln_start l > d_from then dt_day (ln_start l) else 1);
                 lastDay = (case ln_end l of None \<Rightarrow> nDays | Some e \<Rightarrow> if e < d_to then dt_day e else nDays)
             in map (\<lambda>a. if ua_id a = uid
                  then a\<lparr>ua_days := mark_days firstDay (min lastDay nDays) (ua_days a),
                        ua_bookings := ua_bookings a @ [booking_of db l]\<rparr> else a) known)"

record type_acc =
  ta_id :: int
  ta_name :: string
  ta_code :: string
  ta_units :: int
  ta_let :: int

fun add_type :: "int \<Rightarrow> string \<Rightarrow> string \<Rightarrow> int \<Rightarrow> type_acc list \<Rightarrow> type_acc list" where
  "add_type i n c days [] = [\<lparr>ta_id = i, ta_name = n, ta_code = c, ta_units = 1, ta_let = days\<rparr>]"
| "add_type i n c days (t # ts) =
     (if i = ta_id t then t\<lparr>ta_name := n, ta_code := c, ta_units := ta_units t + 1, ta_let := ta_let t + days\<rparr> # ts
      else if i < ta_id t then \<lparr>ta_id = i, ta_name = n, ta_code = c, ta_units = 1, ta_let = days\<rparr> # t # ts
      else t # add_type i n c days ts)"

definition let_days :: "unit_acc \<Rightarrow> int" where
  "let_days a = sum_list (ua_days a)"

record month_reply =
  mv_from :: date
  mv_to :: date
  mv_days :: int
  mv_types :: "type_acc list"
  mv_units :: "unit_acc list"
  mv_let :: int
  mv_possible :: int

definition month_view :: "(string \<Rightarrow> nat) \<Rightarrow> date \<Rightarrow> string \<Rightarrow> int \<Rightarrow> int \<Rightarrow> rental_db \<Rightarrow> month_reply result" where
  "month_view rank today ym company type db =
     bindE (monthStart today ym) (\<lambda>d_from.
     let d_to = month_last d_from; nDays = dt_day d_to;
         units = fold (fold_row db d_from d_to nDays) (month_rows rank d_from d_to company type db) []
     in Inr \<lparr>mv_from = d_from, mv_to = d_to, mv_days = nDays,
          mv_types = fold (\<lambda>a. add_type (ua_type_id a) (ua_type_name a) (ua_type_code a) (let_days a)) units [],
          mv_units = units, mv_let = sum_list (map let_days units),
          mv_possible = int (length units) * nDays\<rparr>)"

subsection \<open>Booking a unit\<close>

record book_request =
  bq_unit :: int
  bq_partner :: int
  bq_start :: "date option"
  bq_end :: "date option"
  bq_price :: "int option"
  bq_contract :: int
  bq_mode :: string
  bq_company :: int

definition check_request :: "book_request \<Rightarrow> date result" where
  "check_request q =
     (if bq_unit q \<le> 0 then Inl (ValidationError ''Choose a unit to book.'')
      else if bq_partner q \<le> 0 then Inl (ValidationError ''Choose a customer for this booking.'')
      else case bq_start q of
          None \<Rightarrow> Inl (ValidationError ''A start date is required.'')
        | Some s \<Rightarrow> if \<not> range_ok s (bq_end q) then Inl (ValidationError ''The end date is before the start date.'')
            else Inr s)"

definition check_unit :: "int \<Rightarrow> rental_db \<Rightarrow> rental_unit result" where
  "check_unit u db = (case find (\<lambda>r. ru_id r = u \<and> ru_active r) (rd_units db) of
       None \<Rightarrow> Inl (ValidationError ''That unit no longer exists.'')
     | Some r \<Rightarrow>
         if ru_state r = ''retired'' then Inl (ValidationError (''Unit '' @ ru_code r @ '' is retired and cannot be let.''))
         else if ru_state r = ''maintenance''
         then Inl (ValidationError (''Unit '' @ ru_code r @
           '' is under maintenance. Take it out of maintenance before booking it.''))
         else Inr r)"

definition first_clash :: "int \<Rightarrow> date \<Rightarrow> date option \<Rightarrow> rental_db \<Rightarrow> rental_line option" where
  "first_clash u s e db =
     (case sort_key ln_start (filter (\<lambda>l. ln_unit l = Some u \<and> live_line l \<and> ranges_meet (ln_start l) (ln_end l) s e) (rd_lines db))
      of [] \<Rightarrow> None | l # _ \<Rightarrow> Some l)"

definition clash_message :: "string \<Rightarrow> rental_db \<Rightarrow> rental_line \<Rightarrow> string" where
  "clash_message code db l =
     (let who = bk_partner_name (booking_of db l)
      in ''Unit '' @ code @ '' is already let '' @ (if who = '''' then '''' else ''to '' @ who @ '' '')
         @ ''from '' @ date_text (ln_start l) @ '' to ''
         @ (case ln_end l of None \<Rightarrow> ''open-ended'' | Some d \<Rightarrow> date_text d) @ ''. Pick dates that do not overlap.'')"

definition booking_price :: "book_request \<Rightarrow> rental_unit \<Rightarrow> rental_db \<Rightarrow> int" where
  "booking_price q u db = (case bq_price q of
       Some p \<Rightarrow> p
     | None \<Rightarrow> (case find_type (ru_type u) db of
           None \<Rightarrow> 0 | Some t \<Rightarrow> (case ut_default_rate t of None \<Rightarrow> 0 | Some r \<Rightarrow> r)))"

definition insert_contract :: "rental_contract \<Rightarrow> rental_db \<Rightarrow> (int \<times> rental_db) result" where
  "insert_contract c db =
     (if list_ex (\<lambda>r. rt_name r = rt_name c \<and> rt_company r = rt_company c) (rd_contracts db)
      then Inl (RuntimeError ''duplicate key value violates unique constraint rental_contract_name_uniq'')
      else let i = rd_next_contract db
           in Inr (i, db\<lparr>rd_contracts := rd_contracts db @ [derive_period (c\<lparr>rt_id := i\<rparr>)], rd_next_contract := i + 1\<rparr>))"

definition booking_contract :: "book_request \<Rightarrow> date \<Rightarrow> rental_unit \<Rightarrow> rental_db \<Rightarrow> (int \<times> rental_db) result" where
  "booking_contract q s u db =
     (if bq_contract q > 0
      then case find_contract (bq_contract q) db of
          None \<Rightarrow> Inl (ValidationError ''That contract no longer exists.'')
        | Some c \<Rightarrow> if rt_partner c \<noteq> bq_partner q
            then Inl (ValidationError ''That contract belongs to a different customer.'') else Inr (bq_contract q, db)
      else insert_contract \<lparr>rt_id = 0, rt_name = ''BK-'' @ ru_code u @ ''-'' @ date_text s, rt_partner = bq_partner q,
             rt_state = ''active'', rt_start = Some s,
             rt_billing_period = (if bq_end q = None then ''monthly'' else ''oneoff''),
             rt_interval = Some 1, rt_unit = Some ''month'', rt_whole_month = False, rt_due_on_move_in = False,
             rt_currency = None, rt_journal = None,
             rt_company = (if bq_company q > 0 then bq_company q else ru_company u)\<rparr> db)"

definition booking_line :: "book_request \<Rightarrow> date \<Rightarrow> date \<Rightarrow> int \<Rightarrow> int \<Rightarrow> rental_unit \<Rightarrow> rental_line" where
  "booking_line q today s contract price u =
     \<lparr>ln_id = 0, ln_contract = Some contract, ln_unit = Some (bq_unit q), ln_partner = Some (bq_partner q),
      ln_start = s, ln_end = bq_end q, ln_price = price, ln_discount = 0, ln_taxes = ''[]'', ln_anchor = 1,
      ln_next = None, ln_invoiced = None,
      ln_mode = (if bq_mode q \<noteq> '''' then bq_mode q else if bq_end q = None then ''recurring'' else ''oneoff''),
      ln_interval = None, ln_bunit = None, ln_lead_days = 7, ln_span = ''contract'',
      ln_state = (if s \<le> today then ''active'' else ''pending''),
      ln_company = (if bq_company q > 0 then bq_company q else ru_company u)\<rparr>"

definition book :: "date \<Rightarrow> book_request \<Rightarrow> rental_db \<Rightarrow> ((int \<times> int) \<times> rental_db) result" where
  "book today q db =
     bindE (check_request q) (\<lambda>s.
     bindE (check_unit (bq_unit q) db) (\<lambda>u.
     case first_clash (bq_unit q) s (bq_end q) db of
       Some l \<Rightarrow> Inl (ValidationError (clash_message (ru_code u) db l))
     | None \<Rightarrow>
         bindE (booking_contract q s u db) (\<lambda>(c, db1).
         bindE (insert_line (booking_line q today s c (booking_price q u db) u) db1) (\<lambda>(i, db2).
           Inr ((i, c), db2)))))"

subsection \<open>The calendar shows exactly what is let\<close>

definition covers :: "date \<Rightarrow> rental_line \<Rightarrow> bool" where
  "covers d l \<longleftrightarrow> ln_start l \<le> d \<and> (case ln_end l of None \<Rightarrow> True | Some e \<Rightarrow> d \<le> e)"

text \<open>The reference: day by day, is there a live line of the unit that covers the day.\<close>

definition is_let :: "rental_db \<Rightarrow> int \<Rightarrow> date \<Rightarrow> bool" where
  "is_let db u d \<longleftrightarrow> list_ex (\<lambda>l. ln_unit l = Some u \<and> live_line l \<and> covers d l) (rd_lines db)"

definition day_row :: "int \<Rightarrow> int \<Rightarrow> int \<Rightarrow> (date \<Rightarrow> bool) \<Rightarrow> int list" where
  "day_row y m n P = map (\<lambda>d. if P (Date y m d) then 1 else 0) [1..n]"

lemma mark_map:
  assumes "1 \<le> a" and "b \<le> n"
  shows "mark_days a b (map f [1..n]) = map (\<lambda>d. if a \<le> d \<and> d \<le> b then 1 else f d) [1..n]"
  using assms(1)
proof (induction "nat (b + 1 - a)" arbitrary: a f)
  case 0
  then show ?case by (auto simp: mark_days_def)
next
  case (Suc k)
  then have ab: "a \<le> b" by simp
  then have r: "[a..b] = a # [a + 1..b]" by (simp add: upto_rec1)
  have "(map f [1..n])[nat (a - 1) := 1] = map (\<lambda>d. if d = a then 1 else f d) [1..n]"
    using Suc(3) ab assms(2) by (intro nth_equalityI) (auto simp: nth_list_update)
  then have "mark_days a b (map f [1..n]) = mark_days (a + 1) b (map (\<lambda>d. if d = a then 1 else f d) [1..n])"
    by (simp add: mark_days_def r)
  also have "\<dots> = map (\<lambda>d. if a + 1 \<le> d \<and> d \<le> b then 1 else if d = a then 1 else f d) [1..n]"
    using Suc(2,3) by (intro Suc(1)) auto
  finally show ?case using ab by auto
qed

lemma replicate_day_row: "replicate (nat n) 0 = day_row y m n (\<lambda>_. False)"
  by (simp add: day_row_def map_replicate_const)

text \<open>Clamping a line that touches the month and filling marks the days it covers.\<close>

lemma clamp_covers:
  assumes "touches_month (Date y m 1) (Date y m n) l" and "1 \<le> d" and "d \<le> n"
  shows "(if ln_start l > Date y m 1 then dt_day (ln_start l) else 1) \<le> d
     \<and> d \<le> min (case ln_end l of None \<Rightarrow> n | Some e \<Rightarrow> if e < Date y m n then dt_day e else n) n
    \<longleftrightarrow> covers (Date y m d) l"
  using assms
  by (cases "ln_start l"; cases "ln_end l"; cases "the (ln_end l)")
     (auto simp: touches_month_def covers_def split: if_splits)

definition shown :: "join_row list \<Rightarrow> int \<Rightarrow> date \<Rightarrow> bool" where
  "shown rs u d \<longleftrightarrow> list_ex (\<lambda>r. ru_id (jr_unit r) = u \<and> (case jr_line r of None \<Rightarrow> False | Some l \<Rightarrow> covers d l)) rs"

lemma fold_rows:
  fixes db :: rental_db
  assumes "\<forall>r \<in> set rs. \<forall>l. jr_line r = Some l \<longrightarrow> touches_month (Date y m 1) (Date y m n) l
      \<and> 1 \<le> dt_day (ln_start l)"
  defines "us \<equiv> fold (fold_row db (Date y m 1) (Date y m n) n) rs []"
  shows "distinct (map ua_id us) \<and> set (map ua_id us) = (\<lambda>r. ru_id (jr_unit r)) ` set rs
    \<and> (\<forall>a \<in> set us. ua_days a = day_row y m n (shown rs (ua_id a)))"
  using assms(1) unfolding us_def
proof (induction rs rule: rev_induct)
  case Nil
  then show ?case by simp
next
  case (snoc r rs)
  let ?uid = "ru_id (jr_unit r)"
  define us where "us = fold (fold_row db (Date y m 1) (Date y m n) n) rs []"
  have step: "fold (fold_row db (Date y m 1) (Date y m n) n) (rs @ [r]) [] = fold_row db (Date y m 1) (Date y m n) n r us"
    by (simp add: us_def)
  have ih: "distinct (map ua_id us)" "set (map ua_id us) = (\<lambda>r. ru_id (jr_unit r)) ` set rs"
    "\<forall>a \<in> set us. ua_days a = day_row y m n (shown rs (ua_id a))"
    using snoc unfolding us_def by auto
  define known where "known = (if list_ex (\<lambda>a. ua_id a = ?uid) us then us else us @ [new_acc n r])"
  have kd: "distinct (map ua_id known)" "set (map ua_id known) = insert ?uid (set (map ua_id us))"
    using ih(1) by (cases "list_ex (\<lambda>a. ua_id a = ?uid) us";
      force simp: known_def list_ex_iff new_acc_def)+
  have none: "shown rs ?uid d = False" if "\<not> list_ex (\<lambda>a. ua_id a = ?uid) us" for d
  proof -
    have "?uid \<notin> (\<lambda>r. ru_id (jr_unit r)) ` set rs" using that ih(2) [symmetric] by (auto simp: list_ex_iff)
    then have "ru_id (jr_unit x) \<noteq> ?uid" if "x \<in> set rs" for x using that by (metis imageI)
    then show ?thesis by (auto simp: shown_def list_ex_iff)
  qed
  have kdays: "ua_days a = day_row y m n (shown rs (ua_id a))" if "a \<in> set known" for a
    using that ih(3) none replicate_day_row [of n y m]
    by (auto simp: known_def new_acc_def day_row_def split: if_splits)
  show ?case
  proof (cases "jr_line r")
    case None
    have "shown (rs @ [r]) u d = shown rs u d" for u d by (simp add: shown_def None)
    then have "shown (rs @ [r]) = shown rs" by (intro ext)
    moreover have "fold_row db (Date y m 1) (Date y m n) n r us = known"
      by (simp add: fold_row_def known_def None Let_def)
    ultimately show ?thesis using kd kdays ih(2) unfolding step by simp
  next
    case (Some l)
    have t: "touches_month (Date y m 1) (Date y m n) l" "1 \<le> dt_day (ln_start l)" using snoc.prems Some by auto
    define a0 where "a0 = (if ln_start l > Date y m 1 then dt_day (ln_start l) else 1)"
    define b0 where "b0 = min (case ln_end l of None \<Rightarrow> n | Some e \<Rightarrow> if e < Date y m n then dt_day e else n) n"
    define g :: "unit_acc \<Rightarrow> unit_acc" where "g = (\<lambda>a. if ua_id a = ?uid then a\<lparr>ua_days := mark_days a0 b0 (ua_days a),
        ua_bookings := ua_bookings a @ [booking_of db l]\<rparr> else a)"
    have e: "fold_row db (Date y m 1) (Date y m n) n r us = map g known"
      by (simp add: fold_row_def known_def Some Let_def g_def a0_def b0_def)
    have gid: "ua_id (g a) = ua_id a" for a by (simp add: g_def)
    have sh: "shown (rs @ [r]) u d \<longleftrightarrow> shown rs u d \<or> (u = ?uid \<and> covers d l)" for u d
      by (auto simp: shown_def Some)
    have "ua_days (g a) = day_row y m n (shown (rs @ [r]) (ua_id a))" if "a \<in> set known" for a
    proof (cases "ua_id a = ?uid")
      case True
      have "mark_days a0 b0 (day_row y m n (shown rs ?uid)) = day_row y m n (\<lambda>d. shown rs ?uid d \<or> covers d l)"
        unfolding day_row_def using t clamp_covers [OF t(1)]
        by (subst mark_map) (auto simp: a0_def b0_def)
      moreover have "day_row y m n (shown (rs @ [r]) ?uid) = day_row y m n (\<lambda>d. shown rs ?uid d \<or> covers d l)"
        by (simp add: day_row_def sh)
      ultimately show ?thesis using True kdays [OF that] by (simp add: g_def)
    next
      case False
      then show ?thesis using kdays [OF that] by (simp add: g_def day_row_def sh)
    qed
    then show ?thesis using kd ih(2) unfolding step e by (auto simp: gid o_def)
  qed
qed

lemma row_unit: "r \<in> set (rows_of f t db u) \<Longrightarrow> jr_unit r = u"
  by (auto simp: rows_of_def Let_def split: if_splits)

lemma row_line: "(\<exists>r \<in> set (rows_of f t db u). jr_line r = Some l) \<longleftrightarrow>
    l \<in> set (rd_lines db) \<and> ln_unit l = Some (ru_id u) \<and> touches_month f t l"
  by (auto simp: rows_of_def Let_def filter_empty_conv)

lemma row_exists: "rows_of f t db u \<noteq> []"
  by (simp add: rows_of_def Let_def)

lemma rows_units: "(\<lambda>r. ru_id (jr_unit r)) ` set (month_rows rank f t company type db)
    = ru_id ` set (filter (lettable company type) (rd_units db))"
proof -
  have "(\<lambda>r. ru_id (jr_unit r)) ` set (rows_of f t db u) = {ru_id u}" for u
    using row_unit [of _ f t db u] row_exists [of f t db u] by (cases "rows_of f t db u") fastforce+
  then show ?thesis by (auto simp: month_rows_def image_UN)
qed

lemma shown_is_let:
  assumes "u \<in> ru_id ` set (filter (lettable company type) (rd_units db))" and "1 \<le> d" and "d \<le> n"
  shows "shown (month_rows rank (Date y m 1) (Date y m n) company type db) u (Date y m d) = is_let db u (Date y m d)"
proof -
  let ?f = "Date y m 1" and ?t = "Date y m n"
  have touch: "touches_month ?f ?t l" if "live_line l" "covers (Date y m d) l" for l
    using that assms(2,3) by (cases "ln_start l"; cases "ln_end l"; cases "the (ln_end l)")
      (auto simp: touches_month_def covers_def)
  have "shown (month_rows rank ?f ?t company type db) u (Date y m d) \<longleftrightarrow>
      (\<exists>w \<in> set (filter (lettable company type) (rd_units db)). \<exists>r \<in> set (rows_of ?f ?t db w).
         ru_id w = u \<and> (\<exists>l. jr_line r = Some l \<and> covers (Date y m d) l))"
    using row_unit by (fastforce simp: shown_def list_ex_iff month_rows_def split: option.splits)
  also have "\<dots> \<longleftrightarrow> (\<exists>w \<in> set (filter (lettable company type) (rd_units db)). ru_id w = u \<and>
      (\<exists>l \<in> set (rd_lines db). ln_unit l = Some u \<and> touches_month ?f ?t l \<and> covers (Date y m d) l))"
  proof -
    have "(\<exists>r \<in> set (rows_of ?f ?t db w). ru_id w = u \<and> (\<exists>l. jr_line r = Some l \<and> covers (Date y m d) l)) \<longleftrightarrow>
        ru_id w = u \<and> (\<exists>l \<in> set (rd_lines db). ln_unit l = Some u \<and> touches_month ?f ?t l \<and> covers (Date y m d) l)" for w
      using row_line [of ?f ?t db w] by blast
    then show ?thesis by simp
  qed
  also have "\<dots> \<longleftrightarrow> is_let db u (Date y m d)"
    using assms(1) touch by (auto simp: is_let_def list_ex_iff touches_month_def)
  finally show ?thesis .
qed

lemma monthStart_first: "monthStart today ym = Inr d \<Longrightarrow> dt_day d = 1"
  by (induction today ym rule: monthStart.induct) (auto simp: month_first_def Let_def split: if_splits)

text \<open>C30: the month view shows every lettable unit once, marks exactly the days on which a live line of
  the unit covers the day, and counts exactly those, for every order of the rows of the query and
  however the lines run over the ends of the month.\<close>

theorem calendar_exact:
  assumes "month_view rank today ym company type db = Inr v"
    and "\<forall>l \<in> set (rd_lines db). valid_date (ln_start l)"
  shows "distinct (map ua_id (mv_units v))
    \<and> set (map ua_id (mv_units v)) = ru_id ` set (filter (lettable company type) (rd_units db))
    \<and> (\<forall>a \<in> set (mv_units v). ua_days a = map (\<lambda>d. if is_let db (ua_id a)
          (Date (dt_year (mv_from v)) (dt_month (mv_from v)) d) then 1 else 0) [1..mv_days v])
    \<and> mv_let v = sum_list (map (\<lambda>a. int (length (filter (\<lambda>d. is_let db (ua_id a)
          (Date (dt_year (mv_from v)) (dt_month (mv_from v)) d)) [1..mv_days v]))) (mv_units v))"
proof -
  obtain f where f: "monthStart today ym = Inr f" using assms(1) by (auto simp: month_view_def exn_simps)
  define y m n where "y = dt_year f" and "m = dt_month f" and "n = days_in_month y m"
  have dates: "f = Date y m 1" "month_last (Date y m 1) = Date y m n"
    using monthStart_first [OF f] by (cases f; simp add: y_def m_def n_def month_last_def)+
  define rs where "rs = month_rows rank (Date y m 1) (Date y m n) company type db"
  define us where "us = fold (fold_row db (Date y m 1) (Date y m n) n) rs []"
  have v: "mv_units v = us" "mv_from v = f" "mv_days v = n" "mv_let v = sum_list (map let_days us)"
    using assms(1) f by (auto simp: month_view_def Let_def dates us_def rs_def)
  have "\<forall>r \<in> set rs. \<forall>l. jr_line r = Some l \<longrightarrow> touches_month (Date y m 1) (Date y m n) l \<and> 1 \<le> dt_day (ln_start l)"
  proof (intro ballI allI impI)
    fix r l assume r: "r \<in> set rs" "jr_line r = Some l"
    then obtain w where "r \<in> set (rows_of (Date y m 1) (Date y m n) db w)" by (auto simp: rs_def month_rows_def)
    with r row_line [of "Date y m 1" "Date y m n" db w l] assms(2)
    show "touches_month (Date y m 1) (Date y m n) l \<and> 1 \<le> dt_day (ln_start l)"
      by (auto simp: valid_date_def)
  qed
  note r = fold_rows [OF this, of db, folded us_def]
  have ids: "set (map ua_id us) = ru_id ` set (filter (lettable company type) (rd_units db))"
    using r rows_units [of rank "Date y m 1" "Date y m n" company type db] by (simp add: rs_def)
  have days: "ua_days a = map (\<lambda>d. if is_let db (ua_id a) (Date y m d) then 1 else 0) [1..n]" if "a \<in> set us" for a
  proof -
    have "ua_id a \<in> ru_id ` set (filter (lettable company type) (rd_units db))" using that ids by (metis image_eqI list.set_map)
    then show ?thesis using r that shown_is_let [of "ua_id a" company type db] by (simp add: day_row_def rs_def)
  qed
  have sum: "sum_list (map (\<lambda>d. if P d then 1 else 0) xs) = int (length (filter P xs))" for P and xs :: "int list"
    by (induction xs) simp_all
  have "map let_days us = map (\<lambda>a. int (length (filter (\<lambda>d. is_let db (ua_id a) (Date y m d)) [1..n]))) us"
    by (rule map_cong) (simp_all add: let_days_def days sum)
  then have total: "mv_let v = sum_list (map (\<lambda>a. int (length (filter (\<lambda>d. is_let db (ua_id a) (Date y m d)) [1..n]))) us)"
    by (simp only: v(4))
  show ?thesis
    unfolding v(1-3) total y_def [symmetric] m_def [symmetric]
    using r ids days by blast
qed

definition sample_line :: rental_line where
  "sample_line = \<lparr>ln_id = 1, ln_contract = None, ln_unit = Some 7, ln_partner = Some 5, ln_start = Date 2026 2 26,
     ln_end = Some (Date 2026 3 2), ln_price = 120000000, ln_discount = 0, ln_taxes = ''[]'', ln_anchor = 1,
     ln_next = None, ln_invoiced = None, ln_mode = ''oneoff'', ln_interval = None, ln_bunit = None,
     ln_lead_days = 7, ln_span = ''contract'', ln_state = ''active'', ln_company = 1\<rparr>"

definition sample_rental :: rental_db where
  "sample_rental = \<lparr>rd_units = [\<lparr>ru_id = 7, ru_code = ''A-101'', ru_name = '''', ru_type = None,
       ru_state = ''occupied'', ru_company = 1, ru_active = True\<rparr>],
     rd_types = [], rd_partners = [], rd_contracts = [], rd_next_contract = 1, rd_lines = [sample_line],
     rd_next_line = 2, rd_links = [], rd_events = [], rd_moves = [], rd_next_move = 1, rd_move_lines = []\<rparr>"

theorem calendar_exact_witness:
  "\<exists>v. month_view (\<lambda>_. 0) (Date 2026 1 1) ''2026-02'' 1 0 sample_rental = Inr v \<and> mv_let v = 3
     \<and> set (map ua_id (mv_units v)) = {7}"
proof -
  obtain v where v: "month_view (\<lambda>_. 0) (Date 2026 1 1) ''2026-02'' 1 0 sample_rental = Inr v"
    "mv_let v = 3" "map ua_id (mv_units v) = [7]"
  proof -
    have "(case month_view (\<lambda>_. 0) (Date 2026 1 1) ''2026-02'' 1 0 sample_rental of Inl _ \<Rightarrow> False
       | Inr v \<Rightarrow> mv_let v = 3 \<and> map ua_id (mv_units v) = [7])"
      unfolding sample_rental_def sample_line_def by code_simp
    then show ?thesis using that by (auto split: sum.splits)
  qed
  have "\<forall>l \<in> set (rd_lines sample_rental). valid_date (ln_start l)"
    by (simp add: sample_rental_def sample_line_def valid_date_def days_in_month_def)
  from calendar_exact [OF v(1) this] v show ?thesis
    by (auto simp: sample_rental_def lettable_def)
qed

subsection \<open>A booking keeps the tenants apart\<close>

lemma booking_contract_frame:
  "booking_contract q s u db = Inr (c, db') \<Longrightarrow>
   rd_units db' = rd_units db \<and> rd_lines db' = rd_lines db \<and> rd_next_line db' = rd_next_line db"
  by (auto simp: booking_contract_def insert_contract_def Let_def split: if_splits option.splits)

lemma book_ok:
  assumes "rental_ok db" and "book today q db = Inr (r, db')"
  shows "rental_ok db'"
proof -
  obtain s u c db1 row i where c: "booking_contract q s u db = Inr (c, db1)" and i: "insert_line row db1 = Inr (i, db')"
    using assms(2) by (auto simp: book_def exn_simps split: option.splits)
  have "rental_ok db1" using assms(1) booking_contract_frame [OF c] by (simp add: rental_ok_def units_derived_def)
  then show ?thesis using i by (rule insert_line_ok)
qed

text \<open>The check that words the message and the trigger agree: a request the screen lets through does
  not fail on the overlap rule.\<close>

lemma book_no_clash:
  assumes "first_clash u s e db = None" and "ln_unit l = Some u" and "ln_start l = s" and "ln_end l = e"
  shows "\<not> list_ex (clashes l) (rd_lines db)"
proof -
  have "filter (\<lambda>l. ln_unit l = Some u \<and> live_line l \<and> ranges_meet (ln_start l) (ln_end l) s e) (rd_lines db) = []"
    using assms(1) by (auto simp: first_clash_def split: list.splits dest!: arg_cong [where f = set])
  then show ?thesis using assms(2-4) by (auto simp: list_ex_iff clashes_def filter_empty_conv)
qed

text \<open>Every way the rental tables are written: a line inserted, changed or deleted, a unit taken out of
  service and put back, the states recomputed, a booking.\<close>

inductive rental_step :: "rental_db \<Rightarrow> rental_db \<Rightarrow> bool" where
  step_insert: "insert_line row db = Inr (i, db') \<Longrightarrow> rental_step db db'"
| step_update: "update_line names old row db = Inr db' \<Longrightarrow> old \<in> set (rd_lines db) \<Longrightarrow> ln_id row = ln_id old \<Longrightarrow>
    \<not> names \<longrightarrow> let_key row = let_key old \<Longrightarrow> rental_step db db'"
| step_delete: "old \<in> set (rd_lines db) \<Longrightarrow> rental_step db (delete_line old db)"
| step_open: "rental_step db (openMaintenance u reason c db)"
| step_close: "rental_step db (closeMaintenance u c db)"
| step_recompute: "rental_step db (snd (recomputeAll db))"
| step_book: "book today q db = Inr (r, db') \<Longrightarrow> rental_step db db'"

lemma rental_step_ok: "rental_step db db' \<Longrightarrow> rental_ok db \<Longrightarrow> rental_ok db'"
  by (induction rule: rental_step.induct)
     (auto intro: insert_line_ok update_line_ok delete_line_ok openMaintenance_ok closeMaintenance_ok
        recomputeAll_ok book_ok)

interpretation rental_run: kept rental_step rental_ok
  by unfold_locales (rule rental_step_ok)

lemma no_common_day: "\<not> ranges_meet s e s' e' \<Longrightarrow> s \<le> d \<Longrightarrow> s' \<le> d \<Longrightarrow>
    (case e of None \<Rightarrow> True | Some x \<Rightarrow> d \<le> x) \<Longrightarrow> (case e' of None \<Rightarrow> True | Some x \<Rightarrow> d \<le> x) \<Longrightarrow> False"
  by (auto simp: ranges_meet_def split: option.splits intro: order.trans)



end
