(* ===== verification/RentalBilling.thy ===== *)
theory RentalBilling
  imports RentalCalendar TaxHelpers
begin

section \<open>Rental: the recurring billing run (modules/rental/RentalBilling.cpp)\<close>

text \<open>
  The query for what is due, the grouping into invoices, one transaction per group, and the run over
  all groups. The chart the run reads (journals, accounts, taxes, precision) is a record of its own;
  \<open>parse\<close> is the JSON parser, \<open>wire\<close> what an amount becomes on its way through a JSON number
  (\<open>Money::fromJson\<close> after \<open>toJson\<close>), \<open>jw\<close> the text of a JSON library error. Rows are read in the
  order of their ids; a transaction that throws leaves the database as it was.
\<close>

record chart =
  ch_journals :: "(int \<times> string \<times> int) list"
  ch_accounts :: "(int \<times> string \<times> int) list"
  ch_taxes :: "tax_row list"
  ch_precision :: "int option"

subsection \<open>What is due\<close>

record due_line =
  dl_id :: int
  dl_unit :: int
  dl_contract :: int
  dl_unit_code :: string
  dl_unit_name :: string
  dl_price :: int
  dl_discount :: int
  dl_taxes :: string
  dl_anchor :: int
  dl_interval :: int
  dl_bunit :: string

record due_group =
  dg_partner :: int
  dg_start :: date
  dg_company :: int
  dg_currency :: int
  dg_journal :: int
  dg_whole_month :: bool
  dg_due_on_move_in :: bool
  dg_move_in_day :: int
  dg_lines :: "due_line list"

type_synonym group_key = "int \<times> date \<times> int \<times> int"

definition contract_of :: "rental_db \<Rightarrow> rental_line \<Rightarrow> rental_contract option" where
  "contract_of db l = (case ln_contract l of None \<Rightarrow> None | Some c \<Rightarrow> find_contract c db)"

definition period_base :: "rental_line \<Rightarrow> date" where
  "period_base l = (case ln_next l of None \<Rightarrow> ln_start l | Some d \<Rightarrow> d)"

definition whole_month_line :: "rental_db \<Rightarrow> rental_line \<Rightarrow> bool" where
  "whole_month_line db l \<longleftrightarrow> ln_span l = ''month'' \<or> ln_span l = ''contract''
     \<and> (case contract_of db l of None \<Rightarrow> False | Some c \<Rightarrow> rt_whole_month c)"

definition period_start :: "rental_db \<Rightarrow> rental_line \<Rightarrow> date" where
  "period_start db l = (if whole_month_line db l then month_first (period_base l) else period_base l)"

definition scheduled :: "rental_db \<Rightarrow> rental_line \<Rightarrow> bool" where
  "scheduled db l \<longleftrightarrow> ln_mode l = ''recurring'' \<and> ln_next l \<noteq> None
     \<and> (case contract_of db l of None \<Rightarrow> True
        | Some c \<Rightarrow> rt_billing_period c \<noteq> ''oneoff'' \<and> rt_billing_period c \<noteq> ''ondemand'')"

definition is_due :: "rental_db \<Rightarrow> date \<Rightarrow> int \<Rightarrow> rental_line \<Rightarrow> bool" where
  "is_due db asOf contractId l \<longleftrightarrow> ln_state l = ''active''
     \<and> (if contractId > 0 then ln_contract l = Some contractId else scheduled db l)
     \<and> minus_days (ln_lead_days l) (period_base l) \<le> asOf
     \<and> (case ln_end l of None \<Rightarrow> True | Some e \<Rightarrow> period_base l \<le> e)"

definition partner_of :: "rental_line \<Rightarrow> int" where
  "partner_of l = (case ln_partner l of None \<Rightarrow> 0 | Some p \<Rightarrow> p)"

definition billing_rows :: "rental_db \<Rightarrow> date \<Rightarrow> int \<Rightarrow> rental_line list" where
  "billing_rows db asOf contractId = take 1000 (sort_key (\<lambda>l. (partner_of l, period_base l, ln_id l))
     (filter (is_due db asOf contractId) (rd_lines db)))"

definition due_line_of :: "rental_db \<Rightarrow> rental_line \<Rightarrow> due_line" where
  "due_line_of db l =
     (let c = contract_of db l;
          u = (case ln_unit l of None \<Rightarrow> None | Some u \<Rightarrow> find_unit u db)
      in \<lparr>dl_id = ln_id l, dl_unit = (case ln_unit l of None \<Rightarrow> 0 | Some u \<Rightarrow> u),
          dl_contract = (case ln_contract l of None \<Rightarrow> 0 | Some c \<Rightarrow> c),
          dl_unit_code = (case u of None \<Rightarrow> '''' | Some r \<Rightarrow> ru_code r),
          dl_unit_name = (case u of None \<Rightarrow> '''' | Some r \<Rightarrow> ru_name r),
          dl_price = ln_price l, dl_discount = ln_discount l, dl_taxes = ln_taxes l, dl_anchor = ln_anchor l,
          dl_interval = (case ln_interval l of Some n \<Rightarrow> n
            | None \<Rightarrow> (case c of None \<Rightarrow> 1 | Some r \<Rightarrow> (case rt_interval r of None \<Rightarrow> 1 | Some n \<Rightarrow> n))),
          dl_bunit = (case ln_bunit l of Some n \<Rightarrow> n
            | None \<Rightarrow> (case c of None \<Rightarrow> ''month'' | Some r \<Rightarrow> (case rt_unit r of None \<Rightarrow> ''month'' | Some n \<Rightarrow> n)))\<rparr>)"

definition move_in_day :: "rental_line \<Rightarrow> int" where
  "move_in_day l = (if ln_anchor l \<noteq> 0 then ln_anchor l else dt_day (ln_start l))"

definition key_of :: "rental_db \<Rightarrow> rental_line \<Rightarrow> group_key" where
  "key_of db l = (partner_of l, period_start db l, ln_company l,
     case contract_of db l of None \<Rightarrow> 0 | Some c \<Rightarrow> (case rt_currency c of None \<Rightarrow> 0 | Some k \<Rightarrow> k))"

definition empty_group :: "group_key \<Rightarrow> due_group" where
  "empty_group k = (case k of (p, d, c, cur) \<Rightarrow>
     \<lparr>dg_partner = p, dg_start = d, dg_company = c, dg_currency = cur, dg_journal = 0,
      dg_whole_month = False, dg_due_on_move_in = False, dg_move_in_day = 0, dg_lines = []\<rparr>)"

definition add_line :: "rental_db \<Rightarrow> rental_line \<Rightarrow> due_group \<Rightarrow> due_group" where
  "add_line db l g =
     (let c = contract_of db l; w = whole_month_line db l; d = move_in_day l
      in g\<lparr>dg_whole_month := (if dg_lines g = [] then w else dg_whole_month g \<and> w),
           dg_due_on_move_in := (case c of None \<Rightarrow> False | Some r \<Rightarrow> rt_due_on_move_in r),
           dg_move_in_day := (if d > 0 \<and> (dg_move_in_day g = 0 \<or> d < dg_move_in_day g) then d else dg_move_in_day g),
           dg_journal := (case c of None \<Rightarrow> dg_journal g
             | Some r \<Rightarrow> (case rt_journal r of None \<Rightarrow> dg_journal g | Some j \<Rightarrow> j)),
           dg_lines := dg_lines g @ [due_line_of db l]\<rparr>)"

text \<open>The map of groups, in the order of its keys.\<close>

fun add_due :: "rental_db \<Rightarrow> rental_line \<Rightarrow> (group_key \<times> due_group) list \<Rightarrow> (group_key \<times> due_group) list" where
  "add_due db l [] = [(key_of db l, add_line db l (empty_group (key_of db l)))]"
| "add_due db l ((k, g) # gs) =
     (if key_of db l = k then (k, add_line db l g) # gs
      else if key_of db l < k then (key_of db l, add_line db l (empty_group (key_of db l))) # (k, g) # gs
      else (k, g) # add_due db l gs)"

definition due_groups :: "rental_db \<Rightarrow> date \<Rightarrow> int \<Rightarrow> (group_key \<times> due_group) list" where
  "due_groups db asOf contractId = fold (add_due db) (billing_rows db asOf contractId) []"

subsection \<open>Dates and labels of an invoice\<close>

definition month_names :: "string list" where
  "month_names = [''January'', ''February'', ''March'', ''April'', ''May'', ''June'', ''July'', ''August'',
     ''September'', ''October'', ''November'', ''December'']"

definition month_label :: "date \<Rightarrow> string" where
  "month_label d = month_names ! nat (dt_month d - 1) @ '' '' @ pad_zero 4 (dt_year d)"

definition month_less_a_day :: "date \<Rightarrow> date" where
  "month_less_a_day d = prev_day (of_index (month_index d + 1) (min (dt_day d) (month_days (month_index d + 1))))"

definition period_end :: "due_group \<Rightarrow> date" where
  "period_end g = (if dg_whole_month g then month_less_a_day (dg_start g)
     else (case dg_lines g of
         [] \<Rightarrow> dg_start g
       | l # _ \<Rightarrow> prev_day (rental_next_period (dg_start g) (dl_anchor l) (dl_interval l) (dl_bunit l))))"

definition period_label :: "due_group \<Rightarrow> string" where
  "period_label g = (if dg_whole_month g then month_label (dg_start g)
     else date_text (dg_start g) @ '' to '' @ date_text (period_end g))"

definition due_date :: "due_group \<Rightarrow> date" where
  "due_date g = (if dg_due_on_move_in g \<and> dg_move_in_day g > 0
     then of_index (month_index (dg_start g)) (min (dg_move_in_day g) (month_days (month_index (dg_start g))))
     else dg_start g)"

definition dash :: string where
  "dash = [CHR '' '', CHR 0xE2, CHR 0x80, CHR 0x94, CHR '' '']"

definition line_label :: "due_line \<Rightarrow> string \<Rightarrow> string" where
  "line_label l period = (if dl_unit_code l = '''' then ''Rental'' else ''Unit '' @ dl_unit_code l)
     @ (if dl_unit_name l = '''' then '''' else '' ('' @ dl_unit_name l @ '')'') @ dash @ period"

definition group_contract :: "due_group \<Rightarrow> int" where
  "group_contract g = (case find (\<lambda>l. dl_contract l > 0) (dg_lines g) of None \<Rightarrow> 0 | Some l \<Rightarrow> dl_contract l)"

definition origin_of :: "rental_db \<Rightarrow> due_group \<Rightarrow> string" where
  "origin_of db g =
     (let n = (if group_contract g > 0 then (case find_contract (group_contract g) db of None \<Rightarrow> '''' | Some c \<Rightarrow> rt_name c) else '''')
      in if n = '''' then ''Rental '' @ date_text (dg_start g) else n)"

subsection \<open>One invoice\<close>

definition journal_for :: "chart \<Rightarrow> due_group \<Rightarrow> int result" where
  "journal_for ch g =
     (if dg_journal g = 0
      then case sort_key fst (filter (\<lambda>(i, t, c). t = ''sale'' \<and> c = dg_company g) (ch_journals ch)) of
          [] \<Rightarrow> Inl (RuntimeError ''no sale journal configured'') | (i, _) # _ \<Rightarrow> Inr i
      else Inr (dg_journal g))"

definition account_for :: "chart \<Rightarrow> string \<Rightarrow> int \<Rightarrow> int option" where
  "account_for ch code company = map_option fst (find (\<lambda>(i, c, k). c = code \<and> k = company) (ch_accounts ch))"

definition required_account :: "chart \<Rightarrow> string \<Rightarrow> int \<Rightarrow> string \<Rightarrow> int result" where
  "required_account ch code company msg =
     (case account_for ch code company of None \<Rightarrow> Inl (RuntimeError msg) | Some i \<Rightarrow> Inr i)"

record invoice_ctx =
  ic_move :: int
  ic_journal :: int
  ic_company :: int
  ic_partner :: int
  ic_revenue :: int
  ic_label :: string
  ic_start :: date
  ic_end :: date

definition post_line :: "rental_move_line \<Rightarrow> rental_db \<Rightarrow> rental_db" where
  "post_line l db = db\<lparr>rd_move_lines := rd_move_lines db @ [l]\<rparr>"

text \<open>The guard: \<open>UNIQUE (contract_line_id, period_start)\<close>.\<close>

definition insert_link :: "invoice_link \<Rightarrow> rental_db \<Rightarrow> rental_db result" where
  "insert_link k db =
     (if list_ex (\<lambda>x. lk_line x = lk_line k \<and> lk_start x = lk_start k) (rd_links db)
      then Inl (RuntimeError ''duplicate key value violates unique constraint \"rental_invoice_link_uniq\"'')
      else Inr (db\<lparr>rd_links := rd_links db @ [k]\<rparr>))"

definition advance_row :: "due_line \<Rightarrow> date \<Rightarrow> rental_line \<Rightarrow> rental_line" where
  "advance_row d pend l = l\<lparr>ln_next := (if ln_mode l = ''oneoff'' then ln_next l
       else Some (rental_next_period (period_base l) (dl_anchor d) (dl_interval d) (dl_bunit d))),
     ln_invoiced := Some pend\<rparr>"

definition advance :: "due_line \<Rightarrow> date \<Rightarrow> rental_db \<Rightarrow> rental_db result" where
  "advance d pend db = (case find (\<lambda>l. ln_id l = dl_id d) (rd_lines db) of
       None \<Rightarrow> Inr db
     | Some l \<Rightarrow> update_line False l (advance_row d pend l) db)"

definition bill_line ::
  "(string \<Rightarrow> json option) \<Rightarrow> (int \<Rightarrow> int) \<Rightarrow> chart \<Rightarrow> invoice_ctx \<Rightarrow> due_line \<Rightarrow> rental_db \<times> int \<Rightarrow> (rental_db \<times> int) result" where
  "bill_line parse wire ch ic d s =
     (let (db, untaxed) = s in
      bindE (applyLineTaxes parse (ch_taxes ch) (ch_precision ch)
        \<lparr>lv_quantity = Some ONE, lv_price_unit = Some (wire (dl_price d)),
         lv_discount = Some (wire (dl_discount d)), lv_tax_ids = Some (dl_taxes d)\<rparr>
        (case ch_precision ch of None \<Rightarrow> 2 | Some p \<Rightarrow> p)) (\<lambda>(sub, _, _).
      let subtotal = wire sub;
          db1 = post_line \<lparr>ml_move = ic_move ic, ml_account = ic_revenue ic, ml_journal = ic_journal ic,
            ml_company = ic_company ic, ml_name = line_label d (ic_label ic), ml_partner = Some (ic_partner ic),
            ml_debit = 0, ml_credit = subtotal, ml_tax_line = None\<rparr> db
      in bindE (insert_link \<lparr>lk_move = ic_move ic, lk_contract = (if dl_contract d > 0 then Some (dl_contract d) else None),
            lk_line = dl_id d, lk_start = ic_start ic, lk_end = ic_end ic, lk_amount = subtotal,
            lk_company = ic_company ic\<rparr> db1) (\<lambda>db2.
         bindE (advance d (ic_end ic) db2) (\<lambda>db3. Inr (db3, untaxed + subtotal)))))"

text \<open>The taxes, one line each: the map from tax to amount in the order of the tax ids.\<close>

fun add_amount :: "int \<Rightarrow> int \<Rightarrow> (int \<times> int) list \<Rightarrow> (int \<times> int) list" where
  "add_amount t v [] = [(t, v)]"
| "add_amount t v ((k, w) # ks) = (if t = k then (k, w + v) # ks else if t < k then (t, v) # (k, w) # ks
     else (k, w) # add_amount t v ks)"

definition tax_amounts :: "(string \<Rightarrow> json option) \<Rightarrow> chart \<Rightarrow> due_line \<Rightarrow> (int \<times> int) list \<Rightarrow> (int \<times> int) list result" where
  "tax_amounts parse ch d acc =
     bindE (loadTaxes parse (ch_taxes ch) (dl_taxes d)) (\<lambda>taxes.
     if taxes = [] then Inr acc
     else bindE (compute_tax (fromMicros (dl_price d) 0) (fromMicros ONE 0) (fromMicros (dl_discount d) 0) taxes
                  (case ch_precision ch of None \<Rightarrow> 2 | Some p \<Rightarrow> p)) (\<lambda>res.
          Inr (fold (\<lambda>c. add_amount (tc_taxId c) (micros (tc_amount c))) (components res) acc)))"

definition tax_account :: "chart \<Rightarrow> int \<Rightarrow> int \<Rightarrow> (int \<times> string) option" where
  "tax_account ch company t = (case find (\<lambda>r. tr_id r = t) (ch_taxes ch) of
       None \<Rightarrow> None
     | Some r \<Rightarrow> (case (case tr_account r of Some a \<Rightarrow> Some a | None \<Rightarrow> account_for ch ''2200'' company) of
           None \<Rightarrow> None | Some a \<Rightarrow> Some (a, tr_name r)))"

definition post_tax :: "chart \<Rightarrow> invoice_ctx \<Rightarrow> int \<times> int \<Rightarrow> rental_db \<times> int \<Rightarrow> rental_db \<times> int" where
  "post_tax ch ic ta s = (let (t, amount) = ta; (db, sum) = s in
     if amount = 0 then (db, sum)
     else case tax_account ch (ic_company ic) t of
         None \<Rightarrow> (db, sum)
       | Some (a, n) \<Rightarrow> (post_line \<lparr>ml_move = ic_move ic, ml_account = a, ml_journal = ic_journal ic,
            ml_company = ic_company ic, ml_name = n, ml_partner = None, ml_debit = 0, ml_credit = amount,
            ml_tax_line = Some t\<rparr> db, sum + amount))"

definition set_totals :: "int \<Rightarrow> int \<Rightarrow> int \<Rightarrow> rental_db \<Rightarrow> rental_db" where
  "set_totals m untaxed tax db = db\<lparr>rd_moves := map (\<lambda>r. if rm_id r = m
     then r\<lparr>rm_untaxed := untaxed, rm_tax := tax, rm_total := untaxed + tax, rm_residual := untaxed + tax\<rparr> else r) (rd_moves db)\<rparr>"

definition insert_move :: "date \<Rightarrow> due_group \<Rightarrow> int \<Rightarrow> rental_db \<Rightarrow> int \<times> rental_db" where
  "insert_move asOf g journal db = (rd_next_move db,
     db\<lparr>rd_next_move := rd_next_move db + 1, rd_moves := rd_moves db
       @ [\<lparr>rm_id = rd_next_move db, rm_name = ''/'', rm_date = asOf, rm_due = due_date g, rm_journal = journal,
          rm_partner = dg_partner g, rm_company = dg_company g,
          rm_currency = (if dg_currency g > 0 then Some (dg_currency g) else None),
          rm_narration = ''Rental '' @ period_label g, rm_origin = origin_of db g,
          rm_contract = (if group_contract g > 0 then Some (group_contract g) else None),
          rm_untaxed = 0, rm_tax = 0, rm_total = 0, rm_residual = 0\<rparr>]\<rparr>)"

definition invoice_event :: "due_group \<Rightarrow> int \<Rightarrow> json \<Rightarrow> rental_db \<Rightarrow> rental_db" where
  "invoice_event g m amount db =
     emit ''invoice_generated''
       \<lparr>ec_contract = (case dg_lines g of [] \<Rightarrow> 0 | l # _ \<Rightarrow> dl_contract l),
        ec_line = (case dg_lines g of [] \<Rightarrow> 0 | l # _ \<Rightarrow> dl_id l),
        ec_unit = (case dg_lines g of [] \<Rightarrow> 0 | l # _ \<Rightarrow> dl_unit l), ec_partner = dg_partner g, ec_user = 0,
        ec_company = dg_company g, ec_ref_model = ''account.move'', ec_ref = m\<rparr>
       (''Draft invoice for '' @ date_text (dg_start g) @ '' to '' @ date_text (period_end g)
        @ '' ('' @ nat_to_string (length (dg_lines g)) @ '' unit(s))'')
       (JObject [(''move_id'', JInt m), (''period_start'', JString (date_text (dg_start g))),
          (''period_end'', JString (date_text (period_end g))), (''total'', amount)]) db"

definition bill_group ::
  "(string \<Rightarrow> json option) \<Rightarrow> (int \<Rightarrow> int) \<Rightarrow> (int \<Rightarrow> json) \<Rightarrow> chart \<Rightarrow> date \<Rightarrow> due_group \<Rightarrow> rental_db \<Rightarrow> (int \<times> rental_db) result" where
  "bill_group parse wire json_of ch asOf g db =
     bindE (journal_for ch g) (\<lambda>journal.
     bindE (required_account ch ''1200'' (dg_company g) ''receivable account 1200 missing'') (\<lambda>ar.
     bindE (required_account ch ''4000'' (dg_company g) ''revenue account 4000 missing'') (\<lambda>rev.
     let (m, db1) = insert_move asOf g journal db;
         ic = \<lparr>ic_move = m, ic_journal = journal, ic_company = dg_company g, ic_partner = dg_partner g,
           ic_revenue = rev, ic_label = period_label g, ic_start = dg_start g, ic_end = period_end g\<rparr>
     in bindE (foldE (bill_line parse wire ch ic) (dg_lines g) (db1, 0)) (\<lambda>(db2, untaxed).
        bindE (foldE (tax_amounts parse ch) (dg_lines g) []) (\<lambda>by_tax.
        let (db3, tax) = fold (post_tax ch ic) by_tax (db2, 0);
            due = untaxed + tax;
            db4 = post_line \<lparr>ml_move = m, ml_account = ar, ml_journal = journal, ml_company = dg_company g,
              ml_name = ''Rental receivable'', ml_partner = Some (dg_partner g), ml_debit = due, ml_credit = 0,
              ml_tax_line = None\<rparr> db3;
            db5 = set_totals m untaxed tax db4
        in Inr (m, invoice_event g m (json_of due) db5))))))"

subsection \<open>The run\<close>

record billing_result =
  br_invoices :: int
  br_lines :: int
  br_skipped :: int
  br_failed :: int
  br_moves :: "int list"
  br_errors :: "string list"

definition mentions :: "string \<Rightarrow> string \<Rightarrow> bool" where
  "mentions needle hay = (str_find hay needle 0 \<noteq> None)"

definition record_failure :: "string \<Rightarrow> exn \<Rightarrow> billing_result \<Rightarrow> billing_result" where
  "record_failure jw e out =
     (if mentions ''rental_invoice_link_uniq'' (exn_what jw e) \<or> mentions ''duplicate key'' (exn_what jw e)
      then out\<lparr>br_skipped := br_skipped out + 1\<rparr>
      else out\<lparr>br_failed := br_failed out + 1, br_errors := br_errors out @ [exn_what jw e]\<rparr>)"

definition run_group ::
  "(string \<Rightarrow> json option) \<Rightarrow> (int \<Rightarrow> int) \<Rightarrow> (int \<Rightarrow> json) \<Rightarrow> string \<Rightarrow> chart \<Rightarrow> date \<Rightarrow> group_key \<times> due_group
   \<Rightarrow> billing_result \<times> rental_db \<Rightarrow> billing_result \<times> rental_db" where
  "run_group parse wire json_of jw ch asOf kg s = (let (out, db) = s; g = snd kg in
     case bill_group parse wire json_of ch asOf g db of
       Inl e \<Rightarrow> (record_failure jw e out, db)
     | Inr (m, db') \<Rightarrow> (out\<lparr>br_invoices := br_invoices out + 1, br_lines := br_lines out + int (length (dg_lines g)),
         br_moves := br_moves out @ [m]\<rparr>, db'))"

definition run_billing ::
  "(string \<Rightarrow> json option) \<Rightarrow> (int \<Rightarrow> int) \<Rightarrow> (int \<Rightarrow> json) \<Rightarrow> string \<Rightarrow> chart \<Rightarrow> date \<Rightarrow> int \<Rightarrow> rental_db
   \<Rightarrow> billing_result \<times> rental_db" where
  "run_billing parse wire json_of jw ch asOf contractId db =
     fold (run_group parse wire json_of jw ch asOf) (due_groups db asOf contractId)
       (\<lparr>br_invoices = 0, br_lines = 0, br_skipped = 0, br_failed = 0, br_moves = [], br_errors = []\<rparr>, db)"

subsection \<open>No period is billed twice, and every invoice balances\<close>

definition link_key :: "invoice_link \<Rightarrow> int \<times> date" where
  "link_key k = (lk_line k, lk_start k)"

abbreviation move_sum :: "int \<Rightarrow> (rental_move_line \<Rightarrow> int) \<Rightarrow> rental_move_line list \<Rightarrow> int" where
  "move_sum m \<equiv> sum_by (\<lambda>l. ml_move l = m)"

definition move_ok :: "rental_move_line list \<Rightarrow> rental_move \<Rightarrow> bool" where
  "move_ok ls r \<longleftrightarrow> move_sum (rm_id r) ml_debit ls = move_sum (rm_id r) ml_credit ls
     \<and> rm_total r = rm_untaxed r + rm_tax r \<and> rm_total r = move_sum (rm_id r) ml_debit ls \<and> rm_residual r = rm_total r"

definition billing_ok :: "rental_db \<Rightarrow> bool" where
  "billing_ok db \<longleftrightarrow> rental_ok db \<and> distinct (map link_key (rd_links db))
     \<and> (\<forall>r \<in> set (rd_moves db). rm_id r < rd_next_move db \<and> move_ok (rd_move_lines db) r)
     \<and> (\<forall>l \<in> set (rd_move_lines db). ml_move l < rd_next_move db)"

text \<open>What the lines of one invoice do to the tables, with the amount credited so far.\<close>

definition billed :: "int \<Rightarrow> rental_db \<Rightarrow> rental_db \<Rightarrow> int \<Rightarrow> nat \<Rightarrow> bool" where
  "billed m db0 db v n \<longleftrightarrow> rd_moves db = rd_moves db0 \<and> rd_next_move db = rd_next_move db0
     \<and> (\<exists>ls. rd_move_lines db = rd_move_lines db0 @ ls \<and> (\<forall>l \<in> set ls. ml_move l = m \<and> ml_debit l = 0)
          \<and> sum_list (map ml_credit ls) = v)
     \<and> (\<exists>ks. rd_links db = rd_links db0 @ ks \<and> length ks = n)
     \<and> rental_ok db \<and> distinct (map link_key (rd_links db))"

lemma update_line_frame:
  "update_line names old row db = Inr db' \<Longrightarrow> rd_moves db' = rd_moves db \<and> rd_next_move db' = rd_next_move db
     \<and> rd_move_lines db' = rd_move_lines db \<and> rd_links db' = rd_links db"
  by (auto simp: update_line_def exn_simps)

lemma advance_ok:
  assumes "advance d pend db = Inr db'" and "rental_ok db"
  shows "rental_ok db' \<and> rd_moves db' = rd_moves db \<and> rd_next_move db' = rd_next_move db
     \<and> rd_move_lines db' = rd_move_lines db \<and> rd_links db' = rd_links db"
proof (cases "find (\<lambda>l. ln_id l = dl_id d) (rd_lines db)")
  case None
  with assms show ?thesis by (simp add: advance_def)
next
  case (Some l)
  then have l: "l \<in> set (rd_lines db)" by (auto simp: find_Some_iff)
  have u: "update_line False l (advance_row d pend l) db = Inr db'" using assms(1) Some by (simp add: advance_def)
  have "ln_id (advance_row d pend l) = ln_id l" "let_key (advance_row d pend l) = let_key l"
    by (simp_all add: advance_row_def let_key_def)
  with update_line_ok [OF assms(2) u l] update_line_frame [OF u] show ?thesis by simp
qed

lemma rental_ok_post [simp]: "rental_ok (post_line l db) = rental_ok db"
  by (simp add: post_line_def rental_ok_def units_derived_def)

lemma rental_ok_link: "rental_ok (db\<lparr>rd_links := ks\<rparr>) = rental_ok db"
  by (simp add: rental_ok_def units_derived_def)

lemma post_line_frame [simp]:
  "rd_moves (post_line l db) = rd_moves db" "rd_next_move (post_line l db) = rd_next_move db"
  "rd_links (post_line l db) = rd_links db" "rd_move_lines (post_line l db) = rd_move_lines db @ [l]"
  by (simp_all add: post_line_def)

lemma insert_link_ok:
  assumes "insert_link k db = Inr db'" and "distinct (map link_key (rd_links db))" and "rental_ok db"
  shows "distinct (map link_key (rd_links db')) \<and> rd_links db' = rd_links db @ [k] \<and> rental_ok db'
    \<and> rd_moves db' = rd_moves db \<and> rd_next_move db' = rd_next_move db \<and> rd_move_lines db' = rd_move_lines db"
proof -
  have "\<not> list_ex (\<lambda>x. lk_line x = lk_line k \<and> lk_start x = lk_start k) (rd_links db)"
    and e: "db' = db\<lparr>rd_links := rd_links db @ [k]\<rparr>"
    using assms(1) by (simp_all add: insert_link_def split: if_splits)
  then have "link_key k \<notin> link_key ` set (rd_links db)" by (auto simp: list_ex_iff link_key_def)
  then show ?thesis using assms(2,3) by (simp add: e rental_ok_link)
qed

lemma bill_line_billed:
  assumes "bill_line parse wire ch ic d (db, v) = Inr (db', v')" and "billed (ic_move ic) db0 db v n"
  shows "billed (ic_move ic) db0 db' v' (Suc n)"
proof -
  obtain sub t u where comp: "applyLineTaxes parse (ch_taxes ch) (ch_precision ch)
        \<lparr>lv_quantity = Some ONE, lv_price_unit = Some (wire (dl_price d)),
         lv_discount = Some (wire (dl_discount d)), lv_tax_ids = Some (dl_taxes d)\<rparr>
        (case ch_precision ch of None \<Rightarrow> 2 | Some p \<Rightarrow> p) = Inr (sub, t, u)"
    using assms(1) by (auto simp: bill_line_def exn_simps)
  define l where "l = \<lparr>ml_move = ic_move ic, ml_account = ic_revenue ic, ml_journal = ic_journal ic,
            ml_company = ic_company ic, ml_name = line_label d (ic_label ic), ml_partner = Some (ic_partner ic),
            ml_debit = 0, ml_credit = wire sub, ml_tax_line = None\<rparr>"
  define k where "k = \<lparr>lk_move = ic_move ic, lk_contract = (if dl_contract d > 0 then Some (dl_contract d) else None),
            lk_line = dl_id d, lk_start = ic_start ic, lk_end = ic_end ic, lk_amount = wire sub,
            lk_company = ic_company ic\<rparr>"
  have "bindE (insert_link k (post_line l db)) (\<lambda>db2. bindE (advance d (ic_end ic) db2)
      (\<lambda>db3. Inr (db3, v + wire sub))) = Inr (db', v')"
    using assms(1) by (simp add: bill_line_def comp l_def k_def Let_def)
  then obtain db2 where link: "insert_link k (post_line l db) = Inr db2" and adv: "advance d (ic_end ic) db2 = Inr db'"
    and v': "v' = v + wire sub"
    by (auto simp: exn_simps)
  have l: "ml_move l = ic_move ic" "ml_debit l = 0" "v' = v + ml_credit l" by (simp_all add: l_def v')
  have ok: "rental_ok db" "distinct (map link_key (rd_links db))" using assms(2) by (auto simp: billed_def)
  have k: "distinct (map link_key (rd_links db2)) \<and> rd_links db2 = rd_links db @ [k] \<and> rental_ok db2
    \<and> rd_moves db2 = rd_moves db \<and> rd_next_move db2 = rd_next_move db \<and> rd_move_lines db2 = rd_move_lines db @ [l]"
    using insert_link_ok [OF link, unfolded post_line_frame rental_ok_post, OF ok(2,1)] by blast
  have a: "rental_ok db' \<and> rd_moves db' = rd_moves db \<and> rd_next_move db' = rd_next_move db
     \<and> rd_move_lines db' = rd_move_lines db @ [l] \<and> rd_links db' = rd_links db @ [k]"
    using advance_ok [OF adv] k by metis
  obtain ls where ls: "rd_move_lines db = rd_move_lines db0 @ ls"
    "\<forall>l \<in> set ls. ml_move l = ic_move ic \<and> ml_debit l = 0" "sum_list (map ml_credit ls) = v"
    using assms(2) by (auto simp: billed_def)
  obtain ks where ks: "rd_links db = rd_links db0 @ ks" "length ks = n" using assms(2) by (auto simp: billed_def)
  have "\<exists>ls. rd_move_lines db' = rd_move_lines db0 @ ls \<and> (\<forall>l \<in> set ls. ml_move l = ic_move ic \<and> ml_debit l = 0)
      \<and> sum_list (map ml_credit ls) = v'"
    by (rule exI [of _ "ls @ [l]"]) (use ls l a in simp)
  moreover have "\<exists>ks. rd_links db' = rd_links db0 @ ks \<and> length ks = Suc n"
    by (rule exI [of _ "ks @ [k]"]) (use ks a in simp)
  moreover have "distinct (map link_key (rd_links db'))" using a k by metis
  ultimately show ?thesis using a assms(2) by (simp add: billed_def)
qed

lemma bill_lines_billed:
  assumes "foldE (bill_line parse wire ch ic) ds (db, v) = Inr (db', v')" and "billed (ic_move ic) db0 db v n"
  shows "billed (ic_move ic) db0 db' v' (n + length ds)"
  using assms
proof (induction ds arbitrary: db v n)
  case (Cons d ds)
  obtain db1 v1 where 1: "bill_line parse wire ch ic d (db, v) = Inr (db1, v1)"
    "foldE (bill_line parse wire ch ic) ds (db1, v1) = Inr (db', v')"
    using Cons.prems(1) by (auto simp: exn_simps)
  from Cons.IH [OF 1(2) bill_line_billed [OF 1(1) Cons.prems(2)]] show ?case by simp
qed simp

lemma post_taxes_billed:
  assumes "billed (ic_move ic) db0 db (u + t) n" and "fold (post_tax ch ic) tas (db, t) = (db', t')"
  shows "billed (ic_move ic) db0 db' (u + t') n"
  using assms
proof (induction tas arbitrary: db t)
  case (Cons ta tas)
  obtain db1 t1 where 1: "post_tax ch ic ta (db, t) = (db1, t1)" by fastforce
  have "billed (ic_move ic) db0 db1 (u + t1) n"
  proof (cases "snd ta = 0 \<or> tax_account ch (ic_company ic) (fst ta) = None")
    case True
    with 1 have "(db1, t1) = (db, t)" by (cases "snd ta = 0") (auto simp: post_tax_def split_beta)
    with Cons.prems(1) show ?thesis by simp
  next
    case False
    then obtain a b where ab: "tax_account ch (ic_company ic) (fst ta) = Some (a, b)" by auto
    define l where "l = \<lparr>ml_move = ic_move ic, ml_account = a, ml_journal = ic_journal ic,
            ml_company = ic_company ic, ml_name = b, ml_partner = None, ml_debit = 0, ml_credit = snd ta,
            ml_tax_line = Some (fst ta)\<rparr>"
    have l: "db1 = post_line l db" "t1 = t + ml_credit l" "ml_move l = ic_move ic" "ml_debit l = 0"
      using 1 False by (auto simp: post_tax_def split_beta ab l_def)
    obtain ls where ls: "rd_move_lines db = rd_move_lines db0 @ ls"
      "\<forall>l \<in> set ls. ml_move l = ic_move ic \<and> ml_debit l = 0" "sum_list (map ml_credit ls) = u + t"
      using Cons.prems(1) by (auto simp: billed_def)
    have "\<exists>ls. rd_move_lines db1 = rd_move_lines db0 @ ls \<and> (\<forall>l \<in> set ls. ml_move l = ic_move ic \<and> ml_debit l = 0)
        \<and> sum_list (map ml_credit ls) = u + t1"
      by (rule exI [of _ "ls @ [l]"]) (use ls l in simp)
    then show ?thesis using Cons.prems(1) l(1) by (simp add: billed_def)
  qed
  with Cons.IH Cons.prems(2) 1 show ?case by simp
qed simp

lemma insert_move_billed:
  assumes "billing_ok db" and "insert_move asOf g j db = (m, db1)"
  shows "m = rd_next_move db \<and> billed m db1 db1 0 0"
  using assms by (auto simp: insert_move_def billed_def billing_ok_def rental_ok_def units_derived_def)

lemma no_lines_sum: "\<forall>l \<in> set ls. ml_move l \<noteq> m \<Longrightarrow> move_sum m f ls = 0"
  by (induction ls) auto

lemma own_lines_sum: "\<forall>l \<in> set ls. ml_move l = m \<Longrightarrow> move_sum m f ls = sum_list (map f ls)"
  by (induction ls) auto

lemma bill_group_ok:
  assumes "bill_group parse wire json_of ch asOf g db = Inr (m, db')" and "billing_ok db"
  shows "billing_ok db' \<and> map rm_id (rd_moves db') = map rm_id (rd_moves db) @ [m]
    \<and> (\<exists>ks. rd_links db' = rd_links db @ ks \<and> length ks = length (dg_lines g))"
proof -
  obtain j ar rev where j: "journal_for ch g = Inr j"
    and ar: "required_account ch ''1200'' (dg_company g) ''receivable account 1200 missing'' = Inr ar"
    and rev: "required_account ch ''4000'' (dg_company g) ''revenue account 4000 missing'' = Inr rev"
    using assms(1) by (auto simp: bill_group_def exn_simps)
  obtain m0 db1 where mv: "insert_move asOf g j db = (m0, db1)" by fastforce
  define ic where "ic = \<lparr>ic_move = m0, ic_journal = j, ic_company = dg_company g, ic_partner = dg_partner g,
           ic_revenue = rev, ic_label = period_label g, ic_start = dg_start g, ic_end = period_end g\<rparr>"
  obtain db2 v where lines: "foldE (bill_line parse wire ch ic) (dg_lines g) (db1, 0) = Inr (db2, v)"
    using assms(1) by (auto simp: bill_group_def j ar rev mv ic_def exn_simps Let_def)
  obtain tas where tas: "foldE (tax_amounts parse ch) (dg_lines g) [] = Inr tas"
    using assms(1) lines by (auto simp: bill_group_def j ar rev mv ic_def exn_simps Let_def)
  obtain db3 t where tax: "fold (post_tax ch ic) tas (db2, 0) = (db3, t)" by fastforce
  define l where "l = \<lparr>ml_move = m0, ml_account = ar, ml_journal = j, ml_company = dg_company g,
              ml_name = ''Rental receivable'', ml_partner = Some (dg_partner g), ml_debit = v + t, ml_credit = 0,
              ml_tax_line = None\<rparr>"
  have e: "m = m0" "db' = invoice_event g m (json_of (v + t)) (set_totals m v t (post_line l db3))"
    using assms(1) lines by (auto simp: bill_group_def j ar rev mv ic_def [symmetric] tas tax Let_def l_def)
  have m0: "m0 = rd_next_move db" "billed m0 db1 db1 0 0" using insert_move_billed [OF assms(2) mv] by auto
  then have "billed m0 db1 db2 v (length (dg_lines g))"
    using bill_lines_billed [OF lines, of db1 0] by (simp add: ic_def)
  then have b: "billed m0 db1 db3 (v + t) (length (dg_lines g))"
    using post_taxes_billed [OF _ tax, of db1 v] by (simp add: ic_def)
  have db1: "rd_move_lines db1 = rd_move_lines db" "rd_links db1 = rd_links db" "rd_next_move db1 = m0 + 1"
    "\<exists>r. rd_moves db1 = rd_moves db @ [r] \<and> rm_id r = m0"
    using mv by (auto simp: insert_move_def)
  obtain r where r: "rd_moves db1 = rd_moves db @ [r]" "rm_id r = m0" using db1(4) by auto
  obtain ls where ls: "rd_move_lines db3 = rd_move_lines db @ ls"
    "\<forall>l \<in> set ls. ml_move l = m0 \<and> ml_debit l = 0" "sum_list (map ml_credit ls) = v + t"
    using b db1(1) by (auto simp: billed_def)
  have fr: "rd_moves db3 = rd_moves db @ [r]" "rd_next_move db3 = m0 + 1" "rental_ok db3"
    "distinct (map link_key (rd_links db3))"
    using b r db1(3) by (simp_all add: billed_def)
  have old: "\<forall>x \<in> set (rd_moves db). rm_id x < m0 \<and> move_ok (rd_move_lines db) x" "\<forall>l \<in> set (rd_move_lines db). ml_move l < m0"
    using assms(2) by (simp_all add: billing_ok_def m0(1))
  define r' where "r' = r\<lparr>rm_untaxed := v, rm_tax := t, rm_total := v + t, rm_residual := v + t\<rparr>"
  have moves': "rd_moves db' = rd_moves db @ [r']"
    using old(1) r(2) by (auto simp: e invoice_event_def emit_def set_totals_def fr(1) r'_def intro!: map_idI)
  have lines': "rd_move_lines db' = rd_move_lines db @ ls @ [l]" "rd_next_move db' = m0 + 1" "rd_links db' = rd_links db3"
    by (simp_all add: e invoice_event_def emit_def set_totals_def ls(1) fr(2))
  have zero: "move_sum m0 f (rd_move_lines db) = 0" for f by (rule no_lines_sum) (use old(2) in auto)
  have deb: "sum_list (map ml_debit ls) = 0" using ls(2) by (induction ls) auto
  have new: "move_ok (rd_move_lines db') r'"
    using own_lines_sum [of ls m0] ls(2,3) deb zero r(2) by (simp add: move_ok_def lines' r'_def l_def)
  have kept: "move_ok (rd_move_lines db') x" if "x \<in> set (rd_moves db)" for x
  proof -
    have "rm_id x \<noteq> m0" using old(1) that by auto
    then have "move_sum (rm_id x) f (ls @ [l]) = 0" for f by (intro no_lines_sum) (use ls(2) in \<open>auto simp: l_def\<close>)
    then have same: "move_sum (rm_id x) f (rd_move_lines db') = move_sum (rm_id x) f (rd_move_lines db)" for f
      by (simp add: lines')
    show ?thesis using old(1) that unfolding move_ok_def same by blast
  qed
  have "rental_ok db'"
    using fr(3) by (simp add: e invoice_event_def rental_ok_events set_totals_def rental_ok_def units_derived_def post_line_def)
  then have "billing_ok db'"
    using new kept old fr(4) ls(2) r(2)
    by (auto simp: billing_ok_def moves' lines' r'_def l_def dest: order.strict_trans)
  moreover have "map rm_id (rd_moves db') = map rm_id (rd_moves db) @ [m]"
    by (simp add: moves' r'_def r(2) e(1))
  moreover have "\<exists>ks. rd_links db' = rd_links db @ ks \<and> length ks = length (dg_lines g)"
    using b db1(2) by (simp add: billed_def lines')
  ultimately show ?thesis by blast
qed

lemma run_group_ok:
  assumes "run_group parse wire json_of jw ch asOf kg (out, db) = (out', db')" and "billing_ok db"
  shows "billing_ok db' \<and> (\<exists>ms ks. map rm_id (rd_moves db') = map rm_id (rd_moves db) @ ms \<and> br_moves out' = br_moves out @ ms
      \<and> br_invoices out' = br_invoices out + int (length ms)
      \<and> rd_links db' = rd_links db @ ks \<and> br_lines out' = br_lines out + int (length ks))"
proof (cases "bill_group parse wire json_of ch asOf (snd kg) db")
  case (Inl e)
  then have "db' = db" "br_moves out' = br_moves out" "br_invoices out' = br_invoices out" "br_lines out' = br_lines out"
    using assms(1) by (auto simp: run_group_def record_failure_def)
  with assms(2) show ?thesis by auto
next
  case (Inr r)
  obtain m d where "r = (m, d)" by fastforce
  with Inr have g: "bill_group parse wire json_of ch asOf (snd kg) db = Inr (m, db')"
    and o: "br_moves out' = br_moves out @ [m]" "br_invoices out' = br_invoices out + 1"
      "br_lines out' = br_lines out + int (length (dg_lines (snd kg)))"
    using assms(1) by (auto simp: run_group_def)
  obtain ks where "rd_links db' = rd_links db @ ks" "length ks = length (dg_lines (snd kg))"
    using bill_group_ok [OF g assms(2)] by auto
  with bill_group_ok [OF g assms(2)] o show ?thesis by (intro conjI exI [of _ "[m]"] exI [of _ ks]) simp_all
qed


definition sample_chart :: chart where
  "sample_chart = \<lparr>ch_journals = [(3, ''sale'', 1)], ch_accounts = [(21, ''1200'', 1), (22, ''4000'', 1)],
     ch_taxes = [], ch_precision = Some 2\<rparr>"

definition monthly_rental :: rental_db where
  "monthly_rental = sample_rental\<lparr>rd_lines := [sample_line\<lparr>ln_end := None, ln_mode := ''recurring'',
     ln_next := Some (Date 2026 3 1)\<rparr>]\<rparr>"


text \<open>A line that was billed already takes its whole group down with it: the second one-off of a
  contract, starting the same day, is skipped by every press of the button and never billed.\<close>

definition blocked_rental :: rental_db where
  "blocked_rental = sample_rental\<lparr>rd_contracts := [\<lparr>rt_id = 9, rt_name = ''C9'', rt_partner = 5, rt_state = ''active'',
       rt_start = None, rt_billing_period = ''oneoff'', rt_interval = None, rt_unit = None, rt_whole_month = False,
       rt_due_on_move_in = False, rt_currency = None, rt_journal = None, rt_company = 1\<rparr>],
     rd_lines := [sample_line\<lparr>ln_contract := Some 9\<rparr>, sample_line\<lparr>ln_id := 2, ln_contract := Some 9, ln_unit := None\<rparr>],
     rd_next_line := 3,
     rd_links := [\<lparr>lk_move = 0, lk_contract = Some 9, lk_line = 1, lk_start = Date 2026 2 26, lk_end = Date 2026 2 28,
       lk_amount = 0, lk_company = 1\<rparr>]\<rparr>"

lemma billed_line_blocks_group:
  "let r = run_billing (\<lambda>_. None) (\<lambda>x. x) (\<lambda>_. JNull) '''' sample_chart (Date 2026 2 25) 9 blocked_rental
   in (br_invoices (fst r), br_skipped (fst r), rd_links (snd r) = rd_links blocked_rental) = (0, 1, True)"
  by code_simp

text \<open>The same for a week-by-week line billed as whole months: its second week falls on a month that is
  billed, so it is skipped and, as the period does not advance, skipped for ever.\<close>

lemma whole_month_weekly_stuck:
  "map (\<lambda>d. period_start d (hd (rd_lines d)))
     [monthly_rental\<lparr>rd_lines := [(hd (rd_lines monthly_rental))\<lparr>ln_span := ''month''\<rparr>]\<rparr>,
      monthly_rental\<lparr>rd_lines := [(hd (rd_lines monthly_rental))\<lparr>ln_span := ''month'',
        ln_next := Some (rental_next_period (Date 2026 3 1) 1 1 ''week'')\<rparr>]\<rparr>] = [Date 2026 3 1, Date 2026 3 1]"
  by code_simp

end
