(* ===== verification/Warehouse.thy ===== *)
theory Warehouse
  imports Stock Sequence "HOL-Library.Product_Lexorder"
begin

section \<open>Transfers of the warehouse (modules/stock/StockModule.cpp)\<close>

text \<open>
  The handlers of \<open>StockPickingViewModel\<close> and \<open>set_on_hand\<close> of \<open>StockQuantViewModel\<close>: they confirm,
  reserve, validate, cancel and reset the transfers (pickings) and their moves and drive the stock
  engine (theory Stock). Validation also redirects moves to put-away locations, checks lots, moves
  packages, counts what orders got and backflushes subcontracted products. Each id is a transaction of
  its own: an exception rolls back its own id and leaves those before it. Rows of a query without
  ORDER BY are taken in the order of their ids; \<open>ndiv a b c\<close> is what the database makes of
  \<open>(a::numeric * b / c)::bigint\<close>; the clock readings are those of \<open>nextByCode\<close>. Orders stand here because
  a transfer writes to their lines.
\<close>

record smove =
  sm_id :: int
  sm_transfer :: "int option"
  sm_product :: int
  sm_name :: string
  sm_demand :: int
  sm_quantity :: int
  sm_reserved :: int
  sm_state :: string
  sm_src :: int
  sm_dest :: int
  sm_company :: "int option"
  sm_lot :: "int option"
  sm_package :: "int option"
  sm_origin :: string

record transfer =
  tf_id :: int
  tf_name :: string
  tf_type :: int
  tf_state :: string
  tf_partner :: "int option"
  tf_src :: int
  tf_dest :: int
  tf_origin :: string
  tf_company :: "int option"
  tf_sale :: "int option"
  tf_purchase :: "int option"

record transfer_type =
  tt_id :: int
  tt_code :: string
  tt_src :: "int option"
  tt_dest :: "int option"

record putaway_rule =
  pw_id :: int
  pw_in :: int
  pw_out :: int
  pw_product :: "int option"
  pw_category :: "int option"
  pw_sequence :: int

record item =
  it_id :: int
  it_name :: "string option"
  it_tracking :: "string option"

record order =
  or_id :: int
  or_name :: string
  or_state :: string
  or_partner :: "int option"
  or_term :: "int option"
  or_company :: int
  or_currency :: "int option"
  or_untaxed :: int
  or_tax :: int
  or_total :: int
  or_invoicing :: string

record order_line =
  ol_id :: int
  ol_order :: int
  ol_product :: "int option"
  ol_name :: string
  ol_qty :: int
  ol_price :: int
  ol_discount :: int
  ol_taxes :: string
  ol_subtotal :: int
  ol_tax :: int
  ol_total :: int
  ol_done :: int
  ol_display :: string

record bom =
  bm_id :: int
  bm_product :: int
  bm_qty :: int
  bm_type :: string
  bm_active :: bool

record bom_line =
  bl_bom :: int
  bl_product :: int
  bl_qty :: int

record warehouse =
  wh_stock :: stock_db
  wh_transfers :: "transfer list"
  wh_next_transfer :: int
  wh_moves :: "smove list"
  wh_next_move :: int
  wh_types :: "transfer_type list"
  wh_putaway :: "putaway_rule list"
  wh_items :: "item list"
  wh_sales :: "order list"
  wh_sale_lines :: "order_line list"
  wh_purchases :: "order list"
  wh_purchase_lines :: "order_line list"
  wh_boms :: "bom list"
  wh_bom_lines :: "bom_line list"
  wh_packages :: "(int \<times> int) list"
  wh_sequences :: "seq_row list"
  wh_log :: "(string \<times> int \<times> string) list"

text \<open>A transaction for each id.\<close>

fun each_txn :: "(int \<Rightarrow> 's \<Rightarrow> 's result) \<Rightarrow> int list \<Rightarrow> 's \<Rightarrow> unit result \<times> 's" where
  "each_txn f [] s = (Inr (), s)"
| "each_txn f (i # ids) s = (case f i s of Inl e \<Rightarrow> (Inl e, s) | Inr t \<Rightarrow> each_txn f ids t)"

definition find_transfer :: "int \<Rightarrow> warehouse \<Rightarrow> transfer option" where
  "find_transfer i w = find (\<lambda>p. tf_id p = i) (wh_transfers w)"

definition update_transfer :: "int \<Rightarrow> (transfer \<Rightarrow> transfer) \<Rightarrow> warehouse \<Rightarrow> warehouse" where
  "update_transfer i f w = w\<lparr>wh_transfers := map (\<lambda>p. if tf_id p = i then f p else p) (wh_transfers w)\<rparr>"

definition update_smoves :: "(smove \<Rightarrow> bool) \<Rightarrow> (smove \<Rightarrow> smove) \<Rightarrow> warehouse \<Rightarrow> warehouse" where
  "update_smoves P f w = w\<lparr>wh_moves := map (\<lambda>m. if P m then f m else m) (wh_moves w)\<rparr>"

definition moves_of :: "int \<Rightarrow> warehouse \<Rightarrow> smove list" where
  "moves_of i w = filter (\<lambda>m. sm_transfer m = Some i) (wh_moves w)"

definition chatter :: "string \<Rightarrow> int \<Rightarrow> string \<Rightarrow> warehouse \<Rightarrow> warehouse" where
  "chatter model i body w = w\<lparr>wh_log := wh_log w @ [(model, i, body)]\<rparr>"

definition lot_of :: "'a smove_scheme \<Rightarrow> int" where
  "lot_of m = (case sm_lot m of None \<Rightarrow> 0 | Some l \<Rightarrow> l)"

definition company_of :: "'a smove_scheme \<Rightarrow> int" where
  "company_of m = (case sm_company m of None \<Rightarrow> 0 | Some c \<Rightarrow> c)"

subsection \<open>Confirming\<close>

definition type_code :: "int \<Rightarrow> warehouse \<Rightarrow> string" where
  "type_code t w = (case find (\<lambda>y. tt_id y = t) (wh_types w) of None \<Rightarrow> '''' | Some y \<Rightarrow> tt_code y)"

definition transfer_sequence :: "string \<Rightarrow> string" where
  "transfer_sequence code = (if code = ''outgoing'' then ''stock.picking.out''
     else if code = ''internal'' then ''stock.picking.int'' else ''stock.picking.in'')"

definition number_in :: "tm \<Rightarrow> tm \<Rightarrow> string \<Rightarrow> warehouse \<Rightarrow> (string \<times> warehouse) result" where
  "number_in t1 t2 code w = bindE (nextByCode t1 t2 code 0 (wh_sequences w))
     (\<lambda>(v, tbl). Inr (v, w\<lparr>wh_sequences := tbl\<rparr>))"

definition confirm_transfer :: "tm \<Rightarrow> tm \<Rightarrow> int \<Rightarrow> warehouse \<Rightarrow> warehouse result" where
  "confirm_transfer t1 t2 i w = (case find_transfer i w of
       None \<Rightarrow> Inr w
     | Some p \<Rightarrow>
         if tf_state p \<noteq> ''draft'' then Inr w
         else bindE (number_in t1 t2 (transfer_sequence (type_code (tf_type p) w)) w) (\<lambda>(ref, w1).
           Inr (chatter ''stock.picking'' i ''Transfer confirmed.''
             (update_smoves (\<lambda>m. sm_transfer m = Some i \<and> sm_state m = ''draft'') (\<lambda>m. m\<lparr>sm_state := ''confirmed''\<rparr>)
               (update_transfer i (\<lambda>p. p\<lparr>tf_state := ''confirmed'', tf_name := ref\<rparr>) w1)))))"

subsection \<open>Reserving\<close>

definition find_smove :: "int \<Rightarrow> warehouse \<Rightarrow> smove option" where
  "find_smove i w = find (\<lambda>m. sm_id m = i) (wh_moves w)"

definition assign_move :: "smove \<Rightarrow> bool \<times> warehouse \<Rightarrow> bool \<times> warehouse" where
  "assign_move m s = (let (allFull, w) = s;
       already = (case find_smove (sm_id m) w of None \<Rightarrow> 0 | Some x \<Rightarrow> sm_reserved x);
       need = sm_demand m - already;
       (got, st) = (if need > 0 then reserve (sm_product m) (sm_src m) need (lot_of m) (wh_stock w) else (0, wh_stock w));
       tot = already + got;
       full = (tot \<ge> sm_demand m)
     in (allFull \<and> full,
         update_smoves (\<lambda>x. sm_id x = sm_id m)
           (\<lambda>x. x\<lparr>sm_reserved := tot, sm_state := (if full then ''assigned'' else ''partially_available'')\<rparr>)
           (w\<lparr>wh_stock := st\<rparr>)))"

definition open_state :: "string \<Rightarrow> bool" where
  "open_state s \<longleftrightarrow> s = ''confirmed'' \<or> s = ''partially_available''"

definition assign_transfer :: "int \<Rightarrow> warehouse \<Rightarrow> warehouse result" where
  "assign_transfer i w =
     (let ms = filter (\<lambda>m. open_state (sm_state m)) (moves_of i w);
          (allFull, w1) = fold assign_move ms (ms \<noteq> [], w)
      in Inr (w1\<lparr>wh_transfers := map (\<lambda>p. if tf_id p = i \<and> open_state (tf_state p)
            then p\<lparr>tf_state := (if allFull then ''assigned'' else ''partially_available'')\<rparr> else p) (wh_transfers w1)\<rparr>))"

subsection \<open>Validating\<close>

definition internal_place :: "int \<Rightarrow> warehouse \<Rightarrow> bool" where
  "internal_place l w \<longleftrightarrow> usageOf l (wh_stock w) = ''internal''"

definition category_id :: "int \<Rightarrow> warehouse \<Rightarrow> int option" where
  "category_id p w = (case find_product p (wh_stock w) of None \<Rightarrow> None | Some r \<Rightarrow> pr_categ r)"

definition putaway_fits :: "int \<Rightarrow> int \<Rightarrow> warehouse \<Rightarrow> putaway_rule \<Rightarrow> bool" where
  "putaway_fits dest p w r \<longleftrightarrow> pw_in r = dest \<and> internal_place (pw_in r) w \<and> internal_place (pw_out r) w
     \<and> (pw_product r = Some p
        \<or> pw_product r = None \<and> pw_category r \<noteq> None \<and> pw_category r = category_id p w)"

definition putaway_dest :: "int \<Rightarrow> int \<Rightarrow> warehouse \<Rightarrow> int" where
  "putaway_dest dest p w =
     (case sort_key (\<lambda>r. (if pw_product r = None then 1 else 0 :: nat, pw_sequence r, pw_id r))
        (filter (putaway_fits dest p w) (wh_putaway w)) of
       [] \<Rightarrow> dest | r # _ \<Rightarrow> pw_out r)"

definition check_lot :: "item \<Rightarrow> int \<Rightarrow> int \<Rightarrow> unit result" where
  "check_lot it lot qty =
     (let track = (case it_tracking it of None \<Rightarrow> ''none'' | Some t \<Rightarrow> t) in
      if (track = ''lot'' \<or> track = ''serial'') \<and> lot \<le> 0
      then Inl (ValidationError (''A lot/serial number is required for ''
        @ (case it_name it of None \<Rightarrow> ''this product'' | Some n \<Rightarrow> n) @ ''.''))
      else if track = ''serial'' \<and> qty \<noteq> 1000000
      then Inl (ValidationError ''A serial-tracked move must be exactly one unit - split the operation.'')
      else Inr ())"

definition receipt_cost :: "int option \<Rightarrow> int \<Rightarrow> warehouse \<Rightarrow> int" where
  "receipt_cost purchase p w = (case purchase of
       None \<Rightarrow> -1
     | Some o' \<Rightarrow> if o' \<le> 0 then -1
         else case find (\<lambda>l. ol_order l = o' \<and> ol_product l = Some p) (wh_purchase_lines w) of
             None \<Rightarrow> -1 | Some l \<Rightarrow> ol_price l)"

definition done_qty :: "'a smove_scheme \<Rightarrow> int" where
  "done_qty m = (if sm_quantity m > 0 then sm_quantity m else sm_demand m)"

definition validate_move :: "int option \<Rightarrow> smove \<Rightarrow> warehouse \<Rightarrow> warehouse result" where
  "validate_move purchase m w = (case find (\<lambda>it. it_id it = sm_product m) (wh_items w) of
       None \<Rightarrow> Inr w
     | Some it \<Rightarrow>
         let dest = putaway_dest (sm_dest m) (sm_product m) w;
             w1 = (if dest = sm_dest m then w
                   else update_smoves (\<lambda>x. sm_id x = sm_id m) (\<lambda>x. x\<lparr>sm_dest := dest\<rparr>) w);
             lot = lot_of m; qty = done_qty m
         in bindE (check_lot it lot qty) (\<lambda>_.
            let st = release_stock (sm_product m) (sm_src m) (sm_reserved m) lot (wh_stock w1);
                st' = applyMove (sm_product m) (sm_src m) dest qty (company_of m) (receipt_cost purchase (sm_product m) w1) lot st
            in Inr (update_smoves (\<lambda>x. sm_id x = sm_id m)
                 (\<lambda>x. x\<lparr>sm_quantity := qty, sm_reserved := 0, sm_state := ''done''\<rparr>) (w1\<lparr>wh_stock := st'\<rparr>))))"
subsection \<open>What follows a validation\<close>

text \<open>Packages follow their goods, orders learn what was delivered or received, and a receipt of a
  subcontracted product consumes its components.\<close>

definition package_place :: "int \<Rightarrow> smove list \<Rightarrow> int option" where
  "package_place k ms = map_option sm_dest (find (\<lambda>m. sm_package m = Some k) ms)"

definition move_packages :: "int \<Rightarrow> warehouse \<Rightarrow> warehouse" where
  "move_packages i w = w\<lparr>wh_packages := map (\<lambda>(k, loc).
     (k, case package_place k (moves_of i w) of None \<Rightarrow> loc | Some d \<Rightarrow> d)) (wh_packages w)\<rparr>"

definition done_moves :: "int \<Rightarrow> warehouse \<Rightarrow> smove list" where
  "done_moves i w = filter (\<lambda>m. sm_state m = ''done'') (moves_of i w)"

definition done_products :: "int \<Rightarrow> warehouse \<Rightarrow> int list" where
  "done_products i w = rev (remdups (rev (map sm_product (done_moves i w))))"

definition done_sum :: "int \<Rightarrow> int \<Rightarrow> warehouse \<Rightarrow> int" where
  "done_sum i p w = sum_list (map sm_quantity (filter (\<lambda>m. sm_product m = p) (done_moves i w)))"

definition count_done :: "int \<Rightarrow> int \<Rightarrow> warehouse \<Rightarrow> order_line list \<Rightarrow> order_line list" where
  "count_done i ord w ls = map (\<lambda>l. case ol_product l of
       None \<Rightarrow> l
     | Some p \<Rightarrow> if ol_order l = ord \<and> p \<in> set (done_products i w) then l\<lparr>ol_done := ol_done l + done_sum i p w\<rparr> else l) ls"

definition mark_order :: "int \<Rightarrow> string \<Rightarrow> string \<Rightarrow> order_line list \<Rightarrow> order list \<Rightarrow> order list" where
  "mark_order ord state status ls os = map (\<lambda>r. if or_id r = ord \<and> or_state r = state
       \<and> list_all (\<lambda>l. ol_order l = ord \<longrightarrow> ol_done l \<ge> ol_qty l) ls
     then r\<lparr>or_invoicing := status\<rparr> else r) os"

definition deliver_order :: "int \<Rightarrow> transfer \<Rightarrow> warehouse \<Rightarrow> warehouse" where
  "deliver_order i p w = (case tf_sale p of
       None \<Rightarrow> w
     | Some s \<Rightarrow> if s \<le> 0 \<or> type_code (tf_type p) w \<noteq> ''outgoing'' then w
         else let ls = count_done i s w (wh_sale_lines w)
              in w\<lparr>wh_sale_lines := ls, wh_sales := mark_order s ''sale'' ''to_invoice'' ls (wh_sales w)\<rparr>)"

definition receive_order :: "int \<Rightarrow> transfer \<Rightarrow> warehouse \<Rightarrow> warehouse" where
  "receive_order i p w = (case tf_purchase p of
       None \<Rightarrow> w
     | Some s \<Rightarrow> if s \<le> 0 \<or> type_code (tf_type p) w \<noteq> ''incoming'' then w
         else let ls = count_done i s w (wh_purchase_lines w)
              in w\<lparr>wh_purchase_lines := ls, wh_purchases := mark_order s ''purchase'' ''to_bill'' ls (wh_purchases w)\<rparr>)"

definition subcontract_location :: "warehouse \<Rightarrow> int" where
  "subcontract_location w = (case sort (map fst (filter (\<lambda>(l, u). u = Some ''subcontract'') (sk_locations (wh_stock w)))) of
       [] \<Rightarrow> 0 | l # _ \<Rightarrow> l)"

definition consume_component :: "(int \<Rightarrow> int \<Rightarrow> int \<Rightarrow> int) \<Rightarrow> int \<Rightarrow> int \<Rightarrow> int \<Rightarrow> int \<Rightarrow> int \<Rightarrow> bom_line \<Rightarrow> warehouse \<Rightarrow> warehouse" where
  "consume_component ndiv i sub company got per l w =
     (let q = ndiv (bl_qty l) got per in
      if q \<le> 0 then w
      else w\<lparr>wh_next_move := wh_next_move w + 1,
             wh_moves := wh_moves w @ [\<lparr>sm_id = wh_next_move w, sm_transfer = Some i, sm_product = bl_product l,
               sm_name = ''Subcontract component'', sm_demand = q, sm_quantity = q, sm_reserved = 0, sm_state = ''done'',
               sm_src = 4, sm_dest = sub, sm_company = nullif0 company, sm_lot = None, sm_package = None,
               sm_origin = ''Subcontract''\<rparr>],
             wh_stock := applyMove (bl_product l) 4 sub q company (-1) 0 (wh_stock w)\<rparr>)"

definition subcontract_bom :: "int \<Rightarrow> warehouse \<Rightarrow> bom option" where
  "subcontract_bom p w = find (\<lambda>b. bm_product b = p \<and> bm_type b = ''subcontract'' \<and> bm_active b) (wh_boms w)"

definition max_company :: "smove list \<Rightarrow> int" where
  "max_company ms = foldr max (List.map_filter sm_company ms) 0"

definition backflush_product ::
  "(int \<Rightarrow> int \<Rightarrow> int \<Rightarrow> int) \<Rightarrow> int \<Rightarrow> int \<Rightarrow> int \<times> int \<times> int \<Rightarrow> warehouse \<Rightarrow> warehouse" where
  "backflush_product ndiv i sub x w = (case x of (p, got, company) \<Rightarrow> (case subcontract_bom p w of
       None \<Rightarrow> w
     | Some b \<Rightarrow> fold (consume_component ndiv i sub company got (if bm_qty b \<le> 0 then 1000000 else bm_qty b))
         (filter (\<lambda>l. bl_bom l = bm_id b) (wh_bom_lines w)) w))"

definition received_rows :: "int \<Rightarrow> warehouse \<Rightarrow> (int \<times> int \<times> int) list" where
  "received_rows i w = map (\<lambda>p. (p, done_sum i p w, max_company (filter (\<lambda>m. sm_product m = p) (done_moves i w))))
     (done_products i w)"

definition backflush :: "(int \<Rightarrow> int \<Rightarrow> int \<Rightarrow> int) \<Rightarrow> int \<Rightarrow> transfer \<Rightarrow> warehouse \<Rightarrow> warehouse" where
  "backflush ndiv i p w =
     (if type_code (tf_type p) w \<noteq> ''incoming'' \<or> subcontract_location w \<le> 0 then w
      else fold (backflush_product ndiv i (subcontract_location w)) (received_rows i w) w)"

definition validate_transfer :: "(int \<Rightarrow> int \<Rightarrow> int \<Rightarrow> int) \<Rightarrow> int \<Rightarrow> warehouse \<Rightarrow> warehouse result" where
  "validate_transfer ndiv i w = (case find_transfer i w of
       None \<Rightarrow> Inr w
     | Some p \<Rightarrow>
         if tf_state p = ''done'' \<or> tf_state p = ''cancel'' then Inr w
         else bindE (foldE (validate_move (tf_purchase p))
                (filter (\<lambda>m. sm_state m \<noteq> ''done'' \<and> sm_state m \<noteq> ''cancel'') (moves_of i w)) w) (\<lambda>w1.
              Inr (chatter ''stock.picking'' i ''Transfer validated.''
                (backflush ndiv i p (receive_order i p (deliver_order i p
                  (move_packages i (update_transfer i (\<lambda>p. p\<lparr>tf_state := ''done''\<rparr>) w1))))))))"

subsection \<open>Cancelling, unreserving and resetting\<close>

definition release_move :: "smove \<Rightarrow> warehouse \<Rightarrow> warehouse" where
  "release_move m w = w\<lparr>wh_stock := release_stock (sm_product m) (sm_src m) (sm_reserved m) (lot_of m) (wh_stock w)\<rparr>"

definition cancel_transfer :: "int \<Rightarrow> warehouse \<Rightarrow> warehouse result" where
  "cancel_transfer i w =
     (let held = filter (\<lambda>m. sm_state m \<noteq> ''done'' \<and> sm_state m \<noteq> ''cancel'' \<and> sm_reserved m > 0) (moves_of i w)
      in Inr (update_smoves (\<lambda>m. sm_transfer m = Some i \<and> sm_state m \<noteq> ''done'')
           (\<lambda>m. m\<lparr>sm_state := ''cancel'', sm_reserved := 0\<rparr>)
           (update_transfer i (\<lambda>p. if tf_state p \<noteq> ''done'' then p\<lparr>tf_state := ''cancel''\<rparr> else p)
             (fold release_move held w))))"

definition held_state :: "string \<Rightarrow> bool" where
  "held_state s \<longleftrightarrow> s = ''assigned'' \<or> s = ''partially_available''"

definition unreserve_transfer :: "int \<Rightarrow> warehouse \<Rightarrow> warehouse result" where
  "unreserve_transfer i w =
     (let held = filter (\<lambda>m. held_state (sm_state m) \<and> sm_reserved m > 0) (moves_of i w)
      in Inr (update_transfer i (\<lambda>p. if held_state (tf_state p) then p\<lparr>tf_state := ''confirmed''\<rparr> else p)
           (update_smoves (\<lambda>m. sm_transfer m = Some i \<and> held_state (sm_state m))
             (\<lambda>m. m\<lparr>sm_state := ''confirmed'', sm_reserved := 0\<rparr>)
             (fold release_move held w))))"

definition reset_transfer :: "int \<Rightarrow> warehouse \<Rightarrow> warehouse result" where
  "reset_transfer i w =
     Inr (update_smoves (\<lambda>m. sm_transfer m = Some i \<and> sm_state m = ''cancel'') (\<lambda>m. m\<lparr>sm_state := ''draft''\<rparr>)
       (update_transfer i (\<lambda>p. if tf_state p = ''cancel'' then p\<lparr>tf_state := ''draft'', tf_name := ''New''\<rparr> else p) w))"

subsection \<open>Counting a location\<close>

text \<open>The count names a product and a location, not a lot: the row compared with it is the first of that
  place, whatever its lot.\<close>

definition set_on_hand :: "int \<Rightarrow> int \<Rightarrow> int \<Rightarrow> warehouse \<Rightarrow> warehouse result" where
  "set_on_hand p loc new w =
     (if p \<le> 0 \<or> loc \<le> 0 then Inl (RuntimeError ''set_on_hand: product_id and location_id are required'')
      else let row = find (\<lambda>q. qn_product q = p \<and> qn_location q = loc) (sk_quants (wh_stock w));
               old = (case row of None \<Rightarrow> 0 | Some q \<Rightarrow> qn_quantity q);
               company = (case row of None \<Rightarrow> 0 | Some q \<Rightarrow> (case qn_company q of None \<Rightarrow> 0 | Some c \<Rightarrow> c));
               delta = new - old
           in Inr (w\<lparr>wh_stock :=
                if delta > 0 then applyMove p 7 loc delta company (-1) 0 (wh_stock w)
                else if delta < 0 then applyMove p loc 7 (- delta) company (-1) 0 (wh_stock w)
                else wh_stock w\<rparr>))"

subsection \<open>The handlers\<close>

definition action_confirm :: "tm \<Rightarrow> tm \<Rightarrow> int list \<Rightarrow> warehouse \<Rightarrow> unit result \<times> warehouse" where
  "action_confirm t1 t2 ids w = each_txn (confirm_transfer t1 t2) ids w"

definition action_assign :: "int list \<Rightarrow> warehouse \<Rightarrow> unit result \<times> warehouse" where
  "action_assign ids w = each_txn assign_transfer ids w"

definition button_validate :: "(int \<Rightarrow> int \<Rightarrow> int \<Rightarrow> int) \<Rightarrow> int list \<Rightarrow> warehouse \<Rightarrow> unit result \<times> warehouse" where
  "button_validate ndiv ids w = each_txn (validate_transfer ndiv) ids w"

definition action_cancel :: "int list \<Rightarrow> warehouse \<Rightarrow> unit result \<times> warehouse" where
  "action_cancel ids w = each_txn cancel_transfer ids w"

definition button_unreserve :: "int list \<Rightarrow> warehouse \<Rightarrow> unit result \<times> warehouse" where
  "button_unreserve ids w = each_txn unreserve_transfer ids w"

definition button_reset :: "int list \<Rightarrow> warehouse \<Rightarrow> unit result \<times> warehouse" where
  "button_reset ids w = each_txn reset_transfer ids w"

subsection \<open>Quantities and reservations of a place\<close>

definition q_held :: "stock_db \<Rightarrow> int \<Rightarrow> int \<Rightarrow> int \<Rightarrow> int" where
  "q_held st p l t = (case find (quant_at p l t) (sk_quants st) of None \<Rightarrow> 0 | Some q \<Rightarrow> qn_reserved q)"

definition q_stock :: "stock_db \<Rightarrow> int \<Rightarrow> int \<Rightarrow> int \<Rightarrow> int" where
  "q_stock st p l t = (case find (quant_at p l t) (sk_quants st) of None \<Rightarrow> 0 | Some q \<Rightarrow> qn_quantity q)"

lemma quant_at_updates [simp]:
  "quant_at p l t (q\<lparr>qn_reserved := n\<rparr>) = quant_at p l t q" "quant_at p l t (q\<lparr>qn_quantity := n\<rparr>) = quant_at p l t q"
  by (simp_all add: quant_at_def)

lemma quant_at_unique: "quant_at p l t q \<Longrightarrow> (p, l, t) \<noteq> (p', l', t') \<Longrightarrow> \<not> quant_at p' l' t' q"
  by (auto simp: quant_at_def)

lemma find_map_same: "(\<And>q. P (f q) = P q) \<Longrightarrow> find P (map (\<lambda>q. if P q then f q else q) qs) = map_option f (find P qs)"
  by (induction qs) auto

lemma find_map_other: "(\<And>q. P (f q) = P q) \<Longrightarrow> (\<And>q. P q \<Longrightarrow> \<not> Q q) \<Longrightarrow>
   find P (map (\<lambda>q. if Q q then f q else q) qs) = find P qs"
  by (induction qs) auto

lemma find_map_quants:
  assumes f: "\<And>q. quant_at p l t (f q) = quant_at p l t q"
  shows "find (quant_at p l t) (map (\<lambda>q. if quant_at p' l' t' q then f q else q) qs)
   = (if (p, l, t) = (p', l', t') then map_option f (find (quant_at p l t) qs) else find (quant_at p l t) qs)"
proof (cases "(p, l, t) = (p', l', t')")
  case True
  with find_map_same [of "quant_at p l t" f qs, OF f] show ?thesis by simp
next
  case False
  have "find (quant_at p l t) (map (\<lambda>q. if quant_at p' l' t' q then f q else q) qs) = find (quant_at p l t) qs"
    by (rule find_map_other) (use f quant_at_unique [OF _ False] in auto)
  then show ?thesis by (subst if_not_P [OF False])
qed

lemma upsert_quant_key: "upsert_quant p l t d c (q # qs)
  = (if quant_at p l t q then q\<lparr>qn_quantity := qn_quantity q + d\<rparr> # qs else q # upsert_quant p l t d c qs)"
  by (simp add: quant_at_def)

lemma find_upsert_same:
  "find (quant_at p l t) (upsert_quant p l t d c qs) = Some (case find (quant_at p l t) qs of
        None \<Rightarrow> \<lparr>qn_product = p, qn_location = l, qn_lot = t, qn_quantity = d, qn_reserved = 0, qn_company = nullif0 c\<rparr>
      | Some q \<Rightarrow> q\<lparr>qn_quantity := qn_quantity q + d\<rparr>)"
proof (induction qs)
  case Nil
  then show ?case by (simp add: quant_at_def)
next
  case (Cons q qs)
  then show ?case unfolding upsert_quant_key by simp
qed

lemma find_upsert_other:
  assumes "(p, l, t) \<noteq> (p', l', t')"
  shows "find (quant_at p l t) (upsert_quant p' l' t' d c qs) = find (quant_at p l t) qs"
proof (induction qs)
  case Nil
  then show ?case using assms by (auto simp: quant_at_def)
next
  case (Cons q qs)
  then show ?case unfolding upsert_quant_key using quant_at_unique [OF _ assms] by simp
qed

lemma find_upsert:
  "find (quant_at p l t) (upsert_quant p' l' t' d c qs) =
   (if (p, l, t) = (p', l', t') then Some (case find (quant_at p l t) qs of
        None \<Rightarrow> \<lparr>qn_product = p, qn_location = l, qn_lot = t, qn_quantity = d, qn_reserved = 0, qn_company = nullif0 c\<rparr>
      | Some q \<Rightarrow> q\<lparr>qn_quantity := qn_quantity q + d\<rparr>)
    else find (quant_at p l t) qs)"
  using find_upsert_same [of p l t d c qs] find_upsert_other [of p l t p' l' t' d c qs] by auto

lemma applyMove_quants:
  "sk_quants (applyMove p s d q c i t st) = (if q = 0 \<or> s = d then sk_quants st
     else upsert_quant p d t q c (upsert_quant p s t (- q) c (sk_quants st)))"
  by (simp add: applyMove_def refreshProductOnHand_def)

lemma q_held_applyMove [simp]: "q_held (applyMove p s d q c i t st) p' l' t' = q_held st p' l' t'"
  by (simp add: q_held_def applyMove_quants find_upsert split: option.splits)

lemma q_stock_applyMove: "q_stock (applyMove p s d q c i t st) p' l' t' = q_stock st p' l' t'
   + (if p' = p \<and> t' = t then (if l' = d then q else 0) - (if l' = s then q else 0) else 0)"
  by (auto simp: q_stock_def applyMove_quants find_upsert split: option.splits)

lemma reserve_effect:
  assumes "reserve p l n t st = (got, st')"
  shows "0 \<le> got \<and> q_stock st' p' l' t' = q_stock st p' l' t'
    \<and> q_held st' p' l' t' = q_held st p' l' t' + (if (p', l', t') = (p, l, t) then got else 0)"
proof (cases "st' = st \<and> got = 0")
  case False
  then have st': "st' = update_quants (quant_at p l t) (\<lambda>q. q\<lparr>qn_reserved := qn_reserved q + got\<rparr>) st"
    and got: "0 < got" "got \<le> availableAt p l t st"
    using assms by (auto simp: reserve_def Let_def split: if_splits)
  then obtain q where "find (quant_at p l t) (sk_quants st) = Some q"
    by (auto simp: availableAt_def split: option.splits)
  then show ?thesis using got
    by (auto simp: st' update_quants_def q_held_def q_stock_def find_map_quants split: option.splits if_split_asm)
qed simp

lemma release_effect:
  assumes "n \<le> q_held st p l t" "0 \<le> n"
  shows "q_stock (release_stock p l n t st) p' l' t' = q_stock st p' l' t'"
    and "q_held (release_stock p l n t st) p' l' t' = q_held st p' l' t' - (if (p', l', t') = (p, l, t) then n else 0)"
  using assms by (auto simp: release_stock_def update_quants_def q_held_def q_stock_def find_map_quants
      split: option.splits if_split_asm)

subsection \<open>The books of the warehouse\<close>

definition held_by :: "int \<Rightarrow> int \<Rightarrow> int \<Rightarrow> 'a smove_scheme \<Rightarrow> int" where
  "held_by p l t m = (if sm_product m = p \<and> sm_src m = l \<and> lot_of m = t then sm_reserved m else 0)"

definition flow :: "int \<Rightarrow> int \<Rightarrow> int \<Rightarrow> 'a smove_scheme \<Rightarrow> int" where
  "flow p l t m = (if sm_state m = ''done'' \<and> sm_product m = p \<and> lot_of m = t
     then (if sm_dest m = l then sm_quantity m else 0) - (if sm_src m = l then sm_quantity m else 0) else 0)"

definition reserved_by :: "warehouse \<Rightarrow> int \<Rightarrow> int \<Rightarrow> int \<Rightarrow> int" where
  "reserved_by w p l t = sum_list (map (held_by p l t) (wh_moves w))"

definition moved :: "warehouse \<Rightarrow> int \<Rightarrow> int \<Rightarrow> int \<Rightarrow> int" where
  "moved w p l t = sum_list (map (flow p l t) (wh_moves w))"

definition unmoved :: "warehouse \<Rightarrow> int \<times> int \<times> int \<Rightarrow> int" where
  "unmoved w k = (case k of (p, l, t) \<Rightarrow> q_stock (wh_stock w) p l t - moved w p l t)"

definition places :: "warehouse \<Rightarrow> (int \<times> int \<times> int) list" where
  "places w = map (\<lambda>q. (qn_product q, qn_location q, qn_lot q)) (sk_quants (wh_stock w))
     @ map (\<lambda>m. (sm_product m, sm_src m, lot_of m)) (wh_moves w)"

definition move_ok :: "warehouse \<Rightarrow> smove \<Rightarrow> bool" where
  "move_ok w m \<longleftrightarrow> sm_id m < wh_next_move w \<and> 0 \<le> sm_reserved m \<and> (0 < sm_reserved m \<longrightarrow> held_state (sm_state m))"

definition wh_ok :: "warehouse \<Rightarrow> bool" where
  "wh_ok w \<longleftrightarrow> distinct (map sm_id (wh_moves w)) \<and> (\<forall>m \<in> set (wh_moves w). move_ok w m)
     \<and> (\<forall>(p, l, t) \<in> set (places w). reserved_by w p l t = q_held (wh_stock w) p l t)"

lemma outside_places:
  assumes "(p, l, t) \<notin> set (places w)"
  shows "reserved_by w p l t = q_held (wh_stock w) p l t"
proof -
  have "map (held_by p l t) (wh_moves w) = map (\<lambda>_. 0) (wh_moves w)"
    using assms by (auto simp: places_def held_by_def)
  then have "reserved_by w p l t = 0" by (simp add: reserved_by_def del: map_eq_conv)
  moreover have "find (quant_at p l t) (sk_quants (wh_stock w)) = None"
    using assms by (auto simp: places_def find_None_iff quant_at_def)
  ultimately show ?thesis by (simp add: q_held_def)
qed

lemma wh_ok_iff: "wh_ok w \<longleftrightarrow> distinct (map sm_id (wh_moves w)) \<and> (\<forall>m \<in> set (wh_moves w). move_ok w m)
   \<and> (\<forall>p l t. reserved_by w p l t = q_held (wh_stock w) p l t)"
proof -
  have "(\<forall>(p, l, t) \<in> set (places w). reserved_by w p l t = q_held (wh_stock w) p l t)
    \<longleftrightarrow> (\<forall>p l t. reserved_by w p l t = q_held (wh_stock w) p l t)"
    using outside_places [of _ _ _ w] by fast
  then show ?thesis by (simp add: wh_ok_def)
qed

lemma wh_okD:
  assumes "wh_ok w"
  shows "distinct (map sm_id (wh_moves w))" "m \<in> set (wh_moves w) \<Longrightarrow> move_ok w m"
    "reserved_by w p l t = q_held (wh_stock w) p l t"
  using assms by (auto simp: wh_ok_iff)

text \<open>A sum over the moves when one row, or all rows that satisfy a condition, are rewritten.\<close>

lemmas sum_update_one = sum_update_key [where key = sm_id]

lemma sum_update_all:
  "(\<And>m. m \<in> set ms \<Longrightarrow> P m \<Longrightarrow> g (f m) = (0::int)) \<Longrightarrow>
   sum_list (map g (map (\<lambda>m. if P m then f m else m) ms)) = sum_list (map g ms) - sum_list (map g (filter P ms))"
  by (induction ms) auto

lemma sum_update_same:
  "(\<And>m. m \<in> set ms \<Longrightarrow> P m \<Longrightarrow> g (f m) = (g m :: int)) \<Longrightarrow>
   sum_list (map g (map (\<lambda>m. if P m then f m else m) ms)) = sum_list (map g ms)"
  by (induction ms) auto

lemma update_smoves_simps [simp]:
  "wh_moves (update_smoves P f w) = map (\<lambda>m. if P m then f m else m) (wh_moves w)"
  "wh_stock (update_smoves P f w) = wh_stock w" "wh_next_move (update_smoves P f w) = wh_next_move w"
  by (simp_all add: update_smoves_def)

lemma update_transfer_simps [simp]:
  "wh_moves (update_transfer i f w) = wh_moves w" "wh_stock (update_transfer i f w) = wh_stock w"
  "wh_next_move (update_transfer i f w) = wh_next_move w"
  by (simp_all add: update_transfer_def)

lemma chatter_simps [simp]:
  "wh_moves (chatter m i b w) = wh_moves w" "wh_stock (chatter m i b w) = wh_stock w"
  "wh_next_move (chatter m i b w) = wh_next_move w"
  by (simp_all add: chatter_def)

text \<open>What a step keeps: the invariant, and the part of each quantity that the moves do not explain.\<close>

definition keeps :: "warehouse \<Rightarrow> warehouse \<Rightarrow> bool" where
  "keeps w w' \<longleftrightarrow> (wh_ok w \<longrightarrow> wh_ok w' \<and> wh_next_move w \<le> wh_next_move w' \<and> (\<forall>k. unmoved w' k = unmoved w k))"

lemma keeps_refl [simp]: "keeps w w"
  by (simp add: keeps_def)

lemma keeps_trans [trans]: "keeps w w' \<Longrightarrow> keeps w' w'' \<Longrightarrow> keeps w w''"
  by (auto simp: keeps_def)

lemma keeps_frame: "wh_moves w' = wh_moves w \<Longrightarrow> wh_stock w' = wh_stock w \<Longrightarrow> wh_next_move w' = wh_next_move w \<Longrightarrow> keeps w w'"
  by (simp add: keeps_def wh_ok_iff unmoved_def moved_def reserved_by_def move_ok_def split: prod.split)

lemma keepsI:
  assumes "wh_ok w \<Longrightarrow> distinct (map sm_id (wh_moves w'))"
    and "\<And>m. wh_ok w \<Longrightarrow> m \<in> set (wh_moves w') \<Longrightarrow> move_ok w' m"
    and "\<And>p l t. wh_ok w \<Longrightarrow> reserved_by w' p l t - q_held (wh_stock w') p l t = reserved_by w p l t - q_held (wh_stock w) p l t"
    and "\<And>p l t. wh_ok w \<Longrightarrow> moved w' p l t - q_stock (wh_stock w') p l t = moved w p l t - q_stock (wh_stock w) p l t"
    and "wh_ok w \<Longrightarrow> wh_next_move w \<le> wh_next_move w'"
  shows "keeps w w'"
proof -
  { assume ok: "wh_ok w"
    have "reserved_by w' p l t = q_held (wh_stock w') p l t" for p l t
      using assms(3) [OF ok, of p l t] wh_okD(3) [OF ok, of p l t] by simp
    then have "wh_ok w'" using assms(1,2) ok by (simp add: wh_ok_iff)
    moreover have "unmoved w' (p, l, t) = unmoved w (p, l, t)" for p l t
      using assms(4) [OF ok, of p l t] by (simp add: unmoved_def)
    ultimately have "wh_ok w' \<and> wh_next_move w \<le> wh_next_move w' \<and> (\<forall>k. unmoved w' k = unmoved w k)" using assms(5) [OF ok] by auto }
  then show ?thesis by (simp add: keeps_def)
qed

text \<open>A change of states that neither finishes a move nor touches a reservation.\<close>

lemma keeps_states:
  assumes f: "\<And>m. sm_id (f m) = sm_id m \<and> sm_reserved (f m) = sm_reserved m \<and> held_by p l t (f m) = held_by p l t m"
    and hb: "\<And>p l t m. held_by p l t (f m) = held_by p l t m"
    and P: "\<And>m. P m \<Longrightarrow> sm_state m \<noteq> ''done'' \<and> \<not> held_state (sm_state m) \<and> sm_state (f m) \<noteq> ''done''"
  shows "keeps w (update_smoves P f w)"
proof (rule keepsI)
  have ids: "map sm_id (wh_moves (update_smoves P f w)) = map sm_id (wh_moves w)" using f by auto
  show "wh_ok w \<Longrightarrow> distinct (map sm_id (wh_moves (update_smoves P f w)))" unfolding ids by (simp add: wh_ok_iff)
  show "wh_ok w \<Longrightarrow> m \<in> set (wh_moves (update_smoves P f w)) \<Longrightarrow> move_ok (update_smoves P f w) m" for m
    using f P by (auto simp: wh_ok_iff move_ok_def split: if_splits)
  show "reserved_by (update_smoves P f w) p l t - q_held (wh_stock (update_smoves P f w)) p l t
      = reserved_by w p l t - q_held (wh_stock w) p l t" for p l t
    unfolding reserved_by_def update_smoves_simps by (subst sum_update_same) (simp_all add: hb)
  show "moved (update_smoves P f w) p l t - q_stock (wh_stock (update_smoves P f w)) p l t
      = moved w p l t - q_stock (wh_stock w) p l t" for p l t
    unfolding moved_def update_smoves_simps by (subst sum_update_same) (use P in \<open>auto simp: flow_def\<close>)
qed simp

lemma keeps_confirm: "confirm_transfer t1 t2 i w = Inr w' \<Longrightarrow> keeps w w'"
proof (cases "w' = w")
  case False
  assume "confirm_transfer t1 t2 i w = Inr w'"
  with False obtain ref tbl where w': "w' = chatter ''stock.picking'' i ''Transfer confirmed.''
      (update_smoves (\<lambda>m. sm_transfer m = Some i \<and> sm_state m = ''draft'') (\<lambda>m. m\<lparr>sm_state := ''confirmed''\<rparr>)
        (update_transfer i (\<lambda>p. p\<lparr>tf_state := ''confirmed'', tf_name := ref\<rparr>) (w\<lparr>wh_sequences := tbl\<rparr>)))"
    by (auto simp: confirm_transfer_def number_in_def exn_simps split: option.splits if_splits)
  let ?w1 = "update_transfer i (\<lambda>p. p\<lparr>tf_state := ''confirmed'', tf_name := ref\<rparr>) (w\<lparr>wh_sequences := tbl\<rparr>)"
  have "keeps w ?w1" by (rule keeps_frame) simp_all
  also have "keeps ?w1 (update_smoves (\<lambda>m. sm_transfer m = Some i \<and> sm_state m = ''draft'') (\<lambda>m. m\<lparr>sm_state := ''confirmed''\<rparr>) ?w1)"
    by (rule keeps_states) (auto simp: held_by_def lot_of_def held_state_def)
  also have "keeps \<dots> w'" unfolding w' by (rule keeps_frame) simp_all
  finally show ?thesis .
qed simp

lemma keeps_reset: "reset_transfer i w = Inr w' \<Longrightarrow> keeps w w'"
proof -
  assume "reset_transfer i w = Inr w'"
  then have w': "w' = update_smoves (\<lambda>m. sm_transfer m = Some i \<and> sm_state m = ''cancel'') (\<lambda>m. m\<lparr>sm_state := ''draft''\<rparr>)
       (update_transfer i (\<lambda>p. if tf_state p = ''cancel'' then p\<lparr>tf_state := ''draft'', tf_name := ''New''\<rparr> else p) w)"
    by (simp add: reset_transfer_def)
  have "keeps w (update_transfer i (\<lambda>p. if tf_state p = ''cancel'' then p\<lparr>tf_state := ''draft'', tf_name := ''New''\<rparr> else p) w)"
    by (rule keeps_frame) simp_all
  also have "keeps \<dots> w'" unfolding w'
    by (rule keeps_states) (auto simp: held_by_def lot_of_def held_state_def)
  finally show ?thesis .
qed

text \<open>One row is rewritten together with the stock.\<close>

lemma distinct_ids: "distinct (map sm_id ms) \<Longrightarrow> x \<in> set ms \<Longrightarrow> m \<in> set ms \<Longrightarrow> sm_id x = sm_id m \<Longrightarrow> x = m"
  by (metis distinct_map inj_onD)

lemma keeps_row:
  assumes m: "m \<in> set (wh_moves w)" and w': "w' = update_smoves (\<lambda>x. sm_id x = sm_id m) f (w\<lparr>wh_stock := st\<rparr>)"
    and f: "\<And>x. sm_id (f x) = sm_id x"
    and res: "wh_ok w \<Longrightarrow> 0 \<le> sm_reserved (f m) \<and> (0 < sm_reserved (f m) \<longrightarrow> held_state (sm_state (f m)))"
    and held: "\<And>p l t. wh_ok w \<Longrightarrow> q_held st p l t - q_held (wh_stock w) p l t = held_by p l t (f m) - held_by p l t m"
    and stock: "\<And>p l t. wh_ok w \<Longrightarrow> q_stock st p l t - q_stock (wh_stock w) p l t = flow p l t (f m) - flow p l t m"
  shows "keeps w w'"
proof (rule keepsI)
  have ids: "map sm_id (wh_moves w') = map sm_id (wh_moves w)" using f by (auto simp: w')
  show "wh_ok w \<Longrightarrow> distinct (map sm_id (wh_moves w'))" unfolding ids by (rule wh_okD)
  show "move_ok w' x" if ok: "wh_ok w" and x: "x \<in> set (wh_moves w')" for x
  proof -
    from x obtain y where y: "y \<in> set (wh_moves w)" "x = (if sm_id y = sm_id m then f y else y)" by (auto simp: w')
    show ?thesis
    proof (cases "sm_id y = sm_id m")
      case True
      with distinct_ids [OF wh_okD(1) [OF ok] y(1) m] have "x = f m" using y by simp
      then show ?thesis using res [OF ok] wh_okD(2) [OF ok m] f by (simp add: move_ok_def w')
    next
      case False
      then show ?thesis using y wh_okD(2) [OF ok y(1)] by (simp add: move_ok_def w')
    qed
  qed
  show "reserved_by w' p l t - q_held (wh_stock w') p l t = reserved_by w p l t - q_held (wh_stock w) p l t"
    if ok: "wh_ok w" for p l t
    using held [OF ok, of p l t] sum_update_one [OF wh_okD(1) [OF ok] m, of "held_by p l t" f]
    unfolding reserved_by_def w' update_smoves_simps by simp
  show "moved w' p l t - q_stock (wh_stock w') p l t = moved w p l t - q_stock (wh_stock w) p l t"
    if ok: "wh_ok w" for p l t
    using stock [OF ok, of p l t] sum_update_one [OF wh_okD(1) [OF ok] m, of "flow p l t" f]
    unfolding moved_def w' update_smoves_simps by simp
qed (simp add: w')

lemma row_kept: "x \<in> set (wh_moves w) \<Longrightarrow> sm_id x \<noteq> sm_id m \<Longrightarrow>
   x \<in> set (wh_moves (update_smoves (\<lambda>y. sm_id y = sm_id m) f (w\<lparr>wh_stock := st\<rparr>)))"
  by (auto simp: image_iff intro!: bexI [of _ x])

lemma find_smove: "wh_ok w \<Longrightarrow> m \<in> set (wh_moves w) \<Longrightarrow> find_smove (sm_id m) w = Some m"
proof -
  assume ok: "wh_ok w" and m: "m \<in> set (wh_moves w)"
  then obtain x where x: "find_smove (sm_id m) w = Some x" by (cases "find_smove (sm_id m) w") (auto simp: find_smove_def find_None_iff)
  then have "x \<in> set (wh_moves w)" "sm_id x = sm_id m" by (auto simp: find_smove_def find_Some_iff)
  with distinct_ids [OF wh_okD(1) [OF ok] _ m] x show ?thesis by blast
qed

lemma keeps_assign_move:
  assumes m: "m \<in> set (wh_moves w)" and st: "open_state (sm_state m)" and ok: "wh_ok w"
  shows "keeps w (snd (assign_move m (b, w)))"
    and "x \<in> set (wh_moves w) \<Longrightarrow> sm_id x \<noteq> sm_id m \<Longrightarrow> x \<in> set (wh_moves (snd (assign_move m (b, w))))"
proof -
  define need where "need = sm_demand m - sm_reserved m"
  define r where "r = (if need > 0 then reserve (sm_product m) (sm_src m) need (lot_of m) (wh_stock w) else (0, wh_stock w))"
  define tot where "tot = sm_reserved m + fst r"
  define f :: "smove \<Rightarrow> smove" where "f = (\<lambda>x. x\<lparr>sm_reserved := tot, sm_state := (if tot \<ge> sm_demand m then ''assigned'' else ''partially_available'')\<rparr>)"
  have w': "snd (assign_move m (b, w)) = update_smoves (\<lambda>x. sm_id x = sm_id m) f (w\<lparr>wh_stock := snd r\<rparr>)"
    by (simp add: assign_move_def find_smove [OF ok m] Let_def split_beta f_def tot_def r_def need_def)
  have eff: "0 \<le> fst r \<and> q_stock (snd r) p l t = q_stock (wh_stock w) p l t
      \<and> q_held (snd r) p l t = q_held (wh_stock w) p l t + (if (p, l, t) = (sm_product m, sm_src m, lot_of m) then fst r else 0)" for p l t
    using reserve_effect [of "sm_product m" "sm_src m" need "lot_of m" "wh_stock w" "fst r" "snd r"] by (simp add: r_def)
  have "0 \<le> sm_reserved m" using wh_okD(2) [OF ok m] by (simp add: move_ok_def)
  then show "keeps w (snd (assign_move m (b, w)))" unfolding w'
    by (intro keeps_row [OF m refl])
       (use eff st in \<open>auto simp: f_def held_state_def tot_def held_by_def lot_of_def flow_def open_state_def\<close>)
  show "x \<in> set (wh_moves w) \<Longrightarrow> sm_id x \<noteq> sm_id m \<Longrightarrow> x \<in> set (wh_moves (snd (assign_move m (b, w))))"
    unfolding w' by (rule row_kept)
qed

lemma keeps_assign_moves:
  assumes "distinct (map sm_id ms)" "set ms \<subseteq> set (wh_moves w)" "\<forall>m \<in> set ms. open_state (sm_state m)" "wh_ok w"
  shows "keeps w (snd (fold assign_move ms (b, w)))"
  using assms
proof (induction ms arbitrary: b w)
  case (Cons m ms)
  obtain b' w' where s: "assign_move m (b, w) = (b', w')" by (cases "assign_move m (b, w)")
  have m: "m \<in> set (wh_moves w)" "open_state (sm_state m)" using Cons.prems by simp_all
  have k: "keeps w w'" using keeps_assign_move(1) [OF m Cons.prems(4), of b] by (simp add: s)
  have "set ms \<subseteq> set (wh_moves w')"
  proof
    fix x assume x: "x \<in> set ms"
    with Cons.prems(1,2) have "x \<in> set (wh_moves w)" "sm_id x \<noteq> sm_id m" by (auto simp: image_iff)
    then show "x \<in> set (wh_moves w')" using keeps_assign_move(2) [OF m Cons.prems(4), of x b] by (simp add: s)
  qed
  moreover have "wh_ok w'" using k Cons.prems(4) by (simp add: keeps_def)
  ultimately have "keeps w' (snd (fold assign_move ms (b', w')))" using Cons.prems by (intro Cons.IH) simp_all
  with k show ?case by (simp add: s keeps_trans)
qed simp

lemma distinct_moves_of: "wh_ok w \<Longrightarrow> distinct (map sm_id (filter P (moves_of i w)))"
  by (simp add: moves_of_def wh_ok_iff distinct_map_filter)

lemma keeps_assign: "assign_transfer i w = Inr w' \<Longrightarrow> keeps w w'"
proof (cases "wh_ok w")
  case True
  assume run: "assign_transfer i w = Inr w'"
  let ?ms = "filter (\<lambda>m. open_state (sm_state m)) (moves_of i w)"
  let ?s = "fold assign_move ?ms (?ms \<noteq> [], w)"
  from True have "keeps w (snd ?s)" by (intro keeps_assign_moves distinct_moves_of) (auto simp: moves_of_def)
  also have "keeps (snd ?s) w'" using run
    by (intro keeps_frame) (auto simp: assign_transfer_def Let_def split_beta)
  finally show ?thesis .
qed (simp add: keeps_def)

text \<open>What a move holds is no more than what is held at its place.\<close>

lemma held_by_le:
  assumes ok: "wh_ok w" and m: "m \<in> set (wh_moves w)"
  shows "sm_reserved m \<le> q_held (wh_stock w) (sm_product m) (sm_src m) (lot_of m)"
proof -
  let ?g = "held_by (sm_product m) (sm_src m) (lot_of m)"
  have "\<forall>x \<in> set (map ?g (wh_moves w)). 0 \<le> x" using wh_okD(2) [OF ok] by (auto simp: held_by_def move_ok_def)
  moreover have "?g m \<in> set (map ?g (wh_moves w))" using m by simp
  ultimately have "?g m \<le> sum_list (map ?g (wh_moves w))" by (metis member_le_sum_list)
  moreover have "\<dots> = q_held (wh_stock w) (sm_product m) (sm_src m) (lot_of m)"
    using wh_okD(3) [OF ok] by (simp add: reserved_by_def)
  ultimately show ?thesis by (simp add: held_by_def)
qed

lemma update_smoves_twice:
  "(\<And>x. sm_id (h x) = sm_id x) \<Longrightarrow> update_smoves (\<lambda>x. sm_id x = i) g ((update_smoves (\<lambda>x. sm_id x = i) h w)\<lparr>wh_stock := st\<rparr>)
   = update_smoves (\<lambda>x. sm_id x = i) (\<lambda>x. g (h x)) (w\<lparr>wh_stock := st\<rparr>)"
  by (simp add: update_smoves_def comp_def cong: if_cong)

lemma lot_of_updates [simp]:
  "lot_of (m\<lparr>sm_dest := a\<rparr>) = lot_of m" "lot_of (m\<lparr>sm_quantity := b\<rparr>) = lot_of m"
  "lot_of (m\<lparr>sm_reserved := c\<rparr>) = lot_of m" "lot_of (m\<lparr>sm_state := e\<rparr>) = lot_of m"
  by (simp_all add: lot_of_def)

lemma keeps_validate_move:
  assumes m: "m \<in> set (wh_moves w)" and st: "sm_state m \<noteq> ''done''" and ok: "wh_ok w"
    and run: "validate_move pur m w = Inr w'"
  shows "keeps w w'" and "x \<in> set (wh_moves w) \<Longrightarrow> sm_id x \<noteq> sm_id m \<Longrightarrow> x \<in> set (wh_moves w')"
proof -
  define dest where "dest = putaway_dest (sm_dest m) (sm_product m) w"
  define f :: "smove \<Rightarrow> smove" where "f = (\<lambda>x. x\<lparr>sm_dest := dest, sm_quantity := done_qty m, sm_reserved := 0, sm_state := ''done''\<rparr>)"
  have row: "w' = w \<or> (\<exists>c. w' = update_smoves (\<lambda>x. sm_id x = sm_id m) f (w\<lparr>wh_stock :=
       applyMove (sm_product m) (sm_src m) dest (done_qty m) (company_of m) c (lot_of m)
        (release_stock (sm_product m) (sm_src m) (sm_reserved m) (lot_of m) (wh_stock w))\<rparr>))"
  proof (cases "dest = sm_dest m")
    case True
    have "update_smoves (\<lambda>x. sm_id x = sm_id m) (\<lambda>x. x\<lparr>sm_quantity := done_qty m, sm_reserved := 0, sm_state := ''done''\<rparr>) v
        = update_smoves (\<lambda>x. sm_id x = sm_id m) f v" if "wh_moves v = wh_moves w" for v
    proof -
      have fm: "m\<lparr>sm_quantity := done_qty m, sm_reserved := 0, sm_state := ''done''\<rparr> = f m"
        by (cases m) (simp add: f_def True)
      have "map (\<lambda>x. if sm_id x = sm_id m then x\<lparr>sm_quantity := done_qty m, sm_reserved := 0, sm_state := ''done''\<rparr> else x) (wh_moves w)
          = map (\<lambda>x. if sm_id x = sm_id m then f x else x) (wh_moves w)"
        using distinct_ids [OF wh_okD(1) [OF ok] _ m] fm by (intro map_cong refl) metis
      then show ?thesis by (simp add: update_smoves_def that)
    qed
    then show ?thesis using run True
      by (auto simp: validate_move_def Let_def dest_def [symmetric] exn_simps split: option.splits)
  next
    case False
    let ?h = "\<lambda>x. x\<lparr>sm_dest := dest\<rparr>" and ?g = "\<lambda>x. x\<lparr>sm_quantity := done_qty m, sm_reserved := 0, sm_state := ''done''\<rparr>"
    from run False have "w' = w \<or> (\<exists>c. w' = update_smoves (\<lambda>x. sm_id x = sm_id m) ?g ((update_smoves (\<lambda>x. sm_id x = sm_id m) ?h w)
        \<lparr>wh_stock := applyMove (sm_product m) (sm_src m) dest (done_qty m) (company_of m) c (lot_of m)
        (release_stock (sm_product m) (sm_src m) (sm_reserved m) (lot_of m) (wh_stock w))\<rparr>))"
      by (auto simp: validate_move_def Let_def dest_def [symmetric] exn_simps split: option.splits)
    moreover have "(\<lambda>x. ?g (?h x)) = f" by (simp add: f_def)
    ultimately show ?thesis using update_smoves_twice [where h = ?h and g = ?g and i = "sm_id m" and w = w] by simp
  qed
  have rel: "q_stock (release_stock (sm_product m) (sm_src m) (sm_reserved m) (lot_of m) (wh_stock w)) p l t = q_stock (wh_stock w) p l t"
    "q_held (release_stock (sm_product m) (sm_src m) (sm_reserved m) (lot_of m) (wh_stock w)) p l t
     = q_held (wh_stock w) p l t - (if (p, l, t) = (sm_product m, sm_src m, lot_of m) then sm_reserved m else 0)" for p l t
    using release_effect [OF held_by_le [OF ok m]] wh_okD(2) [OF ok m] by (simp_all add: move_ok_def)
  show "keeps w w'" using row
  proof
    assume "\<exists>c. w' = update_smoves (\<lambda>x. sm_id x = sm_id m) f (w\<lparr>wh_stock :=
       applyMove (sm_product m) (sm_src m) dest (done_qty m) (company_of m) c (lot_of m)
        (release_stock (sm_product m) (sm_src m) (sm_reserved m) (lot_of m) (wh_stock w))\<rparr>)"
    then obtain c where w': "w' = update_smoves (\<lambda>x. sm_id x = sm_id m) f (w\<lparr>wh_stock :=
       applyMove (sm_product m) (sm_src m) dest (done_qty m) (company_of m) c (lot_of m)
        (release_stock (sm_product m) (sm_src m) (sm_reserved m) (lot_of m) (wh_stock w))\<rparr>)" ..
    show "keeps w w'"
      by (rule keeps_row [OF m w']) (use st in \<open>auto simp: f_def rel q_stock_applyMove held_by_def flow_def\<close>)
  qed simp
  show "x \<in> set (wh_moves w) \<Longrightarrow> sm_id x \<noteq> sm_id m \<Longrightarrow> x \<in> set (wh_moves w')"
    using row row_kept [of x w m f] by auto
qed

lemma keeps_validate_moves:
  assumes "distinct (map sm_id ms)" "set ms \<subseteq> set (wh_moves w)" "\<forall>m \<in> set ms. sm_state m \<noteq> ''done''" "wh_ok w"
    and "foldE (validate_move pur) ms w = Inr w'"
  shows "keeps w w'"
  using assms
proof (induction ms arbitrary: w)
  case (Cons m ms)
  from Cons.prems(5) obtain w1 where w1: "validate_move pur m w = Inr w1" "foldE (validate_move pur) ms w1 = Inr w'"
    by (auto simp: exn_simps)
  have m: "m \<in> set (wh_moves w)" "sm_state m \<noteq> ''done''" using Cons.prems by simp_all
  have k: "keeps w w1" by (rule keeps_validate_move(1) [OF m Cons.prems(4) w1(1)])
  have "set ms \<subseteq> set (wh_moves w1)"
  proof
    fix x assume x: "x \<in> set ms"
    with Cons.prems(1,2) have "x \<in> set (wh_moves w)" "sm_id x \<noteq> sm_id m" by (auto simp: image_iff)
    then show "x \<in> set (wh_moves w1)" by (rule keeps_validate_move(2) [OF m Cons.prems(4) w1(1)])
  qed
  moreover have "wh_ok w1" using k Cons.prems(4) by (simp add: keeps_def)
  ultimately have "keeps w1 w'" using Cons.prems w1 by (intro Cons.IH) simp_all
  with k show ?case by (rule keeps_trans)
qed simp

lemma keeps_consume: "keeps w (consume_component ndiv i sub company got per l w)"
proof (cases "ndiv (bl_qty l) got per \<le> 0")
  case False
  define q where "q = ndiv (bl_qty l) got per"
  define m :: smove where "m = \<lparr>sm_id = wh_next_move w, sm_transfer = Some i, sm_product = bl_product l,
     sm_name = ''Subcontract component'', sm_demand = q, sm_quantity = q, sm_reserved = 0, sm_state = ''done'',
     sm_src = 4, sm_dest = sub, sm_company = nullif0 company, sm_lot = None, sm_package = None, sm_origin = ''Subcontract''\<rparr>"
  have w': "consume_component ndiv i sub company got per l w = w\<lparr>wh_next_move := wh_next_move w + 1,
     wh_moves := wh_moves w @ [m], wh_stock := applyMove (bl_product l) 4 sub q company (-1) 0 (wh_stock w)\<rparr>"
    using False by (simp add: consume_component_def Let_def q_def m_def)
  have new: "wh_ok w \<Longrightarrow> x \<in> set (wh_moves w) \<Longrightarrow> sm_id x < wh_next_move w" for x
    using wh_okD(2) [of w x] by (simp add: move_ok_def)
  show ?thesis unfolding w'
  proof (rule keepsI)
    show "distinct (map sm_id (wh_moves (w\<lparr>wh_next_move := wh_next_move w + 1, wh_moves := wh_moves w @ [m],
        wh_stock := applyMove (bl_product l) 4 sub q company (-1) 0 (wh_stock w)\<rparr>)))" if "wh_ok w"
      using wh_okD(1) [OF that] new [OF that] by (auto simp: m_def) (metis less_irrefl)
    show "move_ok (w\<lparr>wh_next_move := wh_next_move w + 1, wh_moves := wh_moves w @ [m],
        wh_stock := applyMove (bl_product l) 4 sub q company (-1) 0 (wh_stock w)\<rparr>) x"
      if "wh_ok w" "x \<in> set (wh_moves (w\<lparr>wh_next_move := wh_next_move w + 1, wh_moves := wh_moves w @ [m],
        wh_stock := applyMove (bl_product l) 4 sub q company (-1) 0 (wh_stock w)\<rparr>))" for x
      using wh_okD(2) [OF that(1)] that(2) by (auto simp: m_def move_ok_def dest: new [OF that(1)])
  qed (auto simp: reserved_by_def held_by_def moved_def m_def flow_def lot_of_def q_stock_applyMove)
qed (simp add: consume_component_def Let_def)

lemma keeps_fold: "(\<And>x w. keeps w (f x w)) \<Longrightarrow> keeps w (fold f xs w)"
  by (induction xs arbitrary: w) (auto intro: keeps_trans)

lemma keeps_backflush: "keeps w (backflush ndiv i p w)"
  by (auto simp: backflush_def backflush_product_def intro!: keeps_fold keeps_consume split: prod.split option.split)

lemma orders_frame [simp]:
  "wh_moves (deliver_order i p w) = wh_moves w" "wh_stock (deliver_order i p w) = wh_stock w"
  "wh_next_move (deliver_order i p w) = wh_next_move w"
  "wh_moves (receive_order i p w) = wh_moves w" "wh_stock (receive_order i p w) = wh_stock w"
  "wh_next_move (receive_order i p w) = wh_next_move w"
  "wh_moves (move_packages i w) = wh_moves w" "wh_stock (move_packages i w) = wh_stock w"
  "wh_next_move (move_packages i w) = wh_next_move w"
  by (simp_all add: deliver_order_def receive_order_def move_packages_def Let_def split: option.split)

lemma keeps_validate: "validate_transfer ndiv i w = Inr w' \<Longrightarrow> keeps w w'"
proof (cases "wh_ok w \<and> w' \<noteq> w")
  case True
  assume "validate_transfer ndiv i w = Inr w'"
  with True obtain p w1 where
    run: "foldE (validate_move (tf_purchase p)) (filter (\<lambda>m. sm_state m \<noteq> ''done'' \<and> sm_state m \<noteq> ''cancel'') (moves_of i w)) w = Inr w1"
    and w': "w' = chatter ''stock.picking'' i ''Transfer validated.'' (backflush ndiv i p (receive_order i p (deliver_order i p
                  (move_packages i (update_transfer i (\<lambda>p. p\<lparr>tf_state := ''done''\<rparr>) w1)))))"
    by (auto simp: validate_transfer_def exn_simps split: option.splits if_splits)
  have "keeps w w1" using True by (intro keeps_validate_moves [OF distinct_moves_of _ _ _ run]) (auto simp: moves_of_def)
  also have "keeps w1 (receive_order i p (deliver_order i p (move_packages i (update_transfer i (\<lambda>p. p\<lparr>tf_state := ''done''\<rparr>) w1))))"
    by (rule keeps_frame) simp_all
  also have "keeps \<dots> (backflush ndiv i p \<dots>)" by (rule keeps_backflush)
  also have "keeps \<dots> w'" unfolding w' by (rule keeps_frame) simp_all
  finally show ?thesis .
qed (auto simp: keeps_def)

text \<open>Letting go of what the moves of a transfer hold: the releases one after another, then the rows.\<close>

lemma release_move_simps [simp]:
  "wh_moves (release_move m w) = wh_moves w" "wh_next_move (release_move m w) = wh_next_move w"
  by (simp_all add: release_move_def)

lemma release_moves_simps [simp]:
  "wh_moves (fold release_move hs w) = wh_moves w" "wh_next_move (fold release_move hs w) = wh_next_move w"
  by (induction hs arbitrary: w) simp_all

lemma release_moves_effect:
  assumes "\<forall>h \<in> set hs. 0 \<le> sm_reserved h"
    and "\<And>p l t. sum_list (map (held_by p l t) hs) \<le> q_held (wh_stock w) p l t"
  shows "q_stock (wh_stock (fold release_move hs w)) p l t = q_stock (wh_stock w) p l t
    \<and> q_held (wh_stock (fold release_move hs w)) p l t = q_held (wh_stock w) p l t - sum_list (map (held_by p l t) hs)"
  using assms
proof (induction hs arbitrary: w)
  case (Cons h hs)
  have nonneg: "0 \<le> sum_list (map (held_by p l t) hs)" for p l t
    using Cons.prems(1) by (intro sum_list_nonneg) (auto simp: held_by_def)
  have "held_by (sm_product h) (sm_src h) (lot_of h) h \<le> q_held (wh_stock w) (sm_product h) (sm_src h) (lot_of h)"
    using Cons.prems(2) [of "sm_product h" "sm_src h" "lot_of h"] nonneg [of "sm_product h" "sm_src h" "lot_of h"] by simp
  then have le: "sm_reserved h \<le> q_held (wh_stock w) (sm_product h) (sm_src h) (lot_of h)" by (simp add: held_by_def)
  have step: "q_stock (wh_stock (release_move h w)) p l t = q_stock (wh_stock w) p l t
     \<and> q_held (wh_stock (release_move h w)) p l t = q_held (wh_stock w) p l t - held_by p l t h" for p l t
    using release_effect [OF le] Cons.prems(1) by (simp add: release_move_def held_by_def)
  have "q_stock (wh_stock (fold release_move hs (release_move h w))) p l t = q_stock (wh_stock (release_move h w)) p l t
    \<and> q_held (wh_stock (fold release_move hs (release_move h w))) p l t
      = q_held (wh_stock (release_move h w)) p l t - sum_list (map (held_by p l t) hs)"
  proof (rule Cons.IH)
    show "\<forall>h \<in> set hs. 0 \<le> sm_reserved h" using Cons.prems(1) by simp
    show "sum_list (map (held_by p l t) hs) \<le> q_held (wh_stock (release_move h w)) p l t" for p l t
      using Cons.prems(2) [of p l t] step [of p l t] by simp
  qed
  with step [of p l t] show ?case by simp
qed simp

lemma sum_filter_zero: "(\<And>m. m \<in> set ms \<Longrightarrow> P m \<Longrightarrow> \<not> Q m \<Longrightarrow> g m = (0::int)) \<Longrightarrow> (\<And>m. Q m \<Longrightarrow> P m) \<Longrightarrow>
   sum_list (map g (filter P ms)) = sum_list (map g (filter Q ms))"
  by (induction ms) auto

lemma sum_filter_le: "(\<And>m. m \<in> set ms \<Longrightarrow> 0 \<le> (g m :: int)) \<Longrightarrow> sum_list (map g (filter P ms)) \<le> sum_list (map g ms)"
  by (induction ms) (auto simp: add_increasing)

lemma keeps_let_go:
  assumes P: "\<And>m. P m \<longleftrightarrow> sm_transfer m = Some i \<and> S (sm_state m)"
    and S: "\<And>s. held_state s \<Longrightarrow> H s \<longleftrightarrow> S s" "\<And>s. H s \<Longrightarrow> S s" "\<not> S ''done''" and s': "s' \<noteq> ''done''"
    and hs: "hs = filter (\<lambda>m. H (sm_state m) \<and> sm_reserved m > 0) (moves_of i w)"
  shows "keeps w (update_smoves P (\<lambda>m. m\<lparr>sm_state := s', sm_reserved := 0\<rparr>) (fold release_move hs w))"
proof (rule keepsI)
  let ?f = "\<lambda>m. m\<lparr>sm_state := s', sm_reserved := 0\<rparr>" and ?w' = "update_smoves P (\<lambda>m. m\<lparr>sm_state := s', sm_reserved := 0\<rparr>) (fold release_move hs w)"
  have ids: "map sm_id (wh_moves ?w') = map sm_id (wh_moves w)" by simp
  show "wh_ok w \<Longrightarrow> distinct (map sm_id (wh_moves ?w'))" unfolding ids by (rule wh_okD)
  show "move_ok ?w' m" if "wh_ok w" "m \<in> set (wh_moves ?w')" for m
    using wh_okD(2) [OF that(1)] that(2) by (auto simp: move_ok_def split: if_splits)
  assume ok: "wh_ok w"
  have rel: "q_stock (wh_stock (fold release_move hs w)) p l t = q_stock (wh_stock w) p l t
    \<and> q_held (wh_stock (fold release_move hs w)) p l t = q_held (wh_stock w) p l t - sum_list (map (held_by p l t) hs)" for p l t
  proof (rule release_moves_effect)
    show "\<forall>h \<in> set hs. 0 \<le> sm_reserved h" by (simp add: hs)
    show "sum_list (map (held_by p l t) hs) \<le> q_held (wh_stock w) p l t" for p l t
      unfolding hs moves_of_def filter_filter wh_okD(3) [OF ok, symmetric] reserved_by_def
      by (rule sum_filter_le) (use wh_okD(2) [OF ok] in \<open>auto simp: held_by_def move_ok_def\<close>)
  qed
  have part: "sum_list (map (held_by p l t) (filter P (wh_moves w))) = sum_list (map (held_by p l t) hs)" for p l t
    unfolding hs moves_of_def filter_filter
  proof (rule sum_filter_zero)
    fix m assume m: "m \<in> set (wh_moves w)" "P m" "\<not> (sm_transfer m = Some i \<and> H (sm_state m) \<and> 0 < sm_reserved m)"
    then have "sm_reserved m = 0" using wh_okD(2) [OF ok m(1)] P S(1) by (auto simp: move_ok_def)
    then show "held_by p l t m = 0" by (simp add: held_by_def)
  qed (use P S(2) in auto)
  show "reserved_by ?w' p l t - q_held (wh_stock ?w') p l t = reserved_by w p l t - q_held (wh_stock w) p l t" for p l t
    unfolding reserved_by_def update_smoves_simps release_moves_simps
    by (subst sum_update_all) (use rel part in \<open>auto simp: held_by_def\<close>)
  show "moved ?w' p l t - q_stock (wh_stock ?w') p l t = moved w p l t - q_stock (wh_stock w) p l t" for p l t
    unfolding moved_def update_smoves_simps release_moves_simps
    by (subst sum_update_same) (use rel P S(3) s' in \<open>auto simp: flow_def\<close>)
qed simp

lemma keeps_cancel: "cancel_transfer i w = Inr w' \<Longrightarrow> keeps w w'"
proof -
  assume run: "cancel_transfer i w = Inr w'"
  let ?hs = "filter (\<lambda>m. (sm_state m \<noteq> ''done'' \<and> sm_state m \<noteq> ''cancel'') \<and> sm_reserved m > 0) (moves_of i w)"
  let ?v = "update_smoves (\<lambda>m. sm_transfer m = Some i \<and> sm_state m \<noteq> ''done'') (\<lambda>m. m\<lparr>sm_state := ''cancel'', sm_reserved := 0\<rparr>)
     (fold release_move ?hs w)"
  have "keeps w ?v"
    by (rule keeps_let_go [where S = "\<lambda>s. s \<noteq> ''done''" and H = "\<lambda>s. s \<noteq> ''done'' \<and> s \<noteq> ''cancel''"])
       (auto simp: held_state_def)
  also have "keeps ?v w'" using run
    by (intro keeps_frame) (auto simp: cancel_transfer_def Let_def)
  finally show ?thesis .
qed

lemma keeps_unreserve: "unreserve_transfer i w = Inr w' \<Longrightarrow> keeps w w'"
proof -
  assume run: "unreserve_transfer i w = Inr w'"
  let ?hs = "filter (\<lambda>m. held_state (sm_state m) \<and> sm_reserved m > 0) (moves_of i w)"
  let ?v = "update_smoves (\<lambda>m. sm_transfer m = Some i \<and> held_state (sm_state m)) (\<lambda>m. m\<lparr>sm_state := ''confirmed'', sm_reserved := 0\<rparr>)
     (fold release_move ?hs w)"
  have "keeps w ?v"
    by (rule keeps_let_go [where S = held_state and H = held_state]) (auto simp: held_state_def)
  also have "keeps ?v w'" using run
    by (intro keeps_frame) (auto simp: unreserve_transfer_def Let_def)
  finally show ?thesis .
qed

lemma set_on_hand_ok: "set_on_hand p loc new w = Inr w' \<Longrightarrow> wh_ok w \<Longrightarrow> wh_ok w'"
  by (auto simp: set_on_hand_def Let_def wh_ok_iff reserved_by_def move_ok_def split: if_splits)

subsection \<open>Every sequence of handlers\<close>

lemma each_txn_rel:
  assumes "each_txn f ids s = (r, s')" and "\<And>i s t. f i s = Inr t \<Longrightarrow> R s t"
    and "\<And>s. R s s" "\<And>s t u. R s t \<Longrightarrow> R t u \<Longrightarrow> R s u"
  shows "R s s'"
  using assms(1)
proof (induction ids arbitrary: s)
  case Nil
  then show ?case using assms(3) by simp
next
  case (Cons i ids)
  then show ?case using assms(2-4) by (auto split: sum.splits) blast
qed

inductive transfer_step :: "warehouse \<Rightarrow> warehouse \<Rightarrow> bool" where
  ts_confirm: "action_confirm t1 t2 ids w = (r, w') \<Longrightarrow> transfer_step w w'"
| ts_assign: "action_assign ids w = (r, w') \<Longrightarrow> transfer_step w w'"
| ts_validate: "button_validate ndiv ids w = (r, w') \<Longrightarrow> transfer_step w w'"
| ts_cancel: "action_cancel ids w = (r, w') \<Longrightarrow> transfer_step w w'"
| ts_unreserve: "button_unreserve ids w = (r, w') \<Longrightarrow> transfer_step w w'"
| ts_reset: "button_reset ids w = (r, w') \<Longrightarrow> transfer_step w w'"

inductive warehouse_step :: "warehouse \<Rightarrow> warehouse \<Rightarrow> bool" where
  ws_transfer: "transfer_step w w' \<Longrightarrow> warehouse_step w w'"
| ws_count: "set_on_hand p loc new w = Inr w' \<Longrightarrow> warehouse_step w w'"

lemma keeps_each_txn:
  "each_txn f ids w = (r, w') \<Longrightarrow> (\<And>i s t. f i s = Inr t \<Longrightarrow> keeps s t) \<Longrightarrow> keeps w w'"
  by (rule each_txn_rel [where R = keeps]) (auto intro: keeps_trans)

lemma keeps_step: "transfer_step w w' \<Longrightarrow> keeps w w'"
proof (induction rule: transfer_step.induct)
  case (ts_confirm t1 t2 ids w r w')
  then show ?case unfolding action_confirm_def by (rule keeps_each_txn) (rule keeps_confirm)
next
  case (ts_assign ids w r w')
  then show ?case unfolding action_assign_def by (rule keeps_each_txn) (rule keeps_assign)
next
  case (ts_validate ndiv ids w r w')
  then show ?case unfolding button_validate_def by (rule keeps_each_txn) (rule keeps_validate)
next
  case (ts_cancel ids w r w')
  then show ?case unfolding action_cancel_def by (rule keeps_each_txn) (rule keeps_cancel)
next
  case (ts_unreserve ids w r w')
  then show ?case unfolding button_unreserve_def by (rule keeps_each_txn) (rule keeps_unreserve)
next
  case (ts_reset ids w r w')
  then show ?case unfolding button_reset_def by (rule keeps_each_txn) (rule keeps_reset)
qed

lemma warehouse_step_ok: "warehouse_step w w' \<Longrightarrow> wh_ok w \<Longrightarrow> wh_ok w'"
  by (induction rule: warehouse_step.induct) (auto dest: keeps_step set_on_hand_ok simp: keeps_def)

interpretation depot_run: kept warehouse_step wh_ok
  by unfold_locales (rule warehouse_step_ok)

interpretation moves_run: conserved transfer_step wh_ok unmoved
  by unfold_locales (use keeps_step in \<open>auto simp: keeps_def\<close>)

lemma held_by_filter: "sum_list (map (held_by p l t) ms)
   = sum_list (map sm_reserved (filter (\<lambda>m. sm_product m = p \<and> sm_src m = l \<and> lot_of m = t) ms))"
  by (induction ms) (auto simp: held_by_def)

text \<open>C3: no reservation leaks. After any sequence of confirmations, reservations, validations (with
  put-away, packages, order counts and subcontracting), cancellations, unreservations, resets and
  inventory counts, also when some of them end in an error half-way, what a place holds in reserve of
  a product and lot is exactly the sum of what the moves out of that place have reserved.\<close>

theorem reservations_exact:
  assumes "warehouse_step\<^sup>*\<^sup>* w w'" and "wh_ok w"
  shows "sum_list (map sm_reserved (filter (\<lambda>m. sm_product m = p \<and> sm_src m = l \<and> lot_of m = t) (wh_moves w')))
    = q_held (wh_stock w') p l t"
proof -
  have "wh_ok w'" by (rule depot_run.runs_ok [OF assms])
  then show ?thesis using wh_okD(3) by (simp add: reserved_by_def held_by_filter [symmetric])
qed

text \<open>The quantity of every product and lot at every place changes, over any sequence of transfer
  operations, by exactly what the moves that were finished meanwhile brought in, less what they took
  out: no move is applied twice, none is recorded without being applied, and none is applied when its
  transaction fails.\<close>

theorem stock_follows_moves:
  assumes "transfer_step\<^sup>*\<^sup>* w w'" and "wh_ok w"
  shows "q_stock (wh_stock w') p l t - q_stock (wh_stock w) p l t = moved w' p l t - moved w p l t"
proof -
  have "unmoved w' = unmoved w" by (rule moves_run.runs_same [OF assms])
  then have "unmoved w' (p, l, t) = unmoved w (p, l, t)" by simp
  then show ?thesis by (simp add: unmoved_def)
qed

definition depot_stock :: stock_db where
  "depot_stock = \<lparr>sk_quants = [\<lparr>qn_product = 7, qn_location = 4, qn_lot = 0, qn_quantity = 5000000, qn_reserved = 0, qn_company = Some 1\<rparr>],
     sk_locations = [(4, Some ''internal''), (6, Some ''customer'')], sk_products = [], sk_layers = [], sk_next_layer = 1,
     sk_categories = [], sk_accounts = [], sk_journals = [], sk_moves = [], sk_next_move = 1, sk_lines = []\<rparr>"

definition depot_move :: smove where
  "depot_move = \<lparr>sm_id = 1, sm_transfer = Some 1, sm_product = 7, sm_name = ''bolt'', sm_demand = 3000000, sm_quantity = 0,
     sm_reserved = 0, sm_state = ''confirmed'', sm_src = 4, sm_dest = 6, sm_company = Some 1, sm_lot = None,
     sm_package = None, sm_origin = ''SO1''\<rparr>"

definition depot_transfer :: transfer where
  "depot_transfer = \<lparr>tf_id = 1, tf_name = ''WH/OUT/1'', tf_type = 2, tf_state = ''confirmed'', tf_partner = Some 9, tf_src = 4,
     tf_dest = 6, tf_origin = ''SO1'', tf_company = Some 1, tf_sale = Some 1, tf_purchase = None\<rparr>"

definition depot_line :: "int \<Rightarrow> order_line" where
  "depot_line i = \<lparr>ol_id = i, ol_order = 1, ol_product = Some 7, ol_name = ''bolt'', ol_qty = 3000000, ol_price = 2000000,
     ol_discount = 0, ol_taxes = ''[]'', ol_subtotal = 6000000, ol_tax = 0, ol_total = 6000000, ol_done = 0, ol_display = ''''\<rparr>"

definition depot_order :: order where
  "depot_order = \<lparr>or_id = 1, or_name = ''SO1'', or_state = ''sale'', or_partner = Some 9, or_term = None, or_company = 1,
     or_currency = Some 1, or_untaxed = 6000000, or_tax = 0, or_total = 6000000, or_invoicing = ''nothing''\<rparr>"

definition depot :: warehouse where
  "depot = \<lparr>wh_stock = depot_stock, wh_transfers = [depot_transfer], wh_next_transfer = 2, wh_moves = [depot_move],
     wh_next_move = 2, wh_types = [\<lparr>tt_id = 2, tt_code = ''outgoing'', tt_src = Some 4, tt_dest = Some 6\<rparr>], wh_putaway = [],
     wh_items = [\<lparr>it_id = 7, it_name = Some ''bolt'', it_tracking = None\<rparr>], wh_sales = [depot_order],
     wh_sale_lines = [depot_line 1], wh_purchases = [], wh_purchase_lines = [], wh_boms = [], wh_bom_lines = [],
     wh_packages = [], wh_sequences = [], wh_log = []\<rparr>"

definition depot_assigned :: warehouse where
  "depot_assigned = depot\<lparr>wh_stock := depot_stock\<lparr>sk_quants := [\<lparr>qn_product = 7, qn_location = 4, qn_lot = 0,
       qn_quantity = 5000000, qn_reserved = 3000000, qn_company = Some 1\<rparr>]\<rparr>,
     wh_transfers := [depot_transfer\<lparr>tf_state := ''assigned''\<rparr>],
     wh_moves := [depot_move\<lparr>sm_reserved := 3000000, sm_state := ''assigned''\<rparr>]\<rparr>"

definition depot_done :: warehouse where
  "depot_done = depot\<lparr>wh_stock := depot_stock\<lparr>sk_quants := [\<lparr>qn_product = 7, qn_location = 4, qn_lot = 0,
       qn_quantity = 2000000, qn_reserved = 0, qn_company = Some 1\<rparr>, \<lparr>qn_product = 7, qn_location = 6, qn_lot = 0,
       qn_quantity = 3000000, qn_reserved = 0, qn_company = Some 1\<rparr>]\<rparr>,
     wh_transfers := [depot_transfer\<lparr>tf_state := ''done''\<rparr>],
     wh_moves := [depot_move\<lparr>sm_quantity := 3000000, sm_state := ''done''\<rparr>],
     wh_sales := [depot_order\<lparr>or_invoicing := ''to_invoice''\<rparr>],
     wh_sale_lines := [(depot_line 1)\<lparr>ol_done := 3000000\<rparr>],
     wh_log := [(''stock.picking'', 1, ''Transfer validated.'')]\<rparr>"

lemma depot_assign: "action_assign [1] depot = (Inr (), depot_assigned)"
  by code_simp

lemma depot_validate: "button_validate (\<lambda>a b c. a) [1] depot_assigned = (Inr (), depot_done)"
  by code_simp

lemma depot_ok: "wh_ok depot"
  by code_simp

theorem reservations_exact_witness:
  "sum_list (map sm_reserved (filter (\<lambda>m. sm_product m = 7 \<and> sm_src m = 4 \<and> lot_of m = 0) (wh_moves depot_assigned)))
   = q_held (wh_stock depot_assigned) 7 4 0"
proof -
  have "warehouse_step depot depot_assigned" by (intro ws_transfer ts_assign) (rule depot_assign)
  then have "warehouse_step\<^sup>*\<^sup>* depot depot_assigned" ..
  then show ?thesis by (rule reservations_exact) (rule depot_ok)
qed

theorem stock_follows_moves_witness:
  "q_stock (wh_stock depot_done) 7 6 0 - q_stock (wh_stock depot) 7 6 0 = moved depot_done 7 6 0 - moved depot 7 6 0"
proof -
  have "transfer_step depot depot_assigned" by (rule ts_assign) (rule depot_assign)
  moreover have "transfer_step depot_assigned depot_done" by (rule ts_validate) (rule depot_validate)
  ultimately have "transfer_step\<^sup>*\<^sup>* depot depot_done" by (meson rtranclp.rtrancl_refl rtranclp.rtrancl_into_rtrancl)
  then show ?thesis by (rule stock_follows_moves) (rule depot_ok)
qed

text \<open>Where orders and counts go wrong: an order with two lines of one product is told of the whole
  delivery on each of them, and a count of a place that holds several lots is compared with one of them
  and booked without a lot.\<close>

lemma delivery_counted_per_line:
  "map ol_done (count_done 1 1 depot_done [depot_line 1, depot_line 2]) = [3000000, 3000000]"
  by code_simp

definition lot_depot :: warehouse where
  "lot_depot = depot\<lparr>wh_stock := depot_stock\<lparr>sk_quants :=
     [\<lparr>qn_product = 7, qn_location = 4, qn_lot = 1, qn_quantity = 10000000, qn_reserved = 0, qn_company = Some 1\<rparr>,
      \<lparr>qn_product = 7, qn_location = 4, qn_lot = 2, qn_quantity = 20000000, qn_reserved = 0, qn_company = Some 1\<rparr>]\<rparr>\<rparr>"

lemma count_ignores_lots:
  "map_sum id (\<lambda>w. map (\<lambda>t. q_stock (wh_stock w) 7 4 t) [0, 1, 2]) (set_on_hand 7 4 30000000 lot_depot)
   = Inr [20000000, 10000000, 20000000]"
  by code_simp

end
