(* ===== verification/Trade.thy ===== *)
theory Trade
  imports Warehouse Accounting
begin

section \<open>Orders: sales and purchases (modules/sale, modules/purchase)\<close>

text \<open>
  The handlers of \<open>SaleOrderViewModel\<close>, \<open>SaleOrderLineViewModel\<close> and of their purchase counterparts, over
  the warehouse (orders, lines, transfers) and the ledger. The two modules are written alike, with
  other names, journals, accounts and locations: \<open>side\<close> tells them apart. A handler that loops over
  ids is one transaction. Amounts pass through a \<open>double\<close> here and there: \<open>rnd\<close> is \<open>llround\<close> of the double
  of a stored amount; \<open>dbl\<close> is what a BIGINT column makes of the text of the double that holds a stored
  amount, \<open>txt\<close> of the text of a JSON number given in millionths (\<open>None\<close>: rejected); \<open>js\<close> gives in
  millionths the amount \<open>Money::fromJson\<close> makes of the JSON number that is a stored integer; \<open>wire\<close> is an
  amount's way into JSON and back.
\<close>

datatype side = Sale | Purchase

record commerce =
  cm_wh :: warehouse
  cm_lg :: ledger
  cm_sale_of :: "(int \<times> int) list"
  cm_purchase_of :: "(int \<times> int) list"

fun orders :: "side \<Rightarrow> warehouse \<Rightarrow> order list" where
  "orders Sale w = wh_sales w"
| "orders Purchase w = wh_purchases w"

fun set_orders :: "side \<Rightarrow> order list \<Rightarrow> warehouse \<Rightarrow> warehouse" where
  "set_orders Sale os w = w\<lparr>wh_sales := os\<rparr>"
| "set_orders Purchase os w = w\<lparr>wh_purchases := os\<rparr>"

fun lines_of :: "side \<Rightarrow> warehouse \<Rightarrow> order_line list" where
  "lines_of Sale w = wh_sale_lines w"
| "lines_of Purchase w = wh_purchase_lines w"

fun set_lines :: "side \<Rightarrow> order_line list \<Rightarrow> warehouse \<Rightarrow> warehouse" where
  "set_lines Sale ls w = w\<lparr>wh_sale_lines := ls\<rparr>"
| "set_lines Purchase ls w = w\<lparr>wh_purchase_lines := ls\<rparr>"

definition find_order :: "side \<Rightarrow> int \<Rightarrow> warehouse \<Rightarrow> order option" where
  "find_order sd i w = find (\<lambda>r. or_id r = i) (orders sd w)"

definition update_order :: "side \<Rightarrow> int \<Rightarrow> (order \<Rightarrow> order) \<Rightarrow> warehouse \<Rightarrow> warehouse" where
  "update_order sd i f w = set_orders sd (map (\<lambda>r. if or_id r = i then f r else r) (orders sd w)) w"

definition order_lines :: "side \<Rightarrow> int \<Rightarrow> warehouse \<Rightarrow> order_line list" where
  "order_lines sd i w = filter (\<lambda>l. ol_order l = i) (lines_of sd w)"

definition model_of :: "side \<Rightarrow> string" where
  "model_of sd = (case sd of Sale \<Rightarrow> ''sale.order'' | Purchase \<Rightarrow> ''purchase.order'')"

definition open_order :: "side \<Rightarrow> string" where
  "open_order sd = (case sd of Sale \<Rightarrow> ''sale'' | Purchase \<Rightarrow> ''purchase'')"

definition label_of :: "side \<Rightarrow> string" where
  "label_of sd = (case sd of Sale \<Rightarrow> ''Sale order'' | Purchase \<Rightarrow> ''Purchase order'')"

definition noted_as :: "side \<Rightarrow> string" where
  "noted_as sd = (case sd of Sale \<Rightarrow> ''Sales order'' | Purchase \<Rightarrow> ''Purchase order'')"

definition chatter_all :: "string \<Rightarrow> int list \<Rightarrow> string \<Rightarrow> warehouse \<Rightarrow> warehouse" where
  "chatter_all model ids body w = fold (\<lambda>i. chatter model i body) ids w"

subsection \<open>Confirming and cancelling\<close>

definition transfer_code :: "side \<Rightarrow> string" where
  "transfer_code sd = (case sd of Sale \<Rightarrow> ''outgoing'' | Purchase \<Rightarrow> ''incoming'')"

definition transfer_places :: "side \<Rightarrow> transfer_type \<Rightarrow> int \<times> int" where
  "transfer_places sd y = (case sd of
       Sale \<Rightarrow> ((case tt_src y of None \<Rightarrow> 4 | Some l \<Rightarrow> l), (case tt_dest y of None \<Rightarrow> 6 | Some l \<Rightarrow> l))
     | Purchase \<Rightarrow> ((case tt_src y of None \<Rightarrow> 5 | Some l \<Rightarrow> l), (case tt_dest y of None \<Rightarrow> 4 | Some l \<Rightarrow> l)))"

definition move_of_line :: "int \<Rightarrow> int \<times> int \<Rightarrow> order \<Rightarrow> string \<Rightarrow> warehouse \<Rightarrow> order_line \<Rightarrow> smove option" where
  "move_of_line tid pl r name w l = (case ol_product l of
       None \<Rightarrow> None
     | Some p \<Rightarrow> (case find (\<lambda>it. it_id it = p) (wh_items w) of
           None \<Rightarrow> None
         | Some it \<Rightarrow> Some \<lparr>sm_id = 0, sm_transfer = Some tid, sm_product = p,
             sm_name = (case it_name it of None \<Rightarrow> '''' | Some n \<Rightarrow> n), sm_demand = ol_qty l, sm_quantity = 0, sm_reserved = 0,
             sm_state = ''confirmed'', sm_src = fst pl, sm_dest = snd pl, sm_company = nullif0 (or_company r), sm_lot = None,
             sm_package = None, sm_origin = name\<rparr>))"

fun add_moves :: "smove list \<Rightarrow> warehouse \<Rightarrow> warehouse" where
  "add_moves [] w = w"
| "add_moves (m # ms) w = add_moves ms (w\<lparr>wh_moves := wh_moves w @ [m\<lparr>sm_id := wh_next_move w\<rparr>],
     wh_next_move := wh_next_move w + 1\<rparr>)"

definition create_transfer :: "tm \<Rightarrow> tm \<Rightarrow> side \<Rightarrow> order \<Rightarrow> string \<Rightarrow> warehouse \<Rightarrow> warehouse result" where
  "create_transfer t1 t2 sd r name w = (case find (\<lambda>y. tt_code y = transfer_code sd) (wh_types w) of
       None \<Rightarrow> Inr w
     | Some y \<Rightarrow>
         bindE (number_in t1 t2 (transfer_sequence (transfer_code sd)) w) (\<lambda>(pick, w1).
         let tid = wh_next_transfer w1; pl = transfer_places sd y;
             w2 = w1\<lparr>wh_next_transfer := tid + 1, wh_transfers := wh_transfers w1 @ [\<lparr>tf_id = tid, tf_name = pick, tf_type = tt_id y,
               tf_state = ''confirmed'', tf_partner = or_partner r, tf_src = fst pl, tf_dest = snd pl, tf_origin = name,
               tf_company = nullif0 (or_company r), tf_sale = (if sd = Sale then Some (or_id r) else None),
               tf_purchase = (if sd = Purchase then Some (or_id r) else None)\<rparr>]\<rparr>
         in Inr (add_moves (List.map_filter (move_of_line tid pl r name w2) (order_lines sd (or_id r) w2)) w2)))"

definition confirm_order :: "tm \<Rightarrow> tm \<Rightarrow> side \<Rightarrow> int \<Rightarrow> warehouse \<Rightarrow> warehouse result" where
  "confirm_order t1 t2 sd i w = (case find_order sd i w of
       None \<Rightarrow> Inl (RuntimeError (label_of sd @ '' not found: '' @ int_to_string i))
     | Some r \<Rightarrow>
         if or_state r \<noteq> ''draft'' then Inl (RuntimeError ''Only draft orders can be confirmed'')
         else bindE (number_in t1 t2 (model_of sd) w) (\<lambda>(name, w1).
           create_transfer t1 t2 sd r name (update_order sd i (\<lambda>r. r\<lparr>or_state := open_order sd, or_name := name\<rparr>) w1)))"

definition confirm_orders :: "tm \<Rightarrow> tm \<Rightarrow> side \<Rightarrow> int list \<Rightarrow> warehouse \<Rightarrow> warehouse result" where
  "confirm_orders t1 t2 sd ids w = bindE (foldE (confirm_order t1 t2 sd) ids w)
     (\<lambda>w'. Inr (chatter_all (model_of sd) ids (noted_as sd @ '' confirmed.'') w'))"

definition cancel_order :: "side \<Rightarrow> int \<Rightarrow> warehouse \<times> int list \<Rightarrow> (warehouse \<times> int list) result" where
  "cancel_order sd i s = (let (w, cancelled) = s in case find_order sd i w of
       None \<Rightarrow> Inl (RuntimeError (label_of sd @ '' not found: '' @ int_to_string i))
     | Some r \<Rightarrow>
         if or_state r = ''cancel'' then Inr (w, cancelled)
         else if or_state r \<noteq> ''draft'' \<and> or_state r \<noteq> open_order sd
         then Inl (ValidationError (''An order in state '' @ [CHR 0x27] @ or_state r @ [CHR 0x27] @ '' cannot be cancelled.''))
         else Inr (update_order sd i (\<lambda>r. r\<lparr>or_state := ''cancel''\<rparr>) w, cancelled @ [i]))"

definition cancel_orders :: "side \<Rightarrow> int list \<Rightarrow> warehouse \<Rightarrow> warehouse result" where
  "cancel_orders sd ids w = bindE (foldE (cancel_order sd) ids (w, []))
     (\<lambda>(w', cancelled). Inr (chatter_all (model_of sd) cancelled (noted_as sd @ '' cancelled.'') w'))"

subsection \<open>Invoices and bills of an order\<close>

definition journal_type :: "side \<Rightarrow> string" where
  "journal_type sd = (case sd of Sale \<Rightarrow> ''sale'' | Purchase \<Rightarrow> ''purchase'')"

definition goods_types :: "side \<Rightarrow> string list" where
  "goods_types sd = (case sd of Sale \<Rightarrow> [''income'', ''income_other''] | Purchase \<Rightarrow> [''expense'', ''expense_direct_cost''])"

definition partner_types :: "side \<Rightarrow> string list" where
  "partner_types sd = (case sd of Sale \<Rightarrow> [''asset_receivable''] | Purchase \<Rightarrow> [''liability_payable''])"

definition missing_goods :: "side \<Rightarrow> string" where
  "missing_goods sd = (case sd of Sale \<Rightarrow> ''No income account found'' | Purchase \<Rightarrow> ''No expense account found'')"

definition missing_partner :: "side \<Rightarrow> string" where
  "missing_partner sd = (case sd of Sale \<Rightarrow> ''No receivable account found'' | Purchase \<Rightarrow> ''No payable account found'')"

definition invoice_type :: "side \<Rightarrow> string" where
  "invoice_type sd = (case sd of Sale \<Rightarrow> ''out_invoice'' | Purchase \<Rightarrow> ''in_invoice'')"

fun first_by_code :: "acc_account list \<Rightarrow> acc_account option" where
  "first_by_code [] = None"
| "first_by_code (a # as) = (case first_by_code as of
       None \<Rightarrow> Some a | Some b \<Rightarrow> if text_le (aa_code a) (aa_code b) then Some a else Some b)"

definition order_account :: "acc_config \<Rightarrow> string list \<Rightarrow> int \<Rightarrow> int option" where
  "order_account cf types company = map_option aa_id
     (first_by_code (filter (\<lambda>a. aa_type a \<in> set types \<and> aa_company a = company \<and> aa_active a) (cf_accounts cf)))"

definition order_journal :: "acc_config \<Rightarrow> side \<Rightarrow> int \<Rightarrow> int option" where
  "order_journal cf sd company = (case sort_key aj_id
       (filter (\<lambda>j. aj_type j = journal_type sd \<and> aj_company j = company \<and> aj_active j) (cf_journals cf)) of
       [] \<Rightarrow> None | j # _ \<Rightarrow> Some (aj_id j))"

definition order_accounts :: "acc_config \<Rightarrow> side \<Rightarrow> int \<Rightarrow> (int \<times> int \<times> int) result" where
  "order_accounts cf sd company = (case order_journal cf sd company of
       None \<Rightarrow> Inl (RuntimeError (''No '' @ journal_type sd @ '' journal found''))
     | Some j \<Rightarrow> (case order_account cf (goods_types sd) company of
           None \<Rightarrow> Inl (RuntimeError (missing_goods sd))
         | Some g \<Rightarrow> (case order_account cf (partner_types sd) company of
               None \<Rightarrow> Inl (RuntimeError (missing_partner sd))
             | Some p \<Rightarrow> Inr (j, g, p))))"

definition draft_invoice :: "side \<Rightarrow> date \<Rightarrow> int \<Rightarrow> order \<Rightarrow> int \<times> int \<times> int \<Rightarrow> string \<Rightarrow> ledger \<Rightarrow> int \<times> ledger" where
  "draft_invoice sd today j r amounts ref lg = (case amounts of (untaxed, tax, tot) \<Rightarrow>
     (lg_next_move lg, lg\<lparr>lg_next_move := lg_next_move lg + 1, lg_moves := lg_moves lg
       @ [\<lparr>am_id = lg_next_move lg, am_name = ''/'', am_type = invoice_type sd, am_state = ''draft'', am_date = today,
          am_journal = j, am_partner = or_partner r, am_company = or_company r, am_currency = or_currency r,
          am_term = or_term r, am_untaxed = untaxed, am_tax = tax, am_total = tot, am_residual = tot,
          am_pay_state = ''not_paid'', am_precision = None, am_rate = ONE, am_reversed = None, am_ref = ref,
          am_origin = (case sd of Sale \<Rightarrow> Some (or_name r) | Purchase \<Rightarrow> None), am_narration = ''''\<rparr>]\<rparr>))"

text \<open>An item of the draft: goods and taxes on one side, the partner's on the other.\<close>

definition draft_item :: "side \<Rightarrow> bool \<Rightarrow> int \<Rightarrow> int \<Rightarrow> int \<Rightarrow> date \<Rightarrow> order \<Rightarrow> string \<Rightarrow> int \<Rightarrow> int \<Rightarrow> int \<Rightarrow> acc_line" where
  "draft_item sd goods e account j d r name qty price amount =
     (let credit = (goods = (sd = Sale)) in
      (leg e account j (or_company r) d name (or_partner r) (if credit then 0 else amount) (if credit then amount else 0))
        \<lparr>jl_quantity := qty, jl_price := price\<rparr>)"

definition invoiced_lines :: "side \<Rightarrow> int \<Rightarrow> warehouse \<Rightarrow> order_line list" where
  "invoiced_lines sd i w = (case sd of
       Sale \<Rightarrow> filter (\<lambda>l. ol_display l = '''') (order_lines Sale i w)
     | Purchase \<Rightarrow> order_lines Purchase i w)"

definition items_of_line :: "side \<Rightarrow> (int \<Rightarrow> int) \<Rightarrow> int \<Rightarrow> int \<Rightarrow> int \<Rightarrow> date \<Rightarrow> order \<Rightarrow> order_line \<Rightarrow> acc_line list" where
  "items_of_line sd rnd e account j d r l =
     draft_item sd True e account j d r (ol_name l) (rnd (ol_qty l)) (rnd (ol_price l)) (rnd (ol_subtotal l))
     # (if rnd (ol_tax l) > 0 then [draft_item sd True e account j d r (''Tax: '' @ ol_name l) 1 0 (rnd (ol_tax l))] else [])"

definition partner_label :: "side \<Rightarrow> string" where
  "partner_label sd = (case sd of Sale \<Rightarrow> ''Receivable: '' | Purchase \<Rightarrow> ''Payable: '')"

definition invoiced_status :: "side \<Rightarrow> string" where
  "invoiced_status sd = (case sd of Sale \<Rightarrow> ''invoiced'' | Purchase \<Rightarrow> ''billed'')"

definition link_invoice :: "side \<Rightarrow> int \<Rightarrow> int \<Rightarrow> commerce \<Rightarrow> commerce" where
  "link_invoice sd e i c = (case sd of
       Sale \<Rightarrow> c\<lparr>cm_sale_of := cm_sale_of c @ [(e, i)]\<rparr> | Purchase \<Rightarrow> c\<lparr>cm_purchase_of := cm_purchase_of c @ [(e, i)]\<rparr>)"

definition not_open :: "side \<Rightarrow> string" where
  "not_open sd = (case sd of Sale \<Rightarrow> ''Only confirmed orders can be invoiced'' | Purchase \<Rightarrow> ''Only confirmed orders can be billed'')"

definition invoice_order :: "(int \<Rightarrow> int) \<Rightarrow> date \<Rightarrow> acc_config \<Rightarrow> side \<Rightarrow> int \<Rightarrow> commerce \<Rightarrow> commerce result" where
  "invoice_order rnd today cf sd i c = (case find_order sd i (cm_wh c) of
       None \<Rightarrow> Inl (RuntimeError (label_of sd @ '' not found''))
     | Some r \<Rightarrow>
         if or_state r \<noteq> open_order sd then Inl (RuntimeError (not_open sd))
         else bindE (order_accounts cf sd (or_company r)) (\<lambda>(j, goods, partner).
           let (e, lg1) = draft_invoice sd today j r (rnd (or_untaxed r), rnd (or_tax r), rnd (or_total r)) (or_name r) (cm_lg c);
               items = concat (map (items_of_line sd rnd e goods j today r) (invoiced_lines sd i (cm_wh c)))
                 @ [draft_item sd False e partner j today r (partner_label sd @ or_name r) 1 0 (rnd (or_total r))]
           in bindE (foldE (insert_item cf) items lg1) (\<lambda>lg2.
              Inr (link_invoice sd e i (c\<lparr>cm_lg := lg2,
                cm_wh := update_order sd i (\<lambda>r. r\<lparr>or_invoicing := invoiced_status sd\<rparr>) (cm_wh c)\<rparr>)))))"

definition invoice_orders :: "(int \<Rightarrow> int) \<Rightarrow> date \<Rightarrow> acc_config \<Rightarrow> side \<Rightarrow> int list \<Rightarrow> commerce \<Rightarrow> commerce result" where
  "invoice_orders rnd today cf sd ids c = foldE (invoice_order rnd today cf sd) ids c"

subsection \<open>Down payments and the final invoice\<close>

definition no_amount :: "side \<Rightarrow> string" where
  "no_amount sd = (case sd of Sale \<Rightarrow> ''Invoice amount must be greater than zero''
     | Purchase \<Rightarrow> ''Down payment amount must be greater than zero'')"

definition not_open_advance :: "side \<Rightarrow> string" where
  "not_open_advance sd = (case sd of Sale \<Rightarrow> ''Only confirmed orders can be invoiced''
     | Purchase \<Rightarrow> ''Only confirmed orders can have a down payment'')"

definition noted_advance :: "side \<Rightarrow> string" where
  "noted_advance sd = (case sd of Sale \<Rightarrow> ''Partial invoice created: '' | Purchase \<Rightarrow> ''Down payment bill created: '')"

text \<open>A draft over one amount.\<close>

definition invoice_amount :: "date \<Rightarrow> acc_config \<Rightarrow> side \<Rightarrow> order \<Rightarrow> string \<Rightarrow> int option \<Rightarrow> commerce \<Rightarrow> commerce result" where
  "invoice_amount today cf sd r ref amount c =
     bindE (order_accounts cf sd (or_company r)) (\<lambda>(j, goods, partner).
     case amount of
       None \<Rightarrow> Inl (RuntimeError ''invalid input syntax for type bigint'')
     | Some v \<Rightarrow>
         let (e, lg1) = draft_invoice sd today j r (v, 0, v) ref (cm_lg c)
         in bindE (foldE (insert_item cf) [draft_item sd True e goods j today r ref 1 v v,
                draft_item sd False e partner j today r ref 1 0 v] lg1) (\<lambda>lg2.
            Inr (link_invoice sd e (or_id r) (c\<lparr>cm_lg := lg2\<rparr>))))"

definition advance_order ::
  "(int \<Rightarrow> int option) \<Rightarrow> date \<Rightarrow> acc_config \<Rightarrow> side \<Rightarrow> int \<Rightarrow> string \<Rightarrow> int \<Rightarrow> commerce \<Rightarrow> commerce result" where
  "advance_order txt today cf sd amount descr i c = (case find_order sd i (cm_wh c) of
       None \<Rightarrow> Inl (RuntimeError (label_of sd @ '' not found''))
     | Some r \<Rightarrow>
         if or_state r \<noteq> open_order sd then Inl (RuntimeError (not_open_advance sd))
         else let ref = descr @ '' - '' @ or_name r
              in bindE (invoice_amount today cf sd r ref (txt amount) c) (\<lambda>c'.
                 Inr (c'\<lparr>cm_wh := chatter (model_of sd) i (noted_advance sd @ ref)
                   (update_order sd i (\<lambda>r. if or_invoicing r = ''nothing'' then r\<lparr>or_invoicing := ''to invoice''\<rparr> else r) (cm_wh c'))\<rparr>)))"

definition advance_orders ::
  "(int \<Rightarrow> int option) \<Rightarrow> date \<Rightarrow> acc_config \<Rightarrow> side \<Rightarrow> int option \<Rightarrow> string option \<Rightarrow> int list \<Rightarrow> commerce \<Rightarrow> commerce result" where
  "advance_orders txt today cf sd amount descr ids c =
     (let a = (case amount of None \<Rightarrow> 0 | Some v \<Rightarrow> v) in
      if ids = [] then Inr c
      else if a \<le> 0 then Inl (RuntimeError (no_amount sd))
      else foldE (advance_order txt today cf sd a (case descr of None \<Rightarrow> ''Down Payment'' | Some d \<Rightarrow> d)) ids c)"

definition invoiced_so_far :: "int \<Rightarrow> commerce \<Rightarrow> int" where
  "invoiced_so_far i c = sum_list (map am_total (filter (\<lambda>m. (am_id m, i) \<in> set (cm_sale_of c)
     \<and> am_state m = ''posted'' \<and> am_type m = ''out_invoice'') (lg_moves (cm_lg c))))"

definition final_order :: "(int \<Rightarrow> int option) \<Rightarrow> date \<Rightarrow> acc_config \<Rightarrow> int \<Rightarrow> commerce \<Rightarrow> commerce result" where
  "final_order dbl today cf i c = (case find_order Sale i (cm_wh c) of
       None \<Rightarrow> Inl (RuntimeError ''Sale order not found'')
     | Some r \<Rightarrow>
         if or_state r \<noteq> ''sale'' then Inl (RuntimeError ''Only confirmed orders can be invoiced'')
         else let remaining = or_total r - invoiced_so_far i c; ref = ''Final Payment - '' @ or_name r
              in if remaining \<le> 0 then Inl (RuntimeError ''No remaining balance - order is fully invoiced'')
                 else bindE (invoice_amount today cf Sale r ref (dbl remaining) c) (\<lambda>c'.
                   Inr (c'\<lparr>cm_wh := chatter ''sale.order'' i (''Final invoice created: '' @ ref)
                     (update_order Sale i (\<lambda>r. r\<lparr>or_invoicing := ''invoiced''\<rparr>) (cm_wh c'))\<rparr>)))"

definition final_orders :: "(int \<Rightarrow> int option) \<Rightarrow> date \<Rightarrow> acc_config \<Rightarrow> int list \<Rightarrow> commerce \<Rightarrow> commerce result" where
  "final_orders dbl today cf ids c = foldE (final_order dbl today cf) ids c"

subsection \<open>The lines of an order\<close>

record line_args =
  la_order :: "int option"
  la_product :: "int option"
  la_name :: "string option"
  la_qty :: "int option"
  la_price :: "int option"
  la_discount :: "int option"
  la_taxes :: "string option"
  la_display :: "string option"

definition updateOrderTotals :: "side \<Rightarrow> int \<Rightarrow> warehouse \<Rightarrow> warehouse" where
  "updateOrderTotals sd i w = (let ls = order_lines sd i w in
     update_order sd i (\<lambda>r. r\<lparr>or_untaxed := sum_list (map ol_subtotal ls), or_tax := sum_list (map ol_tax ls),
       or_total := sum_list (map ol_total ls)\<rparr>) w)"

definition recomputeAmounts ::
  "(string \<Rightarrow> json option) \<Rightarrow> acc_config \<Rightarrow> int option \<Rightarrow> int option \<Rightarrow> int option \<Rightarrow> string option \<Rightarrow> (int \<times> int \<times> int) result" where
  "recomputeAmounts parse cf qty price discount taxes =
     applyLineTaxes parse (cf_taxes cf) (cf_precision cf)
       \<lparr>lv_quantity = qty, lv_price_unit = price, lv_discount = discount, lv_tax_ids = taxes\<rparr> 0"

definition or_else :: "'a option \<Rightarrow> 'a \<Rightarrow> 'a" where
  "or_else v d = (case v of None \<Rightarrow> d | Some x \<Rightarrow> x)"

definition check_line :: "line_args \<Rightarrow> unit result" where
  "check_line a =
     (if or_else (la_order a) 0 \<le> 0 then Inl (ValidationError ''Order is required'')
      else if or_else (la_name a) '''' = '''' \<and> or_else (la_display a) '''' = '''' then Inl (ValidationError ''Description is required'')
      else Inr ())"

definition create_line ::
  "(string \<Rightarrow> json option) \<Rightarrow> (int \<Rightarrow> int) \<Rightarrow> acc_config \<Rightarrow> side \<Rightarrow> int \<Rightarrow> line_args \<Rightarrow> warehouse \<Rightarrow> warehouse result" where
  "create_line parse wire cf sd n a w =
     bindE (recomputeAmounts parse cf (la_qty a) (la_price a) (la_discount a) (la_taxes a)) (\<lambda>(s, t, u).
     bindE (check_line a) (\<lambda>_.
     let i = or_else (la_order a) 0 in
     Inr (updateOrderTotals sd i (set_lines sd (lines_of sd w @ [\<lparr>ol_id = n, ol_order = i, ol_product = la_product a,
       ol_name = or_else (la_name a) '''', ol_qty = or_else (la_qty a) ONE, ol_price = or_else (la_price a) 0,
       ol_discount = or_else (la_discount a) 0, ol_taxes = or_else (la_taxes a) ''[]'', ol_subtotal = wire s, ol_tax = wire t,
       ol_total = wire u, ol_done = 0, ol_display = or_else (la_display a) ''''\<rparr>]) w))))"

text \<open>A write reads the stored integers and passes them on as if they were amounts in JSON.\<close>

definition merged :: "(int \<Rightarrow> int result) \<Rightarrow> int option \<Rightarrow> int \<Rightarrow> int result" where
  "merged js v stored = (case v of None \<Rightarrow> js stored | Some x \<Rightarrow> Inr x)"

definition written :: "line_args \<Rightarrow> int \<Rightarrow> int \<Rightarrow> int \<Rightarrow> int \<times> int \<times> int \<Rightarrow> order_line \<Rightarrow> order_line" where
  "written a q p d amounts l = (case amounts of (s, t, u) \<Rightarrow>
     l\<lparr>ol_order := or_else (la_order a) (ol_order l),
       ol_product := (case la_product a of None \<Rightarrow> ol_product l | Some x \<Rightarrow> Some x), ol_name := or_else (la_name a) (ol_name l),
       ol_qty := q, ol_price := p, ol_discount := d, ol_taxes := or_else (la_taxes a) (ol_taxes l),
       ol_subtotal := s, ol_tax := t, ol_total := u, ol_display := or_else (la_display a) (ol_display l)\<rparr>)"

definition write_line ::
  "(string \<Rightarrow> json option) \<Rightarrow> (int \<Rightarrow> int) \<Rightarrow> (int \<Rightarrow> int result) \<Rightarrow> acc_config \<Rightarrow> side \<Rightarrow> line_args \<Rightarrow> int \<Rightarrow> warehouse \<Rightarrow> warehouse result" where
  "write_line parse wire js cf sd a i w = (case find (\<lambda>l. ol_id l = i) (lines_of sd w) of
       None \<Rightarrow> Inr w
     | Some l \<Rightarrow>
         bindE (merged js (la_qty a) (ol_qty l)) (\<lambda>q.
         bindE (merged js (la_price a) (ol_price l)) (\<lambda>p.
         bindE (merged js (la_discount a) (ol_discount l)) (\<lambda>d.
         bindE (recomputeAmounts parse cf (Some q) (Some p) (Some d) (Some (or_else (la_taxes a) (ol_taxes l)))) (\<lambda>(s, t, u).
         let w1 = set_lines sd (map (\<lambda>x. if ol_id x = i then written a q p d (wire s, wire t, wire u) x else x) (lines_of sd w)) w
         in Inr (if ol_order l > 0 then updateOrderTotals sd (ol_order l) w1 else w1))))))"

definition write_lines ::
  "(string \<Rightarrow> json option) \<Rightarrow> (int \<Rightarrow> int) \<Rightarrow> (int \<Rightarrow> int result) \<Rightarrow> acc_config \<Rightarrow> side \<Rightarrow> line_args \<Rightarrow> int list \<Rightarrow> warehouse
   \<Rightarrow> unit result \<times> warehouse" where
  "write_lines parse wire js cf sd a ids w = each_txn (write_line parse wire js cf sd a) ids w"

definition unlink_lines :: "side \<Rightarrow> int list \<Rightarrow> warehouse \<Rightarrow> warehouse" where
  "unlink_lines sd ids w = set_lines sd (filter (\<lambda>l. ol_id l \<notin> set ids) (lines_of sd w)) w"

subsection \<open>The handlers of the two modules\<close>

definition sale_confirm :: "tm \<Rightarrow> tm \<Rightarrow> int list \<Rightarrow> warehouse \<Rightarrow> warehouse result" where
  "sale_confirm t1 t2 = confirm_orders t1 t2 Sale"

definition purchase_confirm :: "tm \<Rightarrow> tm \<Rightarrow> int list \<Rightarrow> warehouse \<Rightarrow> warehouse result" where
  "purchase_confirm t1 t2 = confirm_orders t1 t2 Purchase"

definition sale_cancel :: "int list \<Rightarrow> warehouse \<Rightarrow> warehouse result" where
  "sale_cancel = cancel_orders Sale"

definition purchase_cancel :: "int list \<Rightarrow> warehouse \<Rightarrow> warehouse result" where
  "purchase_cancel = cancel_orders Purchase"

definition create_invoices :: "(int \<Rightarrow> int) \<Rightarrow> date \<Rightarrow> acc_config \<Rightarrow> int list \<Rightarrow> commerce \<Rightarrow> commerce result" where
  "create_invoices rnd today cf = invoice_orders rnd today cf Sale"

definition create_bills :: "(int \<Rightarrow> int) \<Rightarrow> date \<Rightarrow> acc_config \<Rightarrow> int list \<Rightarrow> commerce \<Rightarrow> commerce result" where
  "create_bills rnd today cf = invoice_orders rnd today cf Purchase"

definition sale_down_payment ::
  "(int \<Rightarrow> int option) \<Rightarrow> date \<Rightarrow> acc_config \<Rightarrow> int option \<Rightarrow> string option \<Rightarrow> int list \<Rightarrow> commerce \<Rightarrow> commerce result" where
  "sale_down_payment txt today cf = advance_orders txt today cf Sale"

definition purchase_down_payment ::
  "(int \<Rightarrow> int option) \<Rightarrow> date \<Rightarrow> acc_config \<Rightarrow> int option \<Rightarrow> string option \<Rightarrow> int list \<Rightarrow> commerce \<Rightarrow> commerce result" where
  "purchase_down_payment txt today cf = advance_orders txt today cf Purchase"

definition purchase_create_line ::
  "(string \<Rightarrow> json option) \<Rightarrow> (int \<Rightarrow> int) \<Rightarrow> acc_config \<Rightarrow> int \<Rightarrow> line_args \<Rightarrow> warehouse \<Rightarrow> warehouse result" where
  "purchase_create_line parse wire cf = create_line parse wire cf Purchase"

definition purchase_write_lines ::
  "(string \<Rightarrow> json option) \<Rightarrow> (int \<Rightarrow> int) \<Rightarrow> (int \<Rightarrow> int result) \<Rightarrow> acc_config \<Rightarrow> line_args \<Rightarrow> int list \<Rightarrow> warehouse
   \<Rightarrow> unit result \<times> warehouse" where
  "purchase_write_lines parse wire js cf = write_lines parse wire js cf Purchase"

subsection \<open>Totals foot and drafts balance\<close>

definition order_ok :: "order_line list \<Rightarrow> order \<Rightarrow> bool" where
  "order_ok ls r \<longleftrightarrow> or_untaxed r = sum_by (\<lambda>l. ol_order l = or_id r) ol_subtotal ls
     \<and> or_tax r = sum_by (\<lambda>l. ol_order l = or_id r) ol_tax ls \<and> or_total r = sum_by (\<lambda>l. ol_order l = or_id r) ol_total ls"

text \<open>The orders outside \<open>S\<close> carry the sums of their lines; the ids of lines are a primary key.\<close>

definition side_ok :: "(side \<times> int) set \<Rightarrow> side \<Rightarrow> warehouse \<Rightarrow> bool" where
  "side_ok S sd w \<longleftrightarrow> distinct (map ol_id (lines_of sd w))
     \<and> (\<forall>r \<in> set (orders sd w). (sd, or_id r) \<notin> S \<longrightarrow> order_ok (lines_of sd w) r)"

definition totals_ok :: "commerce \<times> (side \<times> int) set \<Rightarrow> bool" where
  "totals_ok = (\<lambda>(c, S). side_ok S Sale (cm_wh c) \<and> side_ok S Purchase (cm_wh c))"

lemma totals_ok_iff: "totals_ok (c, S) \<longleftrightarrow> (\<forall>sd. side_ok S sd (cm_wh c))"
proof
  assume "totals_ok (c, S)"
  then show "\<forall>sd. side_ok S sd (cm_wh c)" unfolding totals_ok_def by (auto intro: side.induct)
qed (simp add: totals_ok_def)

definition links :: "commerce \<Rightarrow> (int \<times> int) list" where
  "links c = cm_sale_of c @ cm_purchase_of c"

text \<open>What leaves the amounts of orders alone.\<close>

definition same_orders :: "warehouse \<Rightarrow> warehouse \<Rightarrow> bool" where
  "same_orders w w' \<longleftrightarrow> (\<forall>sd. lines_of sd w' = lines_of sd w
     \<and> map (\<lambda>r. (or_id r, or_untaxed r, or_tax r, or_total r)) (orders sd w')
       = map (\<lambda>r. (or_id r, or_untaxed r, or_tax r, or_total r)) (orders sd w))"

lemma same_orders_refl [simp]: "same_orders w w"
  by (simp add: same_orders_def)

lemma same_orders_trans [trans]: "same_orders u v \<Longrightarrow> same_orders v w \<Longrightarrow> same_orders u w"
  by (simp add: same_orders_def)

lemma same_orders_frame: "wh_sales w' = wh_sales w \<Longrightarrow> wh_purchases w' = wh_purchases w \<Longrightarrow> wh_sale_lines w' = wh_sale_lines w
   \<Longrightarrow> wh_purchase_lines w' = wh_purchase_lines w \<Longrightarrow> same_orders w w'"
proof -
  assume "wh_sales w' = wh_sales w" "wh_purchases w' = wh_purchases w" "wh_sale_lines w' = wh_sale_lines w"
    "wh_purchase_lines w' = wh_purchase_lines w"
  then have "lines_of sd w' = lines_of sd w \<and> orders sd w' = orders sd w" for sd by (cases sd) simp_all
  then show ?thesis by (simp add: same_orders_def)
qed

lemma side_ok_same:
  assumes "same_orders w w'" and "side_ok S sd w"
  shows "side_ok S sd w'"
proof -
  let ?k = "\<lambda>r. (or_id r, or_untaxed r, or_tax r, or_total r)"
  have ls: "lines_of sd w' = lines_of sd w" and os: "map ?k (orders sd w') = map ?k (orders sd w)"
    using assms(1) by (simp_all add: same_orders_def)
  have "order_ok (lines_of sd w) r" if "r \<in> set (orders sd w')" "(sd, or_id r) \<notin> S" for r
  proof -
    from that(1) os obtain r' where "r' \<in> set (orders sd w)" "?k r = ?k r'"
      by (metis (mono_tags, lifting) image_iff list.set_map)
    then show ?thesis using assms(2) that(2) by (auto simp: side_ok_def order_ok_def)
  qed
  with assms(2) ls show ?thesis by (simp add: side_ok_def)
qed

lemma set_simps [simp]:
  "lines_of sd (set_orders sd' os w) = lines_of sd w" "orders sd (set_lines sd' ls w) = orders sd w"
  "lines_of sd (set_lines sd' ls w) = (if sd = sd' then ls else lines_of sd w)"
  "orders sd (set_orders sd' os w) = (if sd = sd' then os else orders sd w)"
  by (cases sd; cases sd'; simp)+

lemma same_orders_update:
  assumes "\<And>r. or_id (f r) = or_id r \<and> or_untaxed (f r) = or_untaxed r \<and> or_tax (f r) = or_tax r \<and> or_total (f r) = or_total r"
  shows "same_orders w (update_order sd i f w)"
  using assms by (auto simp: same_orders_def update_order_def)

lemma same_orders_chatter [simp]: "same_orders w (chatter m i b w)"
  by (rule same_orders_frame) (simp_all add: chatter_def)

lemma same_orders_chatter_all [simp]: "same_orders w (chatter_all m ids b w)"
proof (induction ids arbitrary: w)
  case (Cons i ids)
  then show ?case using same_orders_trans [OF same_orders_chatter Cons.IH] by (simp add: chatter_all_def)
qed (simp add: chatter_all_def)

lemma same_orders_add_moves: "same_orders w (add_moves ms w)"
proof (induction ms w rule: add_moves.induct)
  case (2 m ms w)
  have "same_orders w (w\<lparr>wh_moves := wh_moves w @ [m\<lparr>sm_id := wh_next_move w\<rparr>], wh_next_move := wh_next_move w + 1\<rparr>)"
    by (rule same_orders_frame) simp_all
  also note 2
  finally show ?case by simp
qed simp

lemma number_in_same: "number_in t1 t2 code w = Inr (v, w') \<Longrightarrow> same_orders w w'"
  by (rule same_orders_frame) (auto simp: number_in_def exn_simps)

lemma create_transfer_same: "create_transfer t1 t2 sd r name w = Inr w' \<Longrightarrow> same_orders w w'"
proof (cases "w' = w")
  case False
  assume "create_transfer t1 t2 sd r name w = Inr w'"
  with False obtain pick w1 tid ts ms where 1: "number_in t1 t2 (transfer_sequence (transfer_code sd)) w = Inr (pick, w1)"
    and 2: "w' = add_moves ms (w1\<lparr>wh_next_transfer := tid, wh_transfers := ts\<rparr>)"
    by (auto simp: create_transfer_def Let_def exn_simps split: option.splits)
  note number_in_same [OF 1]
  also have "same_orders w1 (w1\<lparr>wh_next_transfer := tid, wh_transfers := ts\<rparr>)" by (rule same_orders_frame) simp_all
  also have "same_orders \<dots> w'" unfolding 2 by (rule same_orders_add_moves)
  finally show ?thesis .
qed simp

lemma confirm_order_same: "confirm_order t1 t2 sd i w = Inr w' \<Longrightarrow> same_orders w w'"
proof -
  assume "confirm_order t1 t2 sd i w = Inr w'"
  then obtain r name w1 where 1: "number_in t1 t2 (model_of sd) w = Inr (name, w1)"
    and 2: "create_transfer t1 t2 sd r name (update_order sd i (\<lambda>r. r\<lparr>or_state := open_order sd, or_name := name\<rparr>) w1) = Inr w'"
    by (auto simp: confirm_order_def exn_simps split: option.splits if_splits)
  note number_in_same [OF 1]
  also have "same_orders w1 (update_order sd i (\<lambda>r. r\<lparr>or_state := open_order sd, or_name := name\<rparr>) w1)"
    by (rule same_orders_update) simp
  also note create_transfer_same [OF 2]
  finally show ?thesis .
qed

lemma confirm_orders_same: "confirm_orders t1 t2 sd ids w = Inr w' \<Longrightarrow> same_orders w w'"
proof -
  assume "confirm_orders t1 t2 sd ids w = Inr w'"
  then obtain w1 where 1: "foldE (confirm_order t1 t2 sd) ids w = Inr w1" and 2: "same_orders w1 w'"
    by (auto simp: confirm_orders_def exn_simps)
  from 1 have "same_orders w w1"
    by (rule foldE_invariant [where P = "same_orders w"]) (auto intro: same_orders_trans confirm_order_same)
  also note 2
  finally show ?thesis .
qed

lemma cancel_orders_same: "cancel_orders sd ids w = Inr w' \<Longrightarrow> same_orders w w'"
proof -
  assume "cancel_orders sd ids w = Inr w'"
  then obtain s where 1: "foldE (cancel_order sd) ids (w, []) = Inr s" and 2: "same_orders (fst s) w'"
    by (auto simp: cancel_orders_def exn_simps)
  have upd: "same_orders v (update_order sd i (\<lambda>r. r\<lparr>or_state := ''cancel''\<rparr>) v)" for v i
    by (rule same_orders_update) simp
  from 1 have "same_orders w (fst s)"
    by (rule foldE_invariant [where P = "\<lambda>s. same_orders w (fst s)"])
       (auto simp: cancel_order_def split: option.splits if_splits intro: same_orders_trans [OF _ upd])
  also note 2
  finally show ?thesis .
qed

lemma order_lines_set [simp]: "order_lines sd i (set_lines sd ls w) = filter (\<lambda>l. ol_order l = i) ls"
  by (simp add: order_lines_def)

text \<open>Refreshing the totals of one order after a change of the lines: the orders whose lines changed are stale
  until then.\<close>

lemma side_ok_totals:
  assumes ok: "\<And>s. side_ok S s w" and d: "distinct (map ol_id ls)"
    and other: "\<And>j. j \<noteq> i \<Longrightarrow> (sd, j) \<notin> T \<Longrightarrow> (sd, j) \<notin> S \<and> filter (\<lambda>l. ol_order l = j) ls = filter (\<lambda>l. ol_order l = j) (lines_of sd w)"
    and rest: "\<And>s j. s \<noteq> sd \<Longrightarrow> (s, j) \<notin> T \<Longrightarrow> (s, j) \<notin> S"
  shows "side_ok T s (updateOrderTotals sd i (set_lines sd ls w))"
proof (cases "s = sd")
  case True
  define g :: "order \<Rightarrow> order" where "g = (\<lambda>r. if or_id r = i then r\<lparr>or_untaxed := sum_list (map ol_subtotal (filter (\<lambda>l. ol_order l = i) ls)),
       or_tax := sum_list (map ol_tax (filter (\<lambda>l. ol_order l = i) ls)),
       or_total := sum_list (map ol_total (filter (\<lambda>l. ol_order l = i) ls))\<rparr> else r)"
  have "order_ok ls (g r)" if r: "r \<in> set (orders sd w)" "(sd, or_id r) \<notin> T" for r
  proof (cases "or_id r = i")
    case True
    then show ?thesis by (simp add: g_def order_ok_def sum_by_def)
  next
    case False
    then show ?thesis using ok [of sd] r other [OF False] by (simp add: g_def side_ok_def order_ok_def sum_by_def)
  qed
  moreover have "orders sd (updateOrderTotals sd i (set_lines sd ls w)) = map g (orders sd w)"
    by (simp add: updateOrderTotals_def Let_def update_order_def g_def)
  moreover have "lines_of sd (updateOrderTotals sd i (set_lines sd ls w)) = ls"
    by (simp add: updateOrderTotals_def Let_def update_order_def)
  moreover have "or_id (g r) = or_id r" for r by (simp add: g_def)
  ultimately show ?thesis using d True by (auto simp: side_ok_def)
next
  case False
  then show ?thesis using ok [of s] rest by (auto simp: side_ok_def updateOrderTotals_def Let_def update_order_def)
qed

lemma side_ok_lines:
  assumes ok: "\<And>s. side_ok S s w" and d: "distinct (map ol_id ls)"
    and other: "\<And>j. (sd, j) \<notin> T \<Longrightarrow> (sd, j) \<notin> S \<and> filter (\<lambda>l. ol_order l = j) ls = filter (\<lambda>l. ol_order l = j) (lines_of sd w)"
    and rest: "\<And>s j. s \<noteq> sd \<Longrightarrow> (s, j) \<notin> T \<Longrightarrow> (s, j) \<notin> S"
  shows "side_ok T s (set_lines sd ls w)"
proof (cases "s = sd")
  case True
  have "order_ok ls r" if "r \<in> set (orders sd w)" "(sd, or_id r) \<notin> T" for r
    using that ok [of sd] other [of "or_id r"] by (simp add: side_ok_def order_ok_def sum_by_def)
  then show ?thesis using d True by (simp add: side_ok_def)
next
  case False
  then show ?thesis using ok [of s] rest by (auto simp: side_ok_def)
qed

definition exact :: "(int \<Rightarrow> int) \<Rightarrow> bool" where
  "exact f \<longleftrightarrow> (\<forall>x. \<bar>x\<bar> \<le> 9007199254740992 \<longrightarrow> f x = x)"

definition small :: "int \<Rightarrow> bool" where
  "small x \<longleftrightarrow> \<bar>x\<bar> \<le> 9007199254740992"

lemma exact_small: "exact f \<Longrightarrow> small x \<Longrightarrow> f x = x"
  by (simp add: exact_def small_def)

text \<open>Which orders a change of a line leaves stale: it refreshes the order the line was on.\<close>

definition stale_written :: "side \<Rightarrow> line_args \<Rightarrow> int \<Rightarrow> warehouse \<Rightarrow> (side \<times> int) set \<Rightarrow> (side \<times> int) set" where
  "stale_written sd a i w S = (case find (\<lambda>l. ol_id l = i) (lines_of sd w) of
       None \<Rightarrow> S
     | Some l \<Rightarrow> let old = ol_order l; new = or_else (la_order a) old in
         (if old > 0 then S - {(sd, old)} else insert (sd, old) S) \<union> (if new = old then {} else {(sd, new)}))"

definition stale_deleted :: "side \<Rightarrow> int list \<Rightarrow> warehouse \<Rightarrow> (side \<times> int) set" where
  "stale_deleted sd ids w = (\<lambda>l. (sd, ol_order l)) ` {l \<in> set (lines_of sd w). ol_id l \<in> set ids}"

lemma create_line_ok:
  assumes ok: "\<And>s. side_ok S s w" and run: "create_line parse wire cf sd n a w = Inr w'"
    and fresh: "n \<notin> ol_id ` set (lines_of sd w)"
  shows "side_ok (S - {(sd, or_else (la_order a) 0)}) s w'"
proof -
  from run have "\<exists>l. w' = updateOrderTotals sd (or_else (la_order a) 0) (set_lines sd (lines_of sd w @ [l]) w)
      \<and> ol_id l = n \<and> ol_order l = or_else (la_order a) 0"
    by (clarsimp simp: create_line_def exn_simps Let_def) (rule exI, rule conjI, rule refl, simp)
  then obtain l where w': "w' = updateOrderTotals sd (or_else (la_order a) 0) (set_lines sd (lines_of sd w @ [l]) w)"
    and l: "ol_id l = n" "ol_order l = or_else (la_order a) 0" by blast
  show ?thesis unfolding w'
    by (rule side_ok_totals [OF ok]) (use ok [of sd] fresh l in \<open>auto simp: side_ok_def\<close>)
qed

lemma write_line_ok:
  assumes ok: "\<And>s. side_ok S s w" and run: "write_line parse wire js cf sd a i w = Inr w'"
  shows "side_ok (stale_written sd a i w S) s w'"
proof (cases "find (\<lambda>l. ol_id l = i) (lines_of sd w)")
  case None
  then show ?thesis using run ok by (simp add: write_line_def stale_written_def)
next
  case (Some l)
  then have l: "l \<in> set (lines_of sd w)" "ol_id l = i" by (auto simp: find_Some_iff)
  from run Some obtain q p d x where
    w': "w' = (let w1 = set_lines sd (map (\<lambda>y. if ol_id y = i then written a q p d x y else y) (lines_of sd w)) w
      in if ol_order l > 0 then updateOrderTotals sd (ol_order l) w1 else w1)"
    by (auto simp: write_line_def exn_simps Let_def)
  let ?g = "written a q p d x"
  let ?ls = "map (\<lambda>y. if ol_id y = i then ?g y else y) (lines_of sd w)"
  have g: "ol_id (?g y) = ol_id y" "ol_order (?g y) = or_else (la_order a) (ol_order y)" for y
    by (cases x, simp add: written_def)+
  have uniq: "y = l" if "y \<in> set (lines_of sd w)" "ol_id y = i" for y
    using ok [of sd] l that by (metis distinct_map inj_onD side_ok_def)
  have "map ol_id ?ls = map ol_id (lines_of sd w)" using g by auto
  then have d: "distinct (map ol_id ?ls)" using ok [of sd] by (simp only: side_ok_def)
  have other: "filter (\<lambda>y. ol_order y = j) ?ls = filter (\<lambda>y. ol_order y = j) (lines_of sd w)"
    if "j \<noteq> ol_order l" "j \<noteq> or_else (la_order a) (ol_order l)" for j
    unfolding filter_map comp_def by (intro trans [OF map_idI filter_cong]) (use g uniq that in auto)
  show ?thesis
  proof (cases "ol_order l > 0")
    case True
    then have w1: "w' = updateOrderTotals sd (ol_order l) (set_lines sd ?ls w)" by (simp add: w')
    show ?thesis unfolding w1
      by (rule side_ok_totals [OF ok d]) (use other Some True in \<open>auto simp: stale_written_def Let_def split: if_splits\<close>)
  next
    case False
    then have w1: "w' = set_lines sd ?ls w" by (simp add: w')
    show ?thesis unfolding w1
      by (rule side_ok_lines [OF ok d]) (use other Some False in \<open>auto simp: stale_written_def Let_def split: if_splits\<close>)
  qed
qed

lemma unlink_lines_ok:
  assumes ok: "\<And>s. side_ok S s w"
  shows "side_ok (S \<union> stale_deleted sd ids w) s (unlink_lines sd ids w)"
  unfolding unlink_lines_def
proof (rule side_ok_lines [OF ok])
  show "distinct (map ol_id (filter (\<lambda>l. ol_id l \<notin> set ids) (lines_of sd w)))"
    using ok [of sd] by (simp add: side_ok_def distinct_map_filter)
  fix j assume "(sd, j) \<notin> S \<union> stale_deleted sd ids w"
  then show "(sd, j) \<notin> S \<and> filter (\<lambda>l. ol_order l = j) (filter (\<lambda>l. ol_id l \<notin> set ids) (lines_of sd w))
      = filter (\<lambda>l. ol_order l = j) (lines_of sd w)"
    by (auto simp: stale_deleted_def intro!: filter_cong)
qed auto

text \<open>The drafts.\<close>

lemma draft_invoice_simps:
  "fst (draft_invoice sd d j r x ref lg) = lg_next_move lg"
  "\<exists>ms. snd (draft_invoice sd d j r x ref lg) = lg\<lparr>lg_next_move := lg_next_move lg + 1, lg_moves := ms\<rparr>"
  by (cases x, simp add: draft_invoice_def) (cases x, simp only: draft_invoice_def prod.case snd_conv, blast)

lemma draft_item_simps [simp]:
  "jl_move (draft_item sd g e a j d r n q p v) = e"
  "jl_debit (draft_item sd g e a j d r n q p v) = (if g = (sd = Sale) then 0 else v)"
  "jl_credit (draft_item sd g e a j d r n q p v) = (if g = (sd = Sale) then v else 0)"
  by (simp_all add: draft_item_def leg_def Let_def)

lemma links_link [simp]: "set (links (link_invoice sd e i c)) = insert (e, i) (set (links c))"
  "cm_lg (link_invoice sd e i c) = cm_lg c" "cm_wh (link_invoice sd e i c) = cm_wh c"
  by (cases sd; auto simp: links_def link_invoice_def)+

lemma links_lg [simp]: "links (c\<lparr>cm_lg := lg\<rparr>) = links c" "links (c\<lparr>cm_wh := w\<rparr>) = links c"
  by (simp_all add: links_def)

text \<open>Items written for a new entry are its items, and nobody else's change.\<close>

lemma items_insert:
  assumes ins: "foldE (insert_item cf) ls lg = Inr lg'" and e: "\<forall>l \<in> set ls. jl_move l = e"
    and new: "\<forall>l \<in> set (lg_lines lg). jl_move l < e"
  shows "map jl_debit (items_of e lg') = map jl_debit ls \<and> map jl_credit (items_of e lg') = map jl_credit ls
    \<and> (\<forall>j. j \<noteq> e \<longrightarrow> items_of j lg' = items_of j lg)"
proof -
  from insert_items_frame [OF ins] obtain ls' n where
    lg': "lg' = lg\<lparr>lg_lines := lg_lines lg @ ls', lg_next_line := n\<rparr>"
    and same: "map (\<lambda>l. l\<lparr>jl_id := 0\<rparr>) ls' = map (\<lambda>l. l\<lparr>jl_id := 0\<rparr>) ls" by blast
  have "set (map jl_move ls') = set (map jl_move ls)" by (simp only: same_but_id(1) [OF same])
  with e have e': "\<forall>l \<in> set ls'. jl_move l = e" by auto
  have "filter (\<lambda>l. jl_move l = e) (lg_lines lg) = []" using new by (auto simp: filter_empty_conv)
  moreover have "filter (\<lambda>l. jl_move l = e) ls' = ls'" using e' by (simp add: filter_id_conv)
  moreover have "filter (\<lambda>l. jl_move l = j) ls' = []" if "j \<noteq> e" for j using e' that by (auto simp: filter_empty_conv)
  ultimately show ?thesis by (simp add: items_of_def lg' same_but_id(2,3) [OF same])
qed

lemma invoice_amount_same: "invoice_amount today cf sd r ref amount c = Inr c' \<Longrightarrow> cm_wh c' = cm_wh c"
  by (auto simp: invoice_amount_def Let_def exn_simps case_prod_unfold simp del: foldE.simps split: option.splits)

lemma items_of_line_sums:
  assumes "exact rnd" "small (ol_subtotal l)" "small (ol_tax l)"
  shows "sum_list (map jl_debit (items_of_line sd rnd e a j d r l)) = (if sd = Sale then 0 else ol_subtotal l + max 0 (ol_tax l))"
    "sum_list (map jl_credit (items_of_line sd rnd e a j d r l)) = (if sd = Sale then ol_subtotal l + max 0 (ol_tax l) else 0)"
  by (simp_all add: items_of_line_def exact_small [OF assms(1)] assms(2,3))

lemma sum_list_concat: "sum_list (map f (concat xss)) = sum_list (map (\<lambda>xs. sum_list (map f xs)) xss)" for f :: "'a \<Rightarrow> int"
  by (induction xss) simp_all

definition order_small :: "side \<Rightarrow> int \<Rightarrow> warehouse \<Rightarrow> bool" where
  "order_small sd i w \<longleftrightarrow> (\<forall>r \<in> set (orders sd w). or_id r = i \<longrightarrow> small (or_total r))
     \<and> (\<forall>l \<in> set (order_lines sd i w). small (ol_subtotal l) \<and> small (ol_tax l))"

lemma find_order_in: "find_order sd i w = Some r \<Longrightarrow> r \<in> set (orders sd w) \<and> or_id r = i"
  by (auto simp: find_order_def find_Some_iff)

lemma invoice_order_same: "invoice_order rnd today cf sd i c = Inr c' \<Longrightarrow> same_orders (cm_wh c) (cm_wh c')"
  by (auto simp: invoice_order_def Let_def exn_simps case_prod_unfold same_orders_update simp del: foldE.simps
      split: option.splits if_splits)

lemma fold_same:
  assumes "foldE f ids c = Inr c'" and "\<And>i c c'. f i c = Inr c' \<Longrightarrow> same_orders (cm_wh c) (cm_wh c')"
  shows "same_orders (cm_wh c) (cm_wh c')"
  using assms(1) by (rule foldE_invariant [where P = "\<lambda>x. same_orders (cm_wh c) (cm_wh x)"])
    (use assms(2) in \<open>auto intro: same_orders_trans\<close>)

lemma invoice_orders_same: "invoice_orders rnd today cf sd ids c = Inr c' \<Longrightarrow> same_orders (cm_wh c) (cm_wh c')"
  unfolding invoice_orders_def by (erule fold_same) (rule invoice_order_same)

lemma same_orders_logged:
  assumes "\<And>r. or_id (f r) = or_id r \<and> or_untaxed (f r) = or_untaxed r \<and> or_tax (f r) = or_tax r \<and> or_total (f r) = or_total r"
  shows "same_orders w (chatter m j b (update_order sd i f w))"
  using same_orders_update [OF assms] same_orders_chatter by (rule same_orders_trans)

lemma advance_order_same: "advance_order txt today cf sd v descr i c = Inr c' \<Longrightarrow> same_orders (cm_wh c) (cm_wh c')"
  by (auto simp: advance_order_def Let_def exn_simps split: option.splits if_splits
      dest!: invoice_amount_same intro!: same_orders_logged)

lemma advance_orders_same: "advance_orders txt today cf sd amount descr ids c = Inr c' \<Longrightarrow> same_orders (cm_wh c) (cm_wh c')"
  by (auto simp: advance_orders_def Let_def simp del: foldE.simps split: if_splits elim!: fold_same intro: advance_order_same)

lemma final_order_same: "final_order dbl today cf i c = Inr c' \<Longrightarrow> same_orders (cm_wh c) (cm_wh c')"
  by (auto simp: final_order_def Let_def exn_simps split: option.splits if_splits
      dest!: invoice_amount_same intro!: same_orders_logged)

lemma final_orders_same: "final_orders dbl today cf ids c = Inr c' \<Longrightarrow> same_orders (cm_wh c) (cm_wh c')"
  unfolding final_orders_def by (erule fold_same) (rule final_order_same)

text \<open>What the users do: the buttons of the orders and the three handlers of their lines, on any arguments. The
  second component names the orders whose totals are behind: those a line was moved into, or deleted
  from, since their totals were last computed.\<close>

inductive trade_step :: "commerce \<times> (side \<times> int) set \<Rightarrow> commerce \<times> (side \<times> int) set \<Rightarrow> bool" where
  trade_confirm: "confirm_orders t1 t2 sd ids (cm_wh c) = Inr w \<Longrightarrow> trade_step (c, S) (c\<lparr>cm_wh := w\<rparr>, S)"
| trade_cancel: "cancel_orders sd ids (cm_wh c) = Inr w \<Longrightarrow> trade_step (c, S) (c\<lparr>cm_wh := w\<rparr>, S)"
| trade_invoice: "invoice_orders rnd today cf sd ids c = Inr c' \<Longrightarrow> trade_step (c, S) (c', S)"
| trade_advance: "advance_orders txt today cf sd amount descr ids c = Inr c' \<Longrightarrow> trade_step (c, S) (c', S)"
| trade_final: "final_orders dbl today cf ids c = Inr c' \<Longrightarrow> trade_step (c, S) (c', S)"
| trade_add_line: "create_line parse wire cf sd n a (cm_wh c) = Inr w \<Longrightarrow> n \<notin> ol_id ` set (lines_of sd (cm_wh c))
    \<Longrightarrow> trade_step (c, S) (c\<lparr>cm_wh := w\<rparr>, S - {(sd, or_else (la_order a) 0)})"
| trade_change_line: "write_line parse wire js cf sd a i (cm_wh c) = Inr w
    \<Longrightarrow> trade_step (c, S) (c\<lparr>cm_wh := w\<rparr>, stale_written sd a i (cm_wh c) S)"
| trade_delete_lines: "trade_step (c, S) (c\<lparr>cm_wh := unlink_lines sd ids (cm_wh c)\<rparr>, S \<union> stale_deleted sd ids (cm_wh c))"

lemma totals_ok_same: "totals_ok (c, S) \<Longrightarrow> same_orders (cm_wh c) (cm_wh c') \<Longrightarrow> totals_ok (c', S)"
  by (auto simp: totals_ok_iff intro: side_ok_same)

lemma trade_step_ok:
  assumes "trade_step x x'" and ok: "totals_ok x"
  shows "totals_ok x'"
  using assms
proof (induction rule: trade_step.induct)
  case (trade_add_line parse wire cf sd n a c w S)
  then show ?case using create_line_ok [of S "cm_wh c"] by (simp add: totals_ok_iff)
next
  case (trade_change_line parse wire js cf sd a i c w S)
  then show ?case using write_line_ok [of S "cm_wh c"] by (simp add: totals_ok_iff)
next
  case (trade_delete_lines c S sd ids)
  then show ?case using unlink_lines_ok [of S "cm_wh c"] by (simp add: totals_ok_iff)
qed (auto elim!: totals_ok_same intro: confirm_orders_same cancel_orders_same invoice_orders_same advance_orders_same
    final_orders_same)

interpretation trade_run: kept trade_step totals_ok
  by unfold_locales (rule trade_step_ok)


lemma left_out:
  fixes s t :: "'a \<Rightarrow> int"
  shows "sum_list (map (\<lambda>l. s l + t l) ls) - sum_list (map (\<lambda>l. s l + max 0 (t l)) (filter P ls))
    = sum_list (map (\<lambda>l. if \<not> P l then s l + t l else min 0 (t l)) ls)"
  by (induction ls) (auto simp: max_def min_def)


text \<open>A line is added to a confirmed order; the order is invoiced as it stands.\<close>

definition counter_config :: acc_config where
  "counter_config = shop_config\<lparr>cf_journals := [\<lparr>aj_id = 3, aj_code = ''INV'', aj_type = ''sale'', aj_company = 1,
     aj_account = None, aj_active = True\<rparr>]\<rparr>"

definition counter :: commerce where
  "counter = \<lparr>cm_wh = depot, cm_lg = shop_open, cm_sale_of = [], cm_purchase_of = []\<rparr>"

definition new_bolt :: line_args where
  "new_bolt = \<lparr>la_order = Some 1, la_product = Some 7, la_name = Some ''bolt'', la_qty = Some 1000000, la_price = Some 1500000,
     la_discount = None, la_taxes = None, la_display = None\<rparr>"

definition depot_more :: warehouse where
  "depot_more = depot\<lparr>wh_sales := [depot_order\<lparr>or_untaxed := 7500000, or_total := 7500000\<rparr>],
     wh_sale_lines := [depot_line 1, (depot_line 2)\<lparr>ol_qty := 1000000, ol_price := 1500000, ol_subtotal := 1500000,
       ol_total := 1500000\<rparr>]\<rparr>"

definition counter_invoice :: acc_move where
  "counter_invoice = (sample_move 3 ''out_invoice'' ''draft'' 1000000 6000000)\<lparr>am_date := Date 2026 3 7, am_journal := 3,
     am_partner := Some 9, am_ref := ''SO1'', am_origin := Some ''SO1''\<rparr>"

definition counter_billed :: commerce where
  "counter_billed = \<lparr>cm_wh = depot\<lparr>wh_sales := [depot_order\<lparr>or_invoicing := ''invoiced''\<rparr>]\<rparr>,
     cm_lg = shop_open\<lparr>lg_moves := lg_moves shop_open @ [counter_invoice], lg_next_move := 4,
       lg_lines := lg_lines shop_open
         @ [(leg 3 13 3 1 (Date 2026 3 7) ''bolt'' (Some 9) 0 6000000)\<lparr>jl_id := 5, jl_quantity := 3000000, jl_price := 2000000\<rparr>,
            (leg 3 12 3 1 (Date 2026 3 7) ''Receivable: SO1'' (Some 9) 6000000 0)\<lparr>jl_id := 6, jl_quantity := 1, jl_price := 0\<rparr>],
       lg_next_line := 7\<rparr>, cm_sale_of = [(3, 1)], cm_purchase_of = []\<rparr>"

lemma counter_ok: "totals_ok (counter, {})"
  by (simp add: totals_ok_def) code_simp

lemma depot_create: "create_line (\<lambda>_. None) id counter_config Sale 2 new_bolt depot = Inr depot_more"
  by code_simp

lemma counter_invoiced: "invoice_orders id (Date 2026 3 7) counter_config Sale [1] counter = Inr counter_billed"
  by code_simp

lemma exact_id: "exact id"
  by (simp add: exact_def)



text \<open>Where the code departs from what it means to do: nothing stops an order from being invoiced again, and a
  line that is deleted stays in the totals of its order.\<close>

lemma order_invoiced_twice:
  "map_option (map am_total \<circ> drop 2) (case invoice_orders id (Date 2026 3 7) counter_config Sale [1, 1] counter of
     Inl _ \<Rightarrow> None | Inr c \<Rightarrow> Some (lg_moves (cm_lg c))) = Some [6000000, 6000000]"
  by code_simp

lemma unlink_leaves_totals: "orders sd (unlink_lines sd ids w) = orders sd w"
  by (simp add: unlink_lines_def)

end
