(* ===== verification/Mrp.thy ===== *)
theory Mrp
  imports Warehouse "HOL-Library.AList"
begin

section \<open>Manufacturing (modules/mrp)\<close>

text \<open>
  Manufacturing orders, their work orders and their moves, over the warehouse they share with the
  transfers. A row of \<open>stock_move\<close> that belongs to an order is a row of the warehouse with two more
  columns; transfers never touch it, as it names no transfer. \<open>ndiv\<close> is the NUMERIC quotient cast to BIGINT
  that scales a component, \<open>ndur\<close> what the column of the expected duration makes of cycle time and quantity.
  A handler runs one transaction for each id. Stamps of times are left out.
\<close>

record prod_move = smove +
  pm_production :: int
  pm_raw :: bool

record production =
  mo_id :: int
  mo_name :: string
  mo_product :: int
  mo_qty :: int
  mo_bom :: "int option"
  mo_state :: string
  mo_src :: "int option"
  mo_dest :: "int option"
  mo_planned :: "(int \<times> int) option"
  mo_producing :: int
  mo_origin :: "string option"
  mo_company :: "int option"

record routing =
  rt_id :: int
  rt_bom :: int
  rt_center :: "int option"
  rt_name :: string
  rt_sequence :: int
  rt_cycle :: int

record workorder =
  wo_id :: int
  wo_production :: int
  wo_center :: "int option"
  wo_operation :: "int option"
  wo_name :: string
  wo_sequence :: int
  wo_state :: string
  wo_expected :: int
  wo_duration :: int
  wo_produced :: int
  wo_company :: "int option"

record factory =
  fa_wh :: warehouse
  fa_moves :: "prod_move list"
  fa_orders :: "production list"
  fa_next_order :: int
  fa_works :: "workorder list"
  fa_next_work :: int
  fa_routing :: "routing list"

definition find_production :: "int \<Rightarrow> factory \<Rightarrow> production option" where
  "find_production i f = find (\<lambda>r. mo_id r = i) (fa_orders f)"

definition update_production :: "int \<Rightarrow> (production \<Rightarrow> production) \<Rightarrow> factory \<Rightarrow> factory" where
  "update_production i g f = f\<lparr>fa_orders := map (\<lambda>r. if mo_id r = i then g r else r) (fa_orders f)\<rparr>"

definition update_works :: "(workorder \<Rightarrow> bool) \<Rightarrow> (workorder \<Rightarrow> workorder) \<Rightarrow> factory \<Rightarrow> factory" where
  "update_works P g f = f\<lparr>fa_works := map (\<lambda>k. if P k then g k else k) (fa_works f)\<rparr>"

definition update_prod_moves :: "(prod_move \<Rightarrow> bool) \<Rightarrow> (prod_move \<Rightarrow> prod_move) \<Rightarrow> factory \<Rightarrow> factory" where
  "update_prod_moves P g f = f\<lparr>fa_moves := map (\<lambda>m. if P m then g m else m) (fa_moves f)\<rparr>"

definition closed_state :: "string \<Rightarrow> bool" where
  "closed_state s \<longleftrightarrow> s = ''done'' \<or> s = ''cancel''"

subsection \<open>Confirming an order\<close>

definition productionLocId :: "warehouse \<Rightarrow> int" where
  "productionLocId w = (case sort (map fst (filter (\<lambda>(l, u). u = Some ''production'') (sk_locations (wh_stock w)))) of
       [] \<Rightarrow> 0 | l # _ \<Rightarrow> l)"

definition bom_for :: "production \<Rightarrow> warehouse \<Rightarrow> int \<times> int" where
  "bom_for r w = (let (i, q) =
     (if (case mo_bom r of None \<Rightarrow> 0 | Some b \<Rightarrow> b) \<le> 0
      then (case find (\<lambda>b. bm_product b = mo_product r \<and> bm_active b) (wh_boms w) of
              None \<Rightarrow> (case mo_bom r of None \<Rightarrow> 0 | Some b \<Rightarrow> b, 1000000) | Some b \<Rightarrow> (bm_id b, bm_qty b))
      else (case find (\<lambda>b. Some (bm_id b) = mo_bom r) (wh_boms w) of
              None \<Rightarrow> (the (mo_bom r), 1000000) | Some b \<Rightarrow> (the (mo_bom r), bm_qty b)))
     in (i, if q \<le> 0 then 1000000 else q))"

definition item_label :: "int \<Rightarrow> string \<Rightarrow> warehouse \<Rightarrow> string" where
  "item_label p d w = (case find (\<lambda>it. it_id it = p) (wh_items w) of
       None \<Rightarrow> d | Some it \<Rightarrow> (case it_name it of None \<Rightarrow> d | Some n \<Rightarrow> n))"

definition order_move :: "production \<Rightarrow> bool \<Rightarrow> int \<Rightarrow> string \<Rightarrow> int \<Rightarrow> int \<Rightarrow> int \<Rightarrow> prod_move" where
  "order_move r raw p name q src dest =
     \<lparr>sm_id = 0, sm_transfer = None, sm_product = p, sm_name = name, sm_demand = q, sm_quantity = 0, sm_reserved = 0,
      sm_state = ''confirmed'', sm_src = src, sm_dest = dest,
      sm_company = nullif0 (case mo_company r of None \<Rightarrow> 0 | Some c \<Rightarrow> c), sm_lot = None, sm_package = None,
      sm_origin = '''', pm_production = mo_id r, pm_raw = raw\<rparr>"

definition explode :: "(int \<Rightarrow> int \<Rightarrow> int \<Rightarrow> int) \<Rightarrow> production \<Rightarrow> int \<times> int \<Rightarrow> int \<Rightarrow> int \<Rightarrow> warehouse \<Rightarrow> prod_move list" where
  "explode ndiv r b src loc w = (if fst b > 0 then
     map (\<lambda>l. order_move r True (bl_product l) (item_label (bl_product l) ''component'' w) (ndiv (bl_qty l) (mo_qty r) (snd b)) src loc)
       (filter (\<lambda>l. bl_bom l = fst b) (wh_bom_lines w)) else [])"

fun add_prod_moves :: "prod_move list \<Rightarrow> factory \<Rightarrow> factory" where
  "add_prod_moves [] f = f"
| "add_prod_moves (m # ms) f = add_prod_moves ms (f\<lparr>fa_moves := fa_moves f @ [m\<lparr>sm_id := wh_next_move (fa_wh f)\<rparr>],
     fa_wh := (fa_wh f)\<lparr>wh_next_move := wh_next_move (fa_wh f) + 1\<rparr>\<rparr>)"

definition work_of :: "(int \<Rightarrow> int \<Rightarrow> int) \<Rightarrow> production \<Rightarrow> routing \<Rightarrow> workorder" where
  "work_of ndur r k = \<lparr>wo_id = 0, wo_production = mo_id r, wo_center = rt_center k, wo_operation = Some (rt_id k),
     wo_name = rt_name k, wo_sequence = rt_sequence k, wo_state = ''ready'', wo_expected = ndur (rt_cycle k) (mo_qty r),
     wo_duration = 0, wo_produced = 0, wo_company = nullif0 (case mo_company r of None \<Rightarrow> 0 | Some c \<Rightarrow> c)\<rparr>"

fun add_works :: "workorder list \<Rightarrow> factory \<Rightarrow> factory" where
  "add_works [] f = f"
| "add_works (k # ks) f = add_works ks (f\<lparr>fa_works := fa_works f @ [k\<lparr>wo_id := fa_next_work f\<rparr>],
     fa_next_work := fa_next_work f + 1\<rparr>)"

definition plan_order ::
  "(int \<Rightarrow> int \<Rightarrow> int \<Rightarrow> int) \<Rightarrow> (int \<Rightarrow> int \<Rightarrow> int) \<Rightarrow> production \<Rightarrow> int \<times> int \<Rightarrow> factory \<Rightarrow> factory" where
  "plan_order ndiv ndur r b f =
     (let w = fa_wh f; loc = productionLocId w; src = (case mo_src r of None \<Rightarrow> 4 | Some l \<Rightarrow> l);
          dest = (case mo_dest r of None \<Rightarrow> 4 | Some l \<Rightarrow> l);
          moves = (if loc > 0 then explode ndiv r b src loc w
              @ [order_move r False (mo_product r) (item_label (mo_product r) ''finished'' w) (mo_qty r) loc dest] else [])
      in add_works (if fst b > 0 then map (work_of ndur r) (filter (\<lambda>x. rt_bom x = fst b) (fa_routing f)) else [])
           (add_prod_moves moves f))"

definition mo_number :: "tm \<Rightarrow> tm \<Rightarrow> production \<Rightarrow> warehouse \<Rightarrow> (string \<times> warehouse) result" where
  "mo_number t1 t2 r w = (if mo_name r = ''New'' \<or> mo_name r = '''' then number_in t1 t2 ''mrp.production'' w
     else Inr (mo_name r, w))"

definition confirm_production ::
  "(int \<Rightarrow> int \<Rightarrow> int \<Rightarrow> int) \<Rightarrow> (int \<Rightarrow> int \<Rightarrow> int) \<Rightarrow> tm \<Rightarrow> tm \<Rightarrow> int \<Rightarrow> factory \<Rightarrow> factory result" where
  "confirm_production ndiv ndur t1 t2 i f = (case find_production i f of
       None \<Rightarrow> Inr f
     | Some r \<Rightarrow>
         if mo_state r \<noteq> ''draft'' then Inr f
         else let b = bom_for r (fa_wh f); f1 = plan_order ndiv ndur r b f
              in bindE (mo_number t1 t2 r (fa_wh f1)) (\<lambda>(name, w).
                 Inr (update_production i (\<lambda>r. r\<lparr>mo_name := name, mo_bom := (if fst b > 0 then Some (fst b) else mo_bom r),
                   mo_state := ''confirmed''\<rparr>) (f1\<lparr>fa_wh := w\<rparr>))))"

subsection \<open>Closing an order\<close>

definition open_works :: "int \<Rightarrow> factory \<Rightarrow> workorder list" where
  "open_works i f = filter (\<lambda>k. wo_production k = i \<and> \<not> closed_state (wo_state k)) (fa_works f)"

definition moves_to_do :: "int \<Rightarrow> bool \<Rightarrow> factory \<Rightarrow> prod_move list" where
  "moves_to_do i raw f = filter (\<lambda>m. pm_production m = i \<and> pm_raw m = raw \<and> \<not> closed_state (sm_state m)) (fa_moves f)"

definition standard_cost :: "int \<Rightarrow> stock_db \<Rightarrow> int" where
  "standard_cost p st = (case find_product p st of None \<Rightarrow> 0 | Some r \<Rightarrow> pr_standard_price r)"

definition finish_move :: "int \<Rightarrow> prod_move \<Rightarrow> factory \<Rightarrow> factory" where
  "finish_move cost m f = (let q = done_qty m in
     update_prod_moves (\<lambda>x. sm_id x = sm_id m) (\<lambda>x. x\<lparr>sm_quantity := q, sm_state := ''done''\<rparr>)
       (f\<lparr>fa_wh := (fa_wh f)\<lparr>wh_stock := applyMove (sm_product m) (sm_src m) (sm_dest m) q (company_of m) cost 0 (wh_stock (fa_wh f))\<rparr>\<rparr>))"

definition consume_raw :: "prod_move \<Rightarrow> int \<times> factory \<Rightarrow> int \<times> factory" where
  "consume_raw m s = (case s of (v, f) \<Rightarrow>
     (v + mulMicros (done_qty m) (standard_cost (sm_product m) (wh_stock (fa_wh f))), finish_move (-1) m f))"

definition produce_finished :: "int \<Rightarrow> prod_move \<Rightarrow> factory \<Rightarrow> factory" where
  "produce_finished v m f = finish_move (if done_qty m > 0 then divMicros v (done_qty m) else -1) m f"

definition close_production :: "int \<Rightarrow> factory \<Rightarrow> factory result" where
  "close_production i f = (case find_production i f of
       None \<Rightarrow> Inr f
     | Some r \<Rightarrow>
         if mo_state r = ''done'' \<or> mo_state r = ''cancel'' \<or> mo_state r = ''draft'' then Inr f
         else if open_works i f \<noteq> [] then
           Inl (RuntimeError ''All work orders must be finished before closing the manufacturing order'')
         else let (v, f1) = fold consume_raw (moves_to_do i True f) (0, f);
                  f2 = fold (produce_finished v) (moves_to_do i False f1) f1
              in Inr (update_production i (\<lambda>r. r\<lparr>mo_state := ''done'', mo_producing := mo_qty r\<rparr>) f2))"

definition cancel_production :: "int \<Rightarrow> factory \<Rightarrow> factory result" where
  "cancel_production i f = Inr (update_production i (\<lambda>r. if mo_state r \<noteq> ''done'' then r\<lparr>mo_state := ''cancel''\<rparr> else r)
     (update_works (\<lambda>k. wo_production k = i \<and> wo_state k \<noteq> ''done'') (\<lambda>k. k\<lparr>wo_state := ''cancel''\<rparr>)
       (update_prod_moves (\<lambda>m. pm_production m = i \<and> sm_state m \<noteq> ''done'') (\<lambda>m. m\<lparr>sm_state := ''cancel''\<rparr>) f)))"

subsection \<open>Work orders\<close>

definition find_work :: "int \<Rightarrow> factory \<Rightarrow> workorder option" where
  "find_work i f = find (\<lambda>k. wo_id k = i) (fa_works f)"

definition startable :: "string \<Rightarrow> bool" where
  "startable s \<longleftrightarrow> s = ''ready'' \<or> s = ''pending'' \<or> s = ''progress''"

definition start_work :: "int \<Rightarrow> factory \<Rightarrow> factory result" where
  "start_work i f =
     (let f1 = update_works (\<lambda>k. wo_id k = i \<and> startable (wo_state k)) (\<lambda>k. k\<lparr>wo_state := ''progress''\<rparr>) f
      in case find_work i f1 of
           None \<Rightarrow> Inr f1
         | Some k \<Rightarrow> Inr (update_production (wo_production k)
             (\<lambda>r. if mo_state r = ''confirmed'' then r\<lparr>mo_state := ''progress''\<rparr> else r) f1))"

definition finish_work :: "int \<Rightarrow> factory \<Rightarrow> factory result" where
  "finish_work i f =
     (let f1 = update_works (\<lambda>k. wo_id k = i \<and> startable (wo_state k))
            (\<lambda>k. k\<lparr>wo_state := ''done'', wo_duration := (if wo_duration k > 0 then wo_duration k else wo_expected k),
               wo_produced := (case find_production (wo_production k) f of None \<Rightarrow> 0 | Some r \<Rightarrow> mo_qty r)\<rparr>) f
      in case find_work i f1 of
           None \<Rightarrow> Inr f1
         | Some k \<Rightarrow> Inr (update_production (wo_production k)
             (\<lambda>r. if (mo_state r = ''confirmed'' \<or> mo_state r = ''progress'') \<and> open_works (wo_production k) f1 = []
                  then r\<lparr>mo_state := ''to_close''\<rparr> else r) f1))"

subsection \<open>The master production schedule\<close>

text \<open>A period is a year and a month, as \<open>sscanf\<close> reads them off the text of a date.\<close>

record schedule =
  ms_forecasts :: "((int \<times> int \<times> int) \<times> int) list"
  ms_minimum :: "(int \<times> int) list"

definition firstOfMonth :: "int \<times> int \<Rightarrow> int \<times> int" where
  "firstOfMonth d = (case d of (y, m) \<Rightarrow> (y, if m < 1 then 1 else if m > 12 then 12 else m))"

definition nextMonth :: "int \<times> int \<Rightarrow> int \<times> int" where
  "nextMonth d = (case d of (y, m) \<Rightarrow> if m \<ge> 12 then (y + 1, 1) else (y, m + 1))"

definition set_forecast :: "int \<Rightarrow> (int \<times> int) option \<Rightarrow> int \<Rightarrow> schedule \<Rightarrow> schedule result" where
  "set_forecast p d q s = (case d of
       None \<Rightarrow> Inl (RuntimeError ''set_forecast: product_id and date are required'')
     | Some d \<Rightarrow> if p \<le> 0 then Inl (RuntimeError ''set_forecast: product_id and date are required'')
         else Inr (s\<lparr>ms_forecasts := AList.update (p, firstOfMonth d) q (ms_forecasts s)\<rparr>))"

record period =
  pe_date :: "int \<times> int"
  pe_forecast :: int
  pe_replenish :: int
  pe_ending :: int

fun mps_periods :: "nat \<Rightarrow> (int \<times> int \<Rightarrow> int) \<Rightarrow> int \<Rightarrow> int \<times> int \<Rightarrow> int \<Rightarrow> period list" where
  "mps_periods 0 demand minimum d incoming = []"
| "mps_periods (Suc n) demand minimum d incoming =
     (let projected = incoming - demand d;
          replenish = (if projected < minimum then minimum - projected else 0);
          ending = projected + replenish
      in \<lparr>pe_date = d, pe_forecast = demand d, pe_replenish = replenish, pe_ending = ending\<rparr>
         # mps_periods n demand minimum (nextMonth d) ending)"

definition period_count :: "int option \<Rightarrow> nat" where
  "period_count n = (case n of None \<Rightarrow> 6 | Some k \<Rightarrow> nat (if k < 1 then 1 else if k > 24 then 24 else k))"

definition get_mps_grid :: "int \<Rightarrow> int option \<Rightarrow> int \<times> int \<Rightarrow> stock_db \<Rightarrow> schedule \<Rightarrow> period list result" where
  "get_mps_grid p n start st s =
     (if p \<le> 0 then Inl (RuntimeError ''get_mps_grid: product_id is required'')
      else Inr (mps_periods (period_count n)
        (\<lambda>d. case map_of (ms_forecasts s) (p, d) of None \<Rightarrow> 0 | Some q \<Rightarrow> q)
        (case map_of (ms_minimum s) p of None \<Rightarrow> 0 | Some q \<Rightarrow> q) (firstOfMonth start)
        (case find_product p st of None \<Rightarrow> 0 | Some r \<Rightarrow> pr_qty_available r)))"

definition replenish :: "int \<Rightarrow> int \<Rightarrow> (int \<times> int) option \<Rightarrow> factory \<Rightarrow> (int \<times> factory) result" where
  "replenish p q d f =
     (if p \<le> 0 \<or> q \<le> 0 then Inl (RuntimeError ''action_replenish: product_id and a positive quantity are required'')
      else Inr (fa_next_order f, f\<lparr>fa_next_order := fa_next_order f + 1,
        fa_orders := fa_orders f @ [\<lparr>mo_id = fa_next_order f, mo_name = ''New'', mo_product = p, mo_qty = q, mo_bom = None,
          mo_state = ''draft'', mo_src = Some 4, mo_dest = Some 4, mo_planned = map_option firstOfMonth d, mo_producing = 0,
          mo_origin = Some ''MPS'', mo_company = Some 1\<rparr>]\<rparr>))"

subsection \<open>The books of the factory\<close>

definition made :: "factory \<Rightarrow> int \<Rightarrow> int \<Rightarrow> int \<Rightarrow> int" where
  "made f p l t = sum_list (map (flow p l t) (fa_moves f))"

definition unexplained :: "factory \<Rightarrow> int \<times> int \<times> int \<Rightarrow> int" where
  "unexplained f k = unmoved (fa_wh f) k - (case k of (p, l, t) \<Rightarrow> made f p l t)"

definition busy :: "int \<Rightarrow> factory \<Rightarrow> bool" where
  "busy i f \<longleftrightarrow> open_works i f \<noteq> [] \<or> moves_to_do i True f \<noteq> [] \<or> moves_to_do i False f \<noteq> []"

definition factory_ok :: "factory \<Rightarrow> bool" where
  "factory_ok f \<longleftrightarrow> wh_ok (fa_wh f) \<and> distinct (map sm_id (fa_moves f))
     \<and> (\<forall>m \<in> set (fa_moves f). sm_id m < wh_next_move (fa_wh f) \<and> sm_lot m = None)
     \<and> (\<forall>r \<in> set (fa_orders f). closed_state (mo_state r) \<longrightarrow> \<not> busy (mo_id r) f)"

definition factory_keeps :: "factory \<Rightarrow> factory \<Rightarrow> bool" where
  "factory_keeps f f' \<longleftrightarrow> (factory_ok f \<longrightarrow> factory_ok f' \<and> (\<forall>k. unexplained f' k = unexplained f k))"

lemma factory_keeps_refl [simp]: "factory_keeps f f"
  by (simp add: factory_keeps_def)

lemma factory_keeps_trans [trans]: "factory_keeps f g \<Longrightarrow> factory_keeps g h \<Longrightarrow> factory_keeps f h"
  by (simp add: factory_keeps_def)

text \<open>The table of moves and the stock, without the orders.\<close>

definition moves_fine :: "factory \<Rightarrow> bool" where
  "moves_fine f \<longleftrightarrow> wh_ok (fa_wh f) \<and> distinct (map sm_id (fa_moves f))
     \<and> (\<forall>m \<in> set (fa_moves f). sm_id m < wh_next_move (fa_wh f) \<and> sm_lot m = None)"

lemma factory_ok_split: "factory_ok f \<longleftrightarrow> moves_fine f
   \<and> (\<forall>r \<in> set (fa_orders f). closed_state (mo_state r) \<longrightarrow> \<not> busy (mo_id r) f)"
  by (auto simp: factory_ok_def moves_fine_def)

definition open_moves :: "factory \<Rightarrow> prod_move set" where
  "open_moves f = {m \<in> set (fa_moves f). \<not> closed_state (sm_state m)}"

lemma busy_iff: "busy i f \<longleftrightarrow> (\<exists>k \<in> set (fa_works f). wo_production k = i \<and> \<not> closed_state (wo_state k))
   \<or> (\<exists>m \<in> open_moves f. pm_production m = i)"
  by (auto simp: busy_def open_works_def moves_to_do_def open_moves_def filter_empty_conv)

lemma wh_ok_moves: "wh_ok (w\<lparr>wh_next_move := n\<rparr>)" if "wh_ok w" "wh_next_move w \<le> n"
  using that by (force simp: wh_ok_iff reserved_by_def move_ok_def)

lemma unmoved_next [simp]: "unmoved (w\<lparr>wh_next_move := n\<rparr>) k = unmoved w k"
  by (simp add: unmoved_def moved_def)

lemma add_prod_moves_fine:
  assumes "moves_fine f" and "\<forall>m \<in> set ms. sm_state m = ''confirmed'' \<and> sm_lot m = None"
  shows "moves_fine (add_prod_moves ms f) \<and> unexplained (add_prod_moves ms f) k = unexplained f k
    \<and> fa_orders (add_prod_moves ms f) = fa_orders f \<and> fa_works (add_prod_moves ms f) = fa_works f
    \<and> pm_production ` open_moves (add_prod_moves ms f) \<subseteq> pm_production ` open_moves f \<union> pm_production ` set ms"
  using assms
proof (induction ms f rule: add_prod_moves.induct)
  case (2 m ms f)
  let ?f = "f\<lparr>fa_moves := fa_moves f @ [m\<lparr>sm_id := wh_next_move (fa_wh f)\<rparr>],
     fa_wh := (fa_wh f)\<lparr>wh_next_move := wh_next_move (fa_wh f) + 1\<rparr>\<rparr>"
  have "sm_id x \<noteq> wh_next_move (fa_wh f)" if "x \<in> set (fa_moves f)" for x
    using 2(2) that by (auto simp: moves_fine_def)
  then have "moves_fine ?f" using 2(2,3) by (force simp: moves_fine_def wh_ok_moves)
  moreover have "unexplained ?f k = unexplained f k" using 2(3) by (simp add: unexplained_def made_def flow_def split: prod.split)
  moreover have "open_moves ?f \<subseteq> open_moves f \<union> {m\<lparr>sm_id := wh_next_move (fa_wh f)\<rparr>}" by (auto simp: open_moves_def)
  then have "pm_production ` open_moves ?f \<subseteq> pm_production ` open_moves f \<union> {pm_production m}" by auto
  ultimately show ?case using 2(1) 2(3) by simp blast
qed simp

lemma add_works_frame [simp]:
  "fa_wh (add_works ks f) = fa_wh f" "fa_moves (add_works ks f) = fa_moves f" "fa_orders (add_works ks f) = fa_orders f"
  by (induction ks f rule: add_works.induct) simp_all

lemma add_works_productions: "wo_production ` set (fa_works (add_works ks f)) \<subseteq> wo_production ` set (fa_works f) \<union> wo_production ` set ks
   \<and> {k \<in> set (fa_works (add_works ks f)). wo_production k \<notin> wo_production ` set ks} \<subseteq> set (fa_works f)"
  by (induction ks f rule: add_works.induct) auto

lemma find_production_id: "find_production i f = Some r \<Longrightarrow> mo_id r = i \<and> r \<in> set (fa_orders f)"
  by (auto simp: find_production_def find_Some_iff)

lemma update_production_simps [simp]:
  "fa_wh (update_production i g f) = fa_wh f" "fa_moves (update_production i g f) = fa_moves f"
  "fa_works (update_production i g f) = fa_works f"
  "fa_orders (update_production i g f) = map (\<lambda>r. if mo_id r = i then g r else r) (fa_orders f)"
  by (simp_all add: update_production_def)

lemma busy_update_production [simp]: "busy j (update_production i g f) = busy j f"
  by (simp add: busy_iff open_moves_def)

lemma moves_fine_cong: "fa_moves f' = fa_moves f \<Longrightarrow> fa_wh f' = fa_wh f \<Longrightarrow> moves_fine f' = moves_fine f"
  by (simp add: moves_fine_def)

lemma unexplained_cong: "fa_moves f' = fa_moves f \<Longrightarrow> fa_wh f' = fa_wh f \<Longrightarrow> unexplained f' k = unexplained f k"
  by (simp add: unexplained_def made_def)

text \<open>A change of orders: where an order ends up closed, it was closed already or nothing of it is left open.\<close>

lemma factory_keepsI:
  assumes "moves_fine f \<Longrightarrow> moves_fine f'" and "\<And>k. moves_fine f \<Longrightarrow> unexplained f' k = unexplained f k"
    and "\<And>r. factory_ok f \<Longrightarrow> r \<in> set (fa_orders f') \<Longrightarrow> closed_state (mo_state r) \<Longrightarrow> \<not> busy (mo_id r) f'"
  shows "factory_keeps f f'"
  using assms by (simp add: factory_keeps_def factory_ok_split)

lemma plan_order_fine:
  assumes "moves_fine f"
  shows "moves_fine (plan_order ndiv ndur r b f)" "unexplained (plan_order ndiv ndur r b f) k = unexplained f k"
    "fa_orders (plan_order ndiv ndur r b f) = fa_orders f"
    "j \<noteq> mo_id r \<Longrightarrow> busy j (plan_order ndiv ndur r b f) \<Longrightarrow> busy j f"
proof -
  obtain ms ks where f': "plan_order ndiv ndur r b f = add_works ks (add_prod_moves ms f)"
    and ms: "\<forall>m \<in> set ms. sm_state m = ''confirmed'' \<and> sm_lot m = None \<and> pm_production m = mo_id r"
    and ks: "\<forall>k \<in> set ks. wo_production k = mo_id r"
  proof
    define loc where "loc = productionLocId (fa_wh f)"
    let ?ms = "if loc > 0 then explode ndiv r b (case mo_src r of None \<Rightarrow> 4 | Some l \<Rightarrow> l) loc (fa_wh f)
              @ [order_move r False (mo_product r) (item_label (mo_product r) ''finished'' (fa_wh f)) (mo_qty r) loc
                 (case mo_dest r of None \<Rightarrow> 4 | Some l \<Rightarrow> l)] else []"
    let ?ks = "if fst b > 0 then map (work_of ndur r) (filter (\<lambda>x. rt_bom x = fst b) (fa_routing f)) else []"
    show "plan_order ndiv ndur r b f = add_works ?ks (add_prod_moves ?ms f)" by (simp add: plan_order_def Let_def loc_def)
    show "\<forall>m \<in> set ?ms. sm_state m = ''confirmed'' \<and> sm_lot m = None \<and> pm_production m = mo_id r"
      by (auto simp: explode_def order_move_def)
    show "\<forall>k \<in> set ?ks. wo_production k = mo_id r" by (auto simp: work_of_def)
  qed
  note added = add_prod_moves_fine [OF assms, of ms]
  show "moves_fine (plan_order ndiv ndur r b f)" unfolding f' using added ms by (simp cong: moves_fine_cong)
  show "unexplained (plan_order ndiv ndur r b f) k = unexplained f k"
    unfolding f' using added ms by (simp cong: unexplained_cong)
  show "fa_orders (plan_order ndiv ndur r b f) = fa_orders f" unfolding f' using added ms by simp
  assume j: "j \<noteq> mo_id r" and "busy j (plan_order ndiv ndur r b f)"
  then consider k where "k \<in> set (fa_works (add_works ks (add_prod_moves ms f)))" "wo_production k = j" "\<not> closed_state (wo_state k)"
    | "j \<in> pm_production ` open_moves (add_prod_moves ms f)"
    unfolding f' busy_iff by (auto simp: open_moves_def)
  then show "busy j f"
  proof cases
    case 1
    with j ks have "wo_production k \<notin> wo_production ` set ks" by auto
    with 1 have "k \<in> set (fa_works (add_prod_moves ms f))" using add_works_productions [of ks "add_prod_moves ms f"] by blast
    with 1 added ms show ?thesis by (auto simp: busy_iff)
  next
    case 2
    have "pm_production ` set ms \<subseteq> {mo_id r}" using ms by auto
    with 2 added ms j have "j \<in> pm_production ` open_moves f" by blast
    then show ?thesis by (auto simp: busy_iff)
  qed
qed

lemma factory_confirm: "confirm_production ndiv ndur t1 t2 i f = Inr f' \<Longrightarrow> factory_keeps f f'"
proof (cases "f' = f")
  case False
  assume "confirm_production ndiv ndur t1 t2 i f = Inr f'"
  with False obtain r where r: "find_production i f = Some r"
    and run: "bindE (mo_number t1 t2 r (fa_wh (plan_order ndiv ndur r (bom_for r (fa_wh f)) f))) (\<lambda>(name, w).
        Inr (update_production i (\<lambda>q. q\<lparr>mo_name := name, mo_bom := (if fst (bom_for r (fa_wh f)) > 0
            then Some (fst (bom_for r (fa_wh f))) else mo_bom q), mo_state := ''confirmed''\<rparr>)
          ((plan_order ndiv ndur r (bom_for r (fa_wh f)) f)\<lparr>fa_wh := w\<rparr>))) = Inr f'"
    by (auto simp: confirm_production_def Let_def split: option.splits if_splits)
  define b where "b = bom_for r (fa_wh f)"
  from run obtain name w where w: "mo_number t1 t2 r (fa_wh (plan_order ndiv ndur r b f)) = Inr (name, w)"
    and f': "f' = update_production i (\<lambda>q. q\<lparr>mo_name := name, mo_bom := (if fst b > 0 then Some (fst b) else mo_bom q),
                   mo_state := ''confirmed''\<rparr>) ((plan_order ndiv ndur r b f)\<lparr>fa_wh := w\<rparr>)"
    unfolding b_def [symmetric] by (auto simp: exn_simps)
  let ?g = "plan_order ndiv ndur r b f"
  have k: "keeps (fa_wh ?g) w" using w by (intro keeps_frame) (auto simp: mo_number_def number_in_def exn_simps split: if_splits)
  have id: "mo_id r = i" using find_production_id [OF r] by simp
  show ?thesis
  proof (rule factory_keepsI)
    assume fine: "moves_fine f"
    note g = plan_order_fine [OF fine, where ndiv = ndiv and ndur = ndur and r = r and b = b]
    have ok: "wh_ok (fa_wh ?g)" using g(1) by (simp add: moves_fine_def)
    show "moves_fine f'" using g(1) k ok by (fastforce simp: f' moves_fine_def keeps_def)
    show "unexplained f' x = unexplained f x" for x
      using g(2) [of x] k ok by (cases x) (simp add: f' unexplained_def made_def keeps_def)
  next
    fix q assume ok: "factory_ok f" and q: "q \<in> set (fa_orders f')" "closed_state (mo_state q)"
    then have fine: "moves_fine f" by (simp add: factory_ok_split)
    note g = plan_order_fine [OF fine, where ndiv = ndiv and ndur = ndur and r = r and b = b]
    have os: "fa_orders f' = map (\<lambda>q. if mo_id q = i then q\<lparr>mo_name := name, mo_bom := (if fst b > 0 then Some (fst b) else mo_bom q),
                   mo_state := ''confirmed''\<rparr> else q) (fa_orders f)" by (simp add: f' g(3))
    from q(1) obtain q' where "q' \<in> set (fa_orders f)" and q': "q = (if mo_id q' = i then q'\<lparr>mo_name := name,
          mo_bom := (if fst b > 0 then Some (fst b) else mo_bom q'), mo_state := ''confirmed''\<rparr> else q')"
      unfolding os set_map by (rule imageE)
    moreover have "mo_id q' \<noteq> i" using q(2) by (auto simp: q' closed_state_def)
    ultimately have "q \<in> set (fa_orders f)" "mo_id q \<noteq> i" by simp_all
    moreover have "busy (mo_id q) f' = busy (mo_id q) ?g" by (simp add: f' busy_iff open_moves_def)
    ultimately show "\<not> busy (mo_id q) f'" using g(4) [of "mo_id q"] ok q(2) id by (auto simp: factory_ok_split)
  qed
qed simp

lemma update_works_simps [simp]:
  "fa_wh (update_works P g f) = fa_wh f" "fa_moves (update_works P g f) = fa_moves f" "fa_orders (update_works P g f) = fa_orders f"
  "fa_works (update_works P g f) = map (\<lambda>k. if P k then g k else k) (fa_works f)"
  "open_moves (update_works P g f) = open_moves f"
  by (simp_all add: update_works_def open_moves_def)

lemma update_prod_moves_simps [simp]:
  "fa_wh (update_prod_moves P g f) = fa_wh f" "fa_works (update_prod_moves P g f) = fa_works f"
  "fa_orders (update_prod_moves P g f) = fa_orders f"
  "fa_moves (update_prod_moves P g f) = map (\<lambda>m. if P m then g m else m) (fa_moves f)"
  by (simp_all add: update_prod_moves_def)

lemma busy_fewer:
  assumes "busy j f'" and "\<And>k. k \<in> set (fa_works f') \<Longrightarrow> \<not> closed_state (wo_state k) \<Longrightarrow>
      \<exists>x \<in> set (fa_works f). wo_production x = wo_production k \<and> \<not> closed_state (wo_state x)"
    and "pm_production ` open_moves f' \<subseteq> pm_production ` open_moves f"
  shows "busy j f"
  using assms unfolding busy_iff by (metis image_eqI image_iff subsetD)

lemma works_fewer:
  assumes "busy j (update_works P g f)"
    and "\<And>k. P k \<Longrightarrow> wo_production (g k) = wo_production k \<and> (closed_state (wo_state (g k)) \<or> \<not> closed_state (wo_state k))"
  shows "busy j f"
proof (rule busy_fewer [OF assms(1)])
  fix k assume k: "k \<in> set (fa_works (update_works P g f))" "\<not> closed_state (wo_state k)"
  then obtain x where "x \<in> set (fa_works f)" "k = (if P x then g x else x)" by auto
  with k(2) assms(2) show "\<exists>x \<in> set (fa_works f). wo_production x = wo_production k \<and> \<not> closed_state (wo_state x)"
    by (metis (full_types))
qed simp

lemma startable_open: "startable s \<Longrightarrow> \<not> closed_state s"
  by (auto simp: startable_def closed_state_def)

text \<open>A step on a work order, and then a change of the orders that closes none.\<close>

lemma factory_work:
  assumes f': "f' = update_production i h (update_works P g f)"
    and g: "\<And>k. P k \<Longrightarrow> wo_production (g k) = wo_production k \<and> (closed_state (wo_state (g k)) \<or> \<not> closed_state (wo_state k))"
    and h: "\<And>r. mo_id (h r) = mo_id r \<and> (closed_state (mo_state (h r)) \<longrightarrow> closed_state (mo_state r))"
  shows "factory_keeps f f'"
proof (rule factory_keepsI)
  show "moves_fine f \<Longrightarrow> moves_fine f'" by (simp add: f' moves_fine_def)
  show "unexplained f' k = unexplained f k" for k by (rule unexplained_cong) (simp_all add: f')
  fix r assume ok: "factory_ok f" and r: "r \<in> set (fa_orders f')" "closed_state (mo_state r)"
  then obtain q where "q \<in> set (fa_orders f)" "mo_id q = mo_id r" "closed_state (mo_state q)"
    using h by (auto simp: f' split: if_splits)
  then have "\<not> busy (mo_id r) f" using ok by (metis factory_ok_split)
  then show "\<not> busy (mo_id r) f'" using works_fewer [of "mo_id r" P g f, OF _ g] by (auto simp: f')
qed

lemma factory_works_only:
  assumes "\<And>k. P k \<Longrightarrow> wo_production (g k) = wo_production k \<and> (closed_state (wo_state (g k)) \<or> \<not> closed_state (wo_state k))"
  shows "factory_keeps f (update_works P g f)"
  by (rule factory_work [where i = 0 and h = "\<lambda>r. r", OF _ assms])
     (simp_all add: update_production_def update_works_def)

lemma factory_start: "start_work i f = Inr f' \<Longrightarrow> factory_keeps f f'"
  by (auto simp: start_work_def Let_def split: option.splits if_splits
      intro!: factory_works_only factory_work [OF refl] dest: startable_open simp: closed_state_def)

lemma factory_finish: "finish_work i f = Inr f' \<Longrightarrow> factory_keeps f f'"
  by (auto simp: finish_work_def Let_def split: option.splits if_splits
      intro!: factory_works_only factory_work [OF refl] simp: closed_state_def)

lemma factory_cancel: "cancel_production i f = Inr f' \<Longrightarrow> factory_keeps f f'"
proof (rule factory_keepsI)
  assume run: "cancel_production i f = Inr f'"
  define g where "g = update_prod_moves (\<lambda>m. pm_production m = i \<and> sm_state m \<noteq> ''done'') (\<lambda>m. m\<lparr>sm_state := ''cancel''\<rparr>) f"
  define h where "h = update_works (\<lambda>k. wo_production k = i \<and> wo_state k \<noteq> ''done'') (\<lambda>k. k\<lparr>wo_state := ''cancel''\<rparr>) g"
  have f': "f' = update_production i (\<lambda>r. if mo_state r \<noteq> ''done'' then r\<lparr>mo_state := ''cancel''\<rparr> else r) h"
    using run by (simp add: cancel_production_def g_def h_def)
  have ids: "map sm_id (fa_moves f') = map sm_id (fa_moves f)" by (simp add: f' h_def g_def)
  show "moves_fine f'" if "moves_fine f"
    using that unfolding moves_fine_def ids by (auto simp: f' h_def g_def)
  have "made f' p l t = made f p l t" for p l t
    unfolding made_def f' h_def g_def update_production_simps update_works_simps update_prod_moves_simps
    by (rule sum_update_same) (auto simp: flow_def)
  then show "unexplained f' k = unexplained f k" for k by (simp add: unexplained_def) (simp add: f' h_def g_def)
  have om: "open_moves f' = {m \<in> open_moves f. pm_production m \<noteq> i}"
    by (auto simp: open_moves_def f' h_def g_def closed_state_def split: if_splits)
  have ow: "k \<in> set (fa_works f) \<and> wo_production k \<noteq> i" if "k \<in> set (fa_works f')" "\<not> closed_state (wo_state k)" for k
    using that by (auto simp: f' h_def g_def closed_state_def split: if_splits)
  fix r assume ok: "factory_ok f" and r: "r \<in> set (fa_orders f')" "closed_state (mo_state r)"
  show "\<not> busy (mo_id r) f'"
  proof
    assume "busy (mo_id r) f'"
    with om ow have "mo_id r \<noteq> i" and b: "busy (mo_id r) f" by (auto simp: busy_iff)
    with r(1) have "r \<in> set (fa_orders f)" by (auto simp: f' h_def g_def split: if_splits)
    with ok r(2) b show False by (simp add: factory_ok_split)
  qed
qed

lemma factory_replenish: "replenish p q d f = Inr (i, f') \<Longrightarrow> factory_keeps f f'"
proof (rule factory_keepsI)
  assume "replenish p q d f = Inr (i, f')"
  then obtain r where f': "f' = f\<lparr>fa_next_order := fa_next_order f + 1, fa_orders := fa_orders f @ [r]\<rparr>" and "mo_state r = ''draft''"
    by (auto simp: replenish_def split: if_splits)
  then show "moves_fine f \<Longrightarrow> moves_fine f'" "\<And>k. unexplained f' k = unexplained f k"
    "\<And>x. factory_ok f \<Longrightarrow> x \<in> set (fa_orders f') \<Longrightarrow> closed_state (mo_state x) \<Longrightarrow> \<not> busy (mo_id x) f'"
    by (auto simp: moves_fine_def unexplained_def made_def factory_ok_split busy_iff open_moves_def closed_state_def)
qed

lemma factory_transfer: "transfer_step (fa_wh f) w \<Longrightarrow> factory_keeps f (f\<lparr>fa_wh := w\<rparr>)"
proof (rule factory_keepsI)
  assume "transfer_step (fa_wh f) w"
  then have k: "keeps (fa_wh f) w" by (rule keeps_step)
  show "moves_fine f \<Longrightarrow> moves_fine (f\<lparr>fa_wh := w\<rparr>)"
    using k by (fastforce simp: moves_fine_def keeps_def)
  show "moves_fine f \<Longrightarrow> unexplained (f\<lparr>fa_wh := w\<rparr>) x = unexplained f x" for x
    using k by (cases x) (simp add: unexplained_def made_def keeps_def moves_fine_def)
qed (auto simp: factory_ok_split busy_iff open_moves_def)

text \<open>Closing: the moves one after another.\<close>

lemma wh_ok_applyMove: "wh_ok w \<Longrightarrow> wh_ok (w\<lparr>wh_stock := applyMove p s d q c i t (wh_stock w)\<rparr>)"
  by (auto simp: wh_ok_iff reserved_by_def move_ok_def)

lemma finish_move_fine:
  assumes fine: "moves_fine f" and m: "m \<in> open_moves f"
  shows "moves_fine (finish_move c m f)" and "unexplained (finish_move c m f) k = unexplained f k"
    and "fa_works (finish_move c m f) = fa_works f" "fa_orders (finish_move c m f) = fa_orders f"
    and "open_moves (finish_move c m f) = open_moves f - {m}"
proof -
  let ?g = "\<lambda>x. x\<lparr>sm_quantity := done_qty m, sm_state := ''done''\<rparr>"
  have m': "m \<in> set (fa_moves f)" "sm_state m \<noteq> ''done''" "lot_of m = 0"
    using m fine by (auto simp: open_moves_def closed_state_def moves_fine_def lot_of_def)
  have d: "distinct (map sm_id (fa_moves f))" using fine by (simp add: moves_fine_def)
  define st where "st = applyMove (sm_product m) (sm_src m) (sm_dest m) (done_qty m) (company_of m) c 0 (wh_stock (fa_wh f))"
  have moves: "fa_moves (finish_move c m f) = map (\<lambda>x. if sm_id x = sm_id m then ?g x else x) (fa_moves f)"
    and wh: "fa_wh (finish_move c m f) = (fa_wh f)\<lparr>wh_stock := st\<rparr>"
    by (simp_all add: finish_move_def Let_def st_def)
  have ids: "map sm_id (fa_moves (finish_move c m f)) = map sm_id (fa_moves f)" unfolding moves by auto
  have ok: "wh_ok (fa_wh (finish_move c m f))" unfolding wh st_def using fine by (simp add: moves_fine_def wh_ok_applyMove)
  have "sm_id x < wh_next_move (fa_wh f) \<and> sm_lot x = None" if "x \<in> set (fa_moves (finish_move c m f))" for x
    using that fine unfolding moves by (auto simp: moves_fine_def split: if_splits)
  then show "moves_fine (finish_move c m f)" using ok d unfolding moves_fine_def ids by (simp add: wh)
  have made: "made (finish_move c m f) p l t = made f p l t + (q_stock st p l t - q_stock (wh_stock (fa_wh f)) p l t)" for p l t
    unfolding made_def moves sum_update_one [OF d m'(1)] using m'(2,3) by (auto simp: flow_def st_def q_stock_applyMove)
  show "unexplained (finish_move c m f) k = unexplained f k"
    by (cases k) (simp add: unexplained_def made wh unmoved_def moved_def)
  show "fa_works (finish_move c m f) = fa_works f" "fa_orders (finish_move c m f) = fa_orders f"
    by (simp_all add: finish_move_def Let_def)
  have "x = m" if "x \<in> set (fa_moves f)" "sm_id x = sm_id m" for x using distinct_ids [OF d that(1) m'(1) that(2)] .
  moreover have "m \<noteq> x\<lparr>sm_quantity := q, sm_state := ''done''\<rparr>" for x q
    using m'(2) by (cases x) (metis smove.select_convs(8) smove.surjective smove.update_convs(8))
  ultimately show "open_moves (finish_move c m f) = open_moves f - {m}"
    unfolding open_moves_def moves by (auto simp: closed_state_def image_iff)
qed

lemma finish_moves_fine:
  assumes "moves_fine f" and "distinct ms" and "set ms \<subseteq> open_moves f"
  shows "moves_fine (fold (\<lambda>m. finish_move (c m) m) ms f)"
    and "unexplained (fold (\<lambda>m. finish_move (c m) m) ms f) k = unexplained f k"
    and "fa_works (fold (\<lambda>m. finish_move (c m) m) ms f) = fa_works f"
      "fa_orders (fold (\<lambda>m. finish_move (c m) m) ms f) = fa_orders f"
    and "open_moves (fold (\<lambda>m. finish_move (c m) m) ms f) = open_moves f - set ms"
proof -
  have "moves_fine (fold (\<lambda>m. finish_move (c m) m) ms f) \<and> unexplained (fold (\<lambda>m. finish_move (c m) m) ms f) k = unexplained f k
    \<and> fa_works (fold (\<lambda>m. finish_move (c m) m) ms f) = fa_works f \<and> fa_orders (fold (\<lambda>m. finish_move (c m) m) ms f) = fa_orders f
    \<and> open_moves (fold (\<lambda>m. finish_move (c m) m) ms f) = open_moves f - set ms"
    using assms
  proof (induction ms arbitrary: f)
    case (Cons m ms)
    then have m: "m \<in> open_moves f" by simp
    note one = finish_move_fine [OF Cons.prems(1) m, of "c m"]
    have "set ms \<subseteq> open_moves (finish_move (c m) m f)" using Cons.prems one(5) by auto
    then show ?case using Cons.IH [OF one(1)] Cons.prems(2) one by auto
  qed simp
  then show "moves_fine (fold (\<lambda>m. finish_move (c m) m) ms f)"
    "unexplained (fold (\<lambda>m. finish_move (c m) m) ms f) k = unexplained f k"
    "fa_works (fold (\<lambda>m. finish_move (c m) m) ms f) = fa_works f"
    "fa_orders (fold (\<lambda>m. finish_move (c m) m) ms f) = fa_orders f"
    "open_moves (fold (\<lambda>m. finish_move (c m) m) ms f) = open_moves f - set ms" by simp_all
qed

lemma consume_raws: "snd (fold consume_raw ms s) = fold (\<lambda>m. finish_move (-1) m) ms (snd s)"
  by (induction ms arbitrary: s) (simp_all add: consume_raw_def case_prod_unfold)

definition finish_cost :: "int \<Rightarrow> prod_move \<Rightarrow> int" where
  "finish_cost v m = (if done_qty m > 0 then divMicros v (done_qty m) else -1)"

lemma produce_finisheds: "fold (produce_finished v) ms f = fold (\<lambda>m. finish_move (finish_cost v m) m) ms f"
  by (simp add: produce_finished_def [abs_def] finish_cost_def)

lemma moves_to_do_open: "set (moves_to_do i raw f) = {m \<in> open_moves f. pm_production m = i \<and> pm_raw m = raw}"
  by (auto simp: moves_to_do_def open_moves_def)

lemma distinct_moves_to_do: "moves_fine f \<Longrightarrow> distinct (moves_to_do i raw f)"
  by (simp add: moves_to_do_def moves_fine_def distinct_map)

text \<open>What closing an order comes to.\<close>

lemma close_production_cases:
  assumes "close_production i f = Inr f'" and "f' \<noteq> f"
  obtains r where "find_production i f = Some r" "\<not> closed_state (mo_state r)" "mo_state r \<noteq> ''draft''" "open_works i f = []"
    "f' = (let s = fold consume_raw (moves_to_do i True f) (0, f)
       in update_production i (\<lambda>r. r\<lparr>mo_state := ''done'', mo_producing := mo_qty r\<rparr>)
         (fold (produce_finished (fst s)) (moves_to_do i False (snd s)) (snd s)))"
  using assms by (auto simp: close_production_def closed_state_def case_prod_unfold Let_def split: option.splits if_splits)

lemma factory_close: "close_production i f = Inr f' \<Longrightarrow> factory_keeps f f'"
proof (cases "f' = f")
  case False
  assume run0: "close_production i f = Inr f'"
  obtain r where nowork: "open_works i f = []" and run: "f' = (let s = fold consume_raw (moves_to_do i True f) (0, f)
       in update_production i (\<lambda>r. r\<lparr>mo_state := ''done'', mo_producing := mo_qty r\<rparr>)
         (fold (produce_finished (fst s)) (moves_to_do i False (snd s)) (snd s)))"
    by (rule close_production_cases [OF run0 False])
  define s where "s = fold consume_raw (moves_to_do i True f) (0, f)"
  define f1 where "f1 = snd s"
  define f2 where "f2 = fold (produce_finished (fst s)) (moves_to_do i False f1) f1"
  have f': "f' = update_production i (\<lambda>r. r\<lparr>mo_state := ''done'', mo_producing := mo_qty r\<rparr>) f2"
    using run by (simp add: Let_def f2_def f1_def s_def)
  have f1: "f1 = fold (\<lambda>m. finish_move (-1) m) (moves_to_do i True f) f" by (simp add: f1_def s_def consume_raws)
  have f2: "f2 = fold (\<lambda>m. finish_move (finish_cost (fst s) m) m) (moves_to_do i False f1) f1"
    unfolding f2_def by (rule produce_finisheds)
  have one: "moves_fine f1 \<and> unexplained f1 k = unexplained f k \<and> fa_works f1 = fa_works f \<and> fa_orders f1 = fa_orders f
      \<and> open_moves f1 = open_moves f - set (moves_to_do i True f)" if "moves_fine f" for k
    unfolding f1 using that finish_moves_fine [where c = "\<lambda>_. -1"]
    by (simp add: distinct_moves_to_do moves_to_do_open)
  have two: "moves_fine f2 \<and> unexplained f2 k = unexplained f k \<and> fa_works f2 = fa_works f \<and> fa_orders f2 = fa_orders f
      \<and> open_moves f2 = open_moves f - set (moves_to_do i True f) - set (moves_to_do i False f1)" if "moves_fine f" for k
  proof -
    have fine: "moves_fine f1" using one [OF that] by simp
    have "set (moves_to_do i False f1) \<subseteq> open_moves f1" by (auto simp: moves_to_do_open)
    note fin = finish_moves_fine [OF fine distinct_moves_to_do [OF fine] this, where c = "finish_cost (fst s)"]
    show ?thesis unfolding f2 using fin one [OF that, of k] by simp
  qed
  show ?thesis
  proof (rule factory_keepsI)
    show "moves_fine f'" if "moves_fine f" using two [OF that] unfolding f' by (simp add: moves_fine_def)
    show "unexplained f' k = unexplained f k" if "moves_fine f" for k
      using two [OF that, of k] unfolding f' by (simp cong: unexplained_cong)
    fix q assume ok: "factory_ok f" and q: "q \<in> set (fa_orders f')" "closed_state (mo_state q)"
    then have fine: "moves_fine f" by (simp add: factory_ok_split)
    have om: "open_moves f' = {m \<in> open_moves f. pm_production m \<noteq> i}"
    proof -
      have "open_moves f' = open_moves f2" by (simp add: f' open_moves_def)
      then show ?thesis using two [OF fine] one [OF fine] by (auto simp: moves_to_do_open)
    qed
    have ow: "fa_works f' = fa_works f" using two [OF fine] unfolding f' by simp
    show "\<not> busy (mo_id q) f'"
    proof (cases "mo_id q = i")
      case True
      then show ?thesis using nowork by (auto simp: busy_iff om ow open_works_def filter_empty_conv)
    next
      case False
      have "fa_orders f' = map (\<lambda>r. if mo_id r = i then r\<lparr>mo_state := ''done'', mo_producing := mo_qty r\<rparr> else r) (fa_orders f)"
        using two [OF fine] unfolding f' by simp
      with q(1) False have "q \<in> set (fa_orders f)" by (auto split: if_splits)
      with ok q(2) have "\<not> busy (mo_id q) f" by (simp add: factory_ok_split)
      then show ?thesis by (auto simp: busy_iff om ow)
    qed
  qed
qed simp

subsection \<open>Every sequence of handlers, of transfers and of orders\<close>

definition mo_confirm ::
  "(int \<Rightarrow> int \<Rightarrow> int \<Rightarrow> int) \<Rightarrow> (int \<Rightarrow> int \<Rightarrow> int) \<Rightarrow> tm \<Rightarrow> tm \<Rightarrow> int list \<Rightarrow> factory \<Rightarrow> unit result \<times> factory" where
  "mo_confirm ndiv ndur t1 t2 ids f = each_txn (confirm_production ndiv ndur t1 t2) ids f"

definition button_mark_done :: "int list \<Rightarrow> factory \<Rightarrow> unit result \<times> factory" where
  "button_mark_done ids f = each_txn close_production ids f"

definition mo_cancel :: "int list \<Rightarrow> factory \<Rightarrow> unit result \<times> factory" where
  "mo_cancel ids f = each_txn cancel_production ids f"

definition button_start :: "int list \<Rightarrow> factory \<Rightarrow> unit result \<times> factory" where
  "button_start ids f = each_txn start_work ids f"

definition button_finish :: "int list \<Rightarrow> factory \<Rightarrow> unit result \<times> factory" where
  "button_finish ids f = each_txn finish_work ids f"

inductive factory_step :: "factory \<Rightarrow> factory \<Rightarrow> bool" where
  fs_transfer: "transfer_step (fa_wh f) w \<Longrightarrow> factory_step f (f\<lparr>fa_wh := w\<rparr>)"
| fs_confirm: "mo_confirm ndiv ndur t1 t2 ids f = (r, f') \<Longrightarrow> factory_step f f'"
| fs_close: "button_mark_done ids f = (r, f') \<Longrightarrow> factory_step f f'"
| fs_cancel: "mo_cancel ids f = (r, f') \<Longrightarrow> factory_step f f'"
| fs_start: "button_start ids f = (r, f') \<Longrightarrow> factory_step f f'"
| fs_finish: "button_finish ids f = (r, f') \<Longrightarrow> factory_step f f'"
| fs_replenish: "replenish p q d f = Inr (i, f') \<Longrightarrow> factory_step f f'"

lemma factory_each_txn:
  "each_txn h ids f = (r, f') \<Longrightarrow> (\<And>i s t. h i s = Inr t \<Longrightarrow> factory_keeps s t) \<Longrightarrow> factory_keeps f f'"
  by (rule each_txn_rel [where R = factory_keeps]) (auto intro: factory_keeps_trans)

lemma factory_step_keeps: "factory_step f f' \<Longrightarrow> factory_keeps f f'"
proof (induction rule: factory_step.induct)
  case (fs_transfer f w)
  then show ?case by (rule factory_transfer)
next
  case (fs_confirm ndiv ndur t1 t2 ids f r f')
  then show ?case unfolding mo_confirm_def by (rule factory_each_txn) (rule factory_confirm)
next
  case (fs_close ids f r f')
  then show ?case unfolding button_mark_done_def by (rule factory_each_txn) (rule factory_close)
next
  case (fs_cancel ids f r f')
  then show ?case unfolding mo_cancel_def by (rule factory_each_txn) (rule factory_cancel)
next
  case (fs_start ids f r f')
  then show ?case unfolding button_start_def by (rule factory_each_txn) (rule factory_start)
next
  case (fs_finish ids f r f')
  then show ?case unfolding button_finish_def by (rule factory_each_txn) (rule factory_finish)
next
  case (fs_replenish p q d f i f')
  then show ?case by (rule factory_replenish)
qed

interpretation factory_run: conserved factory_step factory_ok unexplained
  by unfold_locales (use factory_step_keeps in \<open>auto simp: factory_keeps_def\<close>)

text \<open>C5: stock moves for a reason. Over any sequence of transfer operations and of operations on
  manufacturing and work orders, interleaved in any way, the quantity of every product and lot at every
  place changes by exactly what the finished moves of transfers and the finished consumptions and
  productions of orders brought in, less what they took out.\<close>

theorem factory_stock_explained:
  assumes "factory_step\<^sup>*\<^sup>* f f'" and "factory_ok f"
  shows "q_stock (wh_stock (fa_wh f')) p l t - q_stock (wh_stock (fa_wh f)) p l t
    = (moved (fa_wh f') p l t - moved (fa_wh f) p l t) + (made f' p l t - made f p l t)"
proof -
  have "unexplained f' = unexplained f" by (rule factory_run.runs_same [OF assms])
  then have "unexplained f' (p, l, t) = unexplained f (p, l, t)" by simp
  then show ?thesis by (simp add: unexplained_def unmoved_def)
qed

text \<open>C4: an order that is done or cancelled is finished with. Whatever is done with the orders and work
  orders, none of its work orders is open and none of its moves is waiting: none of its components can be
  consumed, and nothing of it produced, a second time.\<close>

theorem closed_orders_finished:
  assumes "factory_step\<^sup>*\<^sup>* f f'" and "factory_ok f"
    and "r \<in> set (fa_orders f')" and "mo_state r = ''done'' \<or> mo_state r = ''cancel''"
  shows "(\<forall>k \<in> set (fa_works f'). wo_production k = mo_id r \<longrightarrow> wo_state k = ''done'' \<or> wo_state k = ''cancel'')
    \<and> (\<forall>m \<in> set (fa_moves f'). pm_production m = mo_id r \<longrightarrow> sm_state m = ''done'' \<or> sm_state m = ''cancel'')"
proof -
  have "factory_ok f'" by (rule factory_run.runs_ok [OF assms(1,2)])
  then have "\<not> busy (mo_id r) f'" using assms(3,4) by (auto simp: factory_ok_def closed_state_def)
  then show ?thesis by (auto simp: busy_iff open_moves_def closed_state_def)
qed

subsection \<open>What an order is worth\<close>

definition stock_value :: "stock_db \<Rightarrow> int" where
  "stock_value st = sum_list (map pr_value_svl (sk_products st))"

definition build_cost :: "prod_move list \<Rightarrow> stock_db \<Rightarrow> int" where
  "build_cost ms st = sum_list (map (\<lambda>m. mulMicros (done_qty m) (standard_cost (sm_product m) st)) ms)"

text \<open>A component that leaves the company's stock at its standard cost; a product that enters it.\<close>

definition consumable :: "prod_move \<Rightarrow> stock_db \<Rightarrow> bool" where
  "consumable m st \<longleftrightarrow> 0 < done_qty m \<and> usageOf (sm_src m) st = ''internal'' \<and> usageOf (sm_dest m) st \<noteq> ''internal''
     \<and> (case find_product (sm_product m) st of None \<Rightarrow> False | Some r \<Rightarrow> method_of r \<noteq> ''fifo'')"

definition producible :: "prod_move \<Rightarrow> stock_db \<Rightarrow> bool" where
  "producible m st \<longleftrightarrow> 0 < done_qty m \<and> usageOf (sm_src m) st \<noteq> ''internal'' \<and> usageOf (sm_dest m) st = ''internal''
     \<and> find_product (sm_product m) st \<noteq> None"

text \<open>Costs, methods and places stay as they are while components are consumed.\<close>

definition same_costs :: "stock_db \<Rightarrow> stock_db \<Rightarrow> bool" where
  "same_costs st st' \<longleftrightarrow> map (\<lambda>r. (pr_id r, pr_standard_price r, pr_cost_method r)) (sk_products st')
     = map (\<lambda>r. (pr_id r, pr_standard_price r, pr_cost_method r)) (sk_products st) \<and> sk_locations st' = sk_locations st"

lemma same_costs_refl [simp]: "same_costs st st"
  by (simp add: same_costs_def)

lemma same_costs_trans: "same_costs a b \<Longrightarrow> same_costs b c \<Longrightarrow> same_costs a c"
  by (simp add: same_costs_def)

lemma find_same_costs:
  assumes "map (\<lambda>r. (pr_id r, pr_standard_price r, pr_cost_method r)) rs'
    = map (\<lambda>r. (pr_id r, pr_standard_price r, pr_cost_method r)) rs"
  shows "map_option (\<lambda>r. (pr_standard_price r, pr_cost_method r)) (find (\<lambda>r. pr_id r = p) rs')
    = map_option (\<lambda>r. (pr_standard_price r, pr_cost_method r)) (find (\<lambda>r. pr_id r = p) rs)"
  using assms
proof (induction rs' arbitrary: rs)
  case (Cons r' rs')
  then obtain r qs where "rs = r # qs" by (cases rs) auto
  then show ?case using Cons by simp
qed simp

lemma same_costsD:
  assumes "same_costs st st'"
  shows "standard_cost p st' = standard_cost p st" "consumable m st' = consumable m st" "producible m st' = producible m st"
    "map pr_id (sk_products st') = map pr_id (sk_products st)"
proof -
  have f: "map_option (\<lambda>r. (pr_standard_price r, pr_cost_method r)) (find_product q st')
    = map_option (\<lambda>r. (pr_standard_price r, pr_cost_method r)) (find_product q st)" for q
    unfolding find_product_def by (rule find_same_costs) (use assms in \<open>simp add: same_costs_def\<close>)
  have u: "usageOf l st' = usageOf l st" for l by (rule usageOf_cong) (use assms in \<open>simp add: same_costs_def\<close>)
  show "standard_cost p st' = standard_cost p st"
    using f [of p] by (auto simp: standard_cost_def split: option.splits)
  show "consumable m st' = consumable m st"
    using f [of "sm_product m"] by (auto simp: consumable_def u method_of_def split: option.splits)
  show "producible m st' = producible m st"
    using f [of "sm_product m"] by (cases "find_product (sm_product m) st") (auto simp: producible_def u)
  have "map fst (map (\<lambda>r. (pr_id r, pr_standard_price r, pr_cost_method r)) (sk_products st'))
      = map fst (map (\<lambda>r. (pr_id r, pr_standard_price r, pr_cost_method r)) (sk_products st))"
    using assms by (simp only: same_costs_def)
  then show "map pr_id (sk_products st') = map pr_id (sk_products st)" by (simp add: comp_def)
qed

lemma value_of_update:
  assumes "distinct (map pr_id rs)" "find (\<lambda>r. pr_id r = p) rs = Some r"
  shows "sum_list (map pr_value_svl (map (\<lambda>x. if pr_id x = p then h x else x) rs)) = sum_list (map pr_value_svl rs) - pr_value_svl r + pr_value_svl (h r)"
proof -
  have r: "r \<in> set rs" "pr_id r = p" using assms(2) by (auto simp: find_Some_iff)
  show ?thesis using sum_update_key [OF assms(1) r(1), of pr_value_svl h] r(2) by simp
qed

lemma refreshed_products:
  "sk_products (refreshProductOnHand p st) = map (\<lambda>x. if pr_id x = p then x\<lparr>pr_qty_available := onHandInternal p st\<rparr> else x) (sk_products st)"
  by (simp add: refreshProductOnHand_def)

text \<open>A valued move rewrites the row of its product.\<close>

lemma applyMove_row:
  assumes d: "distinct (map pr_id (sk_products st))" and r: "find_product p st = Some r"
    and rows: "\<And>r' db. find_product p db = Some r' \<Longrightarrow> pr_value_svl r' = pr_value_svl r \<Longrightarrow> pr_standard_price r' = pr_standard_price r
      \<Longrightarrow> pr_cost_method r' = pr_cost_method r \<Longrightarrow> sk_locations db = sk_locations st
      \<Longrightarrow> sk_products (valuateMove p s e q c i db) = map (\<lambda>x. if pr_id x = p then h r' x else x) (sk_products db)"
    and v: "\<And>r' x. pr_value_svl r' = pr_value_svl r \<Longrightarrow> pr_value_svl (h r' x) = pr_value_svl r + v"
    and q: "q \<noteq> 0" "s \<noteq> e"
  shows "stock_value (applyMove p s e q c i t st) = stock_value st + v"
proof -
  let ?u = "upsertDelta p e q c t (upsertDelta p s (- q) c t st)"
  let ?db = "refreshProductOnHand p ?u"
  let ?r = "r\<lparr>pr_qty_available := onHandInternal p ?u\<rparr>"
  have f: "find_product p ?db = Some ?r"
    using r by (simp add: refreshProductOnHand_def find_update_product) (simp add: find_product_def)
  have u: "sum_list (map pr_value_svl (sk_products ?db)) = sum_list (map pr_value_svl (sk_products st))"
    unfolding refreshed_products
    using value_of_update [OF d r [unfolded find_product_def], of "\<lambda>x. x\<lparr>pr_qty_available := onHandInternal p ?u\<rparr>"] by simp
  have d': "distinct (map pr_id (sk_products ?db))" using d by (simp add: refreshed_products comp_def if_distrib cong: if_cong)
  have "sk_locations ?db = sk_locations st" by (simp add: refreshProductOnHand_def)
  from rows [OF f _ _ _ this] have "sk_products (valuateMove p s e q c i ?db) = map (\<lambda>x. if pr_id x = p then h ?r x else x) (sk_products ?db)"
    by simp
  then have "stock_value (valuateMove p s e q c i ?db) = sum_list (map pr_value_svl (sk_products ?db)) - pr_value_svl ?r + pr_value_svl (h ?r ?r)"
    unfolding stock_value_def using value_of_update [OF d' f [unfolded find_product_def], of "h ?r"] by simp
  then show ?thesis using q v [of ?r] u by (simp add: applyMove_def stock_value_def)
qed

lemma applyMove_costs:
  assumes rows: "\<And>r' db. find_product p db = Some r' \<Longrightarrow> sk_locations db = sk_locations st
      \<Longrightarrow> \<exists>a v. sk_products (valuateMove p s e q c i db)
        = map (\<lambda>x. if pr_id x = p then x\<lparr>pr_quantity_svl := a, pr_value_svl := v\<rparr> else x) (sk_products db)"
    and r: "find_product p st = Some r" and q: "q \<noteq> 0" "s \<noteq> e"
  shows "same_costs st (applyMove p s e q c i t st)"
proof -
  let ?u = "upsertDelta p e q c t (upsertDelta p s (- q) c t st)"
  let ?db = "refreshProductOnHand p ?u"
  have "find_product p ?db = Some (r\<lparr>pr_qty_available := onHandInternal p ?u\<rparr>)"
    using r by (simp add: refreshProductOnHand_def find_update_product) (simp add: find_product_def)
  moreover have "sk_locations ?db = sk_locations st" by (simp add: refreshProductOnHand_def)
  ultimately obtain a v where "sk_products (valuateMove p s e q c i ?db)
      = map (\<lambda>x. if pr_id x = p then x\<lparr>pr_quantity_svl := a, pr_value_svl := v\<rparr> else x) (sk_products ?db)" using rows by blast
  then have "sk_products (applyMove p s e q c i t st)
      = map (\<lambda>x. if pr_id x = p then x\<lparr>pr_quantity_svl := a, pr_value_svl := v\<rparr> else x) (sk_products ?db)" "sk_locations (applyMove p s e q c i t st) = sk_locations st"
    using q by (simp_all add: applyMove_def refreshProductOnHand_def)
  then show ?thesis by (simp add: same_costs_def refreshed_products comp_def if_distrib cong: if_cong)
qed

lemma consumed_rows:
  assumes "find_product p db = Some r" and "usageOf s db = ''internal''" "usageOf e db \<noteq> ''internal''" and "0 < q" "method_of r \<noteq> ''fifo''"
  shows "sk_products (valuateMove p s e q c i db) = map (\<lambda>x. if pr_id x = p then x\<lparr>pr_quantity_svl := pr_quantity_svl r - q,
     pr_value_svl := pr_value_svl r - mulMicros q (pr_standard_price r)\<rparr> else x) (sk_products db)"
  using assms by (simp add: valuateMove_def Let_def value_outgoing_def case_prod_unfold)

definition received_row :: "product \<Rightarrow> int \<Rightarrow> int \<Rightarrow> product \<Rightarrow> product" where
  "received_row r q v x = (if method_of r = ''average'' \<and> pr_quantity_svl r + q > 0
     then x\<lparr>pr_quantity_svl := pr_quantity_svl r + q, pr_value_svl := pr_value_svl r + v,
       pr_standard_price := divMicros (pr_value_svl r + v) (pr_quantity_svl r + q)\<rparr>
     else x\<lparr>pr_quantity_svl := pr_quantity_svl r + q, pr_value_svl := pr_value_svl r + v\<rparr>)"

lemma produced_rows:
  assumes "find_product p db = Some r" and "usageOf s db \<noteq> ''internal''" "usageOf e db = ''internal''" and "0 < q" "0 \<le> i"
  shows "sk_products (valuateMove p s e q c i db) = map (\<lambda>x. if pr_id x = p then received_row r q (mulMicros q i) x else x) (sk_products db)"
  using assms by (simp add: valuateMove_def Let_def value_incoming_def case_prod_unfold received_row_def)

lemma raw_value:
  assumes d: "distinct (map pr_id (sk_products st))" and m: "consumable m st"
  shows "stock_value (applyMove (sm_product m) (sm_src m) (sm_dest m) (done_qty m) c i t st)
      = stock_value st - mulMicros (done_qty m) (standard_cost (sm_product m) st)"
    and "same_costs st (applyMove (sm_product m) (sm_src m) (sm_dest m) (done_qty m) c i t st)"
proof -
  from m obtain r where r: "find_product (sm_product m) st = Some r" "method_of r \<noteq> ''fifo''"
    and u: "usageOf (sm_src m) st = ''internal''" "usageOf (sm_dest m) st \<noteq> ''internal''" and q: "0 < done_qty m"
    by (auto simp: consumable_def split: option.splits)
  have ne: "sm_src m \<noteq> sm_dest m" using u by auto
  have "stock_value (applyMove (sm_product m) (sm_src m) (sm_dest m) (done_qty m) c i t st)
      = stock_value st + (- mulMicros (done_qty m) (standard_cost (sm_product m) st))"
  proof (rule applyMove_row [OF d r(1), where h = "\<lambda>r' x. x\<lparr>pr_quantity_svl := pr_quantity_svl r' - done_qty m,
       pr_value_svl := pr_value_svl r' - mulMicros (done_qty m) (standard_cost (sm_product m) st)\<rparr>"])
    fix r' db
    assume f: "find_product (sm_product m) db = Some r'" "pr_standard_price r' = pr_standard_price r" "pr_cost_method r' = pr_cost_method r"
      and l: "sk_locations db = sk_locations st"
    have "usageOf x db = usageOf x st" for x by (rule usageOf_cong) (rule l)
    then show "sk_products (valuateMove (sm_product m) (sm_src m) (sm_dest m) (done_qty m) c i db)
        = map (\<lambda>x. if pr_id x = sm_product m then x\<lparr>pr_quantity_svl := pr_quantity_svl r' - done_qty m,
       pr_value_svl := pr_value_svl r' - mulMicros (done_qty m) (standard_cost (sm_product m) st)\<rparr> else x) (sk_products db)"
      using consumed_rows [OF f(1), of "sm_src m" "sm_dest m" "done_qty m" c i] f r u q
      by (simp add: standard_cost_def method_of_def)
  qed (use q ne in simp_all)
  then show "stock_value (applyMove (sm_product m) (sm_src m) (sm_dest m) (done_qty m) c i t st)
      = stock_value st - mulMicros (done_qty m) (standard_cost (sm_product m) st)" by simp
  show "same_costs st (applyMove (sm_product m) (sm_src m) (sm_dest m) (done_qty m) c i t st)"
  proof (rule applyMove_costs [OF _ r(1)])
    fix r' db
    assume f: "find_product (sm_product m) db = Some r'" and l: "sk_locations db = sk_locations st"
    have x: "usageOf x db = usageOf x st" for x by (rule usageOf_cong) (rule l)
    show "\<exists>a v. sk_products (valuateMove (sm_product m) (sm_src m) (sm_dest m) (done_qty m) c i db)
        = map (\<lambda>x. if pr_id x = sm_product m then x\<lparr>pr_quantity_svl := a, pr_value_svl := v\<rparr> else x) (sk_products db)"
      using f u q by (auto simp: valuateMove_def Let_def value_outgoing_def case_prod_unfold x)
  qed (use q ne in simp_all)
qed

lemma finished_value:
  assumes d: "distinct (map pr_id (sk_products st))" and m: "producible m st" and i: "0 \<le> i"
  shows "stock_value (applyMove (sm_product m) (sm_src m) (sm_dest m) (done_qty m) c i t st) = stock_value st + mulMicros (done_qty m) i"
proof -
  from m obtain r where r: "find_product (sm_product m) st = Some r"
    and u: "usageOf (sm_src m) st \<noteq> ''internal''" "usageOf (sm_dest m) st = ''internal''" and q: "0 < done_qty m"
    by (auto simp: producible_def)
  have ne: "sm_src m \<noteq> sm_dest m" using u by auto
  show ?thesis
  proof (rule applyMove_row [OF d r, where h = "\<lambda>r'. received_row r' (done_qty m) (mulMicros (done_qty m) i)"])
    fix r' db
    assume f: "find_product (sm_product m) db = Some r'" and l: "sk_locations db = sk_locations st"
    have "usageOf x db = usageOf x st" for x by (rule usageOf_cong) (rule l)
    then show "sk_products (valuateMove (sm_product m) (sm_src m) (sm_dest m) (done_qty m) c i db)
      = map (\<lambda>x. if pr_id x = sm_product m then received_row r' (done_qty m) (mulMicros (done_qty m) i) x else x) (sk_products db)"
      using produced_rows [OF f, of "sm_src m" "sm_dest m"] u q i by simp
  qed (use q ne in \<open>simp_all add: received_row_def\<close>)
qed

lemma finish_move_stock: "wh_stock (fa_wh (finish_move i m f))
   = applyMove (sm_product m) (sm_src m) (sm_dest m) (done_qty m) (company_of m) i 0 (wh_stock (fa_wh f))"
  by (simp add: finish_move_def Let_def)

lemma consume_all:
  assumes "distinct (map pr_id (sk_products (wh_stock (fa_wh f))))" and "\<forall>m \<in> set ms. consumable m (wh_stock (fa_wh f))"
  shows "fst (fold consume_raw ms (v, f)) = v + build_cost ms (wh_stock (fa_wh f))
    \<and> stock_value (wh_stock (fa_wh (snd (fold consume_raw ms (v, f))))) = stock_value (wh_stock (fa_wh f)) - build_cost ms (wh_stock (fa_wh f))
    \<and> same_costs (wh_stock (fa_wh f)) (wh_stock (fa_wh (snd (fold consume_raw ms (v, f)))))"
  using assms
proof (induction ms arbitrary: v f)
  case (Cons m ms)
  let ?st = "wh_stock (fa_wh f)" and ?f = "finish_move (-1) m f"
  have m: "consumable m ?st" using Cons.prems(2) by simp
  have worth: "stock_value (wh_stock (fa_wh ?f)) = stock_value ?st - mulMicros (done_qty m) (standard_cost (sm_product m) ?st)"
    and same: "same_costs ?st (wh_stock (fa_wh ?f))"
    using raw_value [OF Cons.prems(1) m] by (simp_all add: finish_move_stock)
  have d: "distinct (map pr_id (sk_products (wh_stock (fa_wh ?f))))" unfolding same_costsD(4) [OF same] by (rule Cons.prems(1))
  have "\<forall>m \<in> set ms. consumable m (wh_stock (fa_wh ?f))" using Cons.prems(2) same_costsD(2) [OF same] by simp
  note rest = Cons.IH [OF d this, of "v + mulMicros (done_qty m) (standard_cost (sm_product m) ?st)"]
  have cost: "build_cost ms (wh_stock (fa_wh ?f)) = build_cost ms ?st" by (simp add: build_cost_def same_costsD(1) [OF same])
  have "fold consume_raw (m # ms) (v, f) = fold consume_raw ms (v + mulMicros (done_qty m) (standard_cost (sm_product m) ?st), ?f)"
    by (simp add: consume_raw_def)
  then show ?case using rest cost worth same_costs_trans [OF same] by (simp add: build_cost_def)
qed (simp add: build_cost_def)

lemma other_moves_kept:
  assumes "moves_fine f" "m \<in> open_moves f" "pm_raw m"
  shows "moves_to_do i False (finish_move c m f) = moves_to_do i False f"
proof -
  have d: "distinct (map sm_id (fa_moves f))" and m: "m \<in> set (fa_moves f)" using assms by (auto simp: moves_fine_def open_moves_def)
  define g :: "prod_move \<Rightarrow> prod_move" where "g = (\<lambda>x. if sm_id x = sm_id m then x\<lparr>sm_quantity := done_qty m, sm_state := ''done''\<rparr> else x)"
  define P :: "prod_move \<Rightarrow> bool" where "P = (\<lambda>m. pm_production m = i \<and> pm_raw m = False \<and> \<not> closed_state (sm_state m))"
  have moves: "fa_moves (finish_move c m f) = map g (fa_moves f)" by (simp add: finish_move_def Let_def g_def)
  have "P (g x) = P x \<and> (P x \<longrightarrow> g x = x)" if "x \<in> set (fa_moves f)" for x
    using distinct_ids [OF d that m] assms(3) by (cases "sm_id x = sm_id m") (auto simp: P_def g_def)
  from filter_map_same [OF this] show ?thesis unfolding moves_to_do_def P_def [symmetric] moves .
qed

lemma others_kept:
  assumes "moves_fine f" and "distinct ms" and "\<forall>m \<in> set ms. m \<in> open_moves f \<and> pm_raw m"
  shows "moves_to_do i False (fold (\<lambda>m. finish_move (c m) m) ms f) = moves_to_do i False f"
  using assms
proof (induction ms arbitrary: f)
  case (Cons m ms)
  then have m: "m \<in> open_moves f" "pm_raw m" by simp_all
  note one = finish_move_fine [OF Cons.prems(1) m(1), of "c m"]
  have "\<forall>x \<in> set ms. x \<in> open_moves (finish_move (c m) m f) \<and> pm_raw x" using Cons.prems one(5) by auto
  then show ?case using Cons.IH [OF one(1)] Cons.prems(2) other_moves_kept [OF Cons.prems(1) m, of i "c m"] by simp
qed simp

text \<open>What the division of the cost over the quantity loses.\<close>

lemma unit_cost_loss:
  assumes "0 \<le> v" "v * 1000000 < 2 ^ 63" "0 < q"
  shows "0 \<le> divMicros v q" and "0 \<le> v - mulMicros q (divMicros v q)"
    and "(v - mulMicros q (divMicros v q)) * 1000000 < q + 1000000"
proof -
  define u where "u = v * 1000000 div q"
  have qu: "q * u \<le> v * 1000000" "v * 1000000 < q * u + q"
    using assms(3) mult_div_mod_eq [of q "v * 1000000"] pos_mod_bound [of q "v * 1000000"] pos_mod_sign [of q "v * 1000000"]
    unfolding u_def by linarith+
  have u0: "0 \<le> u" using assms by (simp add: u_def pos_imp_zdiv_nonneg_iff)
  have "1 * u \<le> q * u" using assms(3) u0 by (intro mult_right_mono) simp_all
  then have "u < 2 ^ 63" using qu(1) assms(2) by linarith
  note u = u0 this
  have d: "divMicros v q = u" using assms u by (cases "v = 0") (simp_all add: divMicros_def cdiv_def u_def wrap64_id in_int64_def INT64_MAX_def INT64_MIN_def)
  show "0 \<le> divMicros v q" using u by (simp add: d)
  define w where "w = q * u div 1000000"
  have w: "0 \<le> w" "w * 1000000 \<le> q * u" "q * u < w * 1000000 + 1000000"
    using assms(3) u mult_div_mod_eq [of 1000000 "q * u"] by (simp_all add: w_def pos_imp_zdiv_nonneg_iff)
  then have "w \<le> v" using qu by linarith
  moreover have "v < 2 ^ 63" using assms by linarith
  ultimately have "mulMicros q (divMicros v q) = w" using assms(3) u w(1) by (cases "u = 0") (simp_all add: mulMicros_def d cdiv_def w_def wrap64_id in_int64_def INT64_MAX_def INT64_MIN_def)
  then show "0 \<le> v - mulMicros q (divMicros v q)" "(v - mulMicros q (divMicros v q)) * 1000000 < q + 1000000"
    using \<open>w \<le> v\<close> w qu by simp_all
qed


subsection \<open>The master production schedule\<close>

lemma length_mps_periods [simp]: "length (mps_periods n demand minimum d inc) = n"
  by (induction n arbitrary: d inc) (auto simp: Let_def)

lemma mps_periods_sound:
  "e \<in> set (mps_periods n demand minimum d inc) \<Longrightarrow> minimum \<le> pe_ending e \<and> (0 < pe_replenish e \<longrightarrow> pe_ending e = minimum)"
  by (induction n demand minimum d inc rule: mps_periods.induct) (auto simp: Let_def)

text \<open>A plan that is not refused has between one and 24 periods, never falls below the safety level, and
  orders nothing in a period that does not end exactly at it.\<close>

lemma get_mps_grid_sound:
  assumes "get_mps_grid p n start st s = Inr ps"
  shows "1 \<le> length ps \<and> length ps \<le> 24"
    and "e \<in> set ps \<Longrightarrow> (case map_of (ms_minimum s) p of None \<Rightarrow> 0 | Some q \<Rightarrow> q) \<le> pe_ending e
      \<and> (0 < pe_replenish e \<longrightarrow> pe_ending e = (case map_of (ms_minimum s) p of None \<Rightarrow> 0 | Some q \<Rightarrow> q))"
proof -
  have "1 \<le> period_count n \<and> period_count n \<le> 24" by (auto simp: period_count_def split: option.split)
  then show "1 \<le> length ps \<and> length ps \<le> 24" using assms by (auto simp: get_mps_grid_def split: if_splits)
  show "(case map_of (ms_minimum s) p of None \<Rightarrow> 0 | Some q \<Rightarrow> q) \<le> pe_ending e
      \<and> (0 < pe_replenish e \<longrightarrow> pe_ending e = (case map_of (ms_minimum s) p of None \<Rightarrow> 0 | Some q \<Rightarrow> q))" if e: "e \<in> set ps"
  proof -
    have "e \<in> set (mps_periods (period_count n) (\<lambda>d. case map_of (ms_forecasts s) (p, d) of None \<Rightarrow> 0 | Some q \<Rightarrow> q)
        (case map_of (ms_minimum s) p of None \<Rightarrow> 0 | Some q \<Rightarrow> q) (firstOfMonth start)
        (case find_product p st of None \<Rightarrow> 0 | Some r \<Rightarrow> pr_qty_available r))"
      using e assms by (simp add: get_mps_grid_def split: if_splits)
    then show ?thesis by (rule mps_periods_sound)
  qed
qed

subsection \<open>A plant\<close>

text \<open>An order for two gates of three bars each, welded.\<close>

definition plant_stock :: stock_db where
  "plant_stock = \<lparr>sk_quants = [\<lparr>qn_product = 8, qn_location = 4, qn_lot = 0, qn_quantity = 9000000, qn_reserved = 0, qn_company = Some 1\<rparr>],
     sk_locations = [(4, Some ''internal''), (8, Some ''production'')],
     sk_products = [\<lparr>pr_id = 7, pr_categ = None, pr_cost_method = Some ''average'', pr_standard_price = 0, pr_quantity_svl = 0,
         pr_value_svl = 0, pr_qty_available = 0\<rparr>,
       \<lparr>pr_id = 8, pr_categ = None, pr_cost_method = None, pr_standard_price = 2000000, pr_quantity_svl = 9000000,
         pr_value_svl = 18000000, pr_qty_available = 9000000\<rparr>],
     sk_layers = [], sk_next_layer = 1, sk_categories = [], sk_accounts = [], sk_journals = [], sk_moves = [], sk_next_move = 1, sk_lines = []\<rparr>"

definition plant :: factory where
  "plant = \<lparr>fa_wh = depot\<lparr>wh_stock := plant_stock, wh_transfers := [], wh_moves := [], wh_next_move := 1,
       wh_items := [\<lparr>it_id = 7, it_name = Some ''gate'', it_tracking = None\<rparr>, \<lparr>it_id = 8, it_name = Some ''bar'', it_tracking = None\<rparr>],
       wh_boms := [\<lparr>bm_id = 1, bm_product = 7, bm_qty = 1000000, bm_type = ''normal'', bm_active = True\<rparr>],
       wh_bom_lines := [\<lparr>bl_bom = 1, bl_product = 8, bl_qty = 3000000\<rparr>]\<rparr>,
     fa_moves = [], fa_orders = [\<lparr>mo_id = 1, mo_name = ''MO/1'', mo_product = 7, mo_qty = 2000000, mo_bom = None, mo_state = ''draft'',
       mo_src = None, mo_dest = None, mo_planned = None, mo_producing = 0, mo_origin = None, mo_company = Some 1\<rparr>],
     fa_next_order = 2, fa_works = [], fa_next_work = 1,
     fa_routing = [\<lparr>rt_id = 5, rt_bom = 1, rt_center = None, rt_name = ''weld'', rt_sequence = 10, rt_cycle = 600000\<rparr>]\<rparr>"

definition whole :: "int \<Rightarrow> int \<Rightarrow> int \<Rightarrow> int" where
  "whole a b c = a * b div c"

definition minutes :: "int \<Rightarrow> int \<Rightarrow> int" where
  "minutes c q = c * q div 1000000"

definition plant_ready :: factory where
  "plant_ready = plant\<lparr>fa_wh := (fa_wh plant)\<lparr>wh_next_move := 3\<rparr>,
     fa_moves := [\<lparr>sm_id = 1, sm_transfer = None, sm_product = 8, sm_name = ''bar'', sm_demand = 6000000, sm_quantity = 0,
         sm_reserved = 0, sm_state = ''confirmed'', sm_src = 4, sm_dest = 8, sm_company = Some 1, sm_lot = None,
         sm_package = None, sm_origin = '''', pm_production = 1, pm_raw = True\<rparr>,
       \<lparr>sm_id = 2, sm_transfer = None, sm_product = 7, sm_name = ''gate'', sm_demand = 2000000, sm_quantity = 0,
         sm_reserved = 0, sm_state = ''confirmed'', sm_src = 8, sm_dest = 4, sm_company = Some 1, sm_lot = None,
         sm_package = None, sm_origin = '''', pm_production = 1, pm_raw = False\<rparr>],
     fa_orders := [(hd (fa_orders plant))\<lparr>mo_bom := Some 1, mo_state := ''to_close''\<rparr>],
     fa_works := [\<lparr>wo_id = 1, wo_production = 1, wo_center = None, wo_operation = Some 5, wo_name = ''weld'', wo_sequence = 10,
         wo_state = ''done'', wo_expected = 1200000, wo_duration = 1200000, wo_produced = 2000000, wo_company = Some 1\<rparr>],
     fa_next_work := 2\<rparr>"

definition plant_planned :: factory where
  "plant_planned = plant_ready\<lparr>fa_orders := [(hd (fa_orders plant))\<lparr>mo_bom := Some 1, mo_state := ''confirmed''\<rparr>],
     fa_works := [(hd (fa_works plant_ready))\<lparr>wo_state := ''ready'', wo_duration := 0, wo_produced := 0\<rparr>]\<rparr>"

definition plant_closed :: factory where
  "plant_closed = plant_ready\<lparr>fa_wh := (fa_wh plant_ready)\<lparr>wh_stock := plant_stock\<lparr>
       sk_quants := [\<lparr>qn_product = 8, qn_location = 4, qn_lot = 0, qn_quantity = 3000000, qn_reserved = 0, qn_company = Some 1\<rparr>,
         \<lparr>qn_product = 8, qn_location = 8, qn_lot = 0, qn_quantity = 6000000, qn_reserved = 0, qn_company = Some 1\<rparr>,
         \<lparr>qn_product = 7, qn_location = 8, qn_lot = 0, qn_quantity = - 2000000, qn_reserved = 0, qn_company = Some 1\<rparr>,
         \<lparr>qn_product = 7, qn_location = 4, qn_lot = 0, qn_quantity = 2000000, qn_reserved = 0, qn_company = Some 1\<rparr>],
       sk_products := [\<lparr>pr_id = 7, pr_categ = None, pr_cost_method = Some ''average'', pr_standard_price = 6000000,
           pr_quantity_svl = 2000000, pr_value_svl = 12000000, pr_qty_available = 2000000\<rparr>,
         \<lparr>pr_id = 8, pr_categ = None, pr_cost_method = None, pr_standard_price = 2000000, pr_quantity_svl = 3000000,
           pr_value_svl = 6000000, pr_qty_available = 3000000\<rparr>],
       sk_layers := [\<lparr>ly_id = 1, ly_product = 8, ly_quantity = - 6000000, ly_unit_cost = 2000000, ly_value = - 12000000,
           ly_remaining_qty = 0, ly_remaining_value = 0, ly_usage = ''production'', ly_description = ''out'',
           ly_company = Some 1, ly_move = None\<rparr>,
         \<lparr>ly_id = 2, ly_product = 7, ly_quantity = 2000000, ly_unit_cost = 6000000, ly_value = 12000000,
           ly_remaining_qty = 0, ly_remaining_value = 0, ly_usage = ''production'', ly_description = ''in'',
           ly_company = Some 1, ly_move = None\<rparr>], sk_next_layer := 3\<rparr>\<rparr>,
     fa_moves := map (\<lambda>m. m\<lparr>sm_quantity := sm_demand m, sm_state := ''done''\<rparr>) (fa_moves plant_ready),
     fa_orders := [(hd (fa_orders plant))\<lparr>mo_bom := Some 1, mo_state := ''done'', mo_producing := 2000000\<rparr>]\<rparr>"

lemma plant_plan: "mo_confirm whole minutes t1 t2 [1] plant = (Inr (), plant_planned)"
  by code_simp

lemma plant_weld: "button_finish [1] plant_planned = (Inr (), plant_ready)"
  by code_simp

lemma plant_close: "close_production 1 plant_ready = Inr plant_closed"
  by code_simp

lemma plant_ok: "factory_ok plant"
  by code_simp

lemma plant_ready_ok: "factory_ok plant_ready"
  by code_simp

lemma plant_run: "factory_step\<^sup>*\<^sup>* plant plant_closed"
proof -
  have "factory_step plant plant_planned" using plant_plan by (rule fs_confirm)
  moreover have "factory_step plant_planned plant_ready" using plant_weld by (rule fs_finish)
  moreover have "factory_step plant_ready plant_closed"
    by (rule fs_close [of "[1]" _ "Inr ()"]) (simp add: button_mark_done_def plant_close)
  ultimately show ?thesis by (meson rtranclp.rtrancl_refl rtranclp.rtrancl_into_rtrancl)
qed

theorem factory_stock_explained_witness:
  "q_stock (wh_stock (fa_wh plant_closed)) 7 4 0 - q_stock (wh_stock (fa_wh plant)) 7 4 0
   = (moved (fa_wh plant_closed) 7 4 0 - moved (fa_wh plant) 7 4 0) + (made plant_closed 7 4 0 - made plant 7 4 0)"
  by (rule factory_stock_explained [OF plant_run plant_ok])

theorem closed_orders_finished_witness:
  "list_all (\<lambda>k. wo_state k = ''done'' \<or> wo_state k = ''cancel'')
     (filter (\<lambda>k. wo_production k = 1) (fa_works plant_closed))
   \<and> list_all (\<lambda>m. sm_state m = ''done'' \<or> sm_state m = ''cancel'')
     (filter (\<lambda>m. pm_production m = 1) (fa_moves plant_closed))"
proof -
  have "hd (fa_orders plant_closed) \<in> set (fa_orders plant_closed)" by (rule hd_in_set) code_simp
  moreover have "mo_state (hd (fa_orders plant_closed)) = ''done''" "mo_id (hd (fa_orders plant_closed)) = 1" by code_simp+
  ultimately show ?thesis using closed_orders_finished [OF plant_run plant_ok, of "hd (fa_orders plant_closed)"]
    by (simp add: list_all_iff)
qed


text \<open>With a component costed first in, first out the value is not conserved: the bars leave at what their
  layer cost, and the gates are worth what their standard price says.\<close>

definition fifo_plant :: factory where
  "fifo_plant = plant_ready\<lparr>fa_wh := (fa_wh plant_ready)\<lparr>wh_stock := plant_stock\<lparr>
     sk_products := [hd (sk_products plant_stock), \<lparr>pr_id = 8, pr_categ = None, pr_cost_method = Some ''fifo'',
       pr_standard_price = 0, pr_quantity_svl = 9000000, pr_value_svl = 18000000, pr_qty_available = 9000000\<rparr>],
     sk_layers := [\<lparr>ly_id = 1, ly_product = 8, ly_quantity = 9000000, ly_unit_cost = 2000000, ly_value = 18000000,
       ly_remaining_qty = 9000000, ly_remaining_value = 18000000, ly_usage = ''supplier'', ly_description = ''in'',
       ly_company = Some 1, ly_move = None\<rparr>], sk_next_layer := 2\<rparr>\<rparr>\<rparr>"

lemma fifo_build_loses_value:
  "map_option (\<lambda>f. stock_value (wh_stock (fa_wh f))) (case close_production 1 fifo_plant of Inl _ \<Rightarrow> None | Inr f \<Rightarrow> Some f) = Some 6000000"
  "stock_value (wh_stock (fa_wh fifo_plant)) = 18000000"
  by code_simp+

end
