(* ===== verification/Website.thy ===== *)
theory Website
  imports Dispatcher
begin

section \<open>Website pages: sanitiser, video links and blocks (modules/website/WebsiteRender.cpp)\<close>

text \<open>
  Strings in, markup out. The sanitiser walks the rest of its input, so the position \<open>i\<close> of the code is
  the argument of the recursion; the renderer turns the JSON blocks of a page into markup. What
  \<open>std::stod\<close> and the fixed-point output of doubles make of the two coordinates of a map is the
  parameter \<open>geo\<close> (the bounding box and the marker, \<open>None\<close> when they do not parse or lie outside the
  globe). The renderer takes the form resolver of its caller, \<open>forms\<close>; every caller passes
  \<open>renderForm\<close> over the tables of the forms (WebsiteForm.cpp), which is modelled here too.
\<close>

subsection \<open>What an author may use\<close>

definition blank_char :: "char \<Rightarrow> bool" where
  "blank_char c \<longleftrightarrow> c \<in> {CHR 0x20, CHR 0x09, CHR 0x0D, CHR 0x0A}"

definition trim_web :: "string \<Rightarrow> string" where
  "trim_web s = trim_by blank_char s"

definition allowedTags :: "string list" where
  "allowedTags =
     [''p'', ''br'', ''hr'', ''span'', ''div'', ''section'',
      ''h1'', ''h2'', ''h3'', ''h4'', ''h5'', ''h6'',
      ''strong'', ''b'', ''em'', ''i'', ''u'', ''s'', ''small'', ''sub'', ''sup'', ''mark'',
      ''ul'', ''ol'', ''li'', ''dl'', ''dt'', ''dd'',
      ''blockquote'', ''pre'', ''code'',
      ''a'', ''img'', ''figure'', ''figcaption'',
      ''table'', ''thead'', ''tbody'', ''tfoot'', ''tr'', ''th'', ''td'', ''caption'']"

definition allowedAttrs :: "string \<Rightarrow> string list" where
  "allowedAttrs tag =
     (if tag = ''a'' then [''class'', ''title'', ''id'', ''href'', ''target'', ''rel'']
      else if tag = ''img'' then [''class'', ''title'', ''id'', ''src'', ''alt'', ''width'', ''height'', ''loading'']
      else if tag = ''td'' \<or> tag = ''th'' then [''class'', ''title'', ''id'', ''colspan'', ''rowspan'']
      else [''class'', ''title'', ''id''])"

definition voidTags :: "string list" where
  "voidTags = [''br'', ''hr'', ''img'']"

definition dropContentTags :: "string list" where
  "dropContentTags =
     [''script'', ''style'', ''textarea'', ''title'', ''noscript'', ''template'',
      ''iframe'', ''object'', ''embed'', ''applet'', ''frame'', ''frameset'', ''svg'', ''math'']"

definition control_char :: "char \<Rightarrow> bool" where
  "control_char c \<longleftrightarrow> (of_char c :: nat) < 32 \<or> (of_char c :: nat) = 127"

definition safeUrl :: "string \<Rightarrow> bool \<Rightarrow> bool" where
  "safeUrl raw isImage =
     (let u = trim_web raw
      in if u = [] then False
      else if list_ex control_char u then False
      else case find_char u CHR '':'' 0 of
          None \<Rightarrow> True
        | Some colon \<Rightarrow>
            if (case find_char u CHR ''/'' 0 of None \<Rightarrow> False | Some slash \<Rightarrow> slash < colon) then True
            else let scheme = lower (take colon u)
              in if scheme \<in> {''http'', ''https'', ''mailto'', ''tel''} then True
              else if isImage \<and> scheme = ''data''
              then let head = lower (take 32 u)
                in starts_with ''data:image/png'' head \<or> starts_with ''data:image/jpeg'' head
                   \<or> starts_with ''data:image/gif'' head \<or> starts_with ''data:image/webp'' head
              else False)"

definition esc_char :: "char \<Rightarrow> string" where
  "esc_char c =
     (if c = CHR ''&'' then ''&amp;'' else if c = CHR ''<'' then ''&lt;''
      else if c = CHR ''>'' then ''&gt;'' else if c = CHR 0x22 then ''&quot;''
      else if c = CHR 0x27 then ''&#39;'' else [c])"

definition esc :: "string \<Rightarrow> string" where
  "esc s = concat (map esc_char s)"

definition isValidSlug :: "string \<Rightarrow> bool" where
  "isValidSlug slug =
     (if slug = [] \<or> 120 < length slug then False
      else if hd slug = CHR ''/'' \<or> last slug = CHR ''/'' then False
      else if str_find slug ''..'' 0 \<noteq> None then False
      else if str_find slug ''//'' 0 \<noteq> None then False
      else list_all (\<lambda>c. islower c \<or> isdigit c \<or> c = CHR ''-'' \<or> c = CHR ''/'') slug)"

subsection \<open>The sanitiser\<close>

text \<open>The input after the match of a search, nothing when it failed.\<close>

definition past :: "string \<Rightarrow> nat option \<Rightarrow> nat \<Rightarrow> string" where
  "past s e k = (case e of None \<Rightarrow> [] | Some j \<Rightarrow> drop (j + k) s)"

text \<open>The inside of \<open><...>\<close>: whether it closes, whether it closes itself, the element, the rest.\<close>

record tag_head =
  th_closing :: bool
  th_selfClose :: bool
  th_tag :: string
  th_rest :: string

definition read_head :: "string \<Rightarrow> tag_head" where
  "read_head inner =
     (let closing = inner \<noteq> [] \<and> hd inner = CHR ''/'';
          a = (if closing then tl inner else inner);
          selfClose = a \<noteq> [] \<and> last a = CHR ''/'';
          b = (if selfClose then butlast a else a);
          nm = takeWhile (\<lambda>c. \<not> isspace c) b
      in \<lparr>th_closing = closing, th_selfClose = selfClose, th_tag = lower nm, th_rest = drop (length nm) b\<rparr>)"

definition attr_value :: "string \<Rightarrow> string \<times> string" where
  "attr_value s =
     (case s of [] \<Rightarrow> ([], [])
      | q # cs \<Rightarrow>
          if q = CHR 0x22 \<or> q = CHR 0x27 then (takeWhile (\<lambda>c. c \<noteq> q) cs, tl (dropWhile (\<lambda>c. c \<noteq> q) cs))
          else (takeWhile (\<lambda>c. \<not> isspace c) s, dropWhile (\<lambda>c. \<not> isspace c) s))"

definition read_attr :: "string \<Rightarrow> string \<times> string \<times> string" where
  "read_attr s =
     (let nm = takeWhile (\<lambda>c. c \<noteq> CHR ''='' \<and> \<not> isspace c) s;
          r = dropWhile isspace (drop (length nm) s)
      in if r \<noteq> [] \<and> hd r = CHR ''=''
         then (lower nm, attr_value (dropWhile isspace (tl r)))
         else (lower nm, [], r))"

definition attr_text :: "string \<Rightarrow> string \<Rightarrow> string \<Rightarrow> string" where
  "attr_text tag aname aval =
     (if aname = [] then []
      else if starts_with ''on'' aname then []
      else if aname \<notin> set (allowedAttrs tag) then []
      else if (aname = ''href'' \<or> aname = ''src'') \<and> \<not> safeUrl aval (tag = ''img'') then []
      else '' '' @ aname @ ''=\"'' @ esc aval @ ''\"'')"

lemma length_read_attr:
  assumes "s \<noteq> []" "\<not> isspace (hd s)"
  shows "length (snd (snd (read_attr s))) < length s"
proof -
  obtain c cs where s: "s = c # cs" using assms by (cases s) auto
  define nm where "nm = takeWhile (\<lambda>c. c \<noteq> CHR ''='' \<and> \<not> isspace c) s"
  define r where "r = dropWhile isspace (drop (length nm) s)"
  have r: "length r \<le> length s - length nm"
    unfolding r_def using length_dropWhile_le_length [of isspace "drop (length nm) s"] by simp
  have v: "length (snd (attr_value (dropWhile isspace (tl r)))) \<le> length (tl r)"
  proof -
    have *: "length (snd (attr_value t)) \<le> length t" for t
      unfolding attr_value_def
      by (cases t) (auto intro: le_trans [OF length_dropWhile_le_length] le_trans [OF diff_le_self]
            simp: length_dropWhile_le_length le_Suc_eq le_diff_conv)
    show ?thesis using * [of "dropWhile isspace (tl r)"] length_dropWhile_le_length [of isspace "tl r"] by linarith
  qed
  show ?thesis
  proof (cases "r \<noteq> [] \<and> hd r = CHR ''=''")
    case True
    then have "length (tl r) < length r" by (cases r) auto
    with r v have "length (snd (attr_value (dropWhile isspace (tl r)))) < length s" by linarith
    with True show ?thesis unfolding read_attr_def Let_def nm_def [symmetric] r_def [symmetric] by simp
  next
    case False
    have "nm \<noteq> []"
    proof
      assume nm: "nm = []"
      with s assms have "c = CHR ''=''" by (auto simp: nm_def split: if_splits)
      with nm s assms have "r = s" by (simp add: r_def)
      with False s \<open>c = CHR ''=''\<close> show False by simp
    qed
    with False r s show ?thesis unfolding read_attr_def Let_def nm_def [symmetric] r_def [symmetric]
      by (cases nm) auto
  qed
qed

function attrs_loop :: "string \<Rightarrow> string \<Rightarrow> string" where
  "attrs_loop tag s =
     (let t = dropWhile isspace s
      in if t = [] then []
         else case read_attr t of (aname, aval, rest) \<Rightarrow> attr_text tag aname aval @ attrs_loop tag rest)"
  by pat_completeness auto
termination
proof (relation "measure (\<lambda>(tag, s). length s)", goal_cases)
  case (2 tag s t x xa y z)
  then have "\<not> isspace (hd t)" by (metis hd_dropWhile)
  moreover have "z = snd (snd (read_attr t))" using 2 by (metis snd_conv)
  ultimately show ?case using 2(1,2) length_read_attr [of t] length_dropWhile_le_length [of isspace s] by auto
qed simp

declare attrs_loop.simps [simp del]

definition start_text :: "string \<Rightarrow> bool \<Rightarrow> string \<Rightarrow> string" where
  "start_text tag selfClose attrs =
     ''<'' @ tag @ attrs_loop tag attrs
     @ (if tag = ''a'' then '' rel=\"noopener nofollow ugc\"'' else [])
     @ (if tag \<in> set voidTags \<or> selfClose then ''/>'' else ''>'')"

text \<open>What one tag contributes to the output, and where the walk goes on.\<close>

definition drops_content :: "tag_head \<Rightarrow> bool" where
  "drops_content h \<longleftrightarrow> \<not> th_closing h \<and> th_tag h \<in> set dropContentTags"

definition tag_text :: "tag_head \<Rightarrow> string" where
  "tag_text h =
     (if drops_content h then []
      else if th_tag h \<notin> set allowedTags then []
      else if th_closing h then (if th_tag h \<notin> set voidTags then ''</'' @ th_tag h @ ''>'' else [])
      else start_text (th_tag h) (th_selfClose h) (th_rest h))"

definition after_tag :: "tag_head \<Rightarrow> string \<Rightarrow> string" where
  "after_tag h rest =
     (if drops_content h
      then case str_find (lower rest) (''</'' @ th_tag h) 0 of
          None \<Rightarrow> []
        | Some e \<Rightarrow> past rest (find_char rest CHR ''>'' e) 1
      else rest)"

definition text_char :: "char \<Rightarrow> string" where
  "text_char c = (if c = CHR ''&'' then ''&amp;'' else if c = CHR ''>'' then ''&gt;'' else [c])"

lemma length_past: "length (past s e k) \<le> length s"
  by (simp add: past_def split: option.split)

lemma length_past_less: "0 < k \<Longrightarrow> length (past (c # cs) e k) < Suc (length cs)"
  by (simp add: past_def split: option.split)

lemma length_after_tag: "length (after_tag h rest) \<le> length rest"
  by (simp add: after_tag_def length_past split: option.split)

function sanitize :: "string \<Rightarrow> string" where
  "sanitize [] = []"
| "sanitize (c # cs) =
     (if c \<noteq> CHR ''<'' then text_char c @ sanitize cs
      else if starts_with ''<!--'' (c # cs) then sanitize (past (c # cs) (str_find (c # cs) ''-->'' 4) 3)
      else if starts_with ''<!'' (c # cs) \<or> starts_with ''<?'' (c # cs)
      then sanitize (past (c # cs) (find_char (c # cs) CHR ''>'' 0) 1)
      else case find_char (c # cs) CHR ''>'' 0 of
          None \<Rightarrow> ''&lt;'' @ sanitize cs
        | Some gt \<Rightarrow>
            let h = read_head (take (gt - 1) cs)
            in tag_text h @ sanitize (after_tag h (drop gt cs)))"
  by pat_completeness auto
termination
  by (relation "measure length")
     (auto simp: length_past_less le_imp_less_Suc order.trans [OF length_after_tag])

declare sanitize.simps(2) [simp del]

subsection \<open>Video links\<close>

record split_url =
  su_host :: string
  su_path :: string
  su_query :: string
  su_ok :: bool

text \<open>The part before the first \<open>c\<close> and the part after it, the whole and nothing when there is none.\<close>

definition cut_at :: "char \<Rightarrow> string \<Rightarrow> string \<times> string" where
  "cut_at c s = (takeWhile (\<lambda>d. d \<noteq> c) s, tl (dropWhile (\<lambda>d. d \<noteq> c) s))"

definition url_rest :: "string \<Rightarrow> string option" where
  "url_rest url =
     (if starts_with ''https://'' url then Some (drop 8 url)
      else if starts_with ''http://'' url then Some (drop 7 url) else None)"

definition splitUrl :: "string \<Rightarrow> split_url" where
  "splitUrl url =
     (case url_rest url of
        None \<Rightarrow> \<lparr>su_host = [], su_path = [], su_query = [], su_ok = False\<rparr>
      | Some rest0 \<Rightarrow>
          let (rest, q) = cut_at CHR ''?'' rest0;
              query = fst (cut_at CHR ''#'' q);
              host0 = takeWhile (\<lambda>c. c \<noteq> CHR ''/'') rest;
              path = (if CHR ''/'' \<in> set rest then dropWhile (\<lambda>c. c \<noteq> CHR ''/'') rest else ''/'');
              host1 = (if CHR ''@'' \<in> set host0 then snd (cut_at CHR ''@'' host0) else host0);
              host = lower (fst (cut_at CHR '':'' host1))
          in \<lparr>su_host = host, su_path = path, su_query = query, su_ok = host \<noteq> []\<rparr>)"

definition ends_with :: "string \<Rightarrow> string \<Rightarrow> bool" where
  "ends_with e s \<longleftrightarrow> starts_with (rev e) (rev s)"

definition playableFile :: "string \<Rightarrow> bool" where
  "playableFile raw =
     (let u = trim_web raw
      in if u = [] then False
      else if list_ex control_char u then False
      else if \<not> starts_with ''//'' u \<and> hd u = CHR ''/'' then True
      else let low = lower u
        in if \<not> starts_with ''https://'' low \<and> \<not> starts_with ''http://'' low then False
        else let path = takeWhile (\<lambda>c. c \<noteq> CHR ''?'' \<and> c \<noteq> CHR ''#'') low
          in 4 < length path \<and> (ends_with ''.mp4'' path \<or> ends_with ''.webm'' path))"

definition idOk :: "string \<Rightarrow> nat \<Rightarrow> bool \<Rightarrow> bool" where
  "idOk i maxLen digitsOnly =
     (if i = [] \<or> maxLen < length i then False
      else list_all (\<lambda>c. if digitsOnly then isdigit c else isalnum c \<or> c = CHR ''_'' \<or> c = CHR ''-'') i)"

text \<open>The pieces between ampersands; the first one with the key wins.\<close>

definition queryParam :: "string \<Rightarrow> string \<Rightarrow> string" where
  "queryParam query key =
     (case find (\<lambda>p. CHR ''='' \<in> set p \<and> fst (cut_at CHR ''='' p) = key) (split_on CHR ''&'' query) of
        None \<Rightarrow> []
      | Some p \<Rightarrow> snd (cut_at CHR ''='' p))"

definition segmentAfter :: "string \<Rightarrow> string \<Rightarrow> string" where
  "segmentAfter path pre =
     (if starts_with pre path then takeWhile (\<lambda>c. c \<noteq> CHR ''/'') (drop (length pre) path) else [])"

record video_ref =
  vr_provider :: string
  vr_id :: string

definition no_video :: video_ref where
  "no_video = \<lparr>vr_provider = [], vr_id = []\<rparr>"

definition yt_hosts :: "string list" where
  "yt_hosts = [''youtube.com'', ''www.youtube.com'', ''m.youtube.com'', ''youtu.be'',
     ''www.youtube-nocookie.com'', ''youtube-nocookie.com'']"

definition vm_hosts :: "string list" where
  "vm_hosts = [''vimeo.com'', ''www.vimeo.com'', ''player.vimeo.com'']"

definition yt_id :: "split_url \<Rightarrow> string" where
  "yt_id u =
     (if su_host u = ''youtu.be'' then segmentAfter (su_path u) ''/''
      else if starts_with ''/embed/'' (su_path u) then segmentAfter (su_path u) ''/embed/''
      else if starts_with ''/shorts/'' (su_path u) then segmentAfter (su_path u) ''/shorts/''
      else if starts_with ''/live/'' (su_path u) then segmentAfter (su_path u) ''/live/''
      else if su_path u = ''/watch'' then queryParam (su_query u) ''v'' else [])"

definition vm_id :: "split_url \<Rightarrow> string" where
  "vm_id u =
     (if starts_with ''/video/'' (su_path u) then segmentAfter (su_path u) ''/video/''
      else segmentAfter (su_path u) ''/'')"

definition parseVideo :: "string \<Rightarrow> video_ref" where
  "parseVideo url =
     (let u = splitUrl url
      in if \<not> su_ok u then no_video
      else if su_host u \<in> set yt_hosts
      then (if idOk (yt_id u) 24 False then \<lparr>vr_provider = ''youtube'', vr_id = yt_id u\<rparr> else no_video)
      else if su_host u \<in> set vm_hosts
      then (if idOk (vm_id u) 24 True then \<lparr>vr_provider = ''vimeo'', vr_id = vm_id u\<rparr> else no_video)
      else no_video)"

definition videoEmbedUrl :: "video_ref \<Rightarrow> string" where
  "videoEmbedUrl v =
     (if vr_provider v = ''youtube'' then ''https://www.youtube-nocookie.com/embed/'' @ vr_id v
      else if vr_provider v = ''vimeo'' then ''https://player.vimeo.com/video/'' @ vr_id v else [])"

subsection \<open>The block renderer\<close>

text \<open>
  The pieces of markup the renderer writes. An attribute's value is given unescaped and escaped on
  the way out, as the code escapes every value that is not a literal; on the literals it changes nothing.
\<close>

datatype attr = Attr string string | Flag string

fun show_attr :: "attr \<Rightarrow> string" where
  "show_attr (Attr n v) = '' '' @ n @ ''=\"'' @ esc v @ ''\"''"
| "show_attr (Flag n) = '' '' @ n"

definition open_tag :: "string \<Rightarrow> attr list \<Rightarrow> string" where
  "open_tag n as = ''<'' @ n @ concat (map show_attr as) @ ''>''"

definition void_tag :: "string \<Rightarrow> attr list \<Rightarrow> string" where
  "void_tag n as = ''<'' @ n @ concat (map show_attr as) @ ''/>''"

definition close_tag :: "string \<Rightarrow> string" where
  "close_tag n = ''</'' @ n @ ''>''"

definition element :: "string \<Rightarrow> attr list \<Rightarrow> string \<Rightarrow> string" where
  "element n as body = open_tag n as @ body @ close_tag n"

abbreviation cls :: "string \<Rightarrow> attr" where
  "cls c \<equiv> Attr ''class'' c"

abbreviation if_some :: "bool \<Rightarrow> string \<Rightarrow> string" where
  "if_some b s \<equiv> (if b then s else [])"

definition str_of :: "json \<Rightarrow> string \<Rightarrow> string" where
  "str_of b k = (case jget b k of Some (JString s) \<Rightarrow> s | _ \<Rightarrow> [])"

definition array_of :: "json \<Rightarrow> string \<Rightarrow> json list option" where
  "array_of b k = (case jget b k of Some (JArray xs) \<Rightarrow> Some xs | _ \<Rightarrow> None)"

definition objects :: "json list \<Rightarrow> json list" where
  "objects xs = filter is_object xs"

definition each_item :: "(json \<Rightarrow> string) \<Rightarrow> json list \<Rightarrow> string" where
  "each_item f xs = concat (map f (objects xs))"

definition link_to :: "string \<Rightarrow> string \<Rightarrow> string \<Rightarrow> string" where
  "link_to c href label = element ''a'' [cls c, Attr ''href'' href] (esc label)"

definition linkable :: "string \<Rightarrow> string \<Rightarrow> bool" where
  "linkable label href \<longleftrightarrow> label \<noteq> [] \<and> safeUrl href False"

definition heading_block :: "json \<Rightarrow> string" where
  "heading_block b =
     (let l = str_of b ''level'';
          lvl = (if l \<noteq> ''1'' \<and> l \<noteq> ''2'' \<and> l \<noteq> ''3'' then ''2'' else l)
      in element (''h'' @ lvl) [cls ''w-h''] (esc (str_of b ''text'')))"

definition flush_para :: "string \<Rightarrow> string" where
  "flush_para para = if_some (para \<noteq> []) (element ''p'' [cls ''w-p''] para)"

definition chomp :: "string \<Rightarrow> string" where
  "chomp l = (if l \<noteq> [] \<and> last l = CHR 0x0D then butlast l else l)"

fun text_loop :: "string list \<Rightarrow> string \<Rightarrow> string" where
  "text_loop [] para = flush_para para"
| "text_loop (l # ls) para =
     (if trim_web (chomp l) = [] then flush_para para @ text_loop ls []
      else text_loop ls (para @ if_some (para \<noteq> []) ''<br/>'' @ esc (chomp l)))"

definition text_block :: "json \<Rightarrow> string" where
  "text_block b = text_loop (getline_tokens CHR 0x0A (str_of b ''text'')) []"

definition figcaption :: "string \<Rightarrow> string" where
  "figcaption cap = if_some (cap \<noteq> []) (element ''figcaption'' [] (esc cap))"

definition image_block :: "json \<Rightarrow> string" where
  "image_block b =
     if_some (safeUrl (str_of b ''src'') True)
       (element ''figure'' [cls ''w-fig'']
         (void_tag ''img'' [Attr ''src'' (str_of b ''src''), Attr ''alt'' (str_of b ''alt''), Attr ''loading'' ''lazy'']
          @ figcaption (str_of b ''caption'')))"

definition button_block :: "json \<Rightarrow> string" where
  "button_block b =
     if_some (safeUrl (str_of b ''href'') False)
       (element ''p'' [cls ''w-btn-wrap'']
         (element ''a'' [cls ''w-btn'', Attr ''href'' (str_of b ''href''), Attr ''rel'' ''noopener'']
           (esc (str_of b ''text''))))"

definition divider_block :: string where
  "divider_block = void_tag ''hr'' [cls ''w-hr'']"

definition column_item :: "json \<Rightarrow> string" where
  "column_item c =
     element ''div'' [cls ''w-col'']
       (if_some (str_of c ''title'' \<noteq> []) (element ''h3'' [cls ''w-col-h''] (esc (str_of c ''title'')))
        @ if_some (str_of c ''text'' \<noteq> []) (element ''p'' [cls ''w-p''] (esc (str_of c ''text''))))"

definition columns_block :: "json \<Rightarrow> string" where
  "columns_block b =
     (case array_of b ''items'' of None \<Rightarrow> []
      | Some xs \<Rightarrow> element ''div'' [cls ''w-cols''] (each_item column_item xs))"

definition hero_links :: "json \<Rightarrow> string" where
  "hero_links b =
     (let ct = str_of b ''cta_text''; ch = str_of b ''cta_href'';
          st = str_of b ''alt_text''; sh = str_of b ''alt_href''
      in if_some (linkable ct ch \<or> linkable st sh)
           (element ''p'' [cls ''w-hero-cta'']
             (if_some (linkable ct ch) (link_to ''w-btn'' ch ct)
              @ if_some (linkable st sh) (link_to ''w-btn-ghost'' sh st))))"

definition hero_block :: "json \<Rightarrow> string" where
  "hero_block b =
     element ''section'' [cls ''w-hero'']
       (if_some (str_of b ''eyebrow'' \<noteq> []) (element ''p'' [cls ''w-hero-eyebrow''] (esc (str_of b ''eyebrow'')))
        @ element ''h1'' [cls ''w-hero-h''] (esc (str_of b ''headline''))
        @ if_some (str_of b ''subheadline'' \<noteq> [])
            (element ''p'' [cls ''w-hero-sub''] (esc (str_of b ''subheadline'')))
        @ hero_links b)"

definition plan_price :: "json \<Rightarrow> string" where
  "plan_price c =
     if_some (str_of c ''price'' \<noteq> [])
       (element ''p'' [cls ''w-plan-price'']
         (esc (str_of c ''price'')
          @ if_some (str_of c ''period'' \<noteq> [])
              (element ''span'' [cls ''w-plan-per''] (esc (str_of c ''period'')))))"

definition feature_item :: "json \<Rightarrow> string" where
  "feature_item f = (case f of JString s \<Rightarrow> element ''li'' [] (esc s) | _ \<Rightarrow> [])"

definition plan_features :: "json \<Rightarrow> string" where
  "plan_features c =
     (case array_of c ''features'' of None \<Rightarrow> []
      | Some fs \<Rightarrow> element ''ul'' [cls ''w-plan-feats''] (concat (map feature_item fs)))"

definition plan_item :: "json \<Rightarrow> string" where
  "plan_item c =
     (let feat = jget c ''featured'' = Some (JBool True)
      in element ''div'' [cls (''w-plan'' @ if_some feat '' is-feat'')]
        (if_some (str_of c ''badge'' \<noteq> []) (element ''span'' [cls ''w-plan-badge''] (esc (str_of c ''badge'')))
         @ element ''h3'' [cls ''w-plan-name''] (esc (str_of c ''name''))
         @ if_some (str_of c ''size'' \<noteq> []) (element ''p'' [cls ''w-plan-size''] (esc (str_of c ''size'')))
         @ plan_price c @ plan_features c
         @ if_some (linkable (str_of c ''cta_text'') (str_of c ''cta_href''))
             (element ''p'' [cls ''w-plan-cta'']
               (link_to ''w-btn'' (str_of c ''cta_href'') (str_of c ''cta_text'')))))"

definition pricing_block :: "json \<Rightarrow> string" where
  "pricing_block b =
     (case array_of b ''items'' of None \<Rightarrow> []
      | Some xs \<Rightarrow> element ''div'' [cls ''w-plans''] (each_item plan_item xs))"

definition step_item :: "json \<Rightarrow> string" where
  "step_item c =
     element ''li'' [cls ''w-step'']
       (element ''h3'' [cls ''w-step-h''] (esc (str_of c ''title''))
        @ if_some (str_of c ''text'' \<noteq> []) (element ''p'' [cls ''w-p''] (esc (str_of c ''text''))))"

definition steps_block :: "json \<Rightarrow> string" where
  "steps_block b =
     (case array_of b ''items'' of None \<Rightarrow> []
      | Some xs \<Rightarrow> element ''ol'' [cls ''w-steps''] (each_item step_item xs))"

definition faq_item :: "json \<Rightarrow> string" where
  "faq_item c =
     if_some (str_of c ''q'' \<noteq> [])
       (element ''details'' [cls ''w-faq-i'']
         (element ''summary'' [] (esc (str_of c ''q'')) @ element ''p'' [cls ''w-p''] (esc (str_of c ''a''))))"

definition faq_block :: "json \<Rightarrow> string" where
  "faq_block b =
     (case array_of b ''items'' of None \<Rightarrow> []
      | Some xs \<Rightarrow> element ''div'' [cls ''w-faq''] (each_item faq_item xs))"

definition reference_item :: "json \<Rightarrow> string" where
  "reference_item c =
     (let nm = str_of c ''name''; logo = str_of c ''logo''
      in if_some (nm \<noteq> [])
        (element ''li'' [cls ''w-ref'']
          (if_some (logo \<noteq> [] \<and> safeUrl logo True)
             (void_tag ''img'' [cls ''w-ref-logo'', Attr ''src'' logo, Attr ''alt'' nm, Attr ''loading'' ''lazy''])
           @ element ''span'' [cls ''w-ref-name''] (esc nm)
           @ if_some (str_of c ''note'' \<noteq> []) (element ''span'' [cls ''w-ref-note''] (esc (str_of c ''note''))))))"

definition references_block :: "json \<Rightarrow> string" where
  "references_block b =
     (case array_of b ''items'' of None \<Rightarrow> []
      | Some xs \<Rightarrow> element ''ul'' [cls ''w-refs''] (each_item reference_item xs))"

text \<open>The location map: the bounding box and the marker come from \<open>geo\<close>, the search text is percent-encoded.\<close>

definition hex_digit :: "nat \<Rightarrow> char" where
  "hex_digit n = (if n < 10 then char_of (48 + n) else char_of (55 + n))"

definition url_char :: "char \<Rightarrow> string" where
  "url_char c =
     (if isalnum c \<or> c \<in> {CHR ''-'', CHR ''_'', CHR ''.'', CHR 0x7E} then [c]
      else if c = CHR 0x20 then ''+''
      else [CHR 0x25, hex_digit ((of_char c :: nat) div 16), hex_digit ((of_char c :: nat) mod 16)])"

definition url_encode :: "string \<Rightarrow> string" where
  "url_encode q = concat (map url_char q)"

definition map_label :: "json \<Rightarrow> string" where
  "map_label b = (if str_of b ''label'' = [] then ''Open in maps'' else str_of b ''label'')"

definition outside_link :: "attr list \<Rightarrow> string \<Rightarrow> string \<Rightarrow> string" where
  "outside_link as href body =
     element ''a'' (as @ [Attr ''href'' href, Attr ''rel'' ''noopener noreferrer'', Attr ''target'' ''_blank'']) body"

definition map_frame :: "string \<Rightarrow> string \<Rightarrow> string" where
  "map_frame bbox mk =
     element ''iframe''
       [Attr ''src'' (''https://www.openstreetmap.org/export/embed.html?bbox='' @ bbox
          @ ''&layer=mapnik&marker='' @ mk),
        Attr ''title'' ''Map'', Attr ''loading'' ''lazy'', Attr ''referrerpolicy'' ''no-referrer'',
        Attr ''sandbox'' ''allow-scripts allow-same-origin'',
        Attr ''style'' ''border:0;width:100%;height:340px''] []"

definition marker_link :: "string \<Rightarrow> string \<Rightarrow> string" where
  "marker_link mk label =
     element ''p'' [cls ''w-map-link'']
       (outside_link []
         (''https://www.openstreetmap.org/?mlat='' @ fst (cut_at CHR '','' mk)
          @ ''&mlon='' @ (if CHR '','' \<in> set mk then snd (cut_at CHR '','' mk) else mk))
         (esc label))"

definition map_block :: "(string \<Rightarrow> string \<Rightarrow> (string \<times> string) option) \<Rightarrow> json \<Rightarrow> string" where
  "map_block geo b =
     (let q = str_of b ''query''; lat = str_of b ''lat''; lon = str_of b ''lon''
      in case (if lat \<noteq> [] \<and> lon \<noteq> [] then geo lat lon else None) of
          Some (bbox, mk) \<Rightarrow>
            element ''div'' [cls ''w-map''] (map_frame bbox mk @ marker_link mk (map_label b))
        | None \<Rightarrow>
            if_some (q \<noteq> [] \<and> length q \<le> 200)
              (element ''p'' [cls ''w-map-link'']
                (outside_link [cls ''w-btn-ghost'']
                  (''https://www.openstreetmap.org/search?query='' @ url_encode q)
                  (esc (map_label b) @ '' &mdash; '' @ esc q))))"

definition video_frame :: "video_ref \<Rightarrow> string \<Rightarrow> string" where
  "video_frame v cap =
     element ''iframe''
       [Attr ''src'' (videoEmbedUrl v), Attr ''title'' (if cap = [] then ''Video'' else cap),
        Attr ''loading'' ''lazy'', Attr ''referrerpolicy'' ''no-referrer'',
        Attr ''allow'' ''accelerometer; clipboard-write; encrypted-media; picture-in-picture'',
        Flag ''allowfullscreen'',
        Attr ''sandbox'' ''allow-scripts allow-same-origin allow-presentation allow-popups''] []"

definition video_file :: "string \<Rightarrow> string \<Rightarrow> string" where
  "video_file src poster =
     element ''video''
       ([cls ''w-video-el'', Flag ''controls'', Attr ''preload'' ''metadata'', Flag ''playsinline'']
        @ (if safeUrl poster True then [Attr ''poster'' poster] else [])
        @ [Attr ''src'' src]) []"

definition video_block :: "json \<Rightarrow> string" where
  "video_block b =
     (let src = str_of b ''src''; v = parseVideo src; cap = str_of b ''caption''
      in if vr_provider v \<noteq> []
         then element ''figure'' [cls ''w-video'']
           (element ''div'' [cls ''w-video-frame''] (video_frame v cap) @ figcaption cap)
         else if_some (playableFile src)
           (element ''figure'' [cls ''w-video''] (video_file src (str_of b ''poster'') @ figcaption cap)))"

definition gallery_item :: "json \<Rightarrow> string" where
  "gallery_item g =
     if_some (safeUrl (str_of g ''src'') True)
       (element ''figure'' [cls ''w-gal-i'']
         (void_tag ''img'' [Attr ''src'' (str_of g ''src''), Attr ''alt'' (str_of g ''alt''), Attr ''loading'' ''lazy'']
          @ figcaption (str_of g ''caption'')))"

definition gallery_block :: "json \<Rightarrow> string" where
  "gallery_block b =
     (case array_of b ''items'' of None \<Rightarrow> []
      | Some xs \<Rightarrow> if_some (xs \<noteq> []) (element ''div'' [cls ''w-gal''] (each_item gallery_item xs)))"

definition quote_footer :: "string \<Rightarrow> string \<Rightarrow> string" where
  "quote_footer who role =
     if_some (who \<noteq> [] \<or> role \<noteq> [])
       (element ''footer'' []
         (element ''span'' [cls ''w-quote-who''] (esc who)
          @ if_some (role \<noteq> []) (element ''span'' [cls ''w-quote-role''] (esc role))))"

definition quote_block :: "json \<Rightarrow> string" where
  "quote_block b =
     if_some (str_of b ''text'' \<noteq> [])
       (element ''blockquote'' [cls ''w-quote'']
         (element ''p'' [] (esc (str_of b ''text'')) @ quote_footer (str_of b ''author'') (str_of b ''role'')))"

definition stat_item :: "json \<Rightarrow> string" where
  "stat_item s =
     element ''div'' [cls ''w-stat'']
       (element ''dt'' [cls ''w-stat-v''] (esc (str_of s ''value''))
        @ element ''dd'' [cls ''w-stat-l''] (esc (str_of s ''label'')))"

definition stats_block :: "json \<Rightarrow> string" where
  "stats_block b =
     (case array_of b ''items'' of None \<Rightarrow> []
      | Some xs \<Rightarrow> if_some (xs \<noteq> []) (element ''dl'' [cls ''w-stats''] (each_item stat_item xs)))"

definition cta_block :: "json \<Rightarrow> string" where
  "cta_block b =
     if_some (str_of b ''headline'' \<noteq> [])
       (element ''aside'' [cls ''w-cta'']
         (element ''div'' [cls ''w-cta-t'']
           (element ''p'' [cls ''w-cta-h''] (esc (str_of b ''headline''))
            @ if_some (str_of b ''text'' \<noteq> []) (element ''p'' [cls ''w-cta-s''] (esc (str_of b ''text''))))
          @ if_some (linkable (str_of b ''cta_text'') (str_of b ''cta_href''))
              (link_to ''w-btn'' (str_of b ''cta_href'') (str_of b ''cta_text''))))"

definition cell_text :: "bool \<Rightarrow> json \<Rightarrow> string" where
  "cell_text th c =
     element (if th then ''th'' else ''td'') [] (esc (case c of JString s \<Rightarrow> s | _ \<Rightarrow> []))"

definition row_text :: "bool \<Rightarrow> json list \<Rightarrow> string" where
  "row_text th cells =
     (if th then open_tag ''thead'' [] @ open_tag ''tr'' [] else open_tag ''tr'' [])
     @ concat (map (cell_text th) cells)
     @ (if th then close_tag ''tr'' @ close_tag ''thead'' @ open_tag ''tbody'' [] else close_tag ''tr'')"

fun table_rows :: "bool \<Rightarrow> bool \<Rightarrow> json list \<Rightarrow> string" where
  "table_rows hasHead first [] = []"
| "table_rows hasHead first (r # rs) =
     (case (if is_object r then array_of r ''cells'' else None) of
        None \<Rightarrow> table_rows hasHead first rs
      | Some cells \<Rightarrow> row_text (first \<and> hasHead) cells @ table_rows hasHead False rs)"

definition table_block :: "json \<Rightarrow> string result" where
  "table_block b =
     (case array_of b ''items'' of None \<Rightarrow> Inr []
      | Some [] \<Rightarrow> Inr []
      | Some rows \<Rightarrow>
          bindE (value_json b ''header'' (JBool True)) (\<lambda>v. bindE (as_bool v) (\<lambda>hasHead.
            Inr (open_tag ''div'' [cls ''w-table-wrap''] @ open_tag ''table'' [cls ''w-table'']
                 @ table_rows hasHead True rows
                 @ close_tag ''tbody'' @ close_tag ''table'' @ close_tag ''div''))))"

definition spacer_block :: "json \<Rightarrow> string" where
  "spacer_block b =
     (let s = str_of b ''size''
      in element ''div'' [cls (if s = ''small'' then ''w-sp-s'' else if s = ''large'' then ''w-sp-l'' else ''w-sp-m'')] [])"

text \<open>The forms an administrator designs (\<open>WebsiteForm.cpp\<close>): two tables, and the markup made of them.\<close>

record web_form =
  wf_id :: int
  wf_slug :: string
  wf_description :: "string option"
  wf_submit :: "string option"
  wf_active :: bool

record web_field =
  wd_id :: int
  wd_form :: int
  wd_name :: string
  wd_label :: string
  wd_type :: string
  wd_placeholder :: "string option"
  wd_options :: "string option"
  wd_required :: bool
  wd_sequence :: int

record form_db =
  fo_forms :: "web_form list"
  fo_fields :: "web_field list"

definition null_text :: "string option \<Rightarrow> string" where
  "null_text v = (case v of None \<Rightarrow> [] | Some s \<Rightarrow> s)"

definition required_attr :: "web_field \<Rightarrow> attr list" where
  "required_attr f = (if wd_required f then [Attr ''required'' ''required''] else [])"

definition option_text :: "string \<Rightarrow> string" where
  "option_text line = if_some (chomp line \<noteq> []) (element ''option'' [Attr ''value'' (chomp line)] (esc (chomp line)))"

definition input_type :: "string \<Rightarrow> string" where
  "input_type ty = (if ty = ''email'' \<or> ty = ''tel'' \<or> ty = ''number'' then ty else ''text'')"

definition field_control :: "web_field \<Rightarrow> string" where
  "field_control f =
     (if wd_type f = ''textarea'' then
        element ''textarea'' ([Attr ''name'' (wd_name f), Attr ''rows'' ''5'', Attr ''placeholder'' (null_text (wd_placeholder f))]
          @ required_attr f) []
      else if wd_type f = ''select'' then
        element ''select'' (Attr ''name'' (wd_name f) # required_attr f)
          (element ''option'' [Attr ''value'' []] ''--''
           @ concat (map option_text (getline_tokens CHR 0x0A (null_text (wd_options f)))))
      else if wd_type f = ''checkbox'' then
        void_tag ''input'' ([Attr ''type'' ''checkbox'', Attr ''name'' (wd_name f), Attr ''value'' ''yes''] @ required_attr f)
      else
        void_tag ''input'' ([Attr ''type'' (input_type (wd_type f)), Attr ''name'' (wd_name f),
          Attr ''placeholder'' (null_text (wd_placeholder f)), Attr ''maxlength'' ''4000''] @ required_attr f))"

definition field_text :: "web_field \<Rightarrow> string" where
  "field_text f = element ''label'' [cls ''w-field'']
     (element ''span'' [cls ''w-label''] (esc (wd_label f) @ if_some (wd_required f) '' *'') @ field_control f)"

definition honeypot :: string where
  "honeypot = element ''div'' [cls ''w-hp'', Attr ''aria-hidden'' ''true'']
     (element ''label'' [] (''Leave this empty'' @ void_tag ''input''
        [Attr ''type'' ''text'', Attr ''name'' ''website'', Attr ''tabindex'' ''-1'', Attr ''autocomplete'' ''off'']))"

definition form_fields :: "form_db \<Rightarrow> int \<Rightarrow> web_field list" where
  "form_fields db i = sort_key wd_sequence (sort_key wd_id (filter (\<lambda>f. wd_form f = i) (fo_fields db)))"

definition renderForm :: "form_db \<Rightarrow> string \<Rightarrow> string" where
  "renderForm db slug =
     (if \<not> isValidSlug slug then []
      else case find (\<lambda>f. wf_slug f = slug \<and> wf_active f) (fo_forms db) of
          None \<Rightarrow> []
        | Some f \<Rightarrow>
            let desc = null_text (wf_description f); btn = null_text (wf_submit f)
            in element ''form'' [cls ''w-form'', Attr ''method'' ''post'', Attr ''action'' (''/site/form/'' @ slug), Attr ''data-slug'' slug]
                 (if_some (desc \<noteq> []) (element ''p'' [cls ''w-p''] (esc desc))
                  @ concat (map field_text (form_fields db (wf_id f)))
                  @ honeypot
                  @ element ''button'' [Attr ''type'' ''submit'', cls ''w-btn''] (esc (if btn = [] then ''Send'' else btn))
                  @ element ''p'' [cls ''w-form-msg'', Attr ''role'' ''status''] []))"

definition form_block :: "(string \<Rightarrow> string) option \<Rightarrow> json \<Rightarrow> string" where
  "form_block forms b =
     (case forms of None \<Rightarrow> []
      | Some resolver \<Rightarrow> if_some (str_of b ''slug'' \<noteq> []) (resolver (str_of b ''slug'')))"

definition html_block :: "json \<Rightarrow> string" where
  "html_block b = element ''div'' [cls ''w-raw''] (sanitize (str_of b ''html''))"

text \<open>The blocks whose markup the renderer writes piece by piece, by type.\<close>

definition plain_blocks :: "(string \<times> (json \<Rightarrow> string)) list" where
  "plain_blocks =
     [(''heading'', heading_block), (''text'', text_block), (''image'', image_block), (''button'', button_block),
      (''divider'', \<lambda>b. divider_block), (''columns'', columns_block), (''hero'', hero_block),
      (''pricing'', pricing_block), (''steps'', steps_block), (''faq'', faq_block),
      (''references'', references_block), (''video'', video_block), (''gallery'', gallery_block),
      (''quote'', quote_block), (''stats'', stats_block), (''cta'', cta_block), (''spacer'', spacer_block)]"

definition block_text ::
  "(string \<Rightarrow> string \<Rightarrow> (string \<times> string) option) \<Rightarrow> (string \<Rightarrow> string) option \<Rightarrow> json \<Rightarrow> string result" where
  "block_text geo forms b =
     (let type = str_of b ''type''
      in case map_of plain_blocks type of
          Some f \<Rightarrow> Inr (f b)
        | None \<Rightarrow>
            if type = ''map'' then Inr (map_block geo b)
            else if type = ''table'' then table_block b
            else if type = ''form'' then Inr (form_block forms b)
            else if type = ''html'' then Inr (html_block b)
            else Inr [])"

definition render_blocks ::
  "(string \<Rightarrow> string \<Rightarrow> (string \<times> string) option) \<Rightarrow> (string \<Rightarrow> string) option \<Rightarrow> json \<Rightarrow> string result" where
  "render_blocks geo forms blocks =
     (case blocks of
        JArray bs \<Rightarrow> foldE (\<lambda>b h. bindE (block_text geo forms b) (\<lambda>s. Inr (h @ s))) (objects bs) []
      | _ \<Rightarrow> Inr [])"

subsection \<open>What a page may contain\<close>

text \<open>A tag as a browser reads it, and the text it is read from.\<close>

datatype tag = Start string "attr list" bool | Stop string

fun show_tag :: "tag \<Rightarrow> string" where
  "show_tag (Start n as closed) = (if closed then void_tag n as else open_tag n as)"
| "show_tag (Stop n) = close_tag n"

text \<open>Every \<open><\<close> of the text begins a tag that is allowed.\<close>

definition tags_ok :: "(tag \<Rightarrow> bool) \<Rightarrow> string \<Rightarrow> bool" where
  "tags_ok ok s \<longleftrightarrow> (\<forall>pre post. s = pre @ CHR ''<'' # post \<longrightarrow> (\<exists>t rest. ok t \<and> CHR ''<'' # post = show_tag t @ rest))"

fun author_attr :: "string \<Rightarrow> attr \<Rightarrow> bool" where
  "author_attr n (Attr a v) \<longleftrightarrow> a \<in> set (allowedAttrs n) \<and> \<not> starts_with ''on'' a
     \<and> (a \<in> {''href'', ''src''} \<longrightarrow> safeUrl v (n = ''img''))"
| "author_attr n (Flag a) \<longleftrightarrow> False"

fun author_tag :: "tag \<Rightarrow> bool" where
  "author_tag (Start n as closed) \<longleftrightarrow> n \<in> set allowedTags \<and> list_all (author_attr n) as"
| "author_tag (Stop n) \<longleftrightarrow> n \<in> set allowedTags \<and> n \<notin> set voidTags"

text \<open>The server's own tags: a frame shows one of three addresses, links and media go to safe ones.\<close>

definition video_id_char :: "char \<Rightarrow> bool" where
  "video_id_char c \<longleftrightarrow> isalnum c \<or> c = CHR ''_'' \<or> c = CHR ''-''"

definition frame_url :: "string \<Rightarrow> bool" where
  "frame_url v \<longleftrightarrow>
     (\<exists>i. list_all video_id_char i \<and> (v = ''https://www.youtube-nocookie.com/embed/'' @ i \<or> v = ''https://player.vimeo.com/video/'' @ i))
     \<or> starts_with ''https://www.openstreetmap.org/export/embed.html?bbox='' v"

definition serverAttrs :: "string list" where
  "serverAttrs = [''class'', ''src'', ''alt'', ''loading'', ''href'', ''rel'', ''target'', ''title'', ''referrerpolicy'',
     ''sandbox'', ''style'', ''allow'', ''poster'', ''preload'']"

definition pageTags :: "string list" where
  "pageTags = allowedTags @ [''details'', ''summary'', ''footer'', ''aside'', ''iframe'', ''video'',
     ''form'', ''label'', ''textarea'', ''select'', ''option'', ''input'', ''button'']"

text \<open>What the elements of a form carry: a form is posted to the site's own route, an input is of one of five types.\<close>

definition formAttrs :: "string \<Rightarrow> string list" where
  "formAttrs n =
     (if n = ''form'' then [''method'', ''action'', ''data-slug'']
      else if n = ''textarea'' then [''name'', ''rows'', ''placeholder'', ''required'']
      else if n = ''select'' then [''name'', ''required'']
      else if n = ''option'' then [''value'']
      else if n = ''input'' then [''type'', ''name'', ''value'', ''placeholder'', ''maxlength'', ''tabindex'', ''autocomplete'', ''required'']
      else if n = ''button'' then [''type'']
      else if n = ''div'' then [''aria-hidden'']
      else if n = ''p'' then [''role'']
      else [])"

definition inputTypes :: "string list" where
  "inputTypes = [''text'', ''email'', ''tel'', ''number'', ''checkbox'']"

definition form_attr :: "string \<Rightarrow> string \<Rightarrow> string \<Rightarrow> bool" where
  "form_attr n a v \<longleftrightarrow> (a = ''action'' \<longrightarrow> (\<exists>slug. isValidSlug slug \<and> v = ''/site/form/'' @ slug))
     \<and> (a = ''method'' \<longrightarrow> v = ''post'')
     \<and> (a = ''type'' \<longrightarrow> v \<in> set (if n = ''input'' then inputTypes else [''submit'']))"

fun page_attr :: "string \<Rightarrow> attr \<Rightarrow> bool" where
  "page_attr n (Attr a v) \<longleftrightarrow> (a \<in> set (allowedAttrs n) \<or> a \<in> set serverAttrs \<or> a \<in> set (formAttrs n)) \<and> \<not> starts_with ''on'' a
     \<and> form_attr n a v
     \<and> (a = ''href'' \<longrightarrow> safeUrl v False \<or> starts_with ''https://www.openstreetmap.org/'' v)
     \<and> (a \<in> {''src'', ''poster''} \<longrightarrow> (if n = ''iframe'' then frame_url v else safeUrl v True))"
| "page_attr n (Flag a) \<longleftrightarrow> a \<in> {''allowfullscreen'', ''controls'', ''playsinline''}"

fun page_tag :: "tag \<Rightarrow> bool" where
  "page_tag (Start n as closed) \<longleftrightarrow> n \<in> set pageTags \<and> list_all (page_attr n) as"
| "page_tag (Stop n) \<longleftrightarrow> n \<in> set pageTags"

lemma author_attr_names:
  assumes "a \<in> set (allowedAttrs n)"
  shows "a \<noteq> ''action''" "a \<noteq> ''method''" "a \<noteq> ''type''" "a \<noteq> ''poster''" "a = ''src'' \<Longrightarrow> n = ''img''" "a = ''href'' \<Longrightarrow> n = ''a''"
  using assms by (auto simp: allowedAttrs_def split: if_splits)

lemma author_page_attr:
  assumes "author_attr n a"
  shows "page_attr n a"
proof (cases a)
  case (Attr x v)
  with assms have x: "x \<in> set (allowedAttrs n)" "\<not> starts_with ''on'' x" "x \<in> {''href'', ''src''} \<Longrightarrow> safeUrl v (n = ''img'')" by auto
  note names = author_attr_names [OF x(1)]
  consider "x = ''src''" "n = ''img''" | "x = ''href''" "n = ''a''" | "x \<noteq> ''src''" "x \<noteq> ''href''" using names(5,6) by blast
  then show ?thesis by cases (use x names(1-4) in \<open>simp_all add: Attr form_attr_def\<close>)
qed (use assms in simp)

lemma author_page_tag: "author_tag t \<Longrightarrow> page_tag t"
  by (cases t) (auto simp: pageTags_def list_all_iff author_page_attr)

text \<open>The predicate is kept by concatenation, holds of text without \<open><\<close> and of a tag that is allowed.\<close>

lemma tags_ok_text: "CHR ''<'' \<notin> set s \<Longrightarrow> tags_ok ok s"
  by (auto simp: tags_ok_def)

lemma tags_ok_Nil [simp]: "tags_ok ok []"
  by (simp add: tags_ok_text)

lemma tags_ok_append:
  assumes "tags_ok ok s" "tags_ok ok t"
  shows "tags_ok ok (s @ t)"
  unfolding tags_ok_def
proof (intro allI impI)
  fix pre post assume eq: "s @ t = pre @ CHR ''<'' # post"
  from append_eq_append_conv2 [THEN iffD1, OF eq]
  obtain us where "s = pre @ us \<and> us @ t = CHR ''<'' # post \<or> s @ us = pre \<and> t = us @ CHR ''<'' # post" by auto
  then show "\<exists>u rest. ok u \<and> CHR ''<'' # post = show_tag u @ rest"
  proof
    assume a: "s = pre @ us \<and> us @ t = CHR ''<'' # post"
    show ?thesis
    proof (cases us)
      case Nil
      with a have "t = [] @ CHR ''<'' # post" by simp
      with assms(2) show ?thesis unfolding tags_ok_def by blast
    next
      case (Cons c cs)
      with a have "s = pre @ CHR ''<'' # cs" "post = cs @ t" by auto
      with assms(1) obtain u rest where "ok u" "CHR ''<'' # cs = show_tag u @ rest" unfolding tags_ok_def by blast
      with \<open>post = cs @ t\<close> have "ok u \<and> CHR ''<'' # post = show_tag u @ (rest @ t)" by (metis append.assoc append_Cons)
      then show ?thesis by blast
    qed
  next
    assume "s @ us = pre \<and> t = us @ CHR ''<'' # post"
    with assms(2) show ?thesis unfolding tags_ok_def by blast
  qed
qed

lemma tags_ok_mono: "tags_ok ok s \<Longrightarrow> (\<And>t. ok t \<Longrightarrow> ok' t) \<Longrightarrow> tags_ok ok' s"
  unfolding tags_ok_def by blast

lemma esc_no_specials: "set (esc s) \<inter> {CHR ''<'', CHR ''>'', CHR 0x22, CHR 0x27} = {}"
  by (induction s) (auto simp: esc_def esc_char_def split: if_splits)

lemma esc_no_less [simp]: "CHR ''<'' \<notin> set (esc s)"
  using esc_no_specials by blast

text \<open>A tag whose names hold no \<open><\<close> holds one only at its head.\<close>

fun attr_name :: "attr \<Rightarrow> string" where
  "attr_name (Attr n v) = n" | "attr_name (Flag n) = n"

fun tag_names :: "tag \<Rightarrow> string list" where
  "tag_names (Start n as closed) = n # map attr_name as" | "tag_names (Stop n) = [n]"

lemma attr_no_less: "CHR ''<'' \<notin> set (attr_name a) \<Longrightarrow> CHR ''<'' \<notin> set (show_attr a)"
  by (cases a) auto

lemma tag_head_only:
  assumes "list_all (\<lambda>n. CHR ''<'' \<notin> set n) (tag_names t)"
  shows "\<exists>body. show_tag t = CHR ''<'' # body \<and> CHR ''<'' \<notin> set body"
  using assms by (cases t) (auto simp: open_tag_def void_tag_def close_tag_def list_all_iff dest: attr_no_less)

lemma tags_ok_tag:
  assumes "ok t" "list_all (\<lambda>n. CHR ''<'' \<notin> set n) (tag_names t)"
  shows "tags_ok ok (show_tag t)"
  unfolding tags_ok_def
proof (intro allI impI)
  fix pre post assume eq: "show_tag t = pre @ CHR ''<'' # post"
  obtain body where b: "show_tag t = CHR ''<'' # body" "CHR ''<'' \<notin> set body" using tag_head_only [OF assms(2)] by blast
  with eq have "pre = []" by (cases pre) auto
  with eq assms(1) show "\<exists>u rest. ok u \<and> CHR ''<'' # post = show_tag u @ rest" by (intro exI [of _ t] exI [of _ "[]"]) simp
qed

lemma vocabulary_no_less:
  "list_all (\<lambda>n. CHR ''<'' \<notin> set n) pageTags" "list_all (\<lambda>n. CHR ''<'' \<notin> set n) serverAttrs"
  "list_all (\<lambda>n. CHR ''<'' \<notin> set n) (allowedAttrs tag)" "list_all (\<lambda>n. CHR ''<'' \<notin> set n) (formAttrs tag)"
  by (simp_all add: pageTags_def allowedTags_def serverAttrs_def allowedAttrs_def formAttrs_def)

lemma page_attr_no_less: "page_attr n a \<Longrightarrow> CHR ''<'' \<notin> set (attr_name a)"
  using vocabulary_no_less by (cases a) (auto simp: list_all_iff)

lemma page_tag_no_less: "page_tag t \<Longrightarrow> list_all (\<lambda>n. CHR ''<'' \<notin> set n) (tag_names t)"
  using vocabulary_no_less by (cases t) (auto simp: list_all_iff page_attr_no_less)

lemma tags_ok_page: "page_tag t \<Longrightarrow> tags_ok page_tag (show_tag t)"
  by (simp add: tags_ok_tag page_tag_no_less)

lemma tags_ok_author: "author_tag t \<Longrightarrow> tags_ok author_tag (show_tag t)"
  by (simp add: tags_ok_tag page_tag_no_less author_page_tag)

subsection \<open>The sanitiser lets nothing else through\<close>

lemma attr_text_shows: "\<exists>as. list_all (author_attr tag) as \<and> attr_text tag n v = concat (map show_attr as)"
proof (cases "attr_text tag n v = []")
  case True
  then show ?thesis by (intro exI [of _ "[]"]) simp
next
  case False
  then have "author_attr tag (Attr n v) \<and> attr_text tag n v = show_attr (Attr n v)" by (simp add: attr_text_def split: if_splits)
  then show ?thesis by (intro exI [of _ "[Attr n v]"]) simp
qed

lemma attrs_loop_shows: "\<exists>as. list_all (author_attr tag) as \<and> attrs_loop tag s = concat (map show_attr as)"
proof (induction tag s rule: attrs_loop.induct)
  case (1 tag s)
  show ?case
  proof (cases "dropWhile isspace s = []")
    case True
    then show ?thesis by (intro exI [of _ "[]"]) (simp add: attrs_loop.simps [of tag s])
  next
    case False
    obtain n v r where r: "read_attr (dropWhile isspace s) = (n, v, r)" by (cases "read_attr (dropWhile isspace s)") auto
    from "1" [OF refl False r [symmetric] refl] obtain bs
      where b: "list_all (author_attr tag) bs" "attrs_loop tag r = concat (map show_attr bs)" by blast
    from attr_text_shows obtain as where a: "list_all (author_attr tag) as" "attr_text tag n v = concat (map show_attr as)" by blast
    have "attrs_loop tag s = attr_text tag n v @ attrs_loop tag r"
      using False r by (subst attrs_loop.simps) (simp add: Let_def del: dropWhile_eq_Nil_conv)
    with a b have "attrs_loop tag s = concat (map show_attr (as @ bs))" by simp
    with a b show ?thesis by (intro exI [of _ "as @ bs"]) simp
  qed
qed

lemma start_text_shows:
  assumes "tag \<in> set allowedTags"
  shows "\<exists>t. author_tag t \<and> start_text tag selfClose attrs = show_tag t"
proof -
  obtain as where as: "list_all (author_attr tag) as" "attrs_loop tag attrs = concat (map show_attr as)"
    using attrs_loop_shows by blast
  define rel where "rel = (if tag = ''a'' then [Attr ''rel'' ''noopener nofollow ugc''] else [])"
  have rel: "list_all (author_attr tag) rel" by (simp add: rel_def allowedAttrs_def)
  have shown: "concat (map show_attr rel) = (if tag = ''a'' then '' rel=\"noopener nofollow ugc\"'' else [])"
    by (simp add: rel_def esc_def esc_char_def)
  have "start_text tag selfClose attrs = show_tag (Start tag (as @ rel) (tag \<in> set voidTags \<or> selfClose))"
    using as shown by (simp add: start_text_def void_tag_def open_tag_def)
  with assms as rel show ?thesis by (intro exI [of _ "Start tag (as @ rel) (tag \<in> set voidTags \<or> selfClose)"]) simp
qed

lemma tag_text_ok: "tags_ok author_tag (tag_text h)"
proof (cases "\<not> drops_content h \<and> th_tag h \<in> set allowedTags")
  case True
  show ?thesis
  proof (cases "th_closing h")
    case True
    then show ?thesis
      using tags_ok_author [of "Stop (th_tag h)"] by (simp add: tag_text_def close_tag_def)
  next
    case False
    with True start_text_shows [of "th_tag h" "th_selfClose h" "th_rest h"] tags_ok_author show ?thesis
      by (auto simp: tag_text_def)
  qed
qed (auto simp: tag_text_def)

lemma sanitize_tags: "tags_ok author_tag (sanitize html)"
proof (induction html rule: sanitize.induct)
  case (2 c cs)
  consider (other) "c \<noteq> CHR ''<''" | (comm) "c = CHR ''<''" "starts_with ''<!--'' (c # cs)"
    | (decl) "c = CHR ''<''" "\<not> starts_with ''<!--'' (c # cs)" "starts_with ''<!'' (c # cs) \<or> starts_with ''<?'' (c # cs)"
    | (elem) "c = CHR ''<''" "\<not> starts_with ''<!--'' (c # cs)" "\<not> (starts_with ''<!'' (c # cs) \<or> starts_with ''<?'' (c # cs))"
    by blast
  then show ?case
  proof cases
    case other
    have "tags_ok author_tag (text_char c)" by (rule tags_ok_text) (use other in \<open>simp add: text_char_def\<close>)
    with other "2.IH"(1) show ?thesis by (simp add: sanitize.simps(2) tags_ok_append)
  next
    case comm
    with "2.IH"(2) show ?thesis by (subst sanitize.simps(2)) (simp del: starts_with.simps)
  next
    case decl
    with "2.IH"(3) show ?thesis by (subst sanitize.simps(2)) (simp del: starts_with.simps)
  next
    case elem
    show ?thesis
    proof (cases "find_char (c # cs) CHR ''>'' 0")
      case None
      have "tags_ok author_tag ''&lt;''" by (rule tags_ok_text) simp
      with None elem "2.IH"(4) show ?thesis
        by (subst sanitize.simps(2)) (simp add: tags_ok_append del: starts_with.simps append.append_Cons append_Cons)
    next
      case (Some gt)
      with elem "2.IH"(5) tag_text_ok show ?thesis
        by (subst sanitize.simps(2)) (simp add: tags_ok_append Let_def del: starts_with.simps)
    qed
  qed
qed simp

text \<open>C13: whatever markup an author hands in, every opening angle bracket of the sanitised page begins an
  allowed element, opened with allowed attributes only - no event handler, escaped values, no address with a
  scheme that executes - or the closing tag of one.\<close>

theorem sanitize_safe:
  assumes "sanitize html = pre @ CHR ''<'' # post"
  shows "\<exists>t rest. author_tag t \<and> CHR ''<'' # post = show_tag t @ rest"
  using assms sanitize_tags [of html] unfolding tags_ok_def by blast

theorem sanitize_safe_witness:
  "\<exists>t rest. author_tag t \<and> ''<p class=\"a\">x&gt;</p>'' = show_tag t @ rest"
proof (rule sanitize_safe)
  show "sanitize ''y<script>z</script ><P onload=q class=a>x></p>'' = ''y'' @ ''<p class=\"a\">x&gt;</p>''" by code_simp
qed

subsection \<open>The blocks are well-nested markup of the server's vocabulary\<close>

inductive nested :: "string \<Rightarrow> bool" where
  nested_text: "CHR ''<'' \<notin> set s \<Longrightarrow> nested s"
| nested_void: "page_tag (Start n as True) \<Longrightarrow> nested (void_tag n as)"
| nested_element: "page_tag (Start n as False) \<Longrightarrow> nested body \<Longrightarrow> nested (element n as body)"
| nested_append: "nested s \<Longrightarrow> nested t \<Longrightarrow> nested (s @ t)"

lemma nested_tags_ok: "nested s \<Longrightarrow> tags_ok page_tag s"
proof (induction rule: nested.induct)
  case (nested_void n as)
  then show ?case using tags_ok_page [of "Start n as True"] by simp
next
  case (nested_element n as body)
  then have "tags_ok page_tag (open_tag n as)" "tags_ok page_tag (close_tag n)"
    using tags_ok_page [of "Start n as False"] tags_ok_page [of "Stop n"] by simp_all
  with nested_element show ?case by (simp add: element_def tags_ok_append)
qed (auto intro: tags_ok_text tags_ok_append)

lemma nested_Nil [simp]: "nested []" and nested_esc [simp]: "nested (esc s)"
  by (simp_all add: nested_text)

lemma nested_if: "(b \<Longrightarrow> nested s) \<Longrightarrow> nested (if_some b s)"
  by simp

lemma nested_concat: "(\<And>x. x \<in> set xs \<Longrightarrow> nested (f x)) \<Longrightarrow> nested (concat (map f xs))"
  by (induction xs) (auto intro: nested_append)

lemma nested_each: "(\<And>x. nested (f x)) \<Longrightarrow> nested (each_item f xs)"
  by (simp add: each_item_def nested_concat)

lemmas nested_rules = nested_void nested_element nested_append nested_if nested_concat nested_each

text \<open>What the attributes need: literals by evaluation, addresses by the guard they stand under.\<close>

lemmas vocabulary_defs = pageTags_def allowedTags_def serverAttrs_def allowedAttrs_def formAttrs_def form_attr_def

lemma page_start [simp]: "page_tag (Start n as c) \<longleftrightarrow> n \<in> set pageTags \<and> list_all (page_attr n) as"
  by simp

lemma link_nested: "linkable label href \<Longrightarrow> nested (link_to c href label)"
  unfolding link_to_def linkable_def by (intro nested_rules) (simp_all add: vocabulary_defs)

lemma figcaption_nested: "nested (figcaption cap)"
  unfolding figcaption_def by (intro nested_rules) (simp_all add: vocabulary_defs)

lemma heading_nested: "nested (heading_block b)"
  unfolding heading_block_def Let_def by (intro nested_rules) (auto simp: vocabulary_defs)

lemma para_nested: "nested para \<Longrightarrow> nested (flush_para para)"
  unfolding flush_para_def by (intro nested_rules) (simp_all add: vocabulary_defs)

lemma text_loop_nested: "nested para \<Longrightarrow> nested (text_loop ls para)"
proof (induction ls para rule: text_loop.induct)
  case (2 l ls para)
  have br: "nested ''<br/>''" using nested_void [of "''br''" "[]"] by (simp add: void_tag_def vocabulary_defs)
  have "nested (para @ if_some (para \<noteq> []) ''<br/>'' @ esc (chomp l))"
    by (intro nested_append nested_if "2.prems" br nested_esc)
  with 2 show ?case by (simp add: nested_append para_nested)
qed (simp add: para_nested)

lemma image_nested: "nested (image_block b)"
  unfolding image_block_def by (intro nested_rules figcaption_nested) (simp_all add: vocabulary_defs)

lemma button_nested: "nested (button_block b)"
  unfolding button_block_def by (intro nested_rules) (simp_all add: vocabulary_defs)

lemma divider_nested: "nested divider_block"
  unfolding divider_block_def by (intro nested_rules) (simp add: vocabulary_defs)

lemma columns_nested: "nested (columns_block b)"
  unfolding columns_block_def column_item_def
  by (auto split: option.split intro!: nested_rules simp: vocabulary_defs)

lemma hero_nested: "nested (hero_block b)"
  unfolding hero_block_def hero_links_def Let_def
  by (intro nested_rules link_nested) (simp_all add: vocabulary_defs)

lemma plan_nested: "nested (plan_item c)"
proof -
  have price: "nested (plan_price c)" unfolding plan_price_def by (intro nested_rules) (simp_all add: vocabulary_defs)
  have feature: "nested (feature_item f)" for f
    unfolding feature_item_def by (cases f) (auto intro!: nested_rules simp: vocabulary_defs)
  have "nested (plan_features c)"
    unfolding plan_features_def by (auto split: option.split intro!: nested_rules feature simp: vocabulary_defs)
  with price show ?thesis unfolding plan_item_def Let_def
    by (intro nested_rules link_nested) (simp_all add: vocabulary_defs)
qed

lemma steps_nested: "nested (steps_block b)"
  unfolding steps_block_def step_item_def
  by (auto split: option.split intro!: nested_rules simp: vocabulary_defs)

lemma faq_nested: "nested (faq_block b)"
  unfolding faq_block_def faq_item_def
  by (auto split: option.split intro!: nested_rules simp: vocabulary_defs)

lemma references_nested: "nested (references_block b)"
  unfolding references_block_def reference_item_def Let_def
  by (auto split: option.split intro!: nested_rules simp: vocabulary_defs)

lemma gallery_nested: "nested (gallery_block b)"
  unfolding gallery_block_def gallery_item_def
  by (auto split: option.split intro!: nested_rules figcaption_nested simp: vocabulary_defs)

lemma quote_nested: "nested (quote_block b)"
  unfolding quote_block_def quote_footer_def by (intro nested_rules) (simp_all add: vocabulary_defs)

lemma stats_nested: "nested (stats_block b)"
  unfolding stats_block_def stat_item_def
  by (auto split: option.split intro!: nested_rules simp: vocabulary_defs)

lemma cta_nested: "nested (cta_block b)"
  unfolding cta_block_def by (intro nested_rules link_nested) (simp_all add: vocabulary_defs)

lemma spacer_nested: "nested (spacer_block b)"
  unfolding spacer_block_def Let_def by (intro nested_rules) (simp_all add: vocabulary_defs)

text \<open>A file the renderer plays is at an address it would also accept for an image.\<close>

lemma tolower_mark: "tolower c = d \<Longrightarrow> d \<in> {CHR '':'', CHR ''/''} \<Longrightarrow> c = d"
  unfolding tolower_def by (auto simp: isupper_def split: if_splits dest: arg_cong [where f = "of_char :: char \<Rightarrow> nat"]
      simp: of_char_of take_bit_eq_mod)

lemma tolower_letter: "tolower c = d \<Longrightarrow> d \<notin> {CHR '':'', CHR ''/''} \<Longrightarrow> c \<noteq> CHR '':'' \<and> c \<noteq> CHR ''/''"
  by (auto simp: tolower_def isupper_def)

lemma http_scheme:
  assumes "starts_with ''https://'' (lower u) \<or> starts_with ''http://'' (lower u)"
  obtains i where "find_char u CHR '':'' 0 = Some i" "find_char u CHR ''/'' 0 = Some (Suc i)"
    "lower (take i u) \<in> {''http'', ''https''}"
proof -
  from assms consider (s) t where "lower u = ''https://'' @ t" | (p) t where "lower u = ''http://'' @ t"
    by (auto simp: starts_with_iff)
  then show thesis
  proof cases
    case s
    then obtain a b c d e f g h u' where u: "u = a # b # c # d # e # f # g # h # u'"
      and l: "tolower a = CHR ''h''" "tolower b = CHR ''t''" "tolower c = CHR ''t''" "tolower d = CHR ''p''"
        "tolower e = CHR ''s''" "tolower f = CHR '':''" "tolower g = CHR ''/''"
      by (auto simp: lower_def map_eq_Cons_conv)
    note n = l(1-5) [THEN tolower_letter, simplified] l(6,7) [THEN tolower_mark, simplified]
    show ?thesis by (rule that [of 5]) (use n l u in \<open>auto simp: find_char_def str_find_def lower_def eval_nat_numeral\<close>)
  next
    case p
    then obtain a b c d f g h u' where u: "u = a # b # c # d # f # g # h # u'"
      and l: "tolower a = CHR ''h''" "tolower b = CHR ''t''" "tolower c = CHR ''t''" "tolower d = CHR ''p''"
        "tolower f = CHR '':''" "tolower g = CHR ''/''"
      by (auto simp: lower_def map_eq_Cons_conv)
    note n = l(1-4) [THEN tolower_letter, simplified] l(5,6) [THEN tolower_mark, simplified]
    show ?thesis by (rule that [of 4]) (use n l u in \<open>auto simp: find_char_def str_find_def lower_def eval_nat_numeral\<close>)
  qed
qed

lemma rooted_slash:
  assumes "hd u = CHR ''/''" "u \<noteq> []"
  shows "find_char u CHR ''/'' 0 = Some 0" and "find_char u CHR '':'' 0 = Some j \<Longrightarrow> 0 < j"
proof -
  obtain c cs where u: "u = c # cs" using assms by (cases u) auto
  show "find_char u CHR ''/'' 0 = Some 0" using assms u by (simp add: find_char_def str_find_def)
  assume "find_char u CHR '':'' 0 = Some j"
  then have "starts_with [CHR '':''] (drop j u)" unfolding find_char_def by (rule str_find_Some(3))
  with u assms show "0 < j" by (cases j) auto
qed

lemma playable_safe:
  assumes "playableFile raw"
  shows "safeUrl raw img"
proof -
  define u where "u = trim_web raw"
  have u: "u \<noteq> []" "\<not> list_ex control_char u" using assms by (auto simp: playableFile_def u_def [symmetric] Let_def split: if_splits)
  show ?thesis
  proof (cases "hd u = CHR ''/''")
    case True
    with u rooted_slash [of u] show ?thesis by (auto simp: safeUrl_def u_def [symmetric] Let_def split: option.split)
  next
    case False
    with assms u have "starts_with ''https://'' (lower u) \<or> starts_with ''http://'' (lower u)"
      by (auto simp: playableFile_def u_def [symmetric] Let_def split: if_splits)
    then obtain i where "find_char u CHR '':'' 0 = Some i" "find_char u CHR ''/'' 0 = Some (Suc i)"
      "lower (take i u) \<in> {''http'', ''https''}" by (rule http_scheme)
    with u show ?thesis unfolding safeUrl_def u_def [symmetric] Let_def by auto
  qed
qed

lemma embed_frame:
  assumes "vr_provider (parseVideo src) \<noteq> []"
  shows "frame_url (videoEmbedUrl (parseVideo src))"
proof -
  have "idOk i n b \<Longrightarrow> list_all video_id_char i" for i n b
    by (auto simp: idOk_def list_all_iff video_id_char_def isalnum_def split: if_splits)
  with assms show ?thesis
    by (auto simp: parseVideo_def Let_def no_video_def videoEmbedUrl_def frame_url_def split: if_splits)
qed

lemma video_nested: "nested (video_block b)"
  unfolding video_block_def Let_def video_frame_def video_file_def
  by (auto intro!: nested_rules figcaption_nested simp: embed_frame playable_safe simp: vocabulary_defs)

lemma map_nested: "nested (map_block geo b)"
proof -
  have frame: "nested (map_frame bbox mk)" for bbox mk
    unfolding map_frame_def by (intro nested_rules) (simp_all add: vocabulary_defs frame_url_def)
  have mark: "nested (marker_link mk label)" for mk label
    unfolding marker_link_def outside_link_def by (intro nested_rules) (simp_all add: vocabulary_defs)
  have dash: "nested (esc l @ '' &mdash; '' @ esc q)" for l q by (rule nested_text) simp
  show ?thesis
    unfolding map_block_def Let_def outside_link_def
    by (auto split: option.split intro!: nested_element nested_append [OF frame mark] dash [simplified] simp: vocabulary_defs)
qed

lemma plain_nested: "map_of plain_blocks k = Some f \<Longrightarrow> nested (f b)"
  by (auto simp: plain_blocks_def text_block_def heading_nested text_loop_nested image_nested button_nested divider_nested
      columns_nested hero_nested plan_nested pricing_block_def steps_nested faq_nested references_nested
      video_nested gallery_nested quote_nested stats_nested cta_nested spacer_nested vocabulary_defs
      split: if_splits option.split intro!: nested_element nested_each)

text \<open>A table writes its tags one at a time: all of them belong, but they nest only where a header row
  opens the body that is closed at the end.\<close>

lemma table_rows_ok: "tags_ok page_tag (table_rows hasHead first rs)"
proof (induction hasHead first rs rule: table_rows.induct)
  case (2 hasHead first r rs)
  have "nested (cell_text th c)" for th c
    unfolding cell_text_def by (intro nested_element) (simp_all add: vocabulary_defs)
  then have cells: "tags_ok page_tag (concat (map (cell_text th) cs))" for th cs
    by (intro nested_tags_ok nested_concat)
  have "tags_ok page_tag (show_tag t)" if "t \<in> {Start ''thead'' [] False, Start ''tr'' [] False, Start ''tbody'' [] False,
      Stop ''tr'', Stop ''thead''}" for t
    by (rule tags_ok_page) (use that in \<open>auto simp: vocabulary_defs\<close>)
  from this [of "Start ''thead'' [] False"] this [of "Start ''tr'' [] False"] this [of "Start ''tbody'' [] False"]
    this [of "Stop ''tr''"] this [of "Stop ''thead''"]
  have "tags_ok page_tag (row_text th cs)" for th cs
    unfolding row_text_def by (auto intro!: tags_ok_append cells)
  with 2 show ?case by (auto split: option.split intro: tags_ok_append)
qed simp

lemma table_ok: "table_block b = Inr s \<Longrightarrow> tags_ok page_tag s"
proof -
  assume s: "table_block b = Inr s"
  have "tags_ok page_tag (show_tag t)" if "t \<in> {Start ''div'' [cls ''w-table-wrap''] False, Start ''table'' [cls ''w-table''] False,
      Stop ''tbody'', Stop ''table'', Stop ''div''}" for t
    by (rule tags_ok_page) (use that in \<open>auto simp: vocabulary_defs\<close>)
  from this [of "Start ''div'' [cls ''w-table-wrap''] False"] this [of "Start ''table'' [cls ''w-table''] False"]
    this [of "Stop ''tbody''"] this [of "Stop ''table''"] this [of "Stop ''div''"]
  show ?thesis using s unfolding table_block_def
    by (auto simp: exn_simps simp del: table_rows.simps split: option.splits list.splits intro!: tags_ok_append table_rows_ok)
qed

text \<open>The markup of a form keeps to the same vocabulary.\<close>

lemma input_type_in: "input_type ty \<in> set inputTypes"
  by (auto simp: input_type_def inputTypes_def)

lemma field_nested: "nested (field_text f)"
proof -
  have option: "nested (option_text l)" for l
    unfolding option_text_def by (intro nested_rules) (simp_all add: vocabulary_defs)
  have choices: "nested (element ''option'' [Attr ''value'' []] ''--'' @ concat (map option_text ls))" for ls
    by (intro nested_rules option) (auto simp: vocabulary_defs intro: nested_text)
  have "nested (field_control f)"
    unfolding field_control_def required_attr_def using input_type_in [of "wd_type f"]
    by (auto simp: vocabulary_defs inputTypes_def intro!: nested_void nested_element choices)
  then show ?thesis
    unfolding field_text_def by (intro nested_rules) (auto simp: vocabulary_defs intro: nested_text)
qed

lemma form_nested: "nested (renderForm db slug)"
proof -
  have pot: "nested honeypot"
    unfolding honeypot_def by (intro nested_rules) (auto simp: vocabulary_defs inputTypes_def intro: nested_text)
  have "nested (element ''form'' [cls ''w-form'', Attr ''method'' ''post'', Attr ''action'' (''/site/form/'' @ slug), Attr ''data-slug'' slug]
      (if_some d (element ''p'' [cls ''w-p''] (esc a)) @ concat (map field_text fs) @ honeypot
       @ element ''button'' [Attr ''type'' ''submit'', cls ''w-btn''] (esc b)
       @ element ''p'' [cls ''w-form-msg'', Attr ''role'' ''status''] []))" if "isValidSlug slug" for d a fs b
    by (intro nested_rules field_nested pot) (use that in \<open>auto simp: vocabulary_defs\<close>)
  then show ?thesis unfolding renderForm_def Let_def by (auto split: option.split)
qed

lemma block_ok:
  assumes "block_text geo forms b = Inr s" and "\<forall>f slug. forms = Some f \<longrightarrow> nested (f slug)"
  shows "tags_ok page_tag s"
proof (cases "map_of plain_blocks (str_of b ''type'')")
  case (Some f)
  with assms(1) plain_nested [OF Some] show ?thesis by (auto simp: block_text_def intro: nested_tags_ok)
next
  case None
  have raw: "tags_ok page_tag (html_block b)"
  proof -
    have "tags_ok page_tag (open_tag ''div'' [cls ''w-raw''])" "tags_ok page_tag (close_tag ''div'')"
      using tags_ok_page [of "Start ''div'' [cls ''w-raw''] False"] tags_ok_page [of "Stop ''div''"]
      by (simp_all add: vocabulary_defs)
    moreover have "tags_ok page_tag (sanitize t)" for t
      using sanitize_tags tags_ok_mono author_page_tag by blast
    ultimately show ?thesis by (simp add: html_block_def element_def tags_ok_append)
  qed
  have form: "tags_ok page_tag (form_block forms b)"
    using assms(2) by (auto simp: form_block_def intro: nested_tags_ok split: option.split)
  from None assms(1) raw form show ?thesis
    by (auto simp: block_text_def Let_def intro: table_ok nested_tags_ok [OF map_nested] split: if_splits)
qed

text \<open>C14: a rendered page holds the server's own elements and those an author may use, and nothing else: no
  event handler, links and media at safe addresses only, frames that show a video of one of the two
  providers or the map, and forms that are posted to the site's own form route and whose inputs are of
  one of five types - whatever the blocks are and whatever forms the tables of the site hold.\<close>

theorem page_blocks_safe:
  assumes "render_blocks geo (Some (renderForm db)) blocks = Inr h"
  shows "tags_ok page_tag h"
proof (cases blocks)
  case (JArray bs)
  with assms have run: "foldE (\<lambda>b h. bindE (block_text geo (Some (renderForm db)) b) (\<lambda>s. Inr (h @ s))) (objects bs) [] = Inr h"
    by (simp add: render_blocks_def)
  have forms: "\<forall>f slug. Some (renderForm db) = Some f \<longrightarrow> nested (f slug)" using form_nested by blast
  show ?thesis
    by (rule foldE_invariant [where P = "tags_ok page_tag", OF run tags_ok_Nil])
       (auto simp: exn_simps intro!: tags_ok_append intro: block_ok [OF _ forms])
qed (use assms in \<open>auto simp: render_blocks_def\<close>)

text \<open>Without author markup, tables and forms the page is well nested.\<close>

lemma blocks_nested:
  assumes "render_blocks geo forms (JArray bs) = Inr h"
    and "\<forall>b \<in> set bs. str_of b ''type'' \<notin> {''html'', ''form'', ''table''}"
  shows "nested h"
proof -
  have run: "foldE (\<lambda>b h. bindE (block_text geo forms b) (\<lambda>s. Inr (h @ s))) (objects bs) [] = Inr h"
    using assms(1) by (simp add: render_blocks_def)
  show ?thesis
  proof (rule foldE_invariant [where P = nested, OF run nested_Nil])
    fix b s t assume "b \<in> set (objects bs)" "nested s" "bindE (block_text geo forms b) (\<lambda>u. Inr (s @ u)) = Inr t"
    with assms(2) show "nested t"
      by (auto simp: exn_simps block_text_def Let_def objects_def map_nested
          intro!: nested_append dest: plain_nested split: option.splits if_splits)
  qed
qed

text \<open>A page with a link, a video, author markup and a form.\<close>

definition sample_page :: json where
  "sample_page = JArray
     [JObject [(''type'', JString ''button''), (''href'', JString ''/book''), (''text'', JString ''Book'')],
      JObject [(''type'', JString ''video''), (''src'', JString ''https://youtu.be/aZ_9'')],
      JObject [(''type'', JString ''html''), (''html'', JString ''<b onclick=x>hi</b><script>y</script>'')],
      JObject [(''type'', JString ''form''), (''slug'', JString ''contact'')]]"

definition sample_forms :: form_db where
  "sample_forms = \<lparr>fo_forms = [\<lparr>wf_id = 1, wf_slug = ''contact'', wf_description = None, wf_submit = Some ''Go'', wf_active = True\<rparr>],
     fo_fields = [\<lparr>wd_id = 2, wd_form = 1, wd_name = ''size'', wd_label = ''Size'', wd_type = ''select'', wd_placeholder = None,
        wd_options = Some ''S<'', wd_required = False, wd_sequence = 20\<rparr>,
       \<lparr>wd_id = 1, wd_form = 1, wd_name = ''mail'', wd_label = ''Mail'', wd_type = ''email'', wd_placeholder = None,
        wd_options = None, wd_required = True, wd_sequence = 10\<rparr>]\<rparr>"

definition sample_html :: string where
  "sample_html = ''<p class=\"w-btn-wrap\"><a class=\"w-btn\" href=\"/book\" rel=\"noopener\">Book</a></p>''
     @ ''<figure class=\"w-video\"><div class=\"w-video-frame\"><iframe src=\"https://www.youtube-nocookie.com/embed/aZ_9\"''
     @ '' title=\"Video\" loading=\"lazy\" referrerpolicy=\"no-referrer\"''
     @ '' allow=\"accelerometer; clipboard-write; encrypted-media; picture-in-picture\" allowfullscreen''
     @ '' sandbox=\"allow-scripts allow-same-origin allow-presentation allow-popups\"></iframe></div></figure>''
     @ ''<div class=\"w-raw\"><b>hi</b></div>''
     @ ''<form class=\"w-form\" method=\"post\" action=\"/site/form/contact\" data-slug=\"contact\">''
     @ ''<label class=\"w-field\"><span class=\"w-label\">Mail *</span>''
     @ ''<input type=\"email\" name=\"mail\" placeholder=\"\" maxlength=\"4000\" required=\"required\"/></label>''
     @ ''<label class=\"w-field\"><span class=\"w-label\">Size</span><select name=\"size\"><option value=\"\">--</option>''
     @ ''<option value=\"S&lt;\">S&lt;</option></select></label>''
     @ ''<div class=\"w-hp\" aria-hidden=\"true\"><label>Leave this empty''
     @ ''<input type=\"text\" name=\"website\" tabindex=\"-1\" autocomplete=\"off\"/></label></div>''
     @ ''<button type=\"submit\" class=\"w-btn\">Go</button><p class=\"w-form-msg\" role=\"status\"></p></form>''"

theorem page_blocks_safe_witness: "tags_ok page_tag sample_html"
proof (rule page_blocks_safe)
  show "render_blocks (\<lambda>_ _. None) (Some (renderForm sample_forms)) sample_page = Inr sample_html" by code_simp
qed

subsection \<open>Where the output is not what was meant\<close>

text \<open>A table without a header row closes a body it never opened.\<close>

lemma table_without_head:
  "table_block (JObject [(''header'', JBool False),
     (''items'', JArray [JObject [(''cells'', JArray [JString ''x''])]])])
   = Inr ''<div class=\"w-table-wrap\"><table class=\"w-table\"><tr><td>x</td></tr></tbody></table></div>''"
  by code_simp

text \<open>An author's own \<open>rel\<close> comes first, and of two attributes of one name a browser keeps the first.\<close>

lemma author_rel_first:
  "sanitize ''<a rel=opener target=_blank>x</a>''
   = ''<a rel=\"opener\" target=\"_blank\" rel=\"noopener nofollow ugc\">x</a>''"
  by code_simp

text \<open>A character reference an author writes is escaped again, in text and in addresses.\<close>

lemma references_escaped_again:
  "sanitize ''caf&eacute; <a href=\"/s?a=1&amp;b=2\">x</a>''
   = ''caf&amp;eacute; <a href=\"/s?a=1&amp;amp;b=2\" rel=\"noopener nofollow ugc\">x</a>''"
  by code_simp

end
