(* ===== verification/Leave.thy ===== *)
theory Leave
  imports Dates
begin

section \<open>Time off: leave requests, allocations and balances (modules/hr/HrLeave.cpp)\<close>

text \<open>
  The tables \<open>hr_leave\<close>, \<open>hr_leave_allocation\<close>, \<open>hr_leave_type\<close> and \<open>hr_public_holiday\<close> with the
  constraints of their schema, and the handlers of the two view models. A number of days is a
  \<open>NUMERIC(6,2)\<close> and kept in hundredths; the comparison of a balance with \<open>1e-9\<close> of slack, made on the
  doubles of such numbers, is the comparison of the hundredths. Notes, reasons and the validity dates of
  an allocation are read by no handler and left out. Which rows the record rule and the company clause of
  the generic write let through is the parameter \<open>mine\<close>.
\<close>

subsection \<open>Working days\<close>

text \<open>The number of a day, and \<open>EXTRACT(ISODOW FROM d)\<close>: Monday is 1.\<close>

definition days_before :: "int \<Rightarrow> int \<Rightarrow> int" where
  "days_before y m =
     (let l = (if leap y then 1 else 0) in
      if m = 1 then 0 else if m = 2 then 31 else if m = 3 then 59 + l else if m = 4 then 90 + l
      else if m = 5 then 120 + l else if m = 6 then 151 + l else if m = 7 then 181 + l
      else if m = 8 then 212 + l else if m = 9 then 243 + l else if m = 10 then 273 + l
      else if m = 11 then 304 + l else 334 + l)"

definition day_number :: "date \<Rightarrow> int" where
  "day_number d =
     (let y = dt_year d - 1
      in 365 * y + y div 4 - y div 100 + y div 400 + days_before (dt_year d) (dt_month d) + dt_day d)"

definition isodow :: "date \<Rightarrow> int" where
  "isodow d = (day_number d - 1) mod 7 + 1"

text \<open>\<open>generate_series(a, b, '1 day')\<close>.\<close>

function day_series :: "date \<Rightarrow> date \<Rightarrow> date list" where
  "day_series a b = (if valid_date a \<and> valid_date b \<and> a \<le> b then a # day_series (next_day a) b else [])"
  by pat_completeness auto
termination
proof (relation "measure (\<lambda>(a, b). nat (date_key b + 1 - date_key a))", goal_cases)
  case (2 a b)
  then have "date_key a < date_key (next_day a)" "date_key a \<le> date_key b"
    using date_key_mono [of a "next_day a"] date_key_mono [of b a] next_day_greater [of a] valid_next_day [of a]
    by auto
  then show ?case by simp
qed simp

declare day_series.simps [simp del]

record holiday =
  hd_date :: date
  hd_company :: "int option"

definition holiday_on :: "holiday list \<Rightarrow> int \<Rightarrow> date \<Rightarrow> bool" where
  "holiday_on hs company d \<longleftrightarrow> list_ex (\<lambda>h. hd_date h = d \<and> (hd_company h = Some company \<or> hd_company h = None)) hs"

definition workingDays :: "holiday list \<Rightarrow> date \<Rightarrow> date \<Rightarrow> int \<Rightarrow> int" where
  "workingDays hs dateFrom dateTo company =
     int (length (filter (\<lambda>d. isodow d < 6 \<and> \<not> holiday_on hs company d) (day_series dateFrom dateTo)))"

subsection \<open>The tables\<close>

record leave_type =
  lt_id :: int
  lt_name :: string
  lt_requires :: bool
  lt_active :: bool

record leave_alloc =
  la_id :: int
  la_employee :: int
  la_type :: int
  la_days :: int
  la_state :: string

record leave =
  lv_id :: int
  lv_employee :: int
  lv_type :: int
  lv_from :: date
  lv_to :: date
  lv_days :: int
  lv_state :: string
  lv_company :: int

record leave_db =
  ld_employees :: "int list"
  ld_types :: "leave_type list"
  ld_holidays :: "holiday list"
  ld_allocs :: "leave_alloc list"
  ld_leaves :: "leave list"
  ld_next :: int
  ld_next_alloc :: int

text \<open>A transaction: an exception leaves the database as it was.\<close>

definition in_txn :: "('s \<Rightarrow> 's result) \<Rightarrow> 's \<Rightarrow> unit result \<times> 's" where
  "in_txn m s = (case m s of Inl e \<Rightarrow> (Inl e, s) | Inr t \<Rightarrow> (Inr (), t))"

record leave_balance =
  bl_allocated :: int
  bl_taken :: int
  bl_pending :: int

definition taken_days :: "int \<Rightarrow> int \<Rightarrow> string \<Rightarrow> leave_db \<Rightarrow> int" where
  "taken_days e t state db =
     sum_by (\<lambda>r. lv_employee r = e \<and> lv_type r = t \<and> lv_state r = state) lv_days (ld_leaves db)"

definition allocated_days :: "int \<Rightarrow> int \<Rightarrow> leave_db \<Rightarrow> int" where
  "allocated_days e t db =
     sum_by (\<lambda>a. la_employee a = e \<and> la_type a = t \<and> la_state a = ''validate'') la_days (ld_allocs db)"

definition balanceOf :: "int \<Rightarrow> int \<Rightarrow> leave_db \<Rightarrow> leave_balance" where
  "balanceOf e t db =
     \<lparr>bl_allocated = allocated_days e t db, bl_taken = taken_days e t ''validate'' db,
      bl_pending = taken_days e t ''confirm'' db\<rparr>"

definition find_leave :: "int \<Rightarrow> leave_db \<Rightarrow> leave option" where
  "find_leave i db = find (\<lambda>r. lv_id r = i) (ld_leaves db)"

definition update_leaves :: "(leave \<Rightarrow> bool) \<Rightarrow> (leave \<Rightarrow> leave) \<Rightarrow> leave_db \<Rightarrow> leave_db" where
  "update_leaves P f db = db\<lparr>ld_leaves := map (\<lambda>r. if P r then f r else r) (ld_leaves db)\<rparr>"

definition find_alloc :: "int \<Rightarrow> leave_db \<Rightarrow> leave_alloc option" where
  "find_alloc i db = find (\<lambda>a. la_id a = i) (ld_allocs db)"

definition update_allocs :: "(leave_alloc \<Rightarrow> bool) \<Rightarrow> (leave_alloc \<Rightarrow> leave_alloc) \<Rightarrow> leave_db \<Rightarrow> leave_db" where
  "update_allocs P f db = db\<lparr>ld_allocs := map (\<lambda>a. if P a then f a else a) (ld_allocs db)\<rparr>"

subsection \<open>Allocations\<close>

definition alloc_step_one :: "string list \<Rightarrow> string \<Rightarrow> string \<Rightarrow> int \<Rightarrow> leave_db \<Rightarrow> leave_db result" where
  "alloc_step_one from_states to refusal i db =
     (case find_alloc i db of
        None \<Rightarrow> Inl (ValidationError ''Allocation not found.'')
      | Some a \<Rightarrow>
          if la_state a \<notin> set from_states then Inl (ValidationError refusal)
          else Inr (update_allocs (\<lambda>x. la_id x = i) (\<lambda>x. x\<lparr>la_state := to\<rparr>) db))"

definition alloc_step :: "string list \<Rightarrow> string \<Rightarrow> string \<Rightarrow> int list \<Rightarrow> leave_db \<Rightarrow> unit result \<times> leave_db" where
  "alloc_step from_states to refusal ids = in_txn (foldE (alloc_step_one from_states to refusal) ids)"

definition alloc_confirm :: "int list \<Rightarrow> leave_db \<Rightarrow> unit result \<times> leave_db" where
  "alloc_confirm = alloc_step [''draft''] ''confirm'' ''Only a draft allocation can be submitted.''"

definition alloc_approve :: "int list \<Rightarrow> leave_db \<Rightarrow> unit result \<times> leave_db" where
  "alloc_approve = alloc_step [''confirm''] ''validate'' ''Only a submitted allocation can be approved.''"

definition alloc_refuse :: "int list \<Rightarrow> leave_db \<Rightarrow> unit result \<times> leave_db" where
  "alloc_refuse = alloc_step [''confirm'', ''validate''] ''refuse''
     ''Only a submitted or approved allocation can be refused.''"

text \<open>The generic create: state and day count are those of a new row whatever the client sends.\<close>

definition create_alloc :: "int \<Rightarrow> int \<Rightarrow> int \<Rightarrow> leave_db \<Rightarrow> int result \<times> leave_db" where
  "create_alloc employee type days db =
     (if employee \<le> 0 then (Inl (ValidationError ''An employee is required''), db)
      else if type \<le> 0 then (Inl (ValidationError ''A leave type is required''), db)
      else if days \<le> 0 then (Inl (ValidationError ''Allocated days must be greater than zero''), db)
      else if employee \<notin> set (ld_employees db) \<or> type \<notin> set (map lt_id (ld_types db))
      then (Inl (RuntimeError ''violates foreign key constraint''), db)
      else (Inr (ld_next_alloc db),
        db\<lparr>ld_allocs := ld_allocs db @ [\<lparr>la_id = ld_next_alloc db, la_employee = employee, la_type = type,
             la_days = days, la_state = ''draft''\<rparr>], ld_next_alloc := ld_next_alloc db + 1\<rparr>))"

subsection \<open>Leave requests\<close>

text \<open>Recounting the stored dates.\<close>

definition recount_one :: "int \<Rightarrow> leave_db \<Rightarrow> leave_db" where
  "recount_one i db =
     (case find_leave i db of None \<Rightarrow> db
      | Some r \<Rightarrow>
          update_leaves (\<lambda>x. lv_id x = i)
            (\<lambda>x. x\<lparr>lv_days := 100 * workingDays (ld_holidays db) (lv_from r) (lv_to r) (lv_company r)\<rparr>) db)"

definition recount :: "int list \<Rightarrow> leave_db \<Rightarrow> leave_db" where
  "recount ids db = fold recount_one ids db"

record leave_request =
  rq_employee :: int
  rq_type :: int
  rq_from :: "date option"
  rq_to :: "date option"
  rq_company :: int

definition validate_request :: "leave_request \<Rightarrow> (date \<times> date) result" where
  "validate_request q =
     (if rq_employee q \<le> 0 then Inl (ValidationError ''An employee is required'')
      else if rq_type q \<le> 0 then Inl (ValidationError ''A leave type is required'')
      else case (rq_from q, rq_to q) of
          (Some a, Some b) \<Rightarrow>
            if b < a then Inl (ValidationError ''The end date cannot be before the start date'') else Inr (a, b)
        | _ \<Rightarrow> Inl (ValidationError ''Both dates are required''))"

definition insert_leave :: "leave_request \<Rightarrow> leave_db \<Rightarrow> (int \<times> leave_db) result" where
  "insert_leave q db =
     bindE (validate_request q) (\<lambda>(a, b).
       if rq_company q \<le> 0 then Inl (ValidationError (''The field '' @ quoted ''company_id'' @ '' is required.''))
       else if rq_employee q \<notin> set (ld_employees db) \<or> rq_type q \<notin> set (map lt_id (ld_types db))
       then Inl (RuntimeError ''violates foreign key constraint'')
       else Inr (ld_next db,
         db\<lparr>ld_leaves := ld_leaves db @ [\<lparr>lv_id = ld_next db, lv_employee = rq_employee q, lv_type = rq_type q,
              lv_from = a, lv_to = b, lv_days = 0, lv_state = ''draft'', lv_company = rq_company q\<rparr>],
            ld_next := ld_next db + 1\<rparr>))"

definition create_leave :: "leave_request \<Rightarrow> leave_db \<Rightarrow> int result \<times> leave_db" where
  "create_leave q db =
     (case insert_leave q db of Inl e \<Rightarrow> (Inl e, db) | Inr (i, db1) \<Rightarrow> (Inr i, recount [i] db1))"

text \<open>The columns a generic write may carry: every registered field of the payload is assigned.\<close>

record leave_values =
  va_employee :: "int option"
  va_type :: "int option"
  va_from :: "date option"
  va_to :: "date option"
  va_days :: "int option"
  va_state :: "string option"
  va_company :: "int option"

definition assign :: "'a option \<Rightarrow> 'a \<Rightarrow> 'a" where
  "assign v x = (case v of None \<Rightarrow> x | Some y \<Rightarrow> y)"

definition assign_values :: "leave_values \<Rightarrow> leave \<Rightarrow> leave" where
  "assign_values v r =
     r\<lparr>lv_employee := assign (va_employee v) (lv_employee r), lv_type := assign (va_type v) (lv_type r),
       lv_from := assign (va_from v) (lv_from r), lv_to := assign (va_to v) (lv_to r),
       lv_days := assign (va_days v) (lv_days r), lv_state := assign (va_state v) (lv_state r),
       lv_company := assign (va_company v) (lv_company r)\<rparr>"

definition leave_states :: "string list" where
  "leave_states = [''draft'', ''confirm'', ''validate'', ''refuse'', ''cancel'']"

definition row_error :: "leave_db \<Rightarrow> leave \<Rightarrow> exn option" where
  "row_error db r =
     (if lv_state r \<notin> set leave_states \<or> lv_to r < lv_from r
      then Some (RuntimeError ''violates check constraint'')
      else if lv_employee r \<notin> set (ld_employees db) \<or> lv_type r \<notin> set (map lt_id (ld_types db))
      then Some (RuntimeError ''violates foreign key constraint'')
      else None)"

definition write_rows :: "(leave \<Rightarrow> bool) \<Rightarrow> int list \<Rightarrow> leave_values \<Rightarrow> leave_db \<Rightarrow> leave_db result" where
  "write_rows mine ids v db =
     (let hit = (\<lambda>r. lv_id r \<in> set ids \<and> mine r);
          db' = update_leaves hit (assign_values v) db
      in case List.map_filter (row_error db) (map (assign_values v) (filter hit (ld_leaves db))) of
           e # _ \<Rightarrow> Inl e | [] \<Rightarrow> Inr db')"

definition check_editable :: "int \<Rightarrow> leave_db \<Rightarrow> leave_db result" where
  "check_editable i db =
     (case find_leave i db of None \<Rightarrow> Inr db
      | Some r \<Rightarrow>
          if lv_state r = ''validate'' \<or> lv_state r = ''refuse''
          then Inl (ValidationError (''This leave is already '' @ lv_state r @ ''d. Reset it to draft before editing.''))
          else Inr db)"

text \<open>The three transactions of a write, one after the other.\<close>

definition write_leave :: "(leave \<Rightarrow> bool) \<Rightarrow> int list \<Rightarrow> leave_values \<Rightarrow> leave_db \<Rightarrow> unit result \<times> leave_db" where
  "write_leave mine ids v db =
     (case foldE check_editable ids db of Inl e \<Rightarrow> (Inl e, db)
      | Inr _ \<Rightarrow> (case write_rows mine ids v db of Inl e \<Rightarrow> (Inl e, db)
          | Inr db1 \<Rightarrow> (Inr (), recount ids db1)))"

text \<open>The generic write and unlink of allocations and requests: they carry any registered column, the state of an
  allocation and its days among them.\<close>

record alloc_values =
  vl_employee :: "int option"
  vl_type :: "int option"
  vl_days :: "int option"
  vl_state :: "string option"

definition assign_alloc :: "alloc_values \<Rightarrow> leave_alloc \<Rightarrow> leave_alloc" where
  "assign_alloc v a =
     a\<lparr>la_employee := assign (vl_employee v) (la_employee a), la_type := assign (vl_type v) (la_type a),
       la_days := assign (vl_days v) (la_days a), la_state := assign (vl_state v) (la_state a)\<rparr>"

definition alloc_error :: "leave_db \<Rightarrow> leave_alloc \<Rightarrow> exn option" where
  "alloc_error db a =
     (if la_state a \<notin> {''draft'', ''confirm'', ''validate'', ''refuse''} \<or> la_days a < 0
      then Some (RuntimeError ''violates check constraint'')
      else if la_employee a \<notin> set (ld_employees db) \<or> la_type a \<notin> set (map lt_id (ld_types db))
      then Some (RuntimeError ''violates foreign key constraint'')
      else None)"

definition write_alloc :: "(leave_alloc \<Rightarrow> bool) \<Rightarrow> int list \<Rightarrow> alloc_values \<Rightarrow> leave_db \<Rightarrow> unit result \<times> leave_db" where
  "write_alloc mine ids v db =
     (let hit = (\<lambda>a. la_id a \<in> set ids \<and> mine a)
      in case List.map_filter (alloc_error db) (map (assign_alloc v) (filter hit (ld_allocs db))) of
           e # _ \<Rightarrow> (Inl e, db) | [] \<Rightarrow> (Inr (), update_allocs hit (assign_alloc v) db))"

definition unlink_alloc :: "(leave_alloc \<Rightarrow> bool) \<Rightarrow> int list \<Rightarrow> leave_db \<Rightarrow> leave_db" where
  "unlink_alloc mine ids db = db\<lparr>ld_allocs := filter (\<lambda>a. \<not> (la_id a \<in> set ids \<and> mine a)) (ld_allocs db)\<rparr>"

definition unlink_leave :: "(leave \<Rightarrow> bool) \<Rightarrow> int list \<Rightarrow> leave_db \<Rightarrow> leave_db" where
  "unlink_leave mine ids db = db\<lparr>ld_leaves := filter (\<lambda>r. \<not> (lv_id r \<in> set ids \<and> mine r)) (ld_leaves db)\<rparr>"

subsection \<open>The buttons of a request\<close>

definition days_text :: "int \<Rightarrow> string" where
  "days_text d = int_to_string (cdiv d 100)"

definition overlaps_approved :: "leave \<Rightarrow> leave_db \<Rightarrow> bool" where
  "overlaps_approved r db \<longleftrightarrow>
     list_ex (\<lambda>s. lv_employee s = lv_employee r \<and> lv_id s \<noteq> lv_id r \<and> lv_state s = ''validate''
       \<and> lv_from s \<le> lv_to r \<and> lv_from r \<le> lv_to s) (ld_leaves db)"

definition check_balance :: "leave \<Rightarrow> leave_db \<Rightarrow> unit result" where
  "check_balance r db =
     (case find (\<lambda>t. lt_id t = lv_type r) (ld_types db) of None \<Rightarrow> Inr ()
      | Some t \<Rightarrow>
          let b = balanceOf (lv_employee r) (lv_type r) db; remaining = bl_allocated b - bl_taken b
          in if lt_requires t \<and> remaining < lv_days r
             then Inl (ValidationError (''Not enough '' @ lt_name t @ '' remaining: '' @ days_text remaining
               @ '' day(s) left, '' @ days_text (lv_days r) @ '' requested.''))
             else Inr ())"

definition set_leave_state :: "int \<Rightarrow> string \<Rightarrow> leave_db \<Rightarrow> leave_db" where
  "set_leave_state i st db = update_leaves (\<lambda>x. lv_id x = i) (\<lambda>x. x\<lparr>lv_state := st\<rparr>) db"

definition approve_one :: "int \<Rightarrow> leave_db \<Rightarrow> leave_db result" where
  "approve_one i db =
     (case find_leave i db of
        None \<Rightarrow> Inl (ValidationError ''Leave request not found.'')
      | Some r \<Rightarrow>
          if lv_state r \<noteq> ''confirm''
          then Inl (ValidationError ''Only a submitted leave request can be approved.'')
          else if lv_days r \<le> 0
          then Inl (ValidationError (''This request covers no working days ''
            @ map char_of [226, 128, 148 :: nat] @ '' check the dates, weekends and public holidays.''))
          else if overlaps_approved r db
          then Inl (ValidationError ''This employee already has approved leave overlapping those dates.'')
          else bindE (check_balance r db) (\<lambda>_. Inr (set_leave_state i ''validate'' db)))"

definition approve_leave :: "int list \<Rightarrow> leave_db \<Rightarrow> unit result \<times> leave_db" where
  "approve_leave ids = in_txn (foldE approve_one ids)"

definition leave_step_one :: "string list \<Rightarrow> string \<Rightarrow> string \<Rightarrow> int \<Rightarrow> leave_db \<Rightarrow> leave_db result" where
  "leave_step_one from_states to refusal i db =
     (case find_leave i db of
        None \<Rightarrow> Inl (ValidationError ''Leave request not found.'')
      | Some r \<Rightarrow>
          if lv_state r \<notin> set from_states then Inl (ValidationError refusal)
          else Inr (set_leave_state i to db))"

definition leave_step :: "string list \<Rightarrow> string \<Rightarrow> string \<Rightarrow> int list \<Rightarrow> leave_db \<Rightarrow> unit result \<times> leave_db" where
  "leave_step from_states to refusal ids = in_txn (foldE (leave_step_one from_states to refusal) ids)"

definition confirm_leave :: "int list \<Rightarrow> leave_db \<Rightarrow> unit result \<times> leave_db" where
  "confirm_leave = leave_step [''draft''] ''confirm'' ''Only a draft leave request can be submitted.''"

definition refuse_leave :: "int list \<Rightarrow> leave_db \<Rightarrow> unit result \<times> leave_db" where
  "refuse_leave = leave_step [''confirm'', ''validate''] ''refuse''
     ''Only a submitted or approved leave request can be refused.''"

definition cancel_leave :: "int list \<Rightarrow> leave_db \<Rightarrow> unit result \<times> leave_db" where
  "cancel_leave = leave_step [''draft'', ''confirm'', ''validate''] ''cancel'' ''This leave request cannot be cancelled.''"

definition reset_leave :: "int list \<Rightarrow> leave_db \<Rightarrow> unit result \<times> leave_db" where
  "reset_leave = leave_step [''confirm'', ''refuse'', ''cancel''] ''draft''
     ''Only a submitted, refused or cancelled request can be reset to draft.''"

text \<open>\<open>leave_balance\<close>: one row per active type, by name under the collation \<open>rank\<close>.\<close>

record balance_row =
  br_type :: int
  br_name :: string
  br_requires :: bool
  br_balance :: leave_balance
  br_remaining :: int

definition leave_balances :: "(string \<Rightarrow> int) \<Rightarrow> int \<Rightarrow> int \<Rightarrow> leave_db \<Rightarrow> balance_row list result" where
  "leave_balances rank employee only db =
     (if employee \<le> 0 then Inl (ValidationError ''An employee is required.'')
      else Inr (map (\<lambda>t.
          let b = balanceOf employee (lt_id t) db
          in \<lparr>br_type = lt_id t, br_name = lt_name t, br_requires = lt_requires t, br_balance = b,
              br_remaining = (if lt_requires t then bl_allocated b - bl_taken b else 0)\<rparr>)
        (sort_key (\<lambda>t. rank (lt_name t))
          (filter (\<lambda>t. lt_active t \<and> (only > 0 \<longrightarrow> lt_id t = only)) (ld_types db)))))"

subsection \<open>The calendar is the calendar\<close>

lemma leap_sum:
  fixes a a' b b' c c' :: int
  assumes "a = a' + (if p then 1 else 0)" "b = b' + (if q then 1 else 0)" "c = c' + (if r then 1 else 0)"
    and "r \<Longrightarrow> q" "q \<Longrightarrow> p"
  shows "a - b + c = a' - b' + c' + (if p \<and> (\<not> q \<or> r) then 1 else 0)"
  using assms by auto

lemma div_step:
  fixes y k :: int
  assumes "0 < k"
  shows "y div k = (y - 1) div k + (if y mod k = 0 then 1 else 0)"
proof (cases "y mod k = 0")
  case True
  have "y = k * (y div k) + y mod k" by simp
  with True have eq: "y - 1 = k * (y div k - 1) + (k - 1)" unfolding right_diff_distrib by linarith
  have "(y - 1) div k = y div k - 1" by (rule int_div_pos_eq [OF eq]) (use assms in simp_all)
  with True show ?thesis by simp
next
  case False
  have "y - 1 = k * (y div k) + (y mod k - 1)" by simp
  moreover have "0 \<le> y mod k" "y mod k < k" using assms by simp_all
  ultimately have "(y - 1) div k = y div k"
    using False int_div_pos_eq [of "y - 1" k "y div k" "y mod k - 1"] by simp
  with False show ?thesis by simp
qed

lemma leap_steps:
  "y div 4 - y div 100 + y div 400 = (y - 1) div 4 - (y - 1) div 100 + (y - 1) div 400 + (if leap y then 1 else (0 :: int))"
  unfolding leap_def
proof (rule leap_sum)
  show "y mod 400 = 0 \<Longrightarrow> y mod 100 = 0" "y mod 100 = 0 \<Longrightarrow> y mod 4 = 0"
    using dvd_trans [of 100 400 y] dvd_trans [of 4 100 y] by (simp_all add: mod_eq_0_iff_dvd)
qed (rule div_step, simp)+

lemma day_number_next:
  assumes "valid_date d"
  shows "day_number (next_day d) = day_number d + 1"
  using assms
proof (cases rule: next_day_cases)
  case (within y m a)
  then show ?thesis by (simp add: day_number_def Let_def)
next
  case (over y m)
  with assms have m: "1 \<le> m" "m \<le> 12" by (simp_all add: valid_date_def)
  show ?thesis
  proof (cases "m = 12")
    case True
    have "of_index (y * 12 + m) 1 = Date (y + 1) 1 1" using of_index_month [of 1 "y + 1" 1] True by (simp add: algebra_simps)
    moreover have "day_number (Date (y + 1) 1 1) = 365 * y + y div 4 - y div 100 + y div 400 + 1"
      by (simp add: day_number_def Let_def days_before_def)
    moreover have "day_number (Date y 12 (days_in_month y 12)) =
        365 * y + (y - 1) div 4 - (y - 1) div 100 + (y - 1) div 400 + (if leap y then 1 else 0)"
      by (simp add: day_number_def Let_def days_before_def days_in_month_def)
    ultimately show ?thesis using over True leap_steps [of y] by simp
  next
    case False
    have next_m: "of_index (y * 12 + m) 1 = Date y (m + 1) 1"
      using of_index_month [of "m + 1" y 1] m False by (simp add: algebra_simps)
    from m False have "m = 1 \<or> m = 2 \<or> m = 3 \<or> m = 4 \<or> m = 5 \<or> m = 6 \<or> m = 7 \<or> m = 8 \<or> m = 9 \<or> m = 10 \<or> m = 11"
      by presburger
    then have "days_before y (m + 1) = days_before y m + days_in_month y m"
      by (elim disjE) (simp_all add: days_before_def days_in_month_def)
    with over next_m show ?thesis by (simp add: day_number_def Let_def)
  qed
qed

lemma isodow_next: "valid_date d \<Longrightarrow> isodow (next_day d) = isodow d mod 7 + 1"
  unfolding isodow_def day_number_next by presburger

lemma next_day_least:
  assumes "valid_date a" "valid_date d" "a < d"
  shows "next_day a \<le> d"
  using assms(1)
proof (cases rule: next_day_cases)
  case (within y m n)
  with assms(2,3) show ?thesis by (cases d) auto
next
  case (over y m)
  with assms(1) have m: "1 \<le> m" "m \<le> 12" by (simp_all add: valid_date_def)
  have "month_index a < month_index d"
    using over m assms(2,3) by (cases d) (auto simp: valid_date_def)
  then have "y * 12 + m \<le> month_index d" using over by simp
  then show ?thesis
  proof (cases "y * 12 + m = month_index d")
    case True
    with over assms(2) show ?thesis
      using of_index_self [of d] by (cases d) (auto simp: of_index_def valid_date_def)
  next
    case False
    with \<open>y * 12 + m \<le> month_index d\<close> over assms(2) have "next_day a < d"
      by (intro month_index_less) (simp_all add: valid_date_def)
    then show ?thesis by simp
  qed
qed

lemma day_series_exact:
  assumes "valid_date a" "valid_date b"
  shows "d \<in> set (day_series a b) \<longleftrightarrow> valid_date d \<and> a \<le> d \<and> d \<le> b"
  using assms
proof (induction a b rule: day_series.induct)
  case (1 a b)
  show ?case
  proof (cases "a \<le> b")
    case True
    with 1 have "d \<in> set (day_series (next_day a) b) \<longleftrightarrow> valid_date d \<and> next_day a \<le> d \<and> d \<le> b"
      by (simp add: valid_next_day)
    with True 1 next_day_greater [of a] next_day_least [of a d] show ?thesis
      by (subst day_series.simps) (auto simp: le_less)
  next
    case False
    then show ?thesis by (subst day_series.simps) auto
  qed
qed

lemma day_series_distinct: "distinct (day_series a b)"
proof (induction a b rule: day_series.induct)
  case (1 a b)
  show ?case
  proof (cases "valid_date a \<and> valid_date b \<and> a \<le> b")
    case True
    with day_series_exact [of "next_day a" b a] next_day_greater [of a] 1 show ?thesis
      by (subst day_series.simps) (auto simp: valid_next_day)
  next
    case False
    then show ?thesis by (subst day_series.simps) auto
  qed
qed

subsection \<open>The books of time off\<close>

text \<open>The requests approved by the button: those whose state no plain write has set, \<open>W\<close> being the requests
  whose state was written.\<close>

definition approved_of :: "int set \<Rightarrow> leave_db \<Rightarrow> leave list" where
  "approved_of W db = filter (\<lambda>r. lv_state r = ''validate'' \<and> lv_id r \<notin> W) (ld_leaves db)"

definition approved_days :: "int set \<Rightarrow> int \<Rightarrow> int \<Rightarrow> leave_db \<Rightarrow> int" where
  "approved_days W e t db = sum_by (\<lambda>r. lv_employee r = e \<and> lv_type r = t) lv_days (approved_of W db)"

definition disjoint_leaves :: "leave \<Rightarrow> leave \<Rightarrow> bool" where
  "disjoint_leaves r s \<longleftrightarrow> lv_to r < lv_from s \<or> lv_to s < lv_from r"

text \<open>Ids are unique, dates ordered, approved requests of a person disjoint and of some length.\<close>

definition leave_ok :: "int set \<Rightarrow> leave_db \<Rightarrow> bool" where
  "leave_ok W db \<longleftrightarrow>
     distinct (map lv_id (ld_leaves db)) \<and> (\<forall>r \<in> set (ld_leaves db). lv_id r < ld_next db \<and> lv_from r \<le> lv_to r)
     \<and> (\<forall>r \<in> set (approved_of W db). 0 < lv_days r \<and>
          (\<forall>s \<in> set (approved_of W db). lv_id r \<noteq> lv_id s \<longrightarrow> lv_employee r = lv_employee s \<longrightarrow> disjoint_leaves r s))"

definition limited :: "int \<Rightarrow> leave_db \<Rightarrow> bool" where
  "limited t db \<longleftrightarrow> (case find (\<lambda>x. lt_id x = t) (ld_types db) of None \<Rightarrow> False | Some x \<Rightarrow> lt_requires x)"

text \<open>\<open>taken_back e t\<close> counts the days that were allocated and are no longer: by refusing an approved
  allocation, by deleting it, or by a plain write of its days or state.\<close>

type_synonym taken_back = "int \<Rightarrow> int \<Rightarrow> int"

definition within_allocation :: "int set \<Rightarrow> taken_back \<Rightarrow> leave_db \<Rightarrow> bool" where
  "within_allocation W wd db \<longleftrightarrow> (\<forall>e t. limited t db \<longrightarrow> approved_days W e t db \<le> allocated_days e t db + wd e t)"

definition counted :: "holiday list \<Rightarrow> leave \<Rightarrow> leave" where
  "counted hs r = r\<lparr>lv_days := 100 * workingDays hs (lv_from r) (lv_to r) (lv_company r)\<rparr>"

definition days_counted :: "leave_db \<Rightarrow> bool" where
  "days_counted db \<longleftrightarrow> (\<forall>r \<in> set (ld_leaves db). counted (ld_holidays db) r = r)"

lemma update_leaves_simps [simp]:
  "ld_employees (update_leaves P f db) = ld_employees db" "ld_types (update_leaves P f db) = ld_types db"
  "ld_holidays (update_leaves P f db) = ld_holidays db" "ld_allocs (update_leaves P f db) = ld_allocs db"
  "ld_next (update_leaves P f db) = ld_next db" "ld_next_alloc (update_leaves P f db) = ld_next_alloc db"
  "ld_leaves (update_leaves P f db) = map (\<lambda>r. if P r then f r else r) (ld_leaves db)"
  by (simp_all add: update_leaves_def)

lemma set_leave_state_simps [simp]:
  "ld_employees (set_leave_state i st db) = ld_employees db" "ld_types (set_leave_state i st db) = ld_types db"
  "ld_holidays (set_leave_state i st db) = ld_holidays db" "ld_allocs (set_leave_state i st db) = ld_allocs db"
  "ld_next (set_leave_state i st db) = ld_next db" "ld_next_alloc (set_leave_state i st db) = ld_next_alloc db"
  "ld_leaves (set_leave_state i st db) = map (\<lambda>r. if lv_id r = i then r\<lparr>lv_state := st\<rparr> else r) (ld_leaves db)"
  by (simp_all add: set_leave_state_def)

lemma counted_simps [simp]:
  "lv_id (counted hs r) = lv_id r" "lv_from (counted hs r) = lv_from r" "lv_to (counted hs r) = lv_to r"
  "lv_state (counted hs r) = lv_state r" "lv_company (counted hs r) = lv_company r" "lv_employee (counted hs r) = lv_employee r"
  "lv_type (counted hs r) = lv_type r" "counted hs (counted hs r) = counted hs r"
  "counted hs (r\<lparr>lv_state := st\<rparr>) = (counted hs r)\<lparr>lv_state := st\<rparr>"
  by (simp_all add: counted_def)

lemma counted_nonneg: "0 \<le> lv_days (counted hs r)"
  by (simp add: counted_def workingDays_def)

lemma find_leave_row:
  assumes "find_leave i db = Some r"
  shows "r \<in> set (ld_leaves db)" "lv_id r = i"
  using assms by (auto simp: find_leave_def find_Some_iff dest: nth_mem)

lemma find_leave_same:
  assumes "distinct (map lv_id (ld_leaves db))" "x \<in> set (ld_leaves db)" "lv_id x = i"
  shows "find_leave i db = Some x"
  using assms unfolding find_leave_def
proof (induction "ld_leaves db" arbitrary: db)
  case (Cons y ys)
  then show ?case using Cons.hyps(1) [of "db\<lparr>ld_leaves := ys\<rparr>"] Cons.hyps(2) [symmetric] by (auto simp: image_iff)
qed simp

text \<open>Recounting rewrites the rows it is given, each from its own dates.\<close>

lemma recount_exact:
  "distinct (map lv_id (ld_leaves db)) \<Longrightarrow>
   recount ids db = update_leaves (\<lambda>r. lv_id r \<in> set ids) (counted (ld_holidays db)) db"
proof (induction ids arbitrary: db)
  case Nil
  then show ?case by (simp add: recount_def update_leaves_def)
next
  case (Cons i ids)
  have one: "recount_one i db = update_leaves (\<lambda>r. lv_id r = i) (counted (ld_holidays db)) db"
  proof (cases "find_leave i db")
    case None
    then have "\<forall>r \<in> set (ld_leaves db). lv_id r \<noteq> i" by (auto simp: find_leave_def find_None_iff)
    then have "map (\<lambda>r. if lv_id r = i then counted (ld_holidays db) r else r) (ld_leaves db) = ld_leaves db"
      by (intro map_idI) auto
    with None show ?thesis by (simp add: recount_one_def update_leaves_def)
  next
    case (Some r)
    then have "\<And>x. x \<in> set (ld_leaves db) \<Longrightarrow> lv_id x = i \<Longrightarrow> x = r"
      using find_leave_same [OF Cons.prems] by fastforce
    with Some show ?thesis by (auto simp: recount_one_def update_leaves_def counted_def)
  qed
  have ids: "distinct (map lv_id (ld_leaves (recount_one i db)))"
  proof -
    have "map lv_id (ld_leaves (recount_one i db)) = map lv_id (ld_leaves db)" by (simp add: one)
    with Cons.prems show ?thesis by metis
  qed
  have "recount (i # ids) db = recount ids (recount_one i db)" by (simp add: recount_def)
  also have "\<dots> = update_leaves (\<lambda>r. lv_id r \<in> set ids) (counted (ld_holidays db)) (recount_one i db)"
    using Cons.IH [OF ids] by (simp add: one)
  also have "\<dots> = update_leaves (\<lambda>r. lv_id r \<in> set (i # ids)) (counted (ld_holidays db)) db"
    by (simp add: one update_leaves_def)
  finally show ?case .
qed

text \<open>What the operations keep: the state of the tables, the requests whose state was written, and the days that
  were taken back from what was allocated.\<close>

type_synonym time_books = "leave_db \<times> int set \<times> taken_back"

definition leave_books :: "time_books \<Rightarrow> bool" where
  "leave_books = (\<lambda>(db, W, wd). leave_ok W db \<and> within_allocation W wd db \<and> days_counted db \<and> (\<forall>e t. 0 \<le> wd e t))"

definition withdrawn :: "leave_db \<Rightarrow> leave_db \<Rightarrow> taken_back \<Rightarrow> taken_back" where
  "withdrawn db db' wd = (\<lambda>e t. wd e t + max 0 (allocated_days e t db - allocated_days e t db'))"

subsection \<open>What each handler keeps\<close>

lemma sum_by_if: "sum_by P f xs = sum_list (map (\<lambda>x. if P x then f x else 0) xs)"
  by (induction xs) auto

lemma sum_by_less: "(\<And>x. x \<in> set xs \<Longrightarrow> 0 \<le> f x) \<Longrightarrow> sum_by P f (filter Q xs) \<le> sum_by P f xs"
proof (induction xs)
  case (Cons x xs)
  then have "sum_by P f (filter Q xs) \<le> sum_by P f xs" "0 \<le> f x" by auto
  then show ?case by auto
qed simp

lemma taken_approved: "taken_days e t ''validate'' db = approved_days {} e t db"
  by (simp add: taken_days_def approved_days_def approved_of_def sum_by_def conj_ac)

lemma approved_within_taken: "days_counted db \<Longrightarrow> approved_days W e t db \<le> taken_days e t ''validate'' db"
proof -
  assume "days_counted db"
  then have nonneg: "0 \<le> lv_days r" if "r \<in> set (ld_leaves db)" for r using that counted_nonneg by (metis days_counted_def)
  have "approved_days W e t db \<le> approved_days {} e t db"
  proof -
    have "approved_of W db = filter (\<lambda>r. lv_id r \<notin> W) (approved_of {} db)" by (simp add: approved_of_def conj_commute)
    then show ?thesis unfolding approved_days_def
      by (simp only:) (rule sum_by_less, use nonneg in \<open>auto simp: approved_of_def\<close>)
  qed
  then show ?thesis by (simp add: taken_approved)
qed

text \<open>An operation that only takes requests out of the approved ones keeps what holds of them.\<close>

lemma books_fewer:
  assumes books: "leave_books (db, W, wd)" and d: "distinct (map lv_id (ld_leaves db'))"
    and rows: "\<forall>r \<in> set (ld_leaves db'). lv_id r < ld_next db' \<and> lv_from r \<le> lv_to r"
    and less: "approved_of W' db' = filter Q (approved_of W db)" and days: "days_counted db'"
    and types: "ld_types db' = ld_types db"
    and wd: "\<And>e t. allocated_days e t db + wd e t \<le> allocated_days e t db' + wd' e t" "\<And>e t. 0 \<le> wd' e t"
  shows "leave_books (db', W', wd')"
proof -
  have ok: "leave_ok W db" and within: "within_allocation W wd db" using books by (auto simp: leave_books_def)
  have "leave_ok W' db'" using ok d rows unfolding leave_ok_def less by auto
  moreover have "approved_days W' e t db' \<le> approved_days W e t db" for e t
    unfolding approved_days_def less by (rule sum_by_less) (use ok in \<open>auto simp: leave_ok_def less_imp_le\<close>)
  then have "within_allocation W' wd' db'"
    using within wd(1) unfolding within_allocation_def limited_def types by (meson order_trans)
  ultimately show ?thesis using days wd(2) by (simp add: leave_books_def)
qed

lemma books_same_leaves:
  assumes "leave_books (db, W, wd)" "ld_leaves db' = ld_leaves db" "ld_types db' = ld_types db" "ld_holidays db' = ld_holidays db"
    "ld_next db' = ld_next db"
  shows "leave_books (db', W, withdrawn db db' wd)"
  using assms by (intro books_fewer [OF assms(1), where Q = "\<lambda>_. True"])
    (auto simp: leave_books_def leave_ok_def days_counted_def approved_of_def withdrawn_def max_def add_increasing)

lemma books_more_back:
  assumes "leave_books (db', W, wd)"
  shows "leave_books (db', W, withdrawn db db' wd)"
  using assms by (intro books_fewer [OF assms, where Q = "\<lambda>_. True"])
    (auto simp: leave_books_def leave_ok_def withdrawn_def max_def add_increasing)

lemma rows_set_state:
  assumes "leave_ok W db"
  shows "distinct (map lv_id (ld_leaves (set_leave_state i st db)))"
    and "\<forall>r \<in> set (ld_leaves (set_leave_state i st db)). lv_id r < ld_next db \<and> lv_from r \<le> lv_to r"
proof -
  have "map lv_id (ld_leaves (set_leave_state i st db)) = map lv_id (ld_leaves db)" by simp
  then show "distinct (map lv_id (ld_leaves (set_leave_state i st db)))" using assms unfolding leave_ok_def by metis
  show "\<forall>r \<in> set (ld_leaves (set_leave_state i st db)). lv_id r < ld_next db \<and> lv_from r \<le> lv_to r"
    using assms by (auto simp: leave_ok_def)
qed

lemma counted_set_state: "days_counted db \<Longrightarrow> days_counted (set_leave_state i st db)"
  by (auto simp: days_counted_def)

lemma allocated_set_state [simp]: "allocated_days e t (set_leave_state i st db) = allocated_days e t db"
  by (simp add: allocated_days_def)

text \<open>Taking a request out of the approved ones, or moving one that is not among them.\<close>

lemma approved_set_state:
  "st \<noteq> ''validate'' \<Longrightarrow> approved_of W (set_leave_state i st db) = filter (\<lambda>r. lv_id r \<noteq> i) (approved_of W db)"
proof -
  assume st: "st \<noteq> ''validate''"
  have "filter (\<lambda>r. lv_state r = ''validate'' \<and> lv_id r \<notin> W) (map (\<lambda>r. if lv_id r = i then r\<lparr>lv_state := st\<rparr> else r) rs)
      = filter (\<lambda>r. lv_id r \<noteq> i) (filter (\<lambda>r. lv_state r = ''validate'' \<and> lv_id r \<notin> W) rs)" for rs
    using st by (induction rs) auto
  then show ?thesis by (simp add: approved_of_def)
qed

lemma books_set_state:
  assumes "leave_books (db, W, wd)" "st \<noteq> ''validate''"
  shows "leave_books (set_leave_state i st db, W, wd)"
proof -
  have ok: "leave_ok W db" and days: "days_counted db" using assms(1) by (auto simp: leave_books_def)
  show ?thesis
    by (rule books_fewer [OF assms(1) rows_set_state(1) [OF ok] _ approved_set_state [OF assms(2)] counted_set_state [OF days]])
       (use rows_set_state(2) [OF ok] assms(1) in \<open>auto simp: leave_books_def\<close>)
qed

lemma books_unlink_leave:
  assumes "leave_books (db, W, wd)"
  shows "leave_books (unlink_leave mine ids db, W, wd)"
proof (rule books_fewer [OF assms, where Q = "\<lambda>r. \<not> (lv_id r \<in> set ids \<and> mine r)"])
  show "approved_of W (unlink_leave mine ids db) = filter (\<lambda>r. \<not> (lv_id r \<in> set ids \<and> mine r)) (approved_of W db)"
    by (simp add: approved_of_def unlink_leave_def conj_ac)
qed (use assms in \<open>auto simp: unlink_leave_def leave_books_def leave_ok_def days_counted_def allocated_days_def distinct_map_filter\<close>)

text \<open>Approving: the request meets none of the approved ones of its employee and fits in the balance.\<close>

lemma books_approve_one:
  assumes "approve_one i db = Inr db'" "leave_books (db, W, wd)"
  shows "leave_books (db', W, wd)"
proof -
  from assms(1) obtain r where r: "find_leave i db = Some r" "lv_state r = ''confirm''" "0 < lv_days r"
    and free: "\<not> overlaps_approved r db" and bal: "check_balance r db = Inr ()" and db': "db' = set_leave_state i ''validate'' db"
    by (auto simp: approve_one_def exn_simps split: option.splits if_splits)
  have ok: "leave_ok W db" and within: "within_allocation W wd db" and days: "days_counted db" and wd: "0 \<le> wd e t" for e t
    using assms(2) by (auto simp: leave_books_def)
  have dist: "distinct (map lv_id (ld_leaves db))" using ok by (simp add: leave_ok_def)
  have in_r: "r \<in> set (ld_leaves db)" "lv_id r = i" using find_leave_row [OF r(1)] by auto
  define n where "n = r\<lparr>lv_state := ''validate''\<rparr>"
  have approved: "set (approved_of W db') \<subseteq> insert n (set (approved_of W db))"
  proof
    fix x assume "x \<in> set (approved_of W db')"
    then obtain y where y: "y \<in> set (ld_leaves db)" "x = (if lv_id y = i then y\<lparr>lv_state := ''validate''\<rparr> else y)"
      "lv_state x = ''validate''" "lv_id x \<notin> W" by (auto simp: approved_of_def db')
    show "x \<in> insert n (set (approved_of W db))"
    proof (cases "lv_id y = i")
      case True
      with find_leave_same [OF dist y(1)] r(1) have "y = r" by simp
      with y True show ?thesis by (simp add: n_def)
    qed (use y in \<open>simp add: approved_of_def\<close>)
  qed
  have apart: "disjoint_leaves n s \<and> disjoint_leaves s n" if "s \<in> set (approved_of W db)" "lv_id s \<noteq> i" "lv_employee s = lv_employee r" for s
    using free that in_r(2)
    by (auto simp: overlaps_approved_def list_ex_iff approved_of_def disjoint_leaves_def n_def not_le)
  have nn: "lv_id n = i" "lv_employee n = lv_employee r" "lv_days n = lv_days r" by (simp_all add: n_def in_r)
  have "leave_ok W db'"
    unfolding leave_ok_def
  proof (intro conjI ballI impI)
    show "distinct (map lv_id (ld_leaves db'))" unfolding db' by (rule rows_set_state(1) [OF ok])
    fix x assume "x \<in> set (approved_of W db')"
    then have x: "x = n \<or> x \<in> set (approved_of W db)" using approved by auto
    then show "0 < lv_days x" using ok r(3) nn by (auto simp: leave_ok_def)
    fix y assume y: "y \<in> set (approved_of W db')" and xy: "lv_id x \<noteq> lv_id y" "lv_employee x = lv_employee y"
    then consider "x = n" "y \<in> set (approved_of W db)" | "y = n" "x \<in> set (approved_of W db)"
      | "x \<in> set (approved_of W db)" "y \<in> set (approved_of W db)" using x approved by auto
    then show "disjoint_leaves x y"
    proof cases
      case 1
      with apart [of y] xy nn show ?thesis by simp
    next
      case 2
      with apart [of x] xy nn show ?thesis by simp
    next
      case 3
      with ok xy show ?thesis unfolding leave_ok_def by blast
    qed
  qed (use rows_set_state(2) [OF ok, of i "''validate''"] in \<open>auto simp: db'\<close>)
  moreover have "days_counted db'" unfolding db' by (rule counted_set_state [OF days])
  moreover have "within_allocation W wd db'"
    unfolding within_allocation_def
  proof (intro allI impI)
    fix e t assume lim: "limited t db'"
    let ?P = "\<lambda>x. lv_employee x = e \<and> lv_type x = t \<and> lv_state x = ''validate'' \<and> lv_id x \<notin> W"
    let ?g = "\<lambda>x. if ?P x then lv_days x else 0"
    have sum: "approved_days W e t d = sum_list (map ?g (ld_leaves d))" for d
      by (simp add: approved_days_def approved_of_def sum_by_if [symmetric] sum_by_def conj_ac)
    have "approved_days W e t db' = approved_days W e t db - ?g r + ?g n"
      using sum_update_key [where key = lv_id and g = ?g and f = "\<lambda>x. x\<lparr>lv_state := ''validate''\<rparr>", OF dist in_r(1)]
      by (simp add: sum db' in_r(2) n_def)
    also have "\<dots> = approved_days W e t db + (if lv_employee r = e \<and> lv_type r = t \<and> i \<notin> W then lv_days r else 0)"
      using r(2) in_r(2) by (simp add: n_def)
    finally have taken: "approved_days W e t db' = \<dots>" .
    have old: "approved_days W e t db \<le> allocated_days e t db + wd e t"
      using within lim by (simp add: within_allocation_def limited_def db')
    have fits: "lv_days r \<le> allocated_days e t db - taken_days e t ''validate'' db" if "lv_employee r = e" "lv_type r = t"
      using bal lim that
      by (auto simp: check_balance_def balanceOf_def limited_def db' Let_def split: option.splits if_splits)
    have "approved_days W e t db + lv_days r \<le> allocated_days e t db + wd e t" if "lv_employee r = e" "lv_type r = t"
      using fits [OF that] approved_within_taken [OF days, of W e t] wd [of e t] by linarith
    then show "approved_days W e t db' \<le> allocated_days e t db' + wd e t"
      unfolding taken using old by (auto simp: db')
  qed
  ultimately show ?thesis using wd by (simp add: leave_books_def)
qed

text \<open>Requests outside the approved ones are inserted, rewritten and recounted at will.\<close>

lemma books_recount:
  assumes ok: "leave_ok W db" and closed: "\<forall>r \<in> set (ld_leaves db). lv_id r \<in> set ids \<longrightarrow> lv_state r = ''validate'' \<longrightarrow> lv_id r \<in> W"
    and rest: "\<forall>r \<in> set (ld_leaves db). lv_id r \<notin> set ids \<longrightarrow> counted (ld_holidays db) r = r"
    and "within_allocation W wd db" and wd: "\<And>e t. 0 \<le> wd e t"
  shows "leave_books (recount ids db, W, wd)"
proof -
  let ?P = "\<lambda>r. lv_id r \<in> set ids" let ?f = "counted (ld_holidays db)"
  have dist: "distinct (map lv_id (ld_leaves db))" using ok by (simp add: leave_ok_def)
  have rec: "recount ids db = update_leaves ?P ?f db" by (rule recount_exact [OF dist])
  have same: "approved_of W (recount ids db) = approved_of W db"
    unfolding approved_of_def rec update_leaves_simps by (rule filter_map_same) (use closed in auto)
  have ids: "map lv_id (ld_leaves (recount ids db)) = map lv_id (ld_leaves db)" by (simp add: rec)
  have "leave_ok W (recount ids db)"
    using ok dist unfolding leave_ok_def same ids by (auto simp: rec)
  moreover have "within_allocation W wd (recount ids db)"
    using assms(4) unfolding within_allocation_def approved_days_def same by (simp add: limited_def allocated_days_def rec)
  moreover have "days_counted (recount ids db)" using rest by (auto simp: days_counted_def rec)
  ultimately show ?thesis using wd by (simp add: leave_books_def)
qed

lemma insert_leave_frame:
  assumes "insert_leave q db = Inr (i, db1)" "leave_books (db, W, wd)"
  shows "leave_books (recount [i] db1, W, wd)"
proof -
  from assms(1) obtain r where db1: "db1 = db\<lparr>ld_leaves := ld_leaves db @ [r], ld_next := ld_next db + 1\<rparr>"
    and r: "lv_id r = ld_next db" "lv_state r = ''draft''" "lv_from r \<le> lv_to r" "i = ld_next db"
    by (auto simp: insert_leave_def validate_request_def exn_simps not_less split: if_splits option.splits)
  have ok: "leave_ok W db" and within: "within_allocation W wd db" and days: "days_counted db" and wd: "0 \<le> wd e t" for e t
    using assms(2) by (auto simp: leave_books_def)
  have same: "approved_of W db1 = approved_of W db" by (simp add: approved_of_def db1 r)
  have old: "lv_id x < ld_next db" if "x \<in> set (ld_leaves db)" for x using ok that by (auto simp: leave_ok_def)
  have "leave_ok W db1"
    using ok r unfolding leave_ok_def same by (auto simp: db1 dest!: old)
  moreover have "within_allocation W wd db1"
    using within unfolding within_allocation_def approved_days_def same by (simp add: limited_def allocated_days_def db1)
  ultimately show ?thesis
    by (intro books_recount) (use r days wd in \<open>auto simp: db1 days_counted_def dest!: old\<close>)
qed

lemma check_editable_fold:
  "foldE check_editable ids db = Inr db' \<Longrightarrow>
    db' = db \<and> (\<forall>i \<in> set ids. \<forall>r. find_leave i db = Some r \<longrightarrow> lv_state r \<noteq> ''validate'')"
proof (induction ids)
  case (Cons i ids)
  then show ?case by (auto simp: exn_simps check_editable_def split: option.splits if_splits)
qed simp

text \<open>A plain write touches no approved request; what it leaves approved, it approved itself.\<close>

definition state_written :: "int list \<Rightarrow> leave_values \<Rightarrow> int set" where
  "state_written ids v = (if va_state v = None then {} else set ids)"

lemma books_wider:
  assumes "leave_books (db, W, wd)"
  shows "leave_books (db, W \<union> V, wd)"
proof (rule books_fewer [OF assms, where Q = "\<lambda>r. lv_id r \<notin> V"])
  show "approved_of (W \<union> V) db = filter (\<lambda>r. lv_id r \<notin> V) (approved_of W db)" by (simp add: approved_of_def conj_ac)
qed (use assms in \<open>auto simp: leave_books_def leave_ok_def\<close>)

lemma books_write:
  assumes books: "leave_books (db, W, wd)"
  shows "leave_books (snd (write_leave mine ids v db), W \<union> state_written ids v, wd)"
proof (cases "\<exists>db1 d. foldE check_editable ids db = Inr d \<and> write_rows mine ids v db = Inr db1")
  case False
  with books_wider [OF books] show ?thesis by (auto simp: write_leave_def split: sum.splits)
next
  case True
  then obtain db1 d where chk: "foldE check_editable ids db = Inr d" and w: "write_rows mine ids v db = Inr db1" by blast
  let ?W = "W \<union> state_written ids v"
  have ok: "leave_ok ?W db" and within: "within_allocation ?W wd db" and days: "days_counted db" and wd: "0 \<le> wd e t" for e t
    using books_wider [OF books] by (auto simp: leave_books_def)
  let ?hit = "\<lambda>r. lv_id r \<in> set ids \<and> mine r"
  from w have db1: "db1 = update_leaves ?hit (assign_values v) db"
    and fine: "\<forall>r \<in> set (ld_leaves db). ?hit r \<longrightarrow> row_error db (assign_values v r) = None"
    by (auto simp: write_rows_def Let_def List.map_filter_def filter_empty_conv split: list.splits)
  have dist: "distinct (map lv_id (ld_leaves db))" using ok by (simp add: leave_ok_def)
  have opened: "lv_state r \<noteq> ''validate''" if "r \<in> set (ld_leaves db)" "lv_id r \<in> set ids" for r
    using check_editable_fold [OF chk] find_leave_same [OF dist that(1) refl] that(2) by blast
  have vid: "lv_id (assign_values v r) = lv_id r" for r by (simp add: assign_values_def)
  have still: "lv_state (assign_values v r) = ''validate'' \<Longrightarrow> lv_id r \<in> ?W" if "r \<in> set (ld_leaves db)" "lv_id r \<in> set ids" for r
    using opened [OF that] that(2) by (cases "va_state v") (auto simp: assign_values_def assign_def state_written_def)
  have same: "approved_of ?W db1 = approved_of ?W db"
    unfolding approved_of_def db1 update_leaves_simps by (rule filter_map_same) (use opened still vid in auto)
  have ids: "map lv_id (ld_leaves db1) = map lv_id (ld_leaves db)" by (simp add: db1 vid)
  have "leave_ok ?W db1"
    unfolding leave_ok_def same ids
    using ok fine by (auto simp: db1 vid leave_ok_def row_error_def not_less split: if_splits)
  moreover have "within_allocation ?W wd db1"
    using within unfolding within_allocation_def approved_days_def same by (simp add: limited_def allocated_days_def db1)
  moreover have "lv_id r \<in> ?W" if r: "r \<in> set (ld_leaves db1)" "lv_id r \<in> set ids" "lv_state r = ''validate''" for r
  proof -
    from r(1) obtain x where x: "x \<in> set (ld_leaves db)" "r = (if ?hit x then assign_values v x else x)" by (auto simp: db1)
    with r(2) have "lv_id x \<in> set ids" by (auto simp: vid split: if_splits)
    with opened [OF x(1)] still [OF x(1)] x(2) r(3) show ?thesis by (auto simp: vid split: if_splits)
  qed
  ultimately have "leave_books (recount ids db1, ?W, wd)"
    by (intro books_recount) (use days vid wd in \<open>auto simp: db1 days_counted_def\<close>)
  with chk w show ?thesis by (simp add: write_leave_def)
qed

subsection \<open>Every sequence of requests\<close>

text \<open>The handlers of requests and of allocations, the generic writes and unlinks of both included.\<close>

inductive leave_op :: "leave_db \<Rightarrow> leave_db \<Rightarrow> bool" where
  op_create_alloc: "leave_op db (snd (create_alloc e t d db))"
| op_alloc_confirm: "leave_op db (snd (alloc_confirm ids db))"
| op_alloc_approve: "leave_op db (snd (alloc_approve ids db))"
| op_alloc_refuse: "leave_op db (snd (alloc_refuse ids db))"
| op_write_alloc: "leave_op db (snd (write_alloc mine_alloc ids w db))"
| op_unlink_alloc: "leave_op db (unlink_alloc mine_alloc ids db)"
| op_create: "leave_op db (snd (create_leave q db))"
| op_unlink: "leave_op db (unlink_leave mine ids db)"
| op_approve: "leave_op db (snd (approve_leave ids db))"
| op_confirm: "leave_op db (snd (confirm_leave ids db))"
| op_refuse: "leave_op db (snd (refuse_leave ids db))"
| op_cancel: "leave_op db (snd (cancel_leave ids db))"
| op_reset: "leave_op db (snd (reset_leave ids db))"

inductive time_step :: "time_books \<Rightarrow> time_books \<Rightarrow> bool" where
  time_op: "leave_op db db' \<Longrightarrow> time_step (db, W, wd) (db', W, withdrawn db db' wd)"
| time_write: "time_step (db, W, wd) (snd (write_leave mine ids v db), W \<union> state_written ids v, wd)"

lemma in_txn_fold:
  assumes "\<And>i s t. f i s = Inr t \<Longrightarrow> P s \<Longrightarrow> P t" and "P s"
  shows "P (snd (in_txn (foldE f ids) s))"
proof (cases "foldE f ids s")
  case (Inr t)
  have "P t" by (rule foldE_invariant [where P = P, OF Inr assms(2)]) (rule assms(1))
  with Inr show ?thesis by (simp add: in_txn_def)
qed (simp add: in_txn_def assms(2))

lemma books_leave_step:
  "to \<noteq> ''validate'' \<Longrightarrow> leave_books (db, W, wd) \<Longrightarrow> leave_books (snd (leave_step from_states to refusal ids db), W, wd)"
  unfolding leave_step_def
  by (rule in_txn_fold) (auto simp: leave_step_one_def intro: books_set_state split: option.splits if_splits)

lemma books_approve: "leave_books (db, W, wd) \<Longrightarrow> leave_books (snd (approve_leave ids db), W, wd)"
  unfolding approve_leave_def by (rule in_txn_fold) (rule books_approve_one)

lemma books_create: "leave_books (db, W, wd) \<Longrightarrow> leave_books (snd (create_leave q db), W, wd)"
  by (auto simp: create_leave_def split: sum.split intro: insert_leave_frame)

text \<open>The operations on allocations leave the requests alone.\<close>

definition same_leaves :: "leave_db \<Rightarrow> leave_db \<Rightarrow> bool" where
  "same_leaves db db' \<longleftrightarrow> ld_leaves db' = ld_leaves db \<and> ld_types db' = ld_types db \<and> ld_holidays db' = ld_holidays db
     \<and> ld_next db' = ld_next db"

lemma books_allocs: "same_leaves db db' \<Longrightarrow> leave_books (db, W, wd) \<Longrightarrow> leave_books (db', W, withdrawn db db' wd)"
  by (rule books_same_leaves) (simp_all add: same_leaves_def)

lemma alloc_step_leaves: "same_leaves db (snd (alloc_step from_states to refusal ids db))"
  unfolding alloc_step_def
  by (rule in_txn_fold) (auto simp: same_leaves_def alloc_step_one_def update_allocs_def split: option.splits if_splits)

lemma write_alloc_leaves: "same_leaves db (snd (write_alloc mine ids v db))"
  by (simp add: same_leaves_def write_alloc_def update_allocs_def Let_def split: list.split)

lemma other_alloc_leaves: "same_leaves db (snd (create_alloc e t d db))" "same_leaves db (unlink_alloc mine ids db)"
  by (simp_all add: same_leaves_def create_alloc_def unlink_alloc_def)

lemmas leave_step_defs = alloc_confirm_def alloc_approve_def alloc_refuse_def confirm_leave_def refuse_leave_def
  cancel_leave_def reset_leave_def
lemmas alloc_leaves = alloc_step_leaves write_alloc_leaves other_alloc_leaves
lemmas books_leaves = books_leave_step books_approve books_create books_unlink_leave

lemma leave_op_books: "leave_op db db' \<Longrightarrow> leave_books (db, W, wd) \<Longrightarrow> leave_books (db', W, withdrawn db db' wd)"
  by (induction rule: leave_op.induct)
     (auto simp: leave_step_defs intro: books_allocs [OF alloc_step_leaves] books_allocs [OF write_alloc_leaves]
       books_allocs [OF other_alloc_leaves(1)] books_allocs [OF other_alloc_leaves(2)] books_more_back books_leaves)

lemma time_step_books: "time_step b b' \<Longrightarrow> leave_books b \<Longrightarrow> leave_books b'"
  by (induction rule: time_step.induct) (simp_all add: leave_op_books books_write)

interpretation leave_run: kept time_step leave_books
  by unfold_locales (rule time_step_books)


text \<open>Two weeks of annual leave with a holiday in them, asked for, approved, and a third week refused.\<close>

definition office_db :: leave_db where
  "office_db = \<lparr>ld_employees = [1],
     ld_types = [\<lparr>lt_id = 1, lt_name = ''Annual Leave'', lt_requires = True, lt_active = True\<rparr>],
     ld_holidays = [\<lparr>hd_date = Date 2026 8 31, hd_company = Some 1\<rparr>],
     ld_allocs = [], ld_leaves = [], ld_next = 1, ld_next_alloc = 1\<rparr>"

definition asked :: "date \<Rightarrow> date \<Rightarrow> leave_request" where
  "asked a b = \<lparr>rq_employee = 1, rq_type = 1, rq_from = Some a, rq_to = Some b, rq_company = 1\<rparr>"

definition office_ready :: leave_db where
  "office_ready =
    snd (confirm_leave [1, 2, 3]
    (snd (create_leave (asked (Date 2026 9 14) (Date 2026 9 18))
    (snd (create_leave (asked (Date 2026 9 7) (Date 2026 9 13))
    (snd (create_leave (asked (Date 2026 8 31) (Date 2026 9 6))
    (snd (alloc_approve [1] (snd (alloc_confirm [1] (snd (create_alloc 1 1 900 office_db)))))))))))))"

definition office_done :: leave_db where
  "office_done = snd (approve_leave [1, 2] office_ready)"

definition office_leave :: "int \<Rightarrow> date \<Rightarrow> date \<Rightarrow> int \<Rightarrow> string \<Rightarrow> leave" where
  "office_leave i a b d st = \<lparr>lv_id = i, lv_employee = 1, lv_type = 1, lv_from = a, lv_to = b, lv_days = d,
     lv_state = st, lv_company = 1\<rparr>"

lemma office_done_rows:
  "ld_leaves office_done = [office_leave 1 (Date 2026 8 31) (Date 2026 9 6) 400 ''validate'',
     office_leave 2 (Date 2026 9 7) (Date 2026 9 13) 500 ''validate'',
     office_leave 3 (Date 2026 9 14) (Date 2026 9 18) 500 ''confirm'']"
  by code_simp

lemma third_week_refused:
  "fst (approve_leave [3] office_done)
   = Inl (ValidationError ''Not enough Annual Leave remaining: 0 day(s) left, 5 requested.'')"
  by code_simp

text \<open>The run: an allocation of nine days, three requests, two approvals, and the allocation refused at the end.
  Days taken back so far are counted for employee 1 and type 1.\<close>

definition office_refused :: leave_db where
  "office_refused = snd (alloc_refuse [1] office_done)"

definition office_reaches :: "leave_db \<Rightarrow> int \<Rightarrow> bool" where
  "office_reaches db k \<longleftrightarrow> (\<exists>wd. time_step\<^sup>*\<^sup>* (office_db, {}, \<lambda>_ _. 0) (db, {}, wd) \<and> wd 1 1 = k)"

lemma office_start: "office_reaches office_db 0"
  unfolding office_reaches_def by (rule exI [of _ "\<lambda>_ _. 0"]) simp

lemma office_op:
  assumes "leave_op db db'" and "office_reaches db j" and "j + max 0 (allocated_days 1 1 db - allocated_days 1 1 db') = k"
  shows "office_reaches db' k"
proof -
  obtain wd where run: "time_step\<^sup>*\<^sup>* (office_db, {}, \<lambda>_ _. 0) (db, {}, wd)" and "wd 1 1 = j"
    using assms(2) by (auto simp: office_reaches_def)
  moreover have "time_step\<^sup>*\<^sup>* (office_db, {}, \<lambda>_ _. 0) (db', {}, withdrawn db db' wd)"
    using run time_op [OF assms(1)] by (rule rtranclp.rtrancl_into_rtrancl)
  ultimately show ?thesis using assms(3) unfolding office_reaches_def
    by (intro exI [of _ "withdrawn db db' wd"]) (simp add: withdrawn_def)
qed

lemma office_granted: "office_reaches (snd (alloc_approve [1] (snd (alloc_confirm [1] (snd (create_alloc 1 1 900 office_db)))))) 0"
  by (rule office_op [OF op_alloc_approve], rule office_op [OF op_alloc_confirm], rule office_op [OF op_create_alloc],
      rule office_start) code_simp+

lemma office_asked: "office_reaches office_ready 0"
  unfolding office_ready_def
  by (rule office_op [OF op_confirm], rule office_op [OF op_create], rule office_op [OF op_create], rule office_op [OF op_create],
      rule office_granted) code_simp+

lemma office_run: "office_reaches office_refused 900"
proof -
  have "office_reaches office_done 0"
    unfolding office_done_def by (rule office_op [OF op_approve], rule office_asked) code_simp
  then show ?thesis unfolding office_refused_def by (rule office_op [OF op_alloc_refuse]) code_simp
qed

lemma office_books: "leave_books (office_db, {}, \<lambda>_ _. 0)"
  by (simp add: leave_books_def leave_ok_def within_allocation_def days_counted_def approved_of_def
      approved_days_def allocated_days_def office_db_def)

lemma office_refused_rows: "ld_leaves office_refused = ld_leaves office_done" "allocated_days 1 1 office_refused = 0"
  "limited 1 office_refused"
  by code_simp+


subsection \<open>Where the books come apart\<close>

text \<open>The generic write assigns every registered column of its payload, the state among them: a submitted
  request is approved by a plain write, over the balance and over the leave that is already approved.\<close>

definition plain_values :: leave_values where
  "plain_values = \<lparr>va_employee = None, va_type = None, va_from = None, va_to = None, va_days = None,
     va_state = None, va_company = None\<rparr>"

lemma plain_write_approves:
  "map lv_state (ld_leaves (snd (write_leave (\<lambda>_. True) [3] (plain_values\<lparr>va_state := Some ''validate'',
     va_from := Some (Date 2026 9 1)\<rparr>) office_done))) = [''validate'', ''validate'', ''validate'']"
  by code_simp

text \<open>The state is checked in one transaction and the dates are written in another: an approval between
  the two leaves an approved request with other dates than those that were approved.\<close>

lemma edit_races_approval:
  "foldE check_editable [1] office_ready = Inr office_ready
   \<and> map_sum id (map (\<lambda>r. (lv_state r, lv_to r)) \<circ> ld_leaves \<circ> recount [1])
       (write_rows (\<lambda>_. True) [1] (plain_values\<lparr>va_to := Some (Date 2026 9 20)\<rparr>) office_done)
     = Inr [(''validate'', Date 2026 9 20), (''validate'', Date 2026 9 13), (''confirm'', Date 2026 9 18)]"
  by code_simp

text \<open>An approved request that is to be edited should be reset to draft first, which is refused.\<close>

lemma approved_cannot_be_reset:
  "fst (write_leave (\<lambda>_. True) [1] plain_values office_done)
     = Inl (ValidationError ''This leave is already validated. Reset it to draft before editing.'')
   \<and> fst (reset_leave [1] office_done)
     = Inl (ValidationError ''Only a submitted, refused or cancelled request can be reset to draft.'')"
  by code_simp

end
