(* ===== verification/Attendance.thy ===== *)
theory Attendance
  imports Dispatcher
begin

section \<open>Attendance and the kiosk (modules/hr/HrAttendance.cpp, HrKiosk.cpp)\<close>

text \<open>
  The table \<open>hr_attendance\<close> with its constraints, the handlers of its view model and the punch of the
  kiosk with its limiter. A time stamp is a number of microseconds, \<open>now()\<close> an argument; worked hours are
  a \<open>NUMERIC(8,2)\<close> and kept in hundredths. The parameters are \<open>num\<close> (the JSON number of such a value),
  \<open>stamp\<close> (\<open>to_char\<close> of a time stamp), the parser of the request body, \<open>verifyPassword\<close> (PBKDF2) and the
  text of a JSON error. Rows are read in the order of their ids.
\<close>

record employee =
  em_id :: int
  em_name :: string
  em_active :: bool
  em_company :: "int option"
  em_pin :: "string option"

record att_row =
  at_id :: int
  at_employee :: int
  at_in :: int
  at_out :: "int option"
  at_hours :: int
  at_company :: int

record att_db =
  ad_employees :: "employee list"
  ad_rows :: "att_row list"
  ad_next :: int

subsection \<open>Whom a call is about\<close>

definition int_ref :: "json \<Rightarrow> int option" where
  "int_ref v = (case v of JInt n \<Rightarrow> Some (wrap32 n) | JArray (JInt n # _) \<Rightarrow> Some (wrap32 n) | _ \<Rightarrow> None)"

definition attM2oId :: "json \<Rightarrow> int" where
  "attM2oId v = (case int_ref v of None \<Rightarrow> 0 | Some n \<Rightarrow> n)"

definition first_arg :: "call_kw \<Rightarrow> json" where
  "first_arg c = (case ck_args c of JArray (a # _) \<Rightarrow> a | _ \<Rightarrow> JNull)"

definition employeeArg :: "call_kw \<Rightarrow> int" where
  "employeeArg c =
     (case int_ref (first_arg c) of
        Some n \<Rightarrow> n
      | None \<Rightarrow> (case jget (ck_kwargs c) ''employee_id'' of None \<Rightarrow> 0 | Some v \<Rightarrow> attM2oId v))"

definition requireEmployee :: "int \<Rightarrow> att_db \<Rightarrow> employee result" where
  "requireEmployee e db =
     (if e \<le> 0 then Inl (ValidationError ''An employee is required.'')
      else case find (\<lambda>x. em_id x = e \<and> em_active x) (ad_employees db) of
          None \<Rightarrow> Inl (ValidationError ''That employee does not exist, or is archived.'')
        | Some x \<Rightarrow> Inr x)"

subsection \<open>The clock\<close>

definition open_row :: "int \<Rightarrow> att_db \<Rightarrow> att_row option" where
  "open_row e db = find (\<lambda>r. at_employee r = e \<and> at_out r = None) (ad_rows db)"

text \<open>\<open>ROUND(EXTRACT(EPOCH FROM (b - a)) / 3600, 2)\<close>, for \<open>b\<close> after \<open>a\<close>.\<close>

definition worked_between :: "int \<Rightarrow> int \<Rightarrow> int" where
  "worked_between a b = (b - a + 18000000) div 36000000"

definition day_of :: "int \<Rightarrow> int" where
  "day_of t = t div 86400000000"

text \<open>The column is \<open>NOT NULL\<close>, so the \<open>COALESCE\<close> of the query is the stored value.\<close>

definition worked_today :: "int \<Rightarrow> int \<Rightarrow> att_db \<Rightarrow> int" where
  "worked_today now e db = sum_by (\<lambda>r. at_employee r = e \<and> day_of (at_in r) = day_of now) at_hours (ad_rows db)"

definition clock_state :: "(int \<Rightarrow> json) \<Rightarrow> (int \<Rightarrow> string) \<Rightarrow> int \<Rightarrow> int \<Rightarrow> att_db \<Rightarrow> (string \<times> json) list" where
  "clock_state num stamp now e db =
     (let r = open_row e db
      in [(''employee_id'', JInt e),
          (''state'', JString (if r = None then ''checked_out'' else ''checked_in'')),
          (''worked_hours_today'', num (worked_today now e db)),
          (''attendance_id'', case r of None \<Rightarrow> JBool False | Some x \<Rightarrow> JInt (at_id x)),
          (''since'', case r of None \<Rightarrow> JBool False | Some x \<Rightarrow> JString (stamp (at_in x)))])"

definition insert_att :: "int \<Rightarrow> employee \<Rightarrow> att_db \<Rightarrow> att_db" where
  "insert_att now x db = db\<lparr>ad_rows := ad_rows db @ [\<lparr>at_id = ad_next db, at_employee = em_id x, at_in = now,
     at_out = None, at_hours = 0, at_company = (case em_company x of None \<Rightarrow> 1 | Some c \<Rightarrow> c)\<rparr>], ad_next := ad_next db + 1\<rparr>"

text \<open>Closing a row; the constraint wants an interval, the column a number of at most six digits.\<close>

definition close_row :: "int \<Rightarrow> att_row \<Rightarrow> att_db \<Rightarrow> att_db result" where
  "close_row now r db =
     (if now \<le> at_in r then Inl (RuntimeError ''violates check constraint'')
      else if worked_between (at_in r) now \<ge> 100000000 then Inl (RuntimeError ''numeric field overflow'')
      else Inr (db\<lparr>ad_rows := map (\<lambda>x. if at_id x = at_id r
        then x\<lparr>at_out := Some now, at_hours := worked_between (at_in r) now\<rparr> else x) (ad_rows db)\<rparr>))"

type_synonym clock_answer = "(string \<times> json) list result \<times> att_db"

definition check_in :: "(int \<Rightarrow> json) \<Rightarrow> (int \<Rightarrow> string) \<Rightarrow> int \<Rightarrow> call_kw \<Rightarrow> att_db \<Rightarrow> clock_answer" where
  "check_in num stamp now c db =
     (case requireEmployee (employeeArg c) db of
        Inl e \<Rightarrow> (Inl e, db)
      | Inr x \<Rightarrow>
          if open_row (em_id x) db \<noteq> None then (Inl (ValidationError ''Already checked in. Check out first.''), db)
          else let db' = insert_att now x db
            in (Inr (AList.update ''attendance_id'' (JInt (ad_next db)) (clock_state num stamp now (em_id x) db')), db'))"

definition overlaps_closed :: "att_row \<Rightarrow> att_db \<Rightarrow> bool" where
  "overlaps_closed r db \<longleftrightarrow>
     list_ex (\<lambda>a. at_employee a = at_employee r \<and> at_id a \<noteq> at_id r
       \<and> (case at_out a of None \<Rightarrow> False | Some b \<Rightarrow> at_in r < b)) (ad_rows db)"

definition check_out :: "(int \<Rightarrow> json) \<Rightarrow> (int \<Rightarrow> string) \<Rightarrow> int \<Rightarrow> call_kw \<Rightarrow> att_db \<Rightarrow> clock_answer" where
  "check_out num stamp now c db =
     (case requireEmployee (employeeArg c) db of
        Inl e \<Rightarrow> (Inl e, db)
      | Inr x \<Rightarrow>
          (case open_row (em_id x) db of
             None \<Rightarrow> (Inl (ValidationError ''Not checked in.''), db)
           | Some r \<Rightarrow>
               if overlaps_closed r db
               then (Inl (ValidationError ''This check-out would overlap an existing attendance record.''), db)
               else (case close_row now r db of
                   Inl e \<Rightarrow> (Inl e, db)
                 | Inr db' \<Rightarrow>
                     (Inr (AList.update ''worked_hours'' (num (worked_between (at_in r) now))
                        (AList.update ''attendance_id'' (JInt (at_id r)) (clock_state num stamp now (em_id x) db'))), db'))))"

definition toggle :: "(int \<Rightarrow> json) \<Rightarrow> (int \<Rightarrow> string) \<Rightarrow> int \<Rightarrow> call_kw \<Rightarrow> att_db \<Rightarrow> clock_answer" where
  "toggle num stamp now c db =
     (case requireEmployee (employeeArg c) db of
        Inl e \<Rightarrow> (Inl e, db)
      | Inr x \<Rightarrow> if open_row (em_id x) db \<noteq> None then check_out num stamp now c db else check_in num stamp now c db)"

definition attendance_state :: "(int \<Rightarrow> json) \<Rightarrow> (int \<Rightarrow> string) \<Rightarrow> int \<Rightarrow> call_kw \<Rightarrow> att_db \<Rightarrow> (string \<times> json) list result" where
  "attendance_state num stamp now c db =
     bindE (requireEmployee (employeeArg c) db) (\<lambda>x. Inr (clock_state num stamp now (em_id x) db))"

subsection \<open>Rows made and edited by hand\<close>

definition rows_valid :: "att_db \<Rightarrow> exn option" where
  "rows_valid db =
     (if list_ex (\<lambda>r. case at_out r of None \<Rightarrow> False | Some b \<Rightarrow> b \<le> at_in r) (ad_rows db)
      then Some (RuntimeError ''violates check constraint'')
      else if \<not> distinct (map at_employee (filter (\<lambda>r. at_out r = None) (ad_rows db)))
      then Some (RuntimeError ''violates unique constraint'')
      else if list_ex (\<lambda>r. at_employee r \<notin> em_id ` set (ad_employees db)) (ad_rows db)
      then Some (RuntimeError ''violates foreign key constraint'')
      else None)"

text \<open>The generic create, which names a violated constraint in its own words.\<close>

definition create_att :: "int \<Rightarrow> int option \<Rightarrow> int option \<Rightarrow> int \<Rightarrow> att_db \<Rightarrow> int result \<times> att_db" where
  "create_att employee tin tout company db =
     (if employee \<le> 0 then (Inl (ValidationError ''An employee is required''), db)
      else case tin of
          None \<Rightarrow> (Inl (ValidationError ''A check-in time is required''), db)
        | Some a \<Rightarrow>
            if company \<le> 0 then (Inl (ValidationError (''The field '' @ quoted ''company_id'' @ '' is required.'')), db)
            else let db' = db\<lparr>ad_rows := ad_rows db @ [\<lparr>at_id = ad_next db, at_employee = employee, at_in = a,
                   at_out = tout, at_hours = 0, at_company = company\<rparr>], ad_next := ad_next db + 1\<rparr>
              in (case rows_valid db' of
                  None \<Rightarrow> (Inr (ad_next db), db')
                | Some e \<Rightarrow> (Inl (if e = RuntimeError ''violates check constraint''
                     then ValidationError ''A value is out of the allowed range for this record.''
                     else if e = RuntimeError ''violates unique constraint''
                     then ValidationError ''Another record already uses this employee_id.''
                     else e), db)))"

record att_values =
  av_employee :: "int option"
  av_in :: "int option"
  av_out :: "int option option"
  av_hours :: "int option"
  av_company :: "int option"

definition new_value :: "'a option \<Rightarrow> 'a \<Rightarrow> 'a" where
  "new_value v x = (case v of None \<Rightarrow> x | Some y \<Rightarrow> y)"

definition assign_att :: "att_values \<Rightarrow> att_row \<Rightarrow> att_row" where
  "assign_att v r = r\<lparr>at_employee := new_value (av_employee v) (at_employee r), at_in := new_value (av_in v) (at_in r),
     at_out := new_value (av_out v) (at_out r), at_hours := new_value (av_hours v) (at_hours r),
     at_company := new_value (av_company v) (at_company r)\<rparr>"

definition recomputed :: "att_row \<Rightarrow> att_row" where
  "recomputed r = r\<lparr>at_hours := (case at_out r of None \<Rightarrow> 0 | Some b \<Rightarrow> worked_between (at_in r) b)\<rparr>"

text \<open>The write, and the second transaction that derives the hours again; an overflow rolls back the
  second one only.\<close>

definition write_att :: "(att_row \<Rightarrow> bool) \<Rightarrow> int list \<Rightarrow> att_values \<Rightarrow> att_db \<Rightarrow> unit result \<times> att_db" where
  "write_att mine ids v db =
     (let db1 = db\<lparr>ad_rows := map (\<lambda>r. if at_id r \<in> set ids \<and> mine r then assign_att v r else r) (ad_rows db)\<rparr>
      in case rows_valid db1 of
           Some e \<Rightarrow> (Inl e, db)
         | None \<Rightarrow>
             let rows = map (\<lambda>r. if at_id r \<in> set ids then recomputed r else r) (ad_rows db1)
             in if list_ex (\<lambda>r. 100000000 \<le> at_hours r) rows then (Inl (RuntimeError ''numeric field overflow''), db1)
                else (Inr (), db1\<lparr>ad_rows := rows\<rparr>))"

subsection \<open>The kiosk\<close>

text \<open>\<open>PunchLimiter\<close>: eight failures lock an address for what is left of three minutes.\<close>

definition punch_max :: int where "punch_max = 8"
definition punch_window :: int where "punch_window = 180 * second"

type_synonym punch_table = "(string \<times> int \<times> int) list"

definition punch_entry :: "int \<Rightarrow> string \<Rightarrow> punch_table \<Rightarrow> int \<times> int" where
  "punch_entry t ip tbl = (case map_of tbl ip of None \<Rightarrow> (t, 0) | Some e \<Rightarrow> e)"

definition punch_allow :: "int \<Rightarrow> string \<Rightarrow> punch_table \<Rightarrow> bool \<times> punch_table" where
  "punch_allow t ip tbl =
     (case punch_entry t ip tbl of (start, n) \<Rightarrow>
        if punch_max \<le> n \<and> t - start < punch_window then (False, AList.update ip (start, n) tbl)
        else if punch_window \<le> t - start then (True, AList.update ip (t, 0) tbl)
        else (True, AList.update ip (start, n) tbl))"

definition punch_fail :: "int \<Rightarrow> string \<Rightarrow> punch_table \<Rightarrow> punch_table" where
  "punch_fail t ip tbl =
     (case punch_entry t ip tbl of (start, n) \<Rightarrow>
        if punch_window \<le> t - start then AList.update ip (t, 1) tbl else AList.update ip (start, n + 1) tbl)"

definition punch_ok :: "string \<Rightarrow> punch_table \<Rightarrow> punch_table" where
  "punch_ok ip tbl = AList.delete ip tbl"

record kiosk =
  kq_limiter :: punch_table
  kq_db :: att_db

record kiosk_env =
  ke_parse :: "string \<Rightarrow> json option"
  ke_verify :: "string \<Rightarrow> string \<Rightarrow> bool"
  ke_num :: "int \<Rightarrow> json"
  ke_jw :: string
  ke_dev :: bool

definition error_body :: "string \<Rightarrow> json" where
  "error_body m = JObject [(''error'', JString m)]"

definition pin_owner :: "kiosk_env \<Rightarrow> string \<Rightarrow> att_db \<Rightarrow> employee option" where
  "pin_owner env pin db =
     find (\<lambda>x. em_active x \<and> (case em_pin x of None \<Rightarrow> False | Some h \<Rightarrow> ke_verify env pin h)) (ad_employees db)"

definition punch_toggle :: "int \<Rightarrow> employee \<Rightarrow> att_db \<Rightarrow> (string \<times> att_db) result" where
  "punch_toggle now x db =
     (case open_row (em_id x) db of
        None \<Rightarrow> Inr (''checked_in'', insert_att now x db)
      | Some r \<Rightarrow> bindE (close_row now r db) (\<lambda>db'. Inr (''checked_out'', db')))"

definition punch :: "kiosk_env \<Rightarrow> string \<Rightarrow> string \<Rightarrow> int \<Rightarrow> int \<Rightarrow> kiosk \<Rightarrow> (nat \<times> json) \<times> kiosk" where
  "punch env ip body t now k =
     (let (free, l1) = punch_allow t ip (kq_limiter k); k1 = k\<lparr>kq_limiter := l1\<rparr>;
          failed = k1\<lparr>kq_limiter := punch_fail t ip l1\<rparr>;
          internal = (\<lambda>e. error_body (if ke_dev env then exn_what (ke_jw env) e else ''An internal error occurred''))
      in if \<not> free then ((429, error_body ''Too many attempts. Please wait a few minutes.''), k1)
      else case ke_parse env body of
          None \<Rightarrow> ((400, error_body ''Invalid request''), k1)
        | Some j \<Rightarrow>
            (case value_str j ''pin'' '''' of
               Inl e \<Rightarrow> ((500, internal e), k1)
             | Inr pin \<Rightarrow>
                 if length pin < 4 \<or> 32 < length pin then ((401, error_body ''Invalid PIN''), failed)
                 else case pin_owner env pin (kq_db k) of
                     None \<Rightarrow> ((401, error_body ''PIN not recognised''), failed)
                   | Some x \<Rightarrow>
                       let k2 = k1\<lparr>kq_limiter := punch_ok ip l1\<rparr>
                       in (case punch_toggle now x (kq_db k) of
                           Inl e \<Rightarrow> ((500, internal e), k2)
                         | Inr (st, db') \<Rightarrow>
                             ((200, JObject [(''ok'', JBool True), (''name'', JString (em_name x)), (''state'', JString st),
                                (''worked_hours_today'', ke_num env (worked_today now (em_id x) db'))]), k2\<lparr>kq_db := db'\<rparr>))))"

subsection \<open>Nobody's time is booked twice\<close>

definition ended_by :: "int \<Rightarrow> att_row \<Rightarrow> bool" where
  "ended_by t r \<longleftrightarrow> (case at_out r of None \<Rightarrow> False | Some b \<Rightarrow> b \<le> t)"

definition apart :: "att_row \<Rightarrow> att_row \<Rightarrow> bool" where
  "apart r s \<longleftrightarrow> ended_by (at_in s) r \<or> ended_by (at_in r) s"

definition hours_derived :: "att_row \<Rightarrow> bool" where
  "hours_derived r \<longleftrightarrow> at_hours r = (case at_out r of None \<Rightarrow> 0 | Some b \<Rightarrow> worked_between (at_in r) b)"

definition row_ok :: "int \<Rightarrow> att_row \<Rightarrow> bool" where
  "row_ok t r \<longleftrightarrow> at_in r \<le> t \<and> hours_derived r \<and> (case at_out r of None \<Rightarrow> True | Some b \<Rightarrow> at_in r < b \<and> b \<le> t)"

text \<open>The table at a time: rows lie before it, their hours are derived, those of one employee are apart.\<close>

definition att_ok :: "int \<Rightarrow> att_db \<Rightarrow> bool" where
  "att_ok t db \<longleftrightarrow> distinct (map at_id (ad_rows db)) \<and> (\<forall>r \<in> set (ad_rows db). at_id r < ad_next db \<and> row_ok t r)
     \<and> (\<forall>r \<in> set (ad_rows db). \<forall>s \<in> set (ad_rows db). at_id r \<noteq> at_id s \<longrightarrow> at_employee r = at_employee s \<longrightarrow> apart r s)"

lemma row_ok_later: "row_ok t r \<Longrightarrow> t \<le> u \<Longrightarrow> row_ok u r"
  by (auto simp: row_ok_def split: option.splits)

lemma att_ok_later: "att_ok t db \<Longrightarrow> t \<le> u \<Longrightarrow> att_ok u db"
  by (auto simp: att_ok_def intro: row_ok_later)

lemma apart_sym: "apart r s \<longleftrightarrow> apart s r"
  by (auto simp: apart_def)

lemma open_row_Some:
  assumes "open_row e db = Some r"
  shows "r \<in> set (ad_rows db)" "at_employee r = e" "at_out r = None"
  using assms by (auto simp: open_row_def find_Some_iff dest: nth_mem)

lemma open_row_None: "open_row e db = None \<Longrightarrow> r \<in> set (ad_rows db) \<Longrightarrow> at_employee r = e \<Longrightarrow> at_out r \<noteq> None"
  by (auto simp: open_row_def find_None_iff)

lemma insert_att_ok:
  assumes "att_ok t db" "t \<le> now" "open_row (em_id x) db = None"
  shows "att_ok now (insert_att now x db)"
proof -
  define n where "n = \<lparr>at_id = ad_next db, at_employee = em_id x, at_in = now, at_out = None, at_hours = 0,
     at_company = (case em_company x of None \<Rightarrow> 1 | Some c \<Rightarrow> c)\<rparr>"
  have rows: "ad_rows (insert_att now x db) = ad_rows db @ [n]" "ad_next (insert_att now x db) = ad_next db + 1"
    by (simp_all add: insert_att_def n_def)
  have old: "at_id r < ad_next db" "row_ok t r" if "r \<in> set (ad_rows db)" for r
    using assms(1) that by (auto simp: att_ok_def)
  have "row_ok now n" by (simp add: row_ok_def hours_derived_def n_def)
  have meets: "apart r n" if "r \<in> set (ad_rows db)" "at_employee r = at_employee n" for r
  proof -
    have "at_out r \<noteq> None" using open_row_None [OF assms(3) that(1)] that(2) by (simp add: n_def)
    then show ?thesis using old(2) [OF that(1)] assms(2) by (auto simp: apart_def ended_by_def row_ok_def n_def)
  qed
  show ?thesis
    unfolding att_ok_def rows
  proof (intro conjI)
    show "distinct (map at_id (ad_rows db @ [n]))"
      using assms(1) old(1) by (force simp: att_ok_def n_def)
    show "\<forall>r \<in> set (ad_rows db @ [n]). at_id r < ad_next db + 1 \<and> row_ok now r"
      using old row_ok_later [OF _ assms(2)] \<open>row_ok now n\<close> by (auto simp: n_def dest: less_imp_le intro: order.strict_trans)
    show "\<forall>r \<in> set (ad_rows db @ [n]). \<forall>s \<in> set (ad_rows db @ [n]).
        at_id r \<noteq> at_id s \<longrightarrow> at_employee r = at_employee s \<longrightarrow> apart r s"
      using assms(1) meets by (auto simp: att_ok_def apart_sym)
  qed
qed

lemma close_row_ok:
  assumes "att_ok t db" "t \<le> now" "open_row e db = Some r" "close_row now r db = Inr db'"
  shows "att_ok now db'"
proof -
  define f :: "att_row \<Rightarrow> att_row" where "f = (\<lambda>x. if at_id x = at_id r then x\<lparr>at_out := Some now, at_hours := worked_between (at_in r) now\<rparr> else x)"
  from assms(4) have after: "at_in r < now" and rows: "ad_rows db' = map f (ad_rows db)" "ad_next db' = ad_next db"
    by (auto simp: close_row_def f_def split: if_splits)
  have fs [simp]: "at_id (f x) = at_id x" "at_employee (f x) = at_employee x" "at_in (f x) = at_in x" for x
    by (simp_all add: f_def)
  note r = open_row_Some [OF assms(3)]
  have only: "x = r" if "x \<in> set (ad_rows db)" "at_id x = at_id r" for x
    using assms(1) r(1) that by (auto simp: att_ok_def distinct_map dest: inj_onD)
  have row: "row_ok now (f x)" if "x \<in> set (ad_rows db)" for x
  proof (cases "at_id x = at_id r")
    case True
    then have "x = r" using only that by simp
    with after show ?thesis by (simp add: f_def row_ok_def hours_derived_def)
  next
    case False
    then show ?thesis using assms(1,2) that by (auto simp: f_def att_ok_def intro: row_ok_later)
  qed
  have ended: "ended_by u (f x)" if "x \<in> set (ad_rows db)" "ended_by u x" for u x
  proof (cases "at_id x = at_id r")
    case True
    with only [OF that(1)] that(2) r(3) have False by (simp add: ended_by_def)
    then show ?thesis ..
  qed (use that in \<open>simp add: f_def\<close>)
  have ids: "map at_id (ad_rows db') = map at_id (ad_rows db)" by (simp add: rows)
  have "apart (f x) (f y)" if "x \<in> set (ad_rows db)" "y \<in> set (ad_rows db)" "apart x y" for x y
    using that ended unfolding apart_def by auto
  then show ?thesis
    using assms(1) row unfolding att_ok_def ids by (auto simp: rows)
qed

lemma check_in_ok: "att_ok t db \<Longrightarrow> t \<le> now \<Longrightarrow> att_ok now (snd (check_in num stamp now c db))"
  by (auto simp: check_in_def Let_def intro: att_ok_later insert_att_ok split: sum.split)

lemma check_out_ok: "att_ok t db \<Longrightarrow> t \<le> now \<Longrightarrow> att_ok now (snd (check_out num stamp now c db))"
  by (auto simp: check_out_def intro: att_ok_later close_row_ok split: sum.split option.split)

lemma toggle_ok: "att_ok t db \<Longrightarrow> t \<le> now \<Longrightarrow> att_ok now (snd (toggle num stamp now c db))"
  by (auto simp: toggle_def intro: att_ok_later check_in_ok check_out_ok split: sum.split)

lemma punch_toggle_ok: "punch_toggle now x db = Inr (st, db') \<Longrightarrow> att_ok t db \<Longrightarrow> t \<le> now \<Longrightarrow> att_ok now db'"
  by (auto simp: punch_toggle_def exn_simps split: option.splits intro: insert_att_ok close_row_ok)

lemma punch_att_ok: "att_ok t (kq_db k) \<Longrightarrow> t \<le> now \<Longrightarrow> att_ok now (kq_db (snd (punch env ip body steady now k)))"
  by (auto simp: punch_def Let_def split: prod.split sum.split option.split intro: att_ok_later punch_toggle_ok)

text \<open>The server's time goes on, and at any time somebody clocks in or out in the office or at the kiosk.\<close>

inductive clock_step :: "int \<times> kiosk \<Rightarrow> int \<times> kiosk \<Rightarrow> bool" where
  step_in: "t \<le> now \<Longrightarrow> clock_step (t, k) (now, k\<lparr>kq_db := snd (check_in num stamp now c (kq_db k))\<rparr>)"
| step_out: "t \<le> now \<Longrightarrow> clock_step (t, k) (now, k\<lparr>kq_db := snd (check_out num stamp now c (kq_db k))\<rparr>)"
| step_toggle: "t \<le> now \<Longrightarrow> clock_step (t, k) (now, k\<lparr>kq_db := snd (toggle num stamp now c (kq_db k))\<rparr>)"
| step_punch: "t \<le> now \<Longrightarrow> clock_step (t, k) (now, snd (punch env ip body steady now k))"

definition clock_ok :: "int \<times> kiosk \<Rightarrow> bool" where
  "clock_ok s \<longleftrightarrow> att_ok (fst s) (kq_db (snd s))"

lemma clock_step_ok: "clock_step s s' \<Longrightarrow> clock_ok s \<Longrightarrow> clock_ok s'"
  by (induction rule: clock_step.induct)
     (auto simp: clock_ok_def intro: check_in_ok check_out_ok toggle_ok punch_att_ok)

interpretation clock_run: kept clock_step clock_ok
  by unfold_locales (rule clock_step_ok)

text \<open>C16: however employees clock in and out in the office and at the kiosk, no two attendances of one employee
  share a moment - so that at most one of them is open - and the hours of each are those between its two
  times, rounded to the hundredth.\<close>

theorem time_never_booked_twice:
  assumes "clock_step\<^sup>*\<^sup>* s s'" and "clock_ok s"
    and "r \<in> set (ad_rows (kq_db (snd s')))" "q \<in> set (ad_rows (kq_db (snd s')))"
    and "at_id r \<noteq> at_id q" "at_employee r = at_employee q"
  shows "((\<exists>b. at_out r = Some b \<and> b \<le> at_in q) \<or> (\<exists>b. at_out q = Some b \<and> b \<le> at_in r))
    \<and> at_hours r = (case at_out r of None \<Rightarrow> 0 | Some b \<Rightarrow> worked_between (at_in r) b)"
proof -
  have ok: "att_ok (fst s') (kq_db (snd s'))"
    using clock_run.runs_ok [OF assms(1,2)] by (simp add: clock_ok_def)
  with assms(3-6) have "apart r q" unfolding att_ok_def by blast
  moreover have "hours_derived r" using ok assms(3) by (auto simp: att_ok_def row_ok_def)
  ultimately show ?thesis by (auto simp: apart_def ended_by_def hours_derived_def split: option.splits)
qed

subsection \<open>A day at the kiosk\<close>

definition shop_env :: kiosk_env where
  "shop_env = \<lparr>ke_parse = (\<lambda>b. Some (JObject [(''pin'', JString b)])), ke_verify = (\<lambda>p h. p = h),
     ke_num = JInt, ke_jw = [], ke_dev = False\<rparr>"

definition shop_start :: kiosk where
  "shop_start = \<lparr>kq_limiter = [], kq_db = \<lparr>ad_employees =
     [\<lparr>em_id = 1, em_name = ''Ana'', em_active = True, em_company = Some 1, em_pin = Some ''4711''\<rparr>],
     ad_rows = [], ad_next = 1\<rparr>\<rparr>"

definition at_hour :: "int \<Rightarrow> int" where
  "at_hour h = h * 3600000000"

definition at_kiosk :: "string \<Rightarrow> int \<Rightarrow> kiosk \<Rightarrow> kiosk" where
  "at_kiosk pin h k = snd (punch shop_env ''10.0.0.1'' pin (h * 3600 * second) (at_hour h) k)"

definition shop_evening :: kiosk where
  "shop_evening = at_kiosk ''4711'' 13 (at_kiosk ''0000'' 13 (at_kiosk ''4711'' 12 (at_kiosk ''4711'' 8 shop_start)))"

definition shop_row :: "int \<Rightarrow> int \<Rightarrow> int option \<Rightarrow> int \<Rightarrow> att_row" where
  "shop_row i a b h = \<lparr>at_id = i, at_employee = 1, at_in = a, at_out = b, at_hours = h, at_company = 1\<rparr>"

lemma shop_evening_rows:
  "ad_rows (kq_db shop_evening) = [shop_row 1 (at_hour 8) (Some (at_hour 12)) 400, shop_row 2 (at_hour 13) None 0]"
  by code_simp

lemma after_punch: "clock_step\<^sup>*\<^sup>* s (t, k) \<Longrightarrow> t \<le> at_hour h \<Longrightarrow> clock_step\<^sup>*\<^sup>* s (at_hour h, at_kiosk pin h k)"
  unfolding at_kiosk_def by (erule rtranclp.rtrancl_into_rtrancl) (rule step_punch)

lemma shop_run: "clock_step\<^sup>*\<^sup>* (0, shop_start) (at_hour 13, shop_evening)"
  unfolding shop_evening_def
  by (rule after_punch, rule after_punch, rule after_punch, rule after_punch, rule rtranclp.rtrancl_refl)
     (simp_all add: at_hour_def)

theorem time_never_booked_twice_witness:
  "\<exists>b. at_out (shop_row 1 (at_hour 8) (Some (at_hour 12)) 400) = Some b \<and> b \<le> at_hour 13"
proof -
  have "clock_ok (0, shop_start)" by code_simp
  moreover have "shop_row 1 (at_hour 8) (Some (at_hour 12)) 400 \<in> set (ad_rows (kq_db shop_evening))"
    "shop_row 2 (at_hour 13) None 0 \<in> set (ad_rows (kq_db shop_evening))"
    by (simp_all add: shop_evening_rows)
  ultimately show ?thesis
    using time_never_booked_twice [OF shop_run, of "shop_row 1 (at_hour 8) (Some (at_hour 12)) 400" "shop_row 2 (at_hour 13) None 0"]
    by (simp add: shop_row_def)
qed

subsection \<open>Where the code and its comments part\<close>

text \<open>The hours of today leave out the open attendance: two hours after checking in they are none.\<close>

lemma open_interval_not_counted:
  "worked_today (at_hour 15) 1 (kq_db (at_kiosk ''4711'' 13 shop_start)) = 0
   \<and> open_row 1 (kq_db (at_kiosk ''4711'' 13 shop_start)) \<noteq> None"
  by code_simp

text \<open>A correct PIN clears the failures of its address, so whoever has one may guess on for ever: seventy
  guesses in three minutes, and none is turned away.\<close>

definition guess_and_reset :: "kiosk \<Rightarrow> nat list \<times> kiosk" where
  "guess_and_reset k =
     fold (\<lambda>pin (codes, k). case punch shop_env ''10.0.0.1'' pin second (at_hour 8) k of ((c, _), k') \<Rightarrow> (codes @ [c], k'))
       (replicate 7 ''0000'' @ [''4711'']) ([], k)"

lemma own_pin_resets:
  "kq_limiter (snd (guess_and_reset shop_start)) = []
   \<and> fst (guess_and_reset shop_start) = replicate 7 401 @ [200]"
  by code_simp

text \<open>A row made with both of its times has no hours until somebody writes it.\<close>

lemma created_closed_without_hours:
  "map at_hours (ad_rows (snd (create_att 1 (Some (at_hour 8)) (Some (at_hour 16)) 1 (kq_db shop_start)))) = [0]"
  by code_simp

text \<open>The kiosk closes an attendance the office refuses to close, over hours that are already booked.\<close>

lemma kiosk_books_twice:
  "let booked = \<lparr>kq_limiter = [], kq_db = (kq_db shop_start)\<lparr>ad_rows :=
         [shop_row 1 (at_hour 8) (Some (at_hour 12)) 400, shop_row 2 (at_hour 9) None 0], ad_next := 3\<rparr>\<rparr>;
       call = \<lparr>ck_model = [], ck_method = [], ck_args = JArray [JInt 1], ck_kwargs = JNull\<rparr>
   in fst (check_out JInt (\<lambda>_. []) (at_hour 13) call (kq_db booked))
        = Inl (ValidationError ''This check-out would overlap an existing attendance record.'')
      \<and> map at_hours (ad_rows (kq_db (at_kiosk ''4711'' 13 booked))) = [400, 400]"
  by code_simp

end
