(* ===== verification/Assets.thy ===== *)
theory Assets
  imports Accounting
begin

section \<open>Fixed assets (modules/account/AccountModule.cpp)\<close>

text \<open>
  \<open>AccountAssetViewModel\<close>: confirming an asset writes its straight-line schedule, depreciating it posts
  one journal entry for each line that is due, closing it ends its life. The state is the tables of
  the assets and of their schedules beside the books of theory Accounting. The handlers run in one
  transaction each. Dates of a request arrive as dates: the cast from text is PostgreSQL's.
\<close>

record asset_type =
  at_id :: int
  at_account :: "int option"
  at_depreciation :: "int option"
  at_expense :: "int option"
  at_journal :: "int option"

record asset =
  as_id :: int
  as_name :: string
  as_type :: "int option"
  as_value :: int
  as_residual :: int
  as_acquired :: "date option"
  as_number :: int
  as_period :: int
  as_account :: "int option"
  as_depreciation :: "int option"
  as_expense :: "int option"
  as_journal :: "int option"
  as_state :: string
  as_company :: int

record dep_line =
  dl_id :: int
  dl_asset :: int
  dl_sequence :: int
  dl_date :: date
  dl_amount :: int
  dl_remaining :: int
  dl_cumulative :: int
  dl_move :: "int option"
  dl_posted :: bool

record asset_db =
  ad_types :: "asset_type list"
  ad_assets :: "asset list"
  ad_next_asset :: int
  ad_lines :: "dep_line list"
  ad_next_line :: int
  ad_ledger :: ledger

definition find_asset :: "int \<Rightarrow> asset_db \<Rightarrow> asset option" where
  "find_asset i db = find (\<lambda>a. as_id a = i) (ad_assets db)"

definition update_asset :: "int \<Rightarrow> (asset \<Rightarrow> asset) \<Rightarrow> asset_db \<Rightarrow> asset_db" where
  "update_asset i f db = db\<lparr>ad_assets := map (\<lambda>a. if as_id a = i then f a else a) (ad_assets db)\<rparr>"

text \<open>\<open>create\<close> through the generic model: \<open>validate\<close> asks for a name only, the columns come from the request
  or are the defaults of the model.\<close>

definition create_asset :: "asset \<Rightarrow> asset_db \<Rightarrow> asset_db result" where
  "create_asset a db = (if as_name a = [] then Inl (ValidationError ''Asset name is required'')
     else Inr (db\<lparr>ad_assets := ad_assets db @ [a\<lparr>as_id := ad_next_asset db\<rparr>], ad_next_asset := ad_next_asset db + 1\<rparr>))"

subsection \<open>Confirming: the schedule\<close>

text \<open>\<open>COALESCE(NULLIF(x, 0), y)\<close>: what the asset leaves open comes from its type.\<close>

definition or_default :: "int option \<Rightarrow> int option \<Rightarrow> int option" where
  "or_default x y = (case x of None \<Rightarrow> y | Some v \<Rightarrow> if v = 0 then y else Some v)"

definition inherit_type :: "asset_type \<Rightarrow> asset \<Rightarrow> asset" where
  "inherit_type y t = t\<lparr>as_account := or_default (as_account t) (at_account y),
     as_depreciation := or_default (as_depreciation t) (at_depreciation y),
     as_expense := or_default (as_expense t) (at_expense y), as_journal := or_default (as_journal t) (at_journal y)\<rparr>"

definition inherit_accounts :: "asset \<Rightarrow> asset_db \<Rightarrow> asset_db" where
  "inherit_accounts a db = (case as_type a of None \<Rightarrow> db
     | Some y \<Rightarrow> if y \<le> 0 then db else case find (\<lambda>r. at_id r = y) (ad_types db) of None \<Rightarrow> db
         | Some r \<Rightarrow> update_asset (as_id a) (inherit_type r) db)"

definition posted_sum :: "int \<Rightarrow> asset_db \<Rightarrow> int" where
  "posted_sum i db = sum_by (\<lambda>l. dl_asset l = i \<and> dl_posted l) dl_amount (ad_lines db)"

definition posted_count :: "int \<Rightarrow> asset_db \<Rightarrow> int" where
  "posted_count i db = int (length (filter (\<lambda>l. dl_asset l = i \<and> dl_posted l) (ad_lines db)))"

definition drop_unposted :: "int \<Rightarrow> asset_db \<Rightarrow> asset_db" where
  "drop_unposted i db = db\<lparr>ad_lines := filter (\<lambda>l. \<not> (dl_asset l = i \<and> \<not> dl_posted l)) (ad_lines db)\<rparr>"

text \<open>\<open>d + n * INTERVAL '1 month'\<close>: the day is cut to the length of the month, and the result is a
  timestamp, whose years end with 294276.\<close>

definition plus_months :: "int \<Rightarrow> date \<Rightarrow> date result" where
  "plus_months n d =
     (let m = add_months n (month_first d) in
      if dt_year m < -4712 \<or> 294276 < dt_year m then Inl (RuntimeError ''timestamp out of range'')
      else Inr (Date (dt_year m) (dt_month m) (min (dt_day d) (days_in_month (dt_year m) (dt_month m)))))"

text \<open>The product of two \<open>int\<close>s; beyond 32 bits it is undefined.\<close>

definition int_times :: "int \<Rightarrow> int \<Rightarrow> int result" where
  "int_times a b = (if -(2 ^ 31) \<le> a * b \<and> a * b < 2 ^ 31 then Inr (a * b) else Inl (Undefined ''signed overflow''))"

text \<open>Line \<open>k\<close> of the loop: the last line takes what the division left over.\<close>

definition line_amount :: "int \<Rightarrow> int \<Rightarrow> int \<Rightarrow> int" where
  "line_amount remaining left k =
     (let per = cdiv remaining left in if k = left - 1 then remaining - per * (left - 1) else per)"

definition schedule_line ::
  "date \<Rightarrow> asset \<Rightarrow> int \<Rightarrow> int \<Rightarrow> int \<Rightarrow> int \<Rightarrow> int \<times> asset_db \<Rightarrow> (int \<times> asset_db) result" where
  "schedule_line today a postedCount remaining left k = (\<lambda>(cumulative, db).
     (let amt = line_amount remaining left k; cum = cumulative + amt; seq = postedCount + k + 1 in
      bindE (int_times seq (as_period a)) (\<lambda>n.
      bindE (plus_months n (case as_acquired a of None \<Rightarrow> today | Some d \<Rightarrow> d)) (\<lambda>d.
      Inr (cum, db\<lparr>ad_lines := ad_lines db @ [\<lparr>dl_id = ad_next_line db, dl_asset = as_id a, dl_sequence = seq,
             dl_date = d, dl_amount = amt, dl_remaining = as_value a - cum, dl_cumulative = cum,
             dl_move = None, dl_posted = False\<rparr>], ad_next_line := ad_next_line db + 1\<rparr>)))))"

definition build_schedule :: "date \<Rightarrow> asset \<Rightarrow> asset_db \<Rightarrow> asset_db result" where
  "build_schedule today a db =
     (let already = posted_sum (as_id a) db; postedCount = posted_count (as_id a) db;
          remaining = as_value a - already; left = max 1 (as_number a) - postedCount in
      if left < 1 then Inr (update_asset (as_id a) (\<lambda>x. x\<lparr>as_state := ''open''\<rparr>) db)
      else bindE (foldE (schedule_line today a postedCount remaining left) [0..left - 1] (already, db)) (\<lambda>(_, db').
        Inr (update_asset (as_id a) (\<lambda>x. x\<lparr>as_state := ''open'', as_residual := as_value x - already\<rparr>) db')))"

definition confirm_one :: "date \<Rightarrow> int \<Rightarrow> asset_db \<Rightarrow> asset_db result" where
  "confirm_one today i db = (case find_asset i db of
     None \<Rightarrow> Inl (RuntimeError ''Asset not found'')
   | Some a \<Rightarrow>
       if as_state a \<noteq> ''draft'' then Inl (ValidationError ''Only a draft asset can be confirmed.'')
       else if as_value a \<le> 0 then Inl (ValidationError ''Set a gross value greater than zero first.'')
       else build_schedule today a (drop_unposted i (inherit_accounts a db)))"

definition asset_action_confirm :: "date \<Rightarrow> int list \<Rightarrow> asset_db \<Rightarrow> asset_db result" where
  "asset_action_confirm today = foldE (confirm_one today)"

subsection \<open>Depreciating: one entry for each line that is due\<close>

definition dep_text :: "string \<Rightarrow> string" where
  "dep_text name = ''Depreciation '' @ map char_of [226, 128, 148 :: nat] @ '' '' @ name"

definition dep_entry :: "string \<Rightarrow> int \<Rightarrow> asset \<Rightarrow> dep_line \<Rightarrow> ledger \<Rightarrow> int \<times> ledger" where
  "dep_entry num journal a d lg = (lg_next_move lg,
     lg\<lparr>lg_next_move := lg_next_move lg + 1, lg_moves := lg_moves lg
       @ [\<lparr>am_id = lg_next_move lg, am_name = num, am_type = ''entry'', am_state = ''posted'', am_date = dl_date d,
          am_journal = journal, am_partner = None, am_company = as_company a, am_currency = None, am_term = None,
          am_untaxed = 0, am_tax = 0, am_total = dl_amount d, am_residual = 0, am_pay_state = ''not_paid'',
          am_precision = None, am_rate = ONE, am_reversed = None, am_ref = dep_text (as_name a), am_origin = None,
          am_narration = ''''\<rparr>]\<rparr>)"

definition dep_legs :: "int \<Rightarrow> int \<Rightarrow> int \<Rightarrow> int \<Rightarrow> asset \<Rightarrow> dep_line \<Rightarrow> acc_line list" where
  "dep_legs e journal expense depreciation a d =
     [leg e expense journal (as_company a) (dl_date d) (dep_text (as_name a)) None (dl_amount d) 0,
      leg e depreciation journal (as_company a) (dl_date d) (dep_text (as_name a)) None 0 (dl_amount d)]"

definition set_posted :: "int \<Rightarrow> int \<Rightarrow> asset_db \<Rightarrow> asset_db" where
  "set_posted i e db = db\<lparr>ad_lines := map (\<lambda>l. if dl_id l = i then l\<lparr>dl_posted := True, dl_move := Some e\<rparr> else l) (ad_lines db)\<rparr>"

definition post_dep_line ::
  "clock \<Rightarrow> acc_config \<Rightarrow> string \<Rightarrow> int \<Rightarrow> int \<Rightarrow> int \<Rightarrow> asset \<Rightarrow> dep_line \<Rightarrow> int \<times> asset_db \<Rightarrow> (int \<times> asset_db) result" where
  "post_dep_line ck cf code journal expense depreciation a d = (\<lambda>(posted, db).
     bindE (draw_number ck code (ad_ledger db)) (\<lambda>(num, lg).
     let (e, lg1) = dep_entry num journal a d lg in
     bindE (foldE (insert_item cf) (dep_legs e journal expense depreciation a d) lg1) (\<lambda>lg2.
     Inr (posted + 1, set_posted (dl_id d) e (db\<lparr>ad_ledger := lg2\<rparr>)))))"

text \<open>\<open>ORDER BY sequence\<close> of the lines that are due.\<close>

definition due_lines :: "int \<Rightarrow> date \<Rightarrow> asset_db \<Rightarrow> dep_line list" where
  "due_lines i asOf db = sort_key dl_sequence
     (filter (\<lambda>l. dl_asset l = i \<and> \<not> dl_posted l \<and> dl_date l \<le> asOf) (ad_lines db))"

definition refresh_book_value :: "int \<Rightarrow> asset_db \<Rightarrow> asset_db" where
  "refresh_book_value i db = update_asset i (\<lambda>a. a\<lparr>as_residual := as_value a - posted_sum i db,
     as_state := (if list_ex (\<lambda>l. dl_asset l = i \<and> \<not> dl_posted l) (ad_lines db) then as_state a else ''close'')\<rparr>) db"

definition opt_id :: "int option \<Rightarrow> int" where
  "opt_id x = (case x of None \<Rightarrow> 0 | Some v \<Rightarrow> v)"

definition depreciate_one ::
  "clock \<Rightarrow> acc_config \<Rightarrow> date option \<Rightarrow> int \<Rightarrow> int \<times> asset_db \<Rightarrow> (int \<times> asset_db) result" where
  "depreciate_one ck cf asOf i = (\<lambda>(posted, db). case find_asset i db of
     None \<Rightarrow> Inr (posted, db)
   | Some a \<Rightarrow>
       let journal = opt_id (as_journal a); expense = opt_id (as_expense a); depreciation = opt_id (as_depreciation a);
           jcode = journal_code cf journal; code = ''account.move.'' @ jcode;
           db1 = db\<lparr>ad_ledger := ensure_sequence code (jcode @ ''/%(year)s/'') (ad_ledger db)\<rparr>
       in if journal = 0 \<or> expense = 0 \<or> depreciation = 0
          then Inl (ValidationError ''Set the journal, expense and depreciation accounts on the asset first.'')
          else bindE (foldE (post_dep_line ck cf code journal expense depreciation a)
                 (due_lines i (case asOf of None \<Rightarrow> ck_today ck | Some d \<Rightarrow> d) db1) (posted, db1)) (\<lambda>(n, db2).
               Inr (n, refresh_book_value i db2)))"

definition action_depreciate :: "clock \<Rightarrow> acc_config \<Rightarrow> date option \<Rightarrow> int list \<Rightarrow> asset_db \<Rightarrow> (int \<times> asset_db) result" where
  "action_depreciate ck cf asOf ids db = foldE (depreciate_one ck cf asOf) ids (0, db)"

definition action_close :: "int list \<Rightarrow> asset_db \<Rightarrow> asset_db" where
  "action_close ids db = db\<lparr>ad_assets := map (\<lambda>a. if as_id a \<in> set ids then a\<lparr>as_state := ''close''\<rparr> else a) (ad_assets db)\<rparr>"


subsection \<open>The schedule\<close>

definition plan_of :: "int \<Rightarrow> asset_db \<Rightarrow> dep_line list" where
  "plan_of i db = filter (\<lambda>l. dl_asset l = i) (ad_lines db)"

definition dep_row :: "asset \<Rightarrow> int \<Rightarrow> int \<Rightarrow> int \<Rightarrow> int \<Rightarrow> int \<Rightarrow> nat \<Rightarrow> date \<Rightarrow> dep_line" where
  "dep_row a n pc remaining left c k d =
     (let cum = c + sum_list (map (\<lambda>j. line_amount remaining left (int j)) [0..<Suc k]) in
      \<lparr>dl_id = n + int k, dl_asset = as_id a, dl_sequence = pc + int k + 1, dl_date = d,
       dl_amount = line_amount remaining left (int k), dl_remaining = as_value a - cum, dl_cumulative = cum,
       dl_move = None, dl_posted = False\<rparr>)"

lemma int_range: "0 \<le> n \<Longrightarrow> [0..n - 1] = map int [0..<nat n]"
  by (rule nth_equalityI) auto

lemma schedule_rows:
  assumes "foldE (schedule_line today a pc remaining left) (map int [0..<m]) (c, db) = Inr (c', db')"
  shows "\<exists>ds. length ds = m
     \<and> db' = db\<lparr>ad_lines := ad_lines db @ map2 (dep_row a (ad_next_line db) pc remaining left c) [0..<m] ds,
          ad_next_line := ad_next_line db + int m\<rparr>
     \<and> c' = c + sum_list (map (\<lambda>j. line_amount remaining left (int j)) [0..<m])
     \<and> (\<forall>k < m. plus_months ((pc + int k + 1) * as_period a) (case as_acquired a of None \<Rightarrow> today | Some d \<Rightarrow> d) = Inr (ds ! k))"
  using assms
proof (induction m arbitrary: c' db')
  case 0
  then show ?case by simp
next
  case (Suc m)
  let ?start = "case as_acquired a of None \<Rightarrow> today | Some d \<Rightarrow> d"
  from Suc.prems obtain c1 db1 where
    1: "foldE (schedule_line today a pc remaining left) (map int [0..<m]) (c, db) = Inr (c1, db1)"
    and 2: "schedule_line today a pc remaining left (int m) (c1, db1) = Inr (c', db')"
    by (auto simp: foldE_append exn_simps)
  from Suc.IH [OF 1] obtain ds where ds: "length ds = m"
    "db1 = db\<lparr>ad_lines := ad_lines db @ map2 (dep_row a (ad_next_line db) pc remaining left c) [0..<m] ds,
          ad_next_line := ad_next_line db + int m\<rparr>"
    "c1 = c + sum_list (map (\<lambda>j. line_amount remaining left (int j)) [0..<m])"
    "\<forall>k < m. plus_months ((pc + int k + 1) * as_period a) ?start = Inr (ds ! k)"
    by blast
  from 2 obtain d where d: "plus_months ((pc + int m + 1) * as_period a) ?start = Inr d"
    and c': "c' = c1 + line_amount remaining left (int m)"
    and db': "db' = db1\<lparr>ad_lines := ad_lines db1 @ [dep_row a (ad_next_line db) pc remaining left c m d],
          ad_next_line := ad_next_line db1 + 1\<rparr>"
    by (auto simp: schedule_line_def Let_def exn_simps int_times_def dep_row_def ds(2,3) algebra_simps
          simp del: upt_Suc split: if_splits option.splits) (simp_all add: upt_Suc_append algebra_simps)
  have "map2 (dep_row a (ad_next_line db) pc remaining left c) [0..<Suc m] (ds @ [d])
     = map2 (dep_row a (ad_next_line db) pc remaining left c) [0..<m] ds @ [dep_row a (ad_next_line db) pc remaining left c m d]"
    using ds(1) by simp
  then show ?case
    using ds d c' db' by (intro exI [of _ "ds @ [d]"]) (auto simp: nth_append less_Suc_eq simp del: upt_Suc simp add: upt_Suc_append)
qed

lemma amounts_sum: "0 < m \<Longrightarrow> sum_list (map (\<lambda>j. line_amount v (int m) (int j)) [0..<m]) = v"
proof -
  assume "0 < m"
  then obtain n where m: "m = Suc n" by (cases m) auto
  have eq: "map (\<lambda>j. line_amount v (int m) (int j)) [0..<n] = map (\<lambda>j. cdiv v (int m)) [0..<n]"
    by (rule map_cong) (auto simp: line_amount_def Let_def m)
  have "sum_list (map (\<lambda>j. line_amount v (int m) (int j)) [0..<n]) = cdiv v (int m) * int n"
    unfolding eq by (simp add: sum_list_triv)
  moreover have "line_amount v (int m) (int n) = v - cdiv v (int m) * int n"
    by (simp add: line_amount_def Let_def m)
  moreover have "[0..<m] = [0..<n] @ [n]" by (simp add: m)
  ultimately show ?thesis by simp
qed

lemma update_asset_simps [simp]:
  "ad_lines (update_asset i f db) = ad_lines db" "ad_ledger (update_asset i f db) = ad_ledger db"
  "ad_next_line (update_asset i f db) = ad_next_line db" "ad_next_asset (update_asset i f db) = ad_next_asset db" "ad_types (update_asset i f db) = ad_types db"
  "posted_sum j (update_asset i f db) = posted_sum j db" "posted_count j (update_asset i f db) = posted_count j db"
  by (simp_all add: update_asset_def posted_sum_def posted_count_def)

lemma inherit_accounts_simps [simp]:
  "ad_lines (inherit_accounts a db) = ad_lines db" "ad_ledger (inherit_accounts a db) = ad_ledger db"
  "ad_next_line (inherit_accounts a db) = ad_next_line db" "ad_next_asset (inherit_accounts a db) = ad_next_asset db"
  "posted_sum j (inherit_accounts a db) = posted_sum j db" "posted_count j (inherit_accounts a db) = posted_count j db"
  by (simp_all add: inherit_accounts_def split: option.splits)

lemma inherit_accounts_assets:
  "\<exists>h. ad_assets (inherit_accounts a db) = map (\<lambda>x. if as_id x = as_id a then h x else x) (ad_assets db)
     \<and> (\<forall>x. as_id (h x) = as_id x \<and> as_value (h x) = as_value x \<and> as_company (h x) = as_company x)"
proof -
  have none: "ad_assets db = map (\<lambda>x. if as_id x = as_id a then id x else x) (ad_assets db)"
    by (simp add: map_idI)
  show ?thesis
  proof (cases "ad_assets (inherit_accounts a db) = ad_assets db")
    case True
    then show ?thesis using none by (intro exI [of _ id]) simp
  next
    case False
    then obtain r where "inherit_accounts a db = update_asset (as_id a) (inherit_type r) db"
      by (auto simp: inherit_accounts_def split: option.splits if_splits)
    then show ?thesis
      by (intro exI [of _ "inherit_type r"]) (simp add: update_asset_def inherit_type_def)
  qed
qed

lemma drop_unposted_simps [simp]:
  "ad_assets (drop_unposted i db) = ad_assets db" "ad_ledger (drop_unposted i db) = ad_ledger db"
  "ad_next_line (drop_unposted i db) = ad_next_line db" "ad_next_asset (drop_unposted i db) = ad_next_asset db"
  "posted_sum i (drop_unposted i db) = posted_sum i db" "posted_count i (drop_unposted i db) = posted_count i db"
  by (simp_all add: drop_unposted_def posted_sum_def posted_count_def sum_by_def filter_filter)
     (metis (mono_tags, lifting))+

text \<open>What a confirmation that succeeds has done.\<close>

lemma confirm_one_shape:
  assumes run: "confirm_one today i db = Inr db'" and a: "find_asset i db = Some a"
  defines "already \<equiv> posted_sum i db" and "pc \<equiv> posted_count i db"
  defines "left \<equiv> max 1 (as_number a) - pc"
  shows "as_state a = ''draft''" "0 < as_value a" "as_id a = i"
    and "ad_ledger db' = ad_ledger db \<and> ad_next_asset db' = ad_next_asset db"
    and "\<exists>ds. length ds = nat left
       \<and> ad_lines db' = filter (\<lambda>l. \<not> (dl_asset l = i \<and> \<not> dl_posted l)) (ad_lines db)
           @ map2 (dep_row a (ad_next_line db) pc (as_value a - already) left already) [0..<nat left] ds
       \<and> ad_next_line db' = ad_next_line db + int (nat left)
       \<and> (\<forall>k < nat left. plus_months ((pc + int k + 1) * as_period a)
            (case as_acquired a of None \<Rightarrow> today | Some d \<Rightarrow> d) = Inr (ds ! k))"
    and "\<exists>h. ad_assets db' = map (\<lambda>x. if as_id x = i then h x else x) (ad_assets db)
       \<and> (\<forall>x. as_id (h x) = as_id x \<and> as_value (h x) = as_value x \<and> as_company (h x) = as_company x
            \<and> as_state (h x) = ''open'' \<and> (0 < left \<longrightarrow> as_residual (h x) = as_value x - already))"
proof -
  let ?start = "case as_acquired a of None \<Rightarrow> today | Some d \<Rightarrow> d"
  let ?db1 = "drop_unposted i (inherit_accounts a db)"
  show st: "as_state a = ''draft''" "0 < as_value a"
    using run a by (auto simp: confirm_one_def split: if_splits)
  show id: "as_id a = i" using a by (auto simp: find_asset_def find_Some_iff)
  from run a st have b: "build_schedule today a ?db1 = Inr db'" by (simp add: confirm_one_def)
  obtain h where h: "ad_assets ?db1 = map (\<lambda>x. if as_id x = i then h x else x) (ad_assets db)"
    "\<And>x. as_id (h x) = as_id x \<and> as_value (h x) = as_value x \<and> as_company (h x) = as_company x"
    using inherit_accounts_assets [of a db] id by auto
  have L: "ad_lines ?db1 = filter (\<lambda>l. \<not> (dl_asset l = i \<and> \<not> dl_posted l)) (ad_lines db)"
    by (simp add: drop_unposted_def)
  have upd: "ad_assets (update_asset i f d) = map (\<lambda>x. if as_id x = i then f (h x) else x) (ad_assets db)"
    if "ad_assets d = ad_assets ?db1" for f d
    using h(2) unfolding update_asset_def by (simp add: trans [OF that h(1)] comp_def)
  have "(left < 1 \<and> db' = update_asset i (\<lambda>x. x\<lparr>as_state := ''open''\<rparr>) ?db1)
     \<or> (1 \<le> left \<and> (\<exists>c db2. foldE (schedule_line today a pc (as_value a - already) left) [0..left - 1] (already, ?db1) = Inr (c, db2)
         \<and> db' = update_asset i (\<lambda>x. x\<lparr>as_state := ''open'', as_residual := as_value x - already\<rparr>) db2))"
    using b by (auto simp: build_schedule_def Let_def id already_def pc_def left_def exn_simps split: if_splits)
  then have "(ad_ledger db' = ad_ledger db \<and> ad_next_asset db' = ad_next_asset db)
     \<and> (\<exists>ds. length ds = nat left
       \<and> ad_lines db' = filter (\<lambda>l. \<not> (dl_asset l = i \<and> \<not> dl_posted l)) (ad_lines db)
           @ map2 (dep_row a (ad_next_line db) pc (as_value a - already) left already) [0..<nat left] ds
       \<and> ad_next_line db' = ad_next_line db + int (nat left)
       \<and> (\<forall>k < nat left. plus_months ((pc + int k + 1) * as_period a) ?start = Inr (ds ! k)))
     \<and> (\<exists>h. ad_assets db' = map (\<lambda>x. if as_id x = i then h x else x) (ad_assets db)
       \<and> (\<forall>x. as_id (h x) = as_id x \<and> as_value (h x) = as_value x \<and> as_company (h x) = as_company x
            \<and> as_state (h x) = ''open'' \<and> (0 < left \<longrightarrow> as_residual (h x) = as_value x - already)))"
  proof
    assume c: "left < 1 \<and> db' = update_asset i (\<lambda>x. x\<lparr>as_state := ''open''\<rparr>) ?db1"
    then have "ad_assets db' = map (\<lambda>x. if as_id x = i then (h x)\<lparr>as_state := ''open''\<rparr> else x) (ad_assets db)"
      using upd [of ?db1] by simp
    with c L h(2) show ?thesis by (intro conjI exI [of _ "[]"] exI [of _ "\<lambda>x. (h x)\<lparr>as_state := ''open''\<rparr>"]) auto
  next
    assume "1 \<le> left \<and> (\<exists>c db2. foldE (schedule_line today a pc (as_value a - already) left) [0..left - 1] (already, ?db1) = Inr (c, db2)
         \<and> db' = update_asset i (\<lambda>x. x\<lparr>as_state := ''open'', as_residual := as_value x - already\<rparr>) db2)"
    then obtain c db2 where l: "1 \<le> left"
      and f: "foldE (schedule_line today a pc (as_value a - already) left) (map int [0..<nat left]) (already, ?db1) = Inr (c, db2)"
      and db': "db' = update_asset i (\<lambda>x. x\<lparr>as_state := ''open'', as_residual := as_value x - already\<rparr>) db2"
      by (auto simp: int_range)
    from schedule_rows [OF f] obtain ds where ds: "length ds = nat left"
      "db2 = ?db1\<lparr>ad_lines := ad_lines ?db1 @ map2 (dep_row a (ad_next_line ?db1) pc (as_value a - already) left already) [0..<nat left] ds,
          ad_next_line := ad_next_line ?db1 + int (nat left)\<rparr>"
      "\<forall>k < nat left. plus_months ((pc + int k + 1) * as_period a) ?start = Inr (ds ! k)" by blast
    have "ad_assets db' = map (\<lambda>x. if as_id x = i then (h x)\<lparr>as_state := ''open'', as_residual := as_value x - already\<rparr> else x) (ad_assets db)"
      unfolding db' using upd [of db2] h(2) ds(2) by simp
    with ds L h(2) db' show ?thesis
      by (intro conjI exI [of _ ds] exI [of _ "\<lambda>x. (h x)\<lparr>as_state := ''open'', as_residual := as_value x - already\<rparr>"]) auto
  qed
  then show "ad_ledger db' = ad_ledger db \<and> ad_next_asset db' = ad_next_asset db" and "\<exists>ds. length ds = nat left
       \<and> ad_lines db' = filter (\<lambda>l. \<not> (dl_asset l = i \<and> \<not> dl_posted l)) (ad_lines db)
           @ map2 (dep_row a (ad_next_line db) pc (as_value a - already) left already) [0..<nat left] ds
       \<and> ad_next_line db' = ad_next_line db + int (nat left)
       \<and> (\<forall>k < nat left. plus_months ((pc + int k + 1) * as_period a) ?start = Inr (ds ! k))"
    and "\<exists>h. ad_assets db' = map (\<lambda>x. if as_id x = i then h x else x) (ad_assets db)
       \<and> (\<forall>x. as_id (h x) = as_id x \<and> as_value (h x) = as_value x \<and> as_company (h x) = as_company x
            \<and> as_state (h x) = ''open'' \<and> (0 < left \<longrightarrow> as_residual (h x) = as_value x - already))"
    by blast+
qed

text \<open>C27: confirming an asset that has no schedule yet writes exactly the straight-line schedule: as many
  lines as the asset asks for (at least one), numbered from 1, dated period by period from the
  acquisition, each with the value divided by their number and the last with what that division left,
  so that they sum to the gross value to the millionth; the cumulative and the remaining columns follow
  the amounts, and nothing remains after the last line.\<close>

theorem schedule_exact:
  assumes "confirm_one today i db = Inr db'" and "find_asset i db = Some a" and "plan_of i db = []"
  shows "int (length (plan_of i db')) = max 1 (as_number a)
    \<and> sum_list (map dl_amount (plan_of i db')) = as_value a
    \<and> dl_remaining (last (plan_of i db')) = 0
    \<and> (\<forall>k < length (plan_of i db'). (let l = plan_of i db' ! k; n = max 1 (as_number a) in
         dl_sequence l = int k + 1 \<and> \<not> dl_posted l
         \<and> dl_amount l = (if int k = n - 1 then as_value a - cdiv (as_value a) n * (n - 1) else cdiv (as_value a) n)
         \<and> plus_months ((int k + 1) * as_period a) (case as_acquired a of None \<Rightarrow> today | Some d \<Rightarrow> d) = Inr (dl_date l)
         \<and> dl_cumulative l = sum_list (map dl_amount (take (Suc k) (plan_of i db')))
         \<and> dl_remaining l = as_value a - dl_cumulative l))"
proof -
  let ?n = "max 1 (as_number a)"
  have none: "\<forall>l \<in> set (ad_lines db). dl_asset l \<noteq> i" using assms(3) by (auto simp: plan_of_def filter_empty_conv)
  then have z: "posted_sum i db = 0" "posted_count i db = 0"
    by (auto simp: posted_sum_def posted_count_def sum_by_def filter_empty_conv intro!: arg_cong [of _ "[]" length])
  note shape = confirm_one_shape [OF assms(1,2), unfolded z]
  from shape(5) obtain ds where ds: "length ds = nat ?n"
    "ad_lines db' = filter (\<lambda>l. \<not> (dl_asset l = i \<and> \<not> dl_posted l)) (ad_lines db)
       @ map2 (dep_row a (ad_next_line db) 0 (as_value a) ?n 0) [0..<nat ?n] ds"
    "\<forall>k < nat ?n. plus_months ((int k + 1) * as_period a) (case as_acquired a of None \<Rightarrow> today | Some d \<Rightarrow> d) = Inr (ds ! k)"
    by auto
  let ?rows = "map2 (dep_row a (ad_next_line db) 0 (as_value a) ?n 0) [0..<nat ?n] ds"
  have "\<forall>l \<in> set ?rows. dl_asset l = i" by (auto simp: dep_row_def Let_def shape(3) set_zip)
  then have rows: "plan_of i db' = ?rows"
    using none by (auto simp: plan_of_def ds(2) filter_empty_conv intro: filter_True)
  have len: "length ?rows = nat ?n" using ds(1) by simp
  have row: "?rows ! k = dep_row a (ad_next_line db) 0 (as_value a) ?n 0 k (ds ! k)" if "k < nat ?n" for k
    using that ds(1) by simp
  have amounts: "map dl_amount ?rows = map (\<lambda>j. line_amount (as_value a) ?n (int j)) [0..<nat ?n]"
    by (rule nth_equalityI) (simp_all add: ds(1) dep_row_def Let_def)
  have m: "0 < nat ?n" "int (nat ?n) = ?n" by simp_all
  have total: "sum_list (map dl_amount ?rows) = as_value a"
    unfolding amounts using amounts_sum [OF m(1), of "as_value a"] by (simp only: m(2))
  have cum: "dl_cumulative (?rows ! k) = sum_list (map dl_amount (take (Suc k) ?rows))" if "k < nat ?n" for k
  proof -
    have "map dl_amount (take (Suc k) ?rows) = map (\<lambda>j. line_amount (as_value a) ?n (int j)) [0..<Suc k]"
      using that unfolding take_map [symmetric] amounts by (simp add: take_map)
    then show ?thesis using row [OF that] by (simp add: dep_row_def Let_def)
  qed
  have "?rows \<noteq> []" using len m(1) by (metis length_greater_0_conv)
  from last_conv_nth [OF this] len have last: "last ?rows = ?rows ! (nat ?n - 1)" by (simp only:)
  have all: "take (Suc (nat ?n - 1)) ?rows = ?rows" by (rule take_all) (use len m(1) in linarith)
  have rest: "dl_remaining (?rows ! k) = as_value a - dl_cumulative (?rows ! k)" if "k < nat ?n" for k
    unfolding row [OF that] by (simp add: dep_row_def Let_def)
  have k: "nat ?n - 1 < nat ?n" using m(1) by linarith
  have "dl_remaining (last ?rows) = as_value a - dl_cumulative (?rows ! (nat ?n - 1))"
    unfolding last by (rule rest [OF k])
  also have "\<dots> = 0" unfolding cum [OF k] all total by simp
  finally have zero: "dl_remaining (last ?rows) = 0" .
  have each: "let l = ?rows ! k; n = ?n in dl_sequence l = int k + 1 \<and> \<not> dl_posted l
         \<and> dl_amount l = (if int k = n - 1 then as_value a - cdiv (as_value a) n * (n - 1) else cdiv (as_value a) n)
         \<and> plus_months ((int k + 1) * as_period a) (case as_acquired a of None \<Rightarrow> today | Some d \<Rightarrow> d) = Inr (dl_date l)
         \<and> dl_cumulative l = sum_list (map dl_amount (take (Suc k) ?rows))
         \<and> dl_remaining l = as_value a - dl_cumulative l" if "k < nat ?n" for k
    unfolding Let_def cum [OF that, symmetric] row [OF that]
    using ds(3) that by (simp add: dep_row_def line_amount_def Let_def)
  have count: "int (length ?rows) = ?n" by (simp only: len m(2))
  show ?thesis
    unfolding rows by (intro conjI allI impI count total zero) (rule each, simp only: len)
qed

subsection \<open>The invariant of the assets\<close>

text \<open>A line that is posted has its own journal entry: posted, of exactly its amount, with one debit and one
  credit. An asset's schedule sums to its value, and the book value of an open asset is what its posted
  lines have left of it.\<close>

definition booked :: "int \<Rightarrow> int \<Rightarrow> ledger \<Rightarrow> bool" where
  "booked e amount lg \<longleftrightarrow> (case find_entry e lg of None \<Rightarrow> False
     | Some m \<Rightarrow> is_posted_entry m \<and> am_total m = amount
         \<and> map jl_debit (items_of e lg) = [amount, 0] \<and> map jl_credit (items_of e lg) = [0, amount])"

text \<open>\<open>T\<close> are the entries that were cancelled, or whose totals were recomputed, since.\<close>

definition line_booked :: "int set \<Rightarrow> ledger \<Rightarrow> dep_line \<Rightarrow> bool" where
  "line_booked T lg l \<longleftrightarrow> (case dl_move l of None \<Rightarrow> \<not> dl_posted l
     | Some e \<Rightarrow> dl_posted l \<and> e < lg_next_move lg \<and> (e \<notin> T \<longrightarrow> booked e (dl_amount l) lg))"

definition asset_planned :: "asset_db \<Rightarrow> asset \<Rightarrow> bool" where
  "asset_planned db a \<longleftrightarrow> (as_state a = ''draft'' \<longrightarrow> plan_of (as_id a) db = [])
     \<and> (plan_of (as_id a) db \<noteq> [] \<longrightarrow> sum_list (map dl_amount (plan_of (as_id a) db)) = as_value a)"

definition own_entries :: "asset_db \<Rightarrow> bool" where
  "own_entries db \<longleftrightarrow> (\<forall>l \<in> set (ad_lines db). \<forall>l' \<in> set (ad_lines db).
     dl_posted l \<and> dl_posted l' \<and> dl_move l = dl_move l' \<longrightarrow> l = l')"

definition plans_ok :: "int set \<Rightarrow> asset_db \<Rightarrow> bool" where
  "plans_ok T db \<longleftrightarrow> accounts_ok UNIV (ad_ledger db)
     \<and> distinct (map as_id (ad_assets db)) \<and> distinct (map dl_id (ad_lines db))
     \<and> (\<forall>l \<in> set (ad_lines db). dl_id l < ad_next_line db \<and> dl_asset l \<in> as_id ` set (ad_assets db)
          \<and> line_booked T (ad_ledger db) l)
     \<and> own_entries db \<and> (\<forall>a \<in> set (ad_assets db). as_id a < ad_next_asset db \<and> asset_planned db a)"

definition assets_ok :: "int set \<Rightarrow> asset_db \<Rightarrow> bool" where
  "assets_ok T db \<longleftrightarrow> plans_ok T db
     \<and> (\<forall>a \<in> set (ad_assets db). as_state a = ''open'' \<longrightarrow> as_residual a = as_value a - posted_sum (as_id a) db)"

lemma find_asset_in: "find_asset i db = Some a \<Longrightarrow> a \<in> set (ad_assets db) \<and> as_id a = i"
  by (auto simp: find_asset_def find_Some_iff)

text \<open>Posting one line: a new entry of its own, and nothing else.\<close>

lemma find_append: "find P (xs @ ys) = (case find P xs of None \<Rightarrow> find P ys | Some x \<Rightarrow> Some x)"
  by (induction xs) simp_all

lemma old_entry: "find_entry e lg \<noteq> None \<Longrightarrow> lg_moves lg' = lg_moves lg @ ms \<Longrightarrow> find_entry e lg' = find_entry e lg"
  by (auto simp: find_entry_def find_append split: option.splits)

lemma booked_entry: "accounts_ok UNIV lg \<Longrightarrow> booked e v lg \<Longrightarrow> e < lg_next_move lg"
  by (auto simp: booked_def accounts_ok_def split: option.splits dest!: find_entry_in)

lemma dep_entry_posted:
  assumes ok: "accounts_ok UNIV lg"
    and ins: "foldE (insert_item cf) (dep_legs e journal expense depreciation a d) (snd (dep_entry num journal a d lg)) = Inr lg'"
    and e: "e = lg_next_move lg"
  shows "accounts_ok UNIV lg'" "booked e (dl_amount d) lg'" "e < lg_next_move lg'"
    and "\<And>x v. booked x v lg \<Longrightarrow> booked x v lg'" and "lg_next_move lg' = lg_next_move lg + 1"
proof -
  define new where "new = \<lparr>am_id = lg_next_move lg, am_name = num, am_type = ''entry'', am_state = ''posted'', am_date = dl_date d,
          am_journal = journal, am_partner = None, am_company = as_company a, am_currency = None, am_term = None,
          am_untaxed = 0, am_tax = 0, am_total = dl_amount d, am_residual = 0, am_pay_state = ''not_paid'',
          am_precision = None, am_rate = ONE, am_reversed = None, am_ref = dep_text (as_name a), am_origin = None,
          am_narration = ''''\<rparr>"
  define lg1 where "lg1 = snd (dep_entry num journal a d lg)"
  have lg1: "lg1 = lg\<lparr>lg_next_move := lg_next_move lg + 1, lg_moves := lg_moves lg @ [new]\<rparr>"
    by (simp add: lg1_def dep_entry_def new_def)
  have ok1: "accounts_ok UNIV lg1"
    by (rule accounts_add_move [OF ok, of _ new]) (simp_all add: lg1 new_def)
  let ?legs = "dep_legs e journal expense depreciation a d"
  from insert_items_frame [OF ins [folded lg1_def]] obtain ls n where
    lg': "lg' = lg1\<lparr>lg_lines := lg_lines lg1 @ ls, lg_next_line := n\<rparr>"
    and same: "map (\<lambda>l. l\<lparr>jl_id := 0\<rparr>) ls = map (\<lambda>l. l\<lparr>jl_id := 0\<rparr>) ?legs" by blast
  show "accounts_ok UNIV lg'"
    by (rule accounts_insert_items [OF ok1 ins [folded lg1_def], of e]) (simp_all add: dep_legs_def leg_def lg1 e)
  have legs: "map jl_debit ls = [dl_amount d, 0]" "map jl_credit ls = [0, dl_amount d]" "map jl_move ls = [e, e]"
    by (simp_all add: same_but_id [OF same] dep_legs_def leg_def)
  then have mv: "\<forall>l \<in> set ls. jl_move l = e" by auto
  have fresh: "items_of e lg = []" using ok e by (auto simp: accounts_ok_def items_of_def filter_empty_conv)
  have "find_entry e lg = None" using ok e by (auto simp: find_entry_def find_None_iff accounts_ok_def)
  then have "find_entry e lg' = Some new"
    by (simp add: lg' lg1 find_entry_def find_append new_def e)
  moreover have "items_of e lg' = ls" using fresh mv by (simp add: lg' lg1 items_of_def filter_True)
  ultimately show "booked e (dl_amount d) lg'"
    using legs by (simp add: booked_def is_posted_entry_def new_def)
  show "e < lg_next_move lg'" "lg_next_move lg' = lg_next_move lg + 1" by (simp_all add: lg' lg1 e)
  show "booked x v lg'" if b: "booked x v lg" for x v
  proof -
    have x: "x \<noteq> e" using booked_entry [OF ok b] e by simp
    have "find_entry x lg' = find_entry x lg"
      by (rule old_entry [of _ _ _ "[new]"]) (use b in \<open>auto simp: booked_def lg' lg1 split: option.splits\<close>)
    moreover have "items_of x lg' = items_of x lg"
      by (rule items_of_add [OF mv x]) (simp add: lg' lg1)
    ultimately show ?thesis using b by (simp add: booked_def split: option.splits)
  qed
qed

lemma set_posted_simps [simp]:
  "ad_assets (set_posted i e db) = ad_assets db" "ad_ledger (set_posted i e db) = ad_ledger db"
  "ad_next_line (set_posted i e db) = ad_next_line db" "ad_next_asset (set_posted i e db) = ad_next_asset db"
  by (simp_all add: set_posted_def)

lemma plan_of_set_posted:
  "plan_of j (set_posted i e db) = map (\<lambda>l. if dl_id l = i then l\<lparr>dl_posted := True, dl_move := Some e\<rparr> else l) (plan_of j db)"
  unfolding plan_of_def set_posted_def by (simp add: filter_map comp_def if_distrib cong: if_cong)

lemma post_dep_line_ok:
  assumes ok: "plans_ok T db" and d: "d \<in> set (ad_lines db)" "\<not> dl_posted d"
    and run: "post_dep_line ck cf code journal expense depreciation a d (p, db) = Inr (p', db')"
  shows "plans_ok T db' \<and> ad_assets db' = ad_assets db
     \<and> (\<exists>e. ad_lines db' = map (\<lambda>l. if l = d then l\<lparr>dl_posted := True, dl_move := Some e\<rparr> else l) (ad_lines db))"
proof -
  from run obtain num lg lg2 where num: "draw_number ck code (ad_ledger db) = Inr (num, lg)"
    and ins: "foldE (insert_item cf) (dep_legs (lg_next_move lg) journal expense depreciation a d) (snd (dep_entry num journal a d lg)) = Inr lg2"
    and db': "db' = set_posted (dl_id d) (lg_next_move lg) (db\<lparr>ad_ledger := lg2\<rparr>)"
    by (auto simp: post_dep_line_def exn_simps dep_entry_def simp del: foldE.simps)
  let ?e = "lg_next_move lg" and ?f = "\<lambda>l. if l = d then l\<lparr>dl_posted := True, dl_move := Some (lg_next_move lg)\<rparr> else l"
  from num obtain t where lg: "lg = (ad_ledger db)\<lparr>lg_sequences := t\<rparr>" by (auto dest: draw_number_frame)
  have oklg: "accounts_ok UNIV lg" using ok by (auto simp: plans_ok_def lg elim!: accounts_frame)
  have old: "booked x v (ad_ledger db) \<longleftrightarrow> booked x v lg" for x v
    by (simp add: lg booked_def find_entry_def items_of_def split: option.splits)
  note new = dep_entry_posted [OF oklg ins refl]
  have same: "l = d" if "l \<in> set (ad_lines db)" "dl_id l = dl_id d" for l
    using ok d(1) that by (auto simp: plans_ok_def distinct_map dest: inj_onD)
  have lines: "ad_lines db' = map ?f (ad_lines db)"
    unfolding db' set_posted_def using same by auto
  have keeps: "dl_id (?f l) = dl_id l \<and> dl_asset (?f l) = dl_asset l \<and> dl_amount (?f l) = dl_amount l" for l by simp
  have l_of: "plan_of j db' = map ?f (plan_of j db)" for j
    unfolding plan_of_def lines filter_map comp_def using keeps by simp
  have amounts: "map dl_amount (plan_of j db') = map dl_amount (plan_of j db)" for j
    unfolding l_of map_map comp_def using keeps by simp
  have booked: "line_booked T lg2 (?f l)" if "l \<in> set (ad_lines db)" for l
  proof (cases "l = d")
    case True then show ?thesis using new(2,3) by (simp add: line_booked_def)
  next
    case False
    from ok that have "line_booked T (ad_ledger db) l" by (simp add: plans_ok_def)
    with False show ?thesis using new(4,5) old by (auto simp: line_booked_def lg split: option.splits)
  qed
  have apart: "dl_move l \<noteq> Some ?e" if "l \<in> set (ad_lines db)" for l
  proof
    assume *: "dl_move l = Some ?e"
    from ok that have "line_booked T (ad_ledger db) l" by (simp add: plans_ok_def)
    with * have "lg_next_move lg < lg_next_move (ad_ledger db)" by (simp add: line_booked_def)
    then show False by (simp add: lg)
  qed
  have own: "own_entries db'"
    unfolding own_entries_def lines
  proof (intro ballI impI)
    fix x y assume "x \<in> set (map ?f (ad_lines db))" "y \<in> set (map ?f (ad_lines db))"
    then obtain l m where lm: "l \<in> set (ad_lines db)" "x = ?f l" "m \<in> set (ad_lines db)" "y = ?f m"
      unfolding set_map by blast
    assume *: "dl_posted x \<and> dl_posted y \<and> dl_move x = dl_move y"
    have "own_entries db" using ok by (simp add: plans_ok_def)
    then have "l = m" using lm * apart [OF lm(1)] apart [OF lm(3)] by (auto simp: own_entries_def split: if_splits)
    then show "x = y" using lm by simp
  qed
  have ids: "map dl_id (map ?f (ad_lines db)) = map dl_id (ad_lines db)"
    unfolding map_map comp_def using keeps by simp
  have assets: "ad_assets db' = ad_assets db" and next_line: "ad_next_line db' = ad_next_line db" "ad_next_asset db' = ad_next_asset db"
    and ledger: "ad_ledger db' = lg2" by (simp_all add: db')
  have planned: "asset_planned db' x = asset_planned db x" for x
    unfolding asset_planned_def amounts by (simp add: l_of)
  have "plans_ok T db'"
    unfolding plans_ok_def assets ledger next_line planned
  proof (intro conjI)
    show "distinct (map dl_id (ad_lines db'))" unfolding lines ids using ok by (simp add: plans_ok_def)
    show "\<forall>l \<in> set (ad_lines db'). dl_id l < ad_next_line db \<and> dl_asset l \<in> as_id ` set (ad_assets db) \<and> line_booked T lg2 l"
      unfolding lines set_map
    proof (rule ballI, erule imageE)
      fix x l assume l: "x = ?f l" "l \<in> set (ad_lines db)"
      with ok keeps [of l] show "dl_id x < ad_next_line db \<and> dl_asset x \<in> as_id ` set (ad_assets db) \<and> line_booked T lg2 x"
        unfolding l(1) using booked [OF l(2)] by (simp add: plans_ok_def)
    qed
  qed (use ok new(1) own in \<open>simp_all add: plans_ok_def\<close>)
  then show ?thesis using assets lines by blast
qed

lemma post_dep_line_count: "post_dep_line ck cf code journal expense depreciation a d (p, db) = Inr (p', db') \<Longrightarrow> p' = p + 1"
  by (auto simp: post_dep_line_def exn_simps dep_entry_def simp del: foldE.simps)

text \<open>All the lines that are due, and the refreshed book value.\<close>

lemma post_lines_ok:
  assumes "foldE (post_dep_line ck cf code journal expense depreciation a) ds (p, db) = Inr (p', db')"
    and "plans_ok T db" and "distinct ds"
    and "\<forall>d \<in> set ds. d \<in> set (ad_lines db) \<and> \<not> dl_posted d"
  shows "plans_ok T db' \<and> ad_assets db' = ad_assets db \<and> p' = p + int (length ds)
     \<and> (\<exists>e. ad_lines db' = map (\<lambda>l. if l \<in> set ds then l\<lparr>dl_posted := True, dl_move := Some (e l)\<rparr> else l) (ad_lines db))"
  using assms
proof (induction ds arbitrary: p db)
  case Nil
  then show ?case by simp
next
  case (Cons d ds)
  from Cons.prems(1) obtain db1 where
    1: "post_dep_line ck cf code journal expense depreciation a d (p, db) = Inr (p + 1, db1)"
    and 2: "foldE (post_dep_line ck cf code journal expense depreciation a) ds (p + 1, db1) = Inr (p', db')"
    by (auto simp: exn_simps dest: post_dep_line_count)
  from post_dep_line_ok [OF Cons.prems(2) _ _ 1] Cons.prems(4) obtain e where
    ok1: "plans_ok T db1" "ad_assets db1 = ad_assets db"
    and l1: "ad_lines db1 = map (\<lambda>l. if l = d then l\<lparr>dl_posted := True, dl_move := Some e\<rparr> else l) (ad_lines db)"
    by auto
  have "x \<in> set (ad_lines db1)" if x: "x \<in> set ds" for x
  proof -
    from x Cons.prems(3) have "x \<noteq> d" by auto
    moreover have "x \<in> set (ad_lines db)" using x Cons.prems(4) by simp
    ultimately show ?thesis unfolding l1 set_map by (intro image_eqI [of _ _ x]) simp_all
  qed
  then have rest: "\<forall>x \<in> set ds. x \<in> set (ad_lines db1) \<and> \<not> dl_posted x" using Cons.prems(4) by simp
  have "distinct ds" using Cons.prems(3) by simp
  from Cons.IH [OF 2 ok1(1) this rest] obtain e' where
    IH: "plans_ok T db'" "ad_assets db' = ad_assets db1" "p' = p + 1 + int (length ds)"
    and l2: "ad_lines db' = map (\<lambda>l. if l \<in> set ds then l\<lparr>dl_posted := True, dl_move := Some (e' l)\<rparr> else l) (ad_lines db1)"
    by blast
  have new: "d\<lparr>dl_posted := True, dl_move := Some e\<rparr> \<notin> set ds" using rest by auto
  have "d \<notin> set ds" using Cons.prems(3) by simp
  with new have "ad_lines db' = map (\<lambda>l. if l \<in> set (d # ds)
      then l\<lparr>dl_posted := True, dl_move := Some (if l = d then e else e' l)\<rparr> else l) (ad_lines db)"
    unfolding l2 l1 by auto
  with IH ok1(2) show ?case by (auto intro!: exI [of _ "\<lambda>l. if l = d then e else e' l"])
qed

lemma update_asset_planned:
  assumes ok: "plans_ok T db" and g: "\<And>x. as_id (g x) = as_id x \<and> as_value (g x) = as_value x"
    and st: "\<And>x. x \<in> set (ad_assets db) \<Longrightarrow> as_id x = i \<Longrightarrow> as_state (g x) = ''draft'' \<Longrightarrow> as_state x = ''draft''"
  shows "plans_ok T (update_asset i g db)"
proof -
  have ids: "map as_id (ad_assets (update_asset i g db)) = map as_id (ad_assets db)"
    using g by (simp add: update_asset_def comp_def)
  have "distinct (map as_id (ad_assets (update_asset i g db)))"
    unfolding ids using ok by (simp add: plans_ok_def)
  moreover have "as_id ` set (ad_assets (update_asset i g db)) = as_id ` set (ad_assets db)"
    by (simp only: ids flip: list.set_map)
  moreover have "as_id a < ad_next_asset db \<and> asset_planned (update_asset i g db) a" if "a \<in> set (ad_assets (update_asset i g db))" for a
  proof -
    from that obtain x where x: "x \<in> set (ad_assets db)" "a = (if as_id x = i then g x else x)"
      by (auto simp: update_asset_def)
    with ok have "as_id x < ad_next_asset db" "asset_planned db x" by (simp_all add: plans_ok_def)
    with x g [of x] st [of x] show ?thesis by (auto simp: asset_planned_def plan_of_def split: if_splits)
  qed
  ultimately show ?thesis using ok by (simp add: plans_ok_def own_entries_def)
qed

lemma due_lines_set: "set (due_lines i day db) = {l \<in> set (ad_lines db). dl_asset l = i \<and> \<not> dl_posted l \<and> dl_date l \<le> day}"
  by (auto simp: due_lines_def)

lemma due_lines_distinct: "distinct (map dl_id (ad_lines db)) \<Longrightarrow> distinct (due_lines i day db)"
  by (auto simp: due_lines_def distinct_map intro: distinct_filter)

lemma plans_ok_sequence: "plans_ok T db \<Longrightarrow> plans_ok T (db\<lparr>ad_ledger := ensure_sequence c p (ad_ledger db)\<rparr>)"
proof -
  have b: "line_booked T (ensure_sequence c p (ad_ledger db)) l = line_booked T (ad_ledger db) l" for l
    by (simp add: line_booked_def booked_def find_entry_def items_of_def split: option.splits)
  show "plans_ok T db \<Longrightarrow> ?thesis"
    by (auto simp: plans_ok_def own_entries_def asset_planned_def plan_of_def b elim!: accounts_frame)
qed

lemma dep_rows:
  assumes "length ds = m"
  shows "map dl_id (map2 (dep_row a n pc v left c) [0..<m] ds) = map (\<lambda>k. n + int k) [0..<m]"
    and "map dl_amount (map2 (dep_row a n pc v left c) [0..<m] ds) = map (\<lambda>j. line_amount v left (int j)) [0..<m]"
    and "\<forall>l \<in> set (map2 (dep_row a n pc v left c) [0..<m] ds). dl_asset l = as_id a \<and> \<not> dl_posted l \<and> dl_move l = None"
proof -
  show "map dl_id (map2 (dep_row a n pc v left c) [0..<m] ds) = map (\<lambda>k. n + int k) [0..<m]"
    "map dl_amount (map2 (dep_row a n pc v left c) [0..<m] ds) = map (\<lambda>j. line_amount v left (int j)) [0..<m]"
    by (rule nth_equalityI; simp add: assms dep_row_def Let_def)+
  show "\<forall>l \<in> set (map2 (dep_row a n pc v left c) [0..<m] ds). dl_asset l = as_id a \<and> \<not> dl_posted l \<and> dl_move l = None"
    by (auto simp: dep_row_def Let_def)
qed

lemma unplanned: "plan_of i db = [] \<Longrightarrow> posted_sum i db = 0 \<and> posted_count i db = 0
   \<and> filter (\<lambda>l. \<not> (dl_asset l = i \<and> \<not> dl_posted l)) (ad_lines db) = ad_lines db"
  by (auto simp: plan_of_def posted_sum_def posted_count_def sum_by_def filter_empty_conv intro!: filter_True arg_cong [of _ "[]" length])

lemma confirm_one_ok:
  assumes ok: "assets_ok T db" and run: "confirm_one today i db = Inr db'"
  shows "assets_ok T db'"
proof -
  from run obtain a where a: "find_asset i db = Some a" by (auto simp: confirm_one_def split: option.splits)
  note shape = confirm_one_shape [OF run a]
  from ok have plans: "plans_ok T db" by (simp add: assets_ok_def)
  have mem: "a \<in> set (ad_assets db)" "as_id a = i" using find_asset_in [OF a] by simp_all
  with plans shape(1) have none: "plan_of i db = []" by (auto simp: plans_ok_def asset_planned_def)
  note z = unplanned [OF none]
  let ?n = "max 1 (as_number a)"
  from shape(5) z obtain ds where ds: "length ds = nat ?n"
    and L: "ad_lines db' = ad_lines db @ map2 (dep_row a (ad_next_line db) 0 (as_value a) ?n 0) [0..<nat ?n] ds"
    and N: "ad_next_line db' = ad_next_line db + int (nat ?n)" by auto
  have "0 < ?n" by simp
  with shape(6) z obtain h where H: "ad_assets db' = map (\<lambda>x. if as_id x = i then h x else x) (ad_assets db)"
    "\<And>x. as_id (h x) = as_id x \<and> as_value (h x) = as_value x \<and> as_company (h x) = as_company x
       \<and> as_state (h x) = ''open'' \<and> as_residual (h x) = as_value x" by simp blast
  let ?rows = "map2 (dep_row a (ad_next_line db) 0 (as_value a) ?n 0) [0..<nat ?n] ds"
  note rows = dep_rows [OF ds, of a "ad_next_line db" 0 "as_value a" ?n 0]
  have row: "dl_asset l = i" "\<not> dl_posted l" "dl_move l = None" if "l \<in> set ?rows" for l
    using rows(3) that mem by blast+
  have new_ids: "dl_id l \<ge> ad_next_line db \<and> dl_id l < ad_next_line db'" if "l \<in> set ?rows" for l
  proof -
    from that have "dl_id l \<in> set (map dl_id ?rows)" unfolding set_map by (rule imageI)
    then show ?thesis unfolding rows(1) N by auto
  qed
  have other: "plan_of j db' = plan_of j db" if "j \<noteq> i" for j
    using that row(1) by (auto simp: plan_of_def L filter_empty_conv)
  have own: "plan_of i db' = ?rows"
    using none row(1) by (auto simp: plan_of_def L filter_empty_conv intro!: filter_True)
  have m: "0 < nat ?n" "int (nat ?n) = ?n" by simp_all
  have total: "sum_list (map dl_amount ?rows) = as_value a"
    unfolding rows(2) using amounts_sum [OF m(1), of "as_value a"] by (simp only: m(2))
  have posted: "posted_sum j db' = posted_sum j db" for j
    using row(2) by (auto simp: posted_sum_def L sum_by_simps sum_by_def [of _ _ ?rows] filter_empty_conv)
  have ids: "map as_id (ad_assets db') = map as_id (ad_assets db)" using H(2) by (simp add: H(1) comp_def)
  have asset: "as_id x < ad_next_asset db' \<and> asset_planned db' x \<and> (as_state x = ''open'' \<longrightarrow> as_residual x = as_value x - posted_sum (as_id x) db')"
    if "x \<in> set (ad_assets db')" for x
  proof -
    from that obtain y where y: "y \<in> set (ad_assets db)" "x = (if as_id y = i then h y else y)" by (auto simp: H(1))
    from y(1) ok have y_ok: "as_id y < ad_next_asset db" "asset_planned db y"
      "as_state y = ''open'' \<longrightarrow> as_residual y = as_value y - posted_sum (as_id y) db"
      by (simp_all add: assets_ok_def plans_ok_def)
    show ?thesis
    proof (cases "as_id y = i")
      case True
      with y(1) mem plans have "y = a" by (auto simp: plans_ok_def distinct_map dest: inj_onD)
      with y True H(2) [of y] y_ok total own z shape(4) show ?thesis
        by (simp add: asset_planned_def posted)
    next
      case False
      with y y_ok other [OF False] shape(4) show ?thesis by (simp add: asset_planned_def posted)
    qed
  qed
  have "distinct (map dl_id (ad_lines db'))"
    unfolding L map_append rows(1) using plans by (fastforce simp: plans_ok_def distinct_map inj_on_def)
  moreover have "dl_id l < ad_next_line db' \<and> dl_asset l \<in> as_id ` set (ad_assets db') \<and> line_booked T (ad_ledger db') l"
    if "l \<in> set (ad_lines db')" for l
  proof -
    have img: "as_id ` set (ad_assets db') = as_id ` set (ad_assets db)" by (simp only: ids flip: list.set_map)
    show ?thesis
    proof (cases "l \<in> set (ad_lines db)")
      case True
      with plans shape(4) N show ?thesis by (auto simp: plans_ok_def img)
    next
      case False
      with that have l: "l \<in> set ?rows" unfolding L by simp
      have "i \<in> as_id ` set (ad_assets db)" using mem by blast
      with row [OF l] new_ids [OF l] show ?thesis unfolding img by (simp add: line_booked_def)
    qed
  qed
  moreover have "own_entries db'"
  proof -
    have "l \<in> set (ad_lines db)" if "l \<in> set (ad_lines db')" "dl_posted l" for l
      using that row(2) [of l] unfolding L set_append by blast
    moreover have "own_entries db" using plans by (simp add: plans_ok_def)
    ultimately show ?thesis unfolding own_entries_def by blast
  qed
  ultimately have "plans_ok T db'"
    using plans asset shape(4) unfolding plans_ok_def ids by simp
  with asset show ?thesis by (simp add: assets_ok_def)
qed

lemma depreciate_one_ok:
  assumes ok: "assets_ok T db" and run: "depreciate_one ck cf asOf i (p, db) = Inr (p', db')"
  shows "assets_ok T db'"
proof (cases "find_asset i db")
  case None
  with assms show ?thesis by (simp add: depreciate_one_def)
next
  case (Some a)
  let ?code = "''account.move.'' @ journal_code cf (opt_id (as_journal a))"
  let ?db1 = "db\<lparr>ad_ledger := ensure_sequence ?code (journal_code cf (opt_id (as_journal a)) @ ''/%(year)s/'') (ad_ledger db)\<rparr>"
  let ?due = "due_lines i (case asOf of None \<Rightarrow> ck_today ck | Some d \<Rightarrow> d) ?db1"
  from run Some obtain journal expense depreciation n db2 where
    f: "foldE (post_dep_line ck cf ?code journal expense depreciation a) ?due (p, ?db1) = Inr (n, db2)"
    and db': "db' = refresh_book_value i db2"
    by (auto simp: depreciate_one_def Let_def exn_simps split: if_splits)
  from ok have plans: "plans_ok T db" by (simp add: assets_ok_def)
  note plans1 = plans_ok_sequence [OF plans]
  have mem: "a \<in> set (ad_assets db)" "as_id a = i" using find_asset_in [OF Some] by simp_all
  have dist: "distinct ?due" using plans by (intro due_lines_distinct) (simp add: plans_ok_def)
  have due: "\<forall>d \<in> set ?due. d \<in> set (ad_lines ?db1) \<and> \<not> dl_posted d" by (simp add: due_lines_set)
  from post_lines_ok [OF f plans1 dist due] obtain e where
    2: "plans_ok T db2" "ad_assets db2 = ad_assets db"
    "ad_lines db2 = map (\<lambda>l. if l \<in> set ?due then l\<lparr>dl_posted := True, dl_move := Some (e l)\<rparr> else l) (ad_lines db)"
    by auto
  have others: "posted_sum j db2 = posted_sum j db" if "j \<noteq> i" for j
    unfolding posted_sum_def 2(3) by (rule sum_by_map) (use that in \<open>auto simp: due_lines_set\<close>)
  define g where "g = (\<lambda>x :: asset. x\<lparr>as_residual := as_value x - posted_sum i db2,
     as_state := (if list_ex (\<lambda>l. dl_asset l = i \<and> \<not> dl_posted l) (ad_lines db2) then as_state x else ''close'')\<rparr>)"
  have upd: "db' = update_asset i g db2" by (simp add: db' refresh_book_value_def g_def)
  have "plans_ok T db'"
    unfolding upd by (rule update_asset_planned [OF 2(1)]) (auto simp: g_def split: if_splits)
  moreover have "as_residual x = as_value x - posted_sum (as_id x) db'"
    if x: "x \<in> set (ad_assets db')" "as_state x = ''open''" for x
  proof -
    from x(1) obtain y where y: "y \<in> set (ad_assets db)" "x = (if as_id y = i then g y else y)"
      by (auto simp: upd update_asset_def 2(2))
    with ok x(2) others [of "as_id y"] show ?thesis by (auto simp: upd assets_ok_def g_def)
  qed
  ultimately show ?thesis by (simp add: assets_ok_def)
qed

text \<open>The buttons of the books leave the posted entries older than \<open>n\<close> outside \<open>T\<close> as they are.\<close>

definition undisturbed :: "int \<Rightarrow> int set \<Rightarrow> ledger \<Rightarrow> ledger \<Rightarrow> bool" where
  "undisturbed n T lg lg' \<longleftrightarrow> (\<forall>e m. e < n \<and> e \<notin> T \<and> find_entry e lg = Some m \<and> am_state m = ''posted'' \<longrightarrow>
     (\<exists>m'. find_entry e lg' = Some m' \<and> am_state m' = ''posted'' \<and> am_type m' = am_type m \<and> am_total m' = am_total m)
     \<and> items_of e lg' = items_of e lg)"

lemma undisturbed_trans: "undisturbed n T a b \<Longrightarrow> undisturbed n T b c \<Longrightarrow> undisturbed n T a c"
  unfolding undisturbed_def by (metis (no_types, lifting))

lemma undisturbed_refl [simp]: "undisturbed n T a a"
  by (simp add: undisturbed_def)

lemma booked_undisturbed: "undisturbed n T lg lg' \<Longrightarrow> e < n \<Longrightarrow> e \<notin> T \<Longrightarrow> booked e v lg \<Longrightarrow> booked e v lg'"
  by (auto simp: undisturbed_def booked_def is_posted_entry_def split: option.splits) (metis option.inject)+

lemma undisturbed_rewrite:
  assumes "lg_moves lg' = map f (lg_moves lg)" "lg_lines lg' = lg_lines lg" and f: "\<And>m. am_id (f m) = am_id m"
    and "\<And>m. find_entry (am_id m) lg = Some m \<Longrightarrow> am_state m = ''posted'' \<Longrightarrow> am_id m \<notin> T
      \<Longrightarrow> am_state (f m) = ''posted'' \<and> am_type (f m) = am_type m \<and> am_total (f m) = am_total m"
  shows "undisturbed n T lg lg'"
proof -
  have "find (\<lambda>m. am_id m = e) (map f ms) = map_option f (find (\<lambda>m. am_id m = e) ms)" for e ms
    by (induction ms) (auto simp: f)
  then have "find_entry e lg' = map_option f (find_entry e lg)" for e
    unfolding find_entry_def assms(1) .
  then have f': "find_entry e lg' = Some (f m)" if "find_entry e lg = Some m" for e m using that by simp
  show ?thesis unfolding undisturbed_def
  proof (intro allI impI)
    fix e m assume m: "e < n \<and> e \<notin> T \<and> find_entry e lg = Some m \<and> am_state m = ''posted''"
    then have "find_entry (am_id m) lg = Some m" "am_id m \<notin> T" using find_entry_in by auto
    from assms(4) [OF this(1) _ this(2)] m f' show "(\<exists>m'. find_entry e lg' = Some m' \<and> am_state m' = ''posted''
        \<and> am_type m' = am_type m \<and> am_total m' = am_total m) \<and> items_of e lg' = items_of e lg"
      using assms(2) by (intro conjI exI [of _ "f m"]) (simp_all add: items_of_def)
  qed
qed

lemma undisturbed_append:
  assumes "lg_moves lg' = lg_moves lg @ ms" "lg_lines lg' = lg_lines lg @ ls" and "\<And>l. l \<in> set ls \<Longrightarrow> n \<le> jl_move l"
  shows "undisturbed n T lg lg'"
proof -
  have "items_of e lg' = items_of e lg" if "e < n" for e
    using assms(2,3) that by (force simp: items_of_def filter_empty_conv)
  then show ?thesis using old_entry [OF _ assms(1)] by (fastforce simp: undisturbed_def)
qed

lemma undisturbed_frame: "lg_moves lg' = lg_moves lg \<Longrightarrow> lg_lines lg' = lg_lines lg \<Longrightarrow> undisturbed n T lg lg'"
  by (rule undisturbed_append [where ms = "[]" and ls = "[]"]) simp_all

lemma undisturbed_only_item: "only_item i lg lg' \<Longrightarrow> i \<in> T \<Longrightarrow> undisturbed n T lg lg'"
  by (auto simp: undisturbed_def only_item_def find_entry_def)

text \<open>The entries an operation adds are not older than \<open>n\<close> either.\<close>

definition later :: "int \<Rightarrow> int set \<Rightarrow> ledger \<Rightarrow> ledger \<Rightarrow> bool" where
  "later n T lg lg' \<longleftrightarrow> undisturbed n T lg lg' \<and> n \<le> lg_next_move lg'"

lemma later_trans: "later n T a b \<Longrightarrow> later n T b c \<Longrightarrow> later n T a c"
  by (auto simp: later_def intro: undisturbed_trans)

lemma undisturbed_alloc:
  assumes "allocate_in p v ids lg = Inr (out, lg')"
  shows "undisturbed n T lg lg'"
proof -
  from assms obtain db where "lg' = store_alloc db lg" by (auto simp: allocate_in_def exn_simps)
  then show ?thesis
    by (intro undisturbed_rewrite [where f = "\<lambda>m. case find_move db (am_id m) of None \<Rightarrow> m
        | Some d \<Rightarrow> m\<lparr>am_residual := mv_residual d, am_pay_state := mv_payment_state d\<rparr>"])
       (auto simp: store_alloc_def split: option.splits)
qed

lemma later_spend: "spend_credits i ps lg = Inr lg' \<Longrightarrow> n \<le> lg_next_move lg \<Longrightarrow> later n T lg lg'"
proof (induction ps arbitrary: lg)
  case Nil
  then show ?case by (simp add: later_def)
next
  case (Cons p ps)
  show ?case
  proof (cases "allocate_in p (zero_money 0) [i] lg")
    case (Inl e)
    with Cons.prems show ?thesis by (simp add: later_def split: if_splits)
  next
    case (Inr a)
    then obtain out x where x: "allocate_in p (zero_money 0) [i] lg = Inr (out, x)" by (cases a) auto
    have first: "later n T lg x" using undisturbed_alloc [OF x] allocate_in_frame [OF x] Cons.prems(2) by (simp add: later_def)
    have run: "(case find_entry i x of Some m \<Rightarrow> if am_residual m \<le> 0 then Inr x else spend_credits i ps x
         | None \<Rightarrow> spend_credits i ps x) = Inr lg'"
      using Cons.prems(1) by (simp only: spend_credits.simps x sum.case prod.case)
    then have "x = lg' \<or> spend_credits i ps x = Inr lg'"
    proof (cases "find_entry i x")
      case (Some m)
      with run show ?thesis by (cases "am_residual m \<le> 0") simp_all
    qed simp
    then show ?thesis
    proof
      assume "spend_credits i ps x = Inr lg'"
      then have "later n T x lg'" using first by (intro Cons.IH) (simp_all add: later_def)
      with first show ?thesis by (rule later_trans)
    qed (use first in simp)
  qed
qed

lemma later_post:
  assumes n: "n \<le> lg_next_move lg" and "post_one ck cf i lg = Inr lg'"
  shows "later n T lg lg'"
proof -
  from assms(2) obtain m u number lg1 lg3 where m: "find_entry i lg = Some m" and chk: "check_post cf m lg = Inr u"
    and num: "entry_number ck cf m lg = Inr (number, lg1)"
    and adv: "apply_advances m (post_analytic i (am_date m) (update_moves (\<lambda>x. am_id x = i)
      (\<lambda>x. x\<lparr>am_state := ''posted'', am_name := number\<rparr>) lg1)) = Inr lg3"
    and lg': "lg' = post_log i ''Invoice posted.'' lg3"
    by (auto simp: post_one_def Let_def exn_simps split: option.splits)
  let ?lg2 = "post_analytic i (am_date m) (update_moves (\<lambda>x. am_id x = i) (\<lambda>x. x\<lparr>am_state := ''posted'', am_name := number\<rparr>) lg1)"
  have "am_state m = ''draft''" using chk by (simp add: check_post_def split: if_splits)
  then have "undisturbed n T lg ?lg2"
    using entry_number_frame [OF num] m
    by (intro undisturbed_rewrite [where f = "\<lambda>x. if am_id x = i then x\<lparr>am_state := ''posted'', am_name := number\<rparr> else x"])
      (auto simp: update_moves_def)
  moreover have next_move: "lg_next_move ?lg2 = lg_next_move lg" using entry_number_frame [OF num] by (simp add: update_moves_def)
  ultimately have "later n T lg ?lg2" using n by (simp add: later_def)
  moreover have "later n T ?lg2 lg3"
    using adv n next_move unfolding apply_advances_def
    by (auto simp: later_def split: if_splits option.splits dest!: later_spend [where n = n and T = T])
  moreover have "undisturbed n T lg3 lg'" unfolding lg' by (rule undisturbed_frame) simp_all
  ultimately show ?thesis by (auto simp: later_def lg' intro: undisturbed_trans)
qed

lemma undisturbed_items:
  assumes "foldE (insert_item cf) ls lg = Inr lg'" and "\<forall>l \<in> set ls. jl_move l = e" "n \<le> e"
  shows "undisturbed n T lg lg'"
proof -
  from insert_items_frame [OF assms(1)] obtain ls' k where
    lg': "lg' = lg\<lparr>lg_lines := lg_lines lg @ ls', lg_next_line := k\<rparr>"
    and same: "map (\<lambda>l. l\<lparr>jl_id := 0\<rparr>) ls' = map (\<lambda>l. l\<lparr>jl_id := 0\<rparr>) ls" by blast
  have "set (map jl_move ls') = set (map jl_move ls)" by (simp only: same_but_id(1) [OF same])
  with assms(2) have "\<forall>l \<in> set ls'. jl_move l = e" by auto
  then show ?thesis using assms(3) by (intro undisturbed_append [where ms = "[]" and ls = ls']) (auto simp: lg')
qed

lemma later_reverse:
  assumes "n \<le> lg_next_move lg" and run: "reverse_one ck i (lg, ns) = Inr (lg', ns')"
  shows "later n T lg lg'"
proof -
  from run obtain m where m: "find_entry i lg = Some m" and ty: "reversed_type (am_type m) \<noteq> ''''"
    by (auto simp: reverse_one_def split: option.splits if_splits)
  define new :: acc_move where "new = m\<lparr>am_id := lg_next_move lg, am_name := ''/'', am_type := reversed_type (am_type m), am_state := ''draft'',
     am_date := ck_today ck, am_residual := am_total m, am_pay_state := ''not_paid'', am_rate := ONE,
     am_reversed := Some i, am_ref := ''Reversal of '' @ am_name m,
     am_origin := Some (case am_origin m of None \<Rightarrow> am_name m | Some x \<Rightarrow> x), am_narration := ''''\<rparr>"
  have "lg' = post_log (lg_next_move lg) (''Credit note / refund created as a reversal of '' @ am_name m @ ''.'')
     (copy_reversed (ck_today ck) i (lg_next_move lg) (am_name m) (lg\<lparr>lg_moves := lg_moves lg @ [new], lg_next_move := lg_next_move lg + 1\<rparr>))"
    using run m ty by (auto simp: reverse_one_def Let_def new_def split: if_splits)
  moreover have "n \<le> jl_move l" if "l \<in> set (number_items k (map (reversed_item d (lg_next_move lg) s) ls))" for l k d s ls
  proof -
    have "jl_move l \<in> jl_move ` set (number_items k (map (reversed_item d (lg_next_move lg) s) ls))" using that by blast
    then show ?thesis using assms(1) by (auto simp: reversed_item_def)
  qed
  ultimately show ?thesis
    using assms(1) unfolding later_def
    by (intro conjI undisturbed_append [where ms = "[new]"
         and ls = "number_items (lg_next_line lg) (map (reversed_item (ck_today ck) (lg_next_move lg) (am_name m)) (items_of i lg))"])
       (simp_all add: copy_reversed_def Let_def items_of_def)
qed

lemma later_pay:
  assumes n: "n \<le> lg_next_move lg" and run: "pay_one wire fixed2 ck cf a i (lg, rs) = Inr (lg', rs')"
  shows "later n T lg lg'"
proof -
  from run obtain m amount memo j pid lg1 e lg2 alloc lg3 msg where
    1: "lg1 = snd (insert_payment (new_payment amount memo a j m) lg)"
    and 2: "book_payment ck memo a j m pid lg1 = Inr (e, lg2)"
    and 3: "settle cf amount memo a j m pid e lg2 = Inr (alloc, lg3)"
    and 4: "lg' = post_log i msg lg3"
    by (auto simp: pay_one_def Let_def exn_simps case_prod_unfold split: option.splits)
  have lg1: "lg_moves lg1 = lg_moves lg" "lg_lines lg1 = lg_lines lg" "lg_next_move lg1 = lg_next_move lg"
    by (simp_all add: 1 insert_payment_def)
  from 2 obtain new where lg2: "lg_moves lg2 = lg_moves lg @ [new]" "lg_lines lg2 = lg_lines lg" "e = lg_next_move lg" "lg_next_move lg2 = lg_next_move lg + 1"
    by (auto simp: book_payment_def Let_def exn_simps insert_entry_def set_payment_def lg1 dest!: draw_number_frame)
  from 3 obtain rec lg4 lg5 cash partner where
    5: "allocate_in pid rec [am_id m] lg2 = Inr (alloc, lg4)"
    and 6: "foldE (insert_item cf) (pay_legs cf (is_out_invoice m)
       (\<lambda>acc d c. leg e acc (aj_id j) (am_company m) (pa_date a) memo (am_partner m) d c) (am_company m) cash partner
       (micros (totalFxDiff alloc)) (micros rec) amount) lg4 = Inr lg5"
    and 7: "log_fx cf (is_out_invoice m) (am_company m) (am_id m) (micros (totalFxDiff alloc)) lg5 = Inr lg3"
    by (auto simp: settle_def Let_def exn_simps)
  have "undisturbed n T lg lg2" by (rule undisturbed_append [where ms = "[new]" and ls = "[]"]) (simp_all add: lg2)
  moreover have "undisturbed n T lg2 lg4" by (rule undisturbed_alloc [OF 5])
  moreover have "undisturbed n T lg4 lg5"
    by (rule undisturbed_items [OF 6 pay_legs_move, of e]) (use n in \<open>simp_all add: leg_def lg2(3)\<close>)
  moreover have "lg_moves lg3 = lg_moves lg5 \<and> lg_lines lg3 = lg_lines lg5 \<and> lg_next_move lg3 = lg_next_move lg5"
    using 7 by (auto simp: log_fx_def exn_simps split: if_splits)
  then have "undisturbed n T lg5 lg'" "lg_next_move lg' = lg_next_move lg5" by (auto simp: 4 intro: undisturbed_frame)
  ultimately show ?thesis
    using n allocate_in_frame [OF 5] insert_items_same [OF 6] lg2(4) unfolding later_def by (auto intro: undisturbed_trans)
qed

lemma later_post_payment:
  assumes n: "n \<le> lg_next_move lg" and run: "post_payment_one dbl cf i lg = Inr lg'"
  shows "later n T lg lg'"
proof -
  from run obtain p where p: "find (\<lambda>p. ap_id p = i) (lg_payments lg) = Some p"
    by (auto simp: post_payment_one_def split: option.splits)
  let ?ins = "\<lambda>name j. insert_entry name (ap_date p) (aj_id j) (ap_partner p) (ap_company p) (ap_currency p) (payment_memo p) lg"
  from run p obtain name j e lg1 dr cr v lg3 where
    1: "e = fst (?ins name j)" "lg1 = snd (?ins name j)"
    and 2: "foldE (insert_item cf) [payment_leg e j p dr v 0, payment_leg e j p cr 0 v] lg1 = Inr lg3"
    and 3: "lg' = set_payment i (\<lambda>x. x\<lparr>ap_state := ''posted'', ap_move := Some e, ap_name := name\<rparr>) lg3"
    unfolding post_payment_one_def Let_def
    by (auto simp: exn_simps case_prod_unfold simp del: foldE.simps split: option.splits if_split_asm)
  obtain new where lg1: "lg_moves lg1 = lg_moves lg @ [new]" "lg_lines lg1 = lg_lines lg" "e = lg_next_move lg" "lg_next_move lg1 = lg_next_move lg + 1"
    by (simp add: 1 insert_entry_def)
  have "undisturbed n T lg lg1" by (rule undisturbed_append [where ms = "[new]" and ls = "[]"]) (simp_all add: lg1)
  moreover have "undisturbed n T lg1 lg3"
    by (rule undisturbed_items [OF 2, of e]) (use n in \<open>simp_all add: payment_leg_def leg_def lg1(3)\<close>)
  moreover have "undisturbed n T lg3 lg'" by (rule undisturbed_frame) (simp_all add: 3 set_payment_def)
  ultimately show ?thesis
    using n insert_items_same [OF 2] lg1(4) unfolding later_def by (auto simp: 3 intro: undisturbed_trans)
qed

lemma later_recompute:
  assumes "recompute_one parse wire cf i lg = Inr lg'" and "i \<in> T" and n: "n \<le> lg_next_move lg"
  shows "later n T lg lg'"
proof (cases "find_entry i lg")
  case None
  with assms show ?thesis by (simp add: recompute_one_def later_def)
next
  case (Some m)
  with assms(1) obtain c un tax tot r lg1 where rec: "recomputeTaxLines parse wire cf i lg = Inr (tax, lg1)"
    and lg': "lg' = set_counterpart c i tot (update_moves (\<lambda>x. am_id x = i)
      (\<lambda>x. x\<lparr>am_untaxed := un, am_tax := tax, am_total := tot, am_residual := r\<rparr>) lg1)"
    by (auto simp: recompute_one_def Let_def exn_simps)
  let ?lg2 = "update_moves (\<lambda>x. am_id x = i) (\<lambda>x. x\<lparr>am_untaxed := un, am_tax := tax, am_total := tot, am_residual := r\<rparr>) lg1"
  have 1: "only_item i lg lg1" by (rule only_item_recompute [OF rec])
  then have "undisturbed n T lg lg1" using assms(2) by (rule undisturbed_only_item)
  moreover have "undisturbed n T lg1 ?lg2"
    by (rule undisturbed_rewrite [where f = "\<lambda>x. if am_id x = i then x\<lparr>am_untaxed := un, am_tax := tax, am_total := tot, am_residual := r\<rparr> else x"])
      (use assms(2) in \<open>auto simp: update_moves_def\<close>)
  moreover have 2: "only_item i ?lg2 lg'" unfolding lg' by (rule only_item_map [OF _ _ set_counterpart_def]) simp_all
  then have "undisturbed n T ?lg2 lg'" using assms(2) by (rule undisturbed_only_item)
  moreover have "lg_next_move lg' = lg_next_move lg" using 1 2 by (simp add: only_item_def update_moves_def)
  ultimately show ?thesis using n by (auto simp: later_def intro: undisturbed_trans)
qed

lemma undisturbed_cancel: "undisturbed n (T \<union> set ids) lg (button_cancel ids lg)"
  by (rule undisturbed_rewrite [where f = "\<lambda>m. if am_id m \<in> set ids \<and> am_state m = ''posted'' then m\<lparr>am_state := ''cancel''\<rparr> else m"])
    (auto simp: button_cancel_def update_moves_def)

lemma undisturbed_draft: "undisturbed n T lg (button_draft ids lg)"
  by (rule undisturbed_rewrite [where f = "\<lambda>m. if am_id m \<in> set ids \<and> am_state m = ''cancel''
        then m\<lparr>am_state := ''draft'', am_name := ''/''\<rparr> else m"]) (auto simp: button_draft_def update_moves_def)

text \<open>The handlers fold over their ids.\<close>

lemma later_fold:
  assumes "foldE f xs s = Inr t" and "n \<le> lg_next_move (g s)"
    and step: "\<And>x s t. x \<in> set xs \<Longrightarrow> n \<le> lg_next_move (g s) \<Longrightarrow> f x s = Inr t \<Longrightarrow> later n T (g s) (g t)"
  shows "later n T (g s) (g t)"
  using assms(1)
proof (rule foldE_invariant [where P = "\<lambda>u. later n T (g s) (g u)"])
  show "later n T (g s) (g s)" using assms(2) by (simp add: later_def)
  fix x u v assume "x \<in> set xs" "later n T (g s) (g u)" "f x u = Inr v"
  with step [of x u v] show "later n T (g s) (g v)" by (auto simp: later_def intro: undisturbed_trans)
qed

lemma later_buttons:
  shows "action_post ck cf ids lg = Inr lg' \<Longrightarrow> later (lg_next_move lg) T lg lg'"
    and "recompute_totals parse wire cf ids lg = Inr lg' \<Longrightarrow> later (lg_next_move lg) (T \<union> set ids) lg lg'"
    and "action_reverse ck ids lg = Inr (r, lg') \<Longrightarrow> later (lg_next_move lg) T lg lg'"
    and "register_payment wire fixed2 ck cf a ids lg = Inr (lg', rs) \<Longrightarrow> later (lg_next_move lg) T lg lg'"
    and "post_payments dbl cf ids lg = Inr lg' \<Longrightarrow> later (lg_next_move lg) T lg lg'"
proof -
  show "later (lg_next_move lg) T lg lg'" if "action_post ck cf ids lg = Inr lg'"
    using that unfolding action_post_def by (rule later_fold [where g = id, simplified]) (auto intro: later_post)
  show "later (lg_next_move lg) (T \<union> set ids) lg lg'" if "recompute_totals parse wire cf ids lg = Inr lg'"
    using that unfolding recompute_totals_def by (rule later_fold [where g = id, simplified]) (auto intro: later_recompute)
  show "later (lg_next_move lg) T lg lg'" if "action_reverse ck ids lg = Inr (r, lg')"
  proof -
    from that obtain ns where "foldE (reverse_one ck) ids (lg, []) = Inr (lg', ns)" by (auto simp: action_reverse_def exn_simps)
    from later_fold [where g = fst, OF this, of "lg_next_move lg" T] show ?thesis
      by (simp add: later_reverse split_paired_all del: split_paired_All)
  qed
  show "later (lg_next_move lg) T lg lg'" if "register_payment wire fixed2 ck cf a ids lg = Inr (lg', rs)"
    using later_fold [where g = fst, OF that [unfolded register_payment_def], of "lg_next_move lg" T]
    by (simp add: later_pay split_paired_all del: split_paired_All)
  show "later (lg_next_move lg) T lg lg'" if "post_payments dbl cf ids lg = Inr lg'"
    using that unfolding post_payments_def by (rule later_fold [where g = id, simplified]) (auto intro: later_post_payment)
qed

lemma later_quiet:
  "later (lg_next_move lg) (T \<union> set ids) lg (button_cancel ids lg)" "later (lg_next_move lg) T lg (button_draft ids lg)"
  "later (lg_next_move lg) T lg (cancel_payments ids lg)"
  by (simp_all add: later_def undisturbed_cancel undisturbed_draft undisturbed_frame cancel_payments_def)
     (simp_all add: button_cancel_def button_draft_def update_moves_def)

text \<open>The handlers of assets on any arguments, the creation and the editing of assets in draft, and the buttons
  of the books. The second component names the entries that were cancelled or recomputed.\<close>

inductive asset_step :: "asset_db \<times> int set \<Rightarrow> asset_db \<times> int set \<Rightarrow> bool" where
  asset_new: "as_state a = ''draft'' \<Longrightarrow> create_asset a db = Inr db' \<Longrightarrow> asset_step (db, T) (db', T)"
| asset_edit: "find_asset i db = Some a \<Longrightarrow> as_state a = ''draft'' \<Longrightarrow> as_id b = i \<Longrightarrow> as_state b = ''draft''
    \<Longrightarrow> asset_step (db, T) (update_asset i (\<lambda>_. b) db, T)"
| asset_confirm: "asset_action_confirm today ids db = Inr db' \<Longrightarrow> asset_step (db, T) (db', T)"
| asset_depreciate: "action_depreciate ck cf asOf ids db = Inr (n, db') \<Longrightarrow> asset_step (db, T) (db', T)"
| asset_close: "asset_step (db, T) (action_close ids db, T)"
| asset_post: "action_post ck cf ids (ad_ledger db) = Inr lg \<Longrightarrow> asset_step (db, T) (db\<lparr>ad_ledger := lg\<rparr>, T)"
| asset_cancel: "asset_step (db, T) (db\<lparr>ad_ledger := button_cancel ids (ad_ledger db)\<rparr>, T \<union> set ids)"
| asset_draft: "asset_step (db, T) (db\<lparr>ad_ledger := button_draft ids (ad_ledger db)\<rparr>, T)"
| asset_reverse: "action_reverse ck ids (ad_ledger db) = Inr (r, lg) \<Longrightarrow> asset_step (db, T) (db\<lparr>ad_ledger := lg\<rparr>, T)"
| asset_totals: "recompute_totals parse wire cf ids (ad_ledger db) = Inr lg \<Longrightarrow> asset_step (db, T) (db\<lparr>ad_ledger := lg\<rparr>, T \<union> set ids)"
| asset_pay: "register_payment wire fixed2 ck cf p ids (ad_ledger db) = Inr (lg, rs) \<Longrightarrow> asset_step (db, T) (db\<lparr>ad_ledger := lg\<rparr>, T)"
| asset_post_payments: "post_payments dbl cf ids (ad_ledger db) = Inr lg \<Longrightarrow> asset_step (db, T) (db\<lparr>ad_ledger := lg\<rparr>, T)"
| asset_cancel_payments: "asset_step (db, T) (db\<lparr>ad_ledger := cancel_payments ids (ad_ledger db)\<rparr>, T)"

text \<open>A change of the books that leaves the entries of the schedules alone.\<close>

lemma assets_books_ok:
  assumes ok: "assets_ok T db" and step: "acc_step (ad_ledger db, UNIV) (lg, UNIV)" and T: "T \<subseteq> T'"
    and same: "later (lg_next_move (ad_ledger db)) T' (ad_ledger db) lg"
  shows "assets_ok T' (db\<lparr>ad_ledger := lg\<rparr>)"
proof -
  have "accounts_ok UNIV lg"
    using acc_step_ok [OF step] ok by (simp add: balanced_but_def assets_ok_def plans_ok_def)
  moreover have "line_booked T' lg l" if "line_booked T (ad_ledger db) l" for l
    using that T same booked_undisturbed by (fastforce simp: line_booked_def later_def split: option.splits)
  ultimately show ?thesis
    using ok by (auto simp: assets_ok_def plans_ok_def own_entries_def asset_planned_def plan_of_def posted_sum_def)
qed

lemma create_asset_ok:
  assumes ok: "assets_ok T db" and a: "as_state a = ''draft''" and run: "create_asset a db = Inr db'"
  shows "assets_ok T db'"
proof -
  let ?a = "a\<lparr>as_id := ad_next_asset db\<rparr>"
  have db': "db' = db\<lparr>ad_assets := ad_assets db @ [?a], ad_next_asset := ad_next_asset db + 1\<rparr>"
    using run by (auto simp: create_asset_def split: if_splits)
  have l: "plan_of j db' = plan_of j db" "posted_sum j db' = posted_sum j db" for j
    by (simp_all add: db' plan_of_def posted_sum_def)
  have "dl_asset x \<noteq> ad_next_asset db" if "x \<in> set (ad_lines db)" for x
    using ok that by (fastforce simp: assets_ok_def plans_ok_def)
  then have "plan_of (ad_next_asset db) db = []" by (auto simp: plan_of_def filter_empty_conv)
  then have "asset_planned db' ?a" using a by (simp add: asset_planned_def l)
  moreover have "asset_planned db' x" if "x \<in> set (ad_assets db)" for x
    using ok that by (simp add: assets_ok_def plans_ok_def asset_planned_def l)
  ultimately show ?thesis
    using ok a by (auto simp: assets_ok_def plans_ok_def own_entries_def l) (auto simp: db' less_le intro: less_imp_le)
qed

lemma edit_draft_ok:
  assumes ok: "assets_ok T db" and a: "find_asset i db = Some a" "as_state a = ''draft''"
    and b: "as_id b = i" "as_state b = ''draft''"
  shows "assets_ok T (update_asset i (\<lambda>_. b) db)"
proof -
  have l: "plan_of j (update_asset i (\<lambda>_. b) db) = plan_of j db" for j by (simp add: plan_of_def)
  have mem: "a \<in> set (ad_assets db)" "as_id a = i" using find_asset_in [OF a(1)] by simp_all
  with ok a(2) have none: "plan_of i db = []" "i < ad_next_asset db"
    by (auto simp: assets_ok_def plans_ok_def asset_planned_def)
  have ids: "map as_id (ad_assets (update_asset i (\<lambda>_. b) db)) = map as_id (ad_assets db)"
    using b(1) by (simp add: update_asset_def comp_def)
  have img: "as_id ` set (ad_assets (update_asset i (\<lambda>_. b) db)) = as_id ` set (ad_assets db)"
    by (simp only: ids flip: list.set_map)
  have "as_id x < ad_next_asset db \<and> asset_planned (update_asset i (\<lambda>_. b) db) x
     \<and> (as_state x = ''open'' \<longrightarrow> as_residual x = as_value x - posted_sum (as_id x) db)"
    if x: "x \<in> set (ad_assets (update_asset i (\<lambda>_. b) db))" for x
  proof (cases "x = b")
    case True
    then show ?thesis using b none by (simp add: asset_planned_def l)
  next
    case False
    with x have "x \<in> set (ad_assets db)" by (auto simp: update_asset_def split: if_splits)
    with ok show ?thesis by (simp add: assets_ok_def plans_ok_def asset_planned_def l)
  qed
  then show ?thesis using ok unfolding assets_ok_def plans_ok_def ids img
    by (simp add: own_entries_def)
qed

lemma action_close_ok: "assets_ok T db \<Longrightarrow> assets_ok T (action_close ids db)"
proof -
  assume ok: "assets_ok T db"
  define g :: "asset \<Rightarrow> asset" where "g = (\<lambda>a. if as_id a \<in> set ids then a\<lparr>as_state := ''close''\<rparr> else a)"
  have g: "as_id (g a) = as_id a \<and> as_value (g a) = as_value a \<and> as_company (g a) = as_company a
     \<and> (as_state (g a) = ''draft'' \<longrightarrow> as_state a = ''draft'')
     \<and> (as_state (g a) = ''open'' \<longrightarrow> as_state a = ''open'' \<and> as_residual (g a) = as_residual a)" for a
    by (simp add: g_def)
  have db': "action_close ids db = db\<lparr>ad_assets := map g (ad_assets db)\<rparr>" by (simp add: action_close_def g_def)
  have l: "plan_of j (action_close ids db) = plan_of j db" "posted_sum j (action_close ids db) = posted_sum j db" for j
    by (simp_all add: db' plan_of_def posted_sum_def)
  have ids: "map as_id (map g (ad_assets db)) = map as_id (ad_assets db)" using g by simp
  then have "distinct (map as_id (map g (ad_assets db)))" using ok by (simp only: assets_ok_def plans_ok_def)
  moreover have "as_id ` set (map g (ad_assets db)) = as_id ` set (ad_assets db)"
    by (simp only: ids flip: list.set_map)
  moreover have "as_id (g a) < ad_next_asset db \<and> asset_planned (action_close ids db) (g a)
     \<and> (as_state (g a) = ''open'' \<longrightarrow> as_residual (g a) = as_value (g a) - posted_sum (as_id (g a)) db)"
    if "a \<in> set (ad_assets db)" for a
    using ok that g [of a] by (auto simp: assets_ok_def plans_ok_def asset_planned_def l)
  ultimately show ?thesis
    using ok unfolding assets_ok_def plans_ok_def own_entries_def l by (auto simp: db')
qed

definition assets_kept :: "asset_db \<times> int set \<Rightarrow> bool" where
  "assets_kept = (\<lambda>(db, T). assets_ok T db)"

lemma asset_confirm_ok:
  assumes "asset_action_confirm today ids db = Inr db'" and "assets_ok T db"
  shows "assets_ok T db'"
  using assms(1) unfolding asset_action_confirm_def
  by (rule foldE_invariant [where P = "assets_ok T"]) (use assms(2) confirm_one_ok in blast)+

lemma asset_depreciate_ok:
  assumes "action_depreciate ck cf asOf ids db = Inr (n, db')" and "assets_ok T db"
  shows "assets_ok T db'"
proof -
  have "assets_ok T (snd (n, db'))"
    using assms(1) unfolding action_depreciate_def
    by (rule foldE_invariant [where P = "\<lambda>s. assets_ok T (snd s)"])
       (use assms(2) depreciate_one_ok in \<open>simp, metis prod.collapse\<close>)
  then show ?thesis by simp
qed

lemma any_books:
  shows "action_post ck cf ids lg = Inr lg' \<Longrightarrow> acc_step (lg, UNIV) (lg', UNIV)"
    and "acc_step (lg, UNIV) (button_cancel ids lg, UNIV)" and "acc_step (lg, UNIV) (button_draft ids lg, UNIV)"
    and "action_reverse ck ids lg = Inr (r, lg') \<Longrightarrow> acc_step (lg, UNIV) (lg', UNIV)"
    and "recompute_totals parse wire cf ids lg = Inr lg' \<Longrightarrow> acc_step (lg, UNIV) (lg', UNIV)"
    and "register_payment wire fixed2 ck cf a ids lg = Inr (lg', rs) \<Longrightarrow> acc_step (lg, UNIV) (lg', UNIV)"
    and "post_payments dbl cf ids lg = Inr lg' \<Longrightarrow> acc_step (lg, UNIV) (lg', UNIV)"
    and "acc_step (lg, UNIV) (cancel_payments ids lg, UNIV)"
  using acc_step.intros [where E = UNIV and lg = lg] by simp_all

lemma asset_step_ok: "asset_step s s' \<Longrightarrow> assets_kept s \<Longrightarrow> assets_kept s'"
proof (induction rule: asset_step.induct)
  case (asset_post ck cf ids db lg T)
  then show ?case using assets_books_ok [OF _ any_books(1)] later_buttons(1) by (simp add: assets_kept_def)
next
  case (asset_cancel db T ids)
  then show ?case using assets_books_ok [OF _ any_books(2) _ later_quiet(1)] by (simp add: assets_kept_def)
next
  case (asset_draft db T ids)
  then show ?case using assets_books_ok [OF _ any_books(3) _ later_quiet(2)] by (simp add: assets_kept_def)
next
  case (asset_reverse ck ids db r lg T)
  then show ?case using assets_books_ok [OF _ any_books(4)] later_buttons(3) by (simp add: assets_kept_def)
next
  case (asset_totals parse wire cf ids db lg T)
  then show ?case using assets_books_ok [OF _ any_books(5)] later_buttons(2) by (simp add: assets_kept_def)
next
  case (asset_pay wire fixed2 ck cf p ids db lg rs T)
  then show ?case using assets_books_ok [OF _ any_books(6)] later_buttons(4) by (simp add: assets_kept_def)
next
  case (asset_post_payments dbl cf ids db lg T)
  then show ?case using assets_books_ok [OF _ any_books(7)] later_buttons(5) by (simp add: assets_kept_def)
next
  case (asset_cancel_payments db T ids)
  then show ?case using assets_books_ok [OF _ any_books(8) _ later_quiet(3)] by (simp add: assets_kept_def)
qed (auto simp: assets_kept_def intro: create_asset_ok edit_draft_ok asset_confirm_ok asset_depreciate_ok action_close_ok)

interpretation asset_run: kept asset_step assets_kept
  by unfold_locales (rule asset_step_ok)


subsection \<open>A year of a machine\<close>

definition machine :: asset where
  "machine = \<lparr>as_id = 0, as_name = ''lathe'', as_type = Some 1, as_value = 1000000, as_residual = 0,
     as_acquired = Some (Date 2025 8 31), as_number = 3, as_period = 6, as_account = None, as_depreciation = Some 11,
     as_expense = None, as_journal = Some 1, as_state = ''draft'', as_company = 1\<rparr>"

definition workshop :: asset_db where
  "workshop = \<lparr>ad_types = [\<lparr>at_id = 1, at_account = Some 12, at_depreciation = Some 12, at_expense = Some 79, at_journal = None\<rparr>],
     ad_assets = [], ad_next_asset = 1, ad_lines = [], ad_next_line = 1, ad_ledger = shop_open\<rparr>"

definition workshop_bought :: asset_db where
  "workshop_bought = workshop\<lparr>ad_assets := [machine\<lparr>as_id := 1\<rparr>], ad_next_asset := 2\<rparr>"

definition machine_line :: "int \<Rightarrow> date \<Rightarrow> int \<Rightarrow> int \<Rightarrow> dep_line" where
  "machine_line i d v cum = \<lparr>dl_id = i, dl_asset = 1, dl_sequence = i, dl_date = d, dl_amount = v,
     dl_remaining = 1000000 - cum, dl_cumulative = cum, dl_move = None, dl_posted = False\<rparr>"

definition workshop_open :: asset_db where
  "workshop_open = workshop\<lparr>ad_assets := [machine\<lparr>as_id := 1, as_account := Some 12, as_expense := Some 79,
       as_residual := 1000000, as_state := ''open''\<rparr>], ad_next_asset := 2,
     ad_lines := [machine_line 1 (Date 2026 2 28) 333333 333333, machine_line 2 (Date 2026 8 31) 333333 666666,
       machine_line 3 (Date 2027 2 28) 333334 1000000], ad_next_line := 4\<rparr>"

definition machine_books :: ledger where
  "machine_books = shop_open\<lparr>lg_moves := lg_moves shop_open @ [\<lparr>am_id = 3, am_name = ''MISC/2026/0001'', am_type = ''entry'',
       am_state = ''posted'', am_date = Date 2026 2 28, am_journal = 1, am_partner = None, am_company = 1,
       am_currency = None, am_term = None, am_untaxed = 0, am_tax = 0, am_total = 333333, am_residual = 0,
       am_pay_state = ''not_paid'', am_precision = None, am_rate = 1000000, am_reversed = None,
       am_ref = dep_text ''lathe'', am_origin = None, am_narration = []\<rparr>],
     lg_next_move := 4,
     lg_lines := lg_lines shop_open @ [(leg 3 79 1 1 (Date 2026 2 28) (dep_text ''lathe'') None 333333 0)\<lparr>jl_id := 5\<rparr>,
       (leg 3 11 1 1 (Date 2026 2 28) (dep_text ''lathe'') None 0 333333)\<lparr>jl_id := 6\<rparr>],
     lg_next_line := 7, lg_sequences := lg_sequences shop_posted, lg_next_seq := 3\<rparr>"

definition workshop_year :: asset_db where
  "workshop_year = workshop_open\<lparr>ad_assets := [machine\<lparr>as_id := 1, as_account := Some 12, as_expense := Some 79,
       as_residual := 666667, as_state := ''open''\<rparr>],
     ad_lines := [(machine_line 1 (Date 2026 2 28) 333333 333333)\<lparr>dl_move := Some 3, dl_posted := True\<rparr>,
       machine_line 2 (Date 2026 8 31) 333333 666666, machine_line 3 (Date 2027 2 28) 333334 1000000],
     ad_ledger := machine_books\<rparr>"

lemma workshop_steps:
  "create_asset machine workshop = Inr workshop_bought"
  "confirm_one (Date 2026 3 9) 1 workshop_bought = Inr workshop_open"
  "action_depreciate march shop_config None [1] workshop_open = Inr (1, workshop_year)"
  subgoal by code_simp
  subgoal by code_simp
  subgoal by code_simp
  done

theorem schedule_exact_witness:
  "map dl_amount (plan_of 1 workshop_open) = [333333, 333333, 333334]
   \<and> map dl_date (plan_of 1 workshop_open) = [Date 2026 2 28, Date 2026 8 31, Date 2027 2 28]
   \<and> sum_list (map dl_amount (plan_of 1 workshop_open)) = 1000000"
proof -
  note 1 = workshop_steps(2)
  have 2: "find_asset 1 workshop_bought = Some (machine\<lparr>as_id := 1\<rparr>)" by code_simp
  have 3: "plan_of 1 workshop_bought = []" by code_simp
  have "sum_list (map dl_amount (plan_of 1 workshop_open)) = 1000000"
    using schedule_exact [OF 1 2 3] by (simp add: machine_def)
  moreover have "map dl_amount (plan_of 1 workshop_open) = [333333, 333333, 333334]"
    "map dl_date (plan_of 1 workshop_open) = [Date 2026 2 28, Date 2026 8 31, Date 2027 2 28]" by code_simp+
  ultimately show ?thesis by simp
qed

lemma workshop_run: "asset_step\<^sup>*\<^sup>* (workshop, {}) (workshop_year, {})"
proof -
  have "asset_step (workshop, {}) (workshop_bought, {})"
    by (rule asset_new [OF _ workshop_steps(1)]) (simp add: machine_def)
  moreover have "asset_step (workshop_bought, {}) (workshop_open, {})"
    by (rule asset_confirm [of "Date 2026 3 9" "[1]"]) (simp add: asset_action_confirm_def workshop_steps(2))
  moreover have "asset_step (workshop_open, {}) (workshop_year, {})" by (rule asset_depreciate [OF workshop_steps(3)])
  ultimately show ?thesis by (meson r_into_rtranclp rtranclp.rtrancl_into_rtrancl)
qed


text \<open>Where the code departs from what it means to do. An asset that is depreciated before it is confirmed
  is closed at its full value, and can never be confirmed; a closed asset goes on being depreciated; and
  the gross value of an open asset can be edited away from its schedule.\<close>

lemma draft_depreciated_is_closed:
  assumes "depreciate_one ck cf asOf i (p, db) = Inr (p', db')" and "find_asset i db = Some a" and "plan_of i db = []"
  shows "p' = p \<and> find_asset i db' = Some (a\<lparr>as_residual := as_value a, as_state := ''close''\<rparr>)
    \<and> confirm_one today i db' = Inl (ValidationError ''Only a draft asset can be confirmed.'')"
proof -
  have none: "due_lines i d (db\<lparr>ad_ledger := lg\<rparr>) = []" "list_ex (\<lambda>l. dl_asset l = i \<and> \<not> dl_posted l) (ad_lines db) = False"
    "posted_sum i (db\<lparr>ad_ledger := lg\<rparr>) = 0" for d lg
    using assms(3) by (auto simp: plan_of_def due_lines_def posted_sum_def sum_by_def filter_empty_conv list_ex_iff)
  have i: "as_id a = i" using find_asset_in [OF assms(2)] by simp
  from assms(1,2) obtain lg where db': "p' = p" "db' = refresh_book_value i (db\<lparr>ad_ledger := lg\<rparr>)"
    by (auto simp: depreciate_one_def Let_def none split: if_splits)
  have "find (\<lambda>x. as_id x = i) (map (\<lambda>x. if as_id x = i then g x else x) xs)
     = map_option g (find (\<lambda>x. as_id x = i) xs)" if "\<And>x. as_id (g x) = as_id x" for g and xs :: "asset list"
    using that by (induction xs) auto
  from this [of "\<lambda>x. x\<lparr>as_residual := as_value x, as_state := ''close''\<rparr>" "ad_assets db"]
  have "find_asset i db' = Some (a\<lparr>as_residual := as_value a, as_state := ''close''\<rparr>)"
    using assms(2) none by (simp add: db'(2) refresh_book_value_def find_asset_def update_asset_def)
  then show ?thesis by (simp add: db' confirm_one_def)
qed

lemma closed_asset_still_depreciates:
  "case action_depreciate march shop_config None [1] (action_close [1] workshop_open) of
     Inl _ \<Rightarrow> False | Inr (n, db) \<Rightarrow> n = 1 \<and> posted_sum 1 db = 333333"
  by code_simp

lemma edit_leaves_schedule:
  "sum_list (map dl_amount (plan_of i (update_asset i (\<lambda>x. x\<lparr>as_value := v\<rparr>) db))) = sum_list (map dl_amount (plan_of i db))"
  by (simp add: plan_of_def)

end
