(* ===== verification/BankRec.thy ===== *)
theory BankRec
  imports Accounting
begin

section \<open>Bank reconciliation (modules/account/AccountModule.cpp)\<close>

text \<open>
  \<open>AccountBankStatementLineViewModel\<close>: the open documents proposed for a line of a bank statement, and
  the reconciliation of a line with one of them, which posts the entry of the bank, lowers the residual
  of the document and marks the line. The state is the statements and their lines beside the books of
  theory Accounting; each handler runs in one transaction.
\<close>

record bank_statement =
  st_id :: int
  st_journal :: "int option"

record stmt_line =
  sl_id :: int
  sl_statement :: int
  sl_partner :: "int option"
  sl_amount :: int
  sl_reconciled :: bool
  sl_move :: "int option"
  sl_company :: "int option"

record bank_db =
  bk_statements :: "bank_statement list"
  bk_lines :: "stmt_line list"
  bk_ledger :: ledger

definition find_stmt_line :: "int \<Rightarrow> bank_db \<Rightarrow> stmt_line option" where
  "find_stmt_line i db = find (\<lambda>l. sl_id l = i) (bk_lines db)"

definition is_invoice :: "string \<Rightarrow> bool" where
  "is_invoice t \<longleftrightarrow> t \<in> {''out_invoice'', ''in_invoice'', ''out_refund'', ''in_refund''}"

text \<open>An absent id of a row reads as 0.\<close>

definition id_or_zero :: "int option \<Rightarrow> int" where
  "id_or_zero x = (case x of None \<Rightarrow> 0 | Some v \<Rightarrow> v)"

subsection \<open>Suggestions\<close>

text \<open>\<open>ORDER BY (amount_residual = a) DESC, (partner_id = p) DESC, date LIMIT 20\<close>: in descending order a
  NULL comes first, and a document without a partner compares as NULL. Ties keep the order of the table.\<close>

definition partner_rank :: "int \<Rightarrow> acc_move \<Rightarrow> nat" where
  "partner_rank p m = (case am_partner m of None \<Rightarrow> 0 | Some q \<Rightarrow> if q = p then 1 else 2)"

definition suggest_matches :: "int \<Rightarrow> bank_db \<Rightarrow> acc_move list result" where
  "suggest_matches lineId db =
     (if lineId \<le> 0 then Inl (RuntimeError ''suggest_matches: line_id required'')
      else case find_stmt_line lineId db of None \<Rightarrow> Inl (RuntimeError ''statement line not found'')
      | Some ln \<Rightarrow>
          let a = \<bar>sl_amount ln\<bar>; partner = id_or_zero (sl_partner ln);
              rows = filter (\<lambda>m. am_state m = ''posted'' \<and> 0 < am_residual m \<and> is_invoice (am_type m)) (lg_moves (bk_ledger db))
          in Inr (take 20 (sort_key (\<lambda>m. if am_residual m = a then 0 else 1 :: nat)
               (sort_key (partner_rank partner) (sort_key am_date rows)))))"

subsection \<open>Reconciling a line\<close>

definition check_target :: "stmt_line \<Rightarrow> int \<Rightarrow> acc_move \<Rightarrow> unit result" where
  "check_target ln company m =
     (if am_state m \<noteq> ''posted'' then Inl (ValidationError ''Reconcile: the invoice is not posted.'')
      else if \<not> is_invoice (am_type m) then Inl (ValidationError ''Reconcile: the target is not a customer/vendor invoice.'')
      else if am_residual m \<le> 0 then Inl (ValidationError ''Reconcile: the invoice is already fully paid.'')
      else if 0 < am_company m \<and> company \<noteq> am_company m
        then Inl (ValidationError ''Reconcile: the invoice belongs to a different company.'')
      else if 0 < id_or_zero (sl_partner ln) \<and> 0 < id_or_zero (am_partner m)
            \<and> id_or_zero (sl_partner ln) \<noteq> id_or_zero (am_partner m)
        then Inl (ValidationError ''Reconcile: the invoice partner does not match the statement line.'')
      else Inr ())"

definition account_by_code :: "acc_config \<Rightarrow> string \<Rightarrow> int \<Rightarrow> int" where
  "account_by_code cf code company = (case find (\<lambda>r. aa_code r = code \<and> aa_company r = company) (cf_accounts cf) of
     None \<Rightarrow> 0 | Some r \<Rightarrow> aa_id r)"

definition bank_account :: "acc_config \<Rightarrow> int \<Rightarrow> int \<Rightarrow> int" where
  "bank_account cf jid company =
     (let a = (case find (\<lambda>j. aj_id j = jid) (cf_journals cf) of None \<Rightarrow> 0 | Some j \<Rightarrow> id_or_zero (aj_account j))
      in if a \<le> 0 then account_by_code cf ''1100'' company else a)"

text \<open>The receivable or payable account of the document, from its items.\<close>

definition is_open_account :: "acc_config \<Rightarrow> int \<Rightarrow> bool" where
  "is_open_account cf a = list_ex (\<lambda>r. aa_id r = a \<and> (aa_type r = ''asset_receivable'' \<or> aa_type r = ''liability_payable''))
     (cf_accounts cf)"

definition counterpart_account :: "acc_config \<Rightarrow> int \<Rightarrow> int \<Rightarrow> ledger \<Rightarrow> int" where
  "counterpart_account cf i company lg =
     (let a = (case find (\<lambda>l. is_open_account cf (jl_account l)) (items_of i lg) of None \<Rightarrow> 0 | Some l \<Rightarrow> jl_account l)
      in if a \<le> 0 then account_by_code cf ''1200'' company else a)"

definition bank_legs :: "int \<Rightarrow> int \<Rightarrow> int \<Rightarrow> date \<Rightarrow> int \<Rightarrow> int \<Rightarrow> int \<Rightarrow> acc_line list" where
  "bank_legs e jid company today bank other amount =
     (let inflow = (0 \<le> amount); a = \<bar>amount\<bar>;
          mk = (\<lambda>acct dr cr. leg e acct jid company today ''Bank reconciliation'' None dr cr)
      in [mk bank (if inflow then a else 0) (if inflow then 0 else a),
          mk other (if inflow then 0 else a) (if inflow then a else 0)])"

definition bank_entry :: "date \<Rightarrow> acc_config \<Rightarrow> int \<Rightarrow> int \<Rightarrow> int \<Rightarrow> int \<Rightarrow> int \<Rightarrow> ledger \<Rightarrow> (int \<times> ledger) result" where
  "bank_entry today cf jid company bank other amount lg =
     (let (e, lg1) = insert_entry ''/'' today jid None company None '''' lg;
          lg2 = update_moves (\<lambda>m. am_id m = e) (\<lambda>m. m\<lparr>am_name := ''BNK/'' @ int_to_string e\<rparr>) lg1
      in bindE (foldE (insert_item cf) (bank_legs e jid company today bank other amount) lg2) (\<lambda>lg3. Inr (e, lg3)))"

definition clear_residual :: "int \<Rightarrow> int \<Rightarrow> ledger \<Rightarrow> ledger" where
  "clear_residual i a = update_moves (\<lambda>m. am_id m = i) (\<lambda>m. m\<lparr>am_residual := max (am_residual m - a) 0,
     am_pay_state := (if am_residual m - a \<le> 0 then ''paid'' else ''partial'')\<rparr>)"

definition mark_reconciled :: "int \<Rightarrow> int \<Rightarrow> bank_db \<Rightarrow> bank_db" where
  "mark_reconciled i e db = db\<lparr>bk_lines := map (\<lambda>l. if sl_id l = i then l\<lparr>sl_reconciled := True, sl_move := Some e\<rparr> else l) (bk_lines db)\<rparr>"

definition reconcile :: "date \<Rightarrow> acc_config \<Rightarrow> int \<Rightarrow> int \<Rightarrow> bank_db \<Rightarrow> (int \<times> bank_db) result" where
  "reconcile today cf lineId moveId db =
     (if lineId \<le> 0 \<or> moveId \<le> 0 then Inl (RuntimeError ''reconcile: line_id and move_id required'')
      else case find_stmt_line lineId db of None \<Rightarrow> Inl (RuntimeError ''statement line not found'')
      | Some ln \<Rightarrow> case find (\<lambda>s. st_id s = sl_statement ln) (bk_statements db) of
          None \<Rightarrow> Inl (RuntimeError ''statement line not found'')
        | Some st \<Rightarrow>
            if sl_reconciled ln then Inl (RuntimeError ''line already reconciled'')
            else case st_journal st of None \<Rightarrow> Inl (RuntimeError ''unexpected null value'')
            | Some jid \<Rightarrow>
                let amount = sl_amount ln; company = (case sl_company ln of None \<Rightarrow> 1 | Some c \<Rightarrow> c) in
                (case find_entry moveId (bk_ledger db) of
                   None \<Rightarrow> Inl (ValidationError ''Reconcile: invoice not found.'')
                 | Some m \<Rightarrow> bindE (check_target ln company m) (\<lambda>_.
                     let bank = bank_account cf jid company; other = counterpart_account cf moveId company (bk_ledger db) in
                     if bank \<le> 0 \<or> other \<le> 0 then Inl (RuntimeError ''bank or counterpart account not configured'')
                     else bindE (bank_entry today cf jid company bank other amount (bk_ledger db)) (\<lambda>(e, lg).
                       Inr (e, mark_reconciled lineId e (db\<lparr>bk_ledger := clear_residual moveId \<bar>amount\<bar> lg\<rparr>))))))"

subsection \<open>What a reconciliation does\<close>

definition bank_ok :: "bank_db \<Rightarrow> bool" where
  "bank_ok db \<longleftrightarrow> accounts_ok {} (bk_ledger db) \<and> distinct (map sl_id (bk_lines db))"

lemma find_stmt_line_in: "find_stmt_line i db = Some l \<Longrightarrow> l \<in> set (bk_lines db) \<and> sl_id l = i"
  by (auto simp: find_stmt_line_def find_Some_iff)

lemma bank_legs_facts:
  "\<forall>l \<in> set (bank_legs e jid company today bank other amount). jl_move l = e"
  "map jl_debit (bank_legs e jid company today bank other amount) = [max amount 0, max (- amount) 0]"
  "map jl_credit (bank_legs e jid company today bank other amount) = [max (- amount) 0, max amount 0]"
  "map jl_account (bank_legs e jid company today bank other amount) = [bank, other]"
  by (simp_all add: bank_legs_def leg_def Let_def max_def)

text \<open>The entry of the bank is new, and the entries and items that were there stay.\<close>

lemma bank_entry_effect:
  assumes ok: "accounts_ok {} lg"
    and run: "bank_entry today cf jid company bank other amount lg = Inr (e, lg')"
  shows "accounts_ok {} lg'" "e = lg_next_move lg"
    and "\<exists>m. lg_moves lg' = lg_moves lg @ [m] \<and> am_id m = e \<and> is_posted_entry m"
    and "map jl_debit (items_of e lg') = [max amount 0, max (- amount) 0]"
    and "map jl_credit (items_of e lg') = [max (- amount) 0, max amount 0]"
    and "map jl_account (items_of e lg') = [bank, other]"
    and "\<And>j. j \<noteq> e \<Longrightarrow> items_of j lg' = items_of j lg"
proof -
  define lg1 where "lg1 = snd (insert_entry ''/'' today jid None company None '''' lg)"
  define lg2 where "lg2 = update_moves (\<lambda>m. am_id m = lg_next_move lg) (\<lambda>m. m\<lparr>am_name := ''BNK/'' @ int_to_string (lg_next_move lg)\<rparr>) lg1"
  have e: "e = lg_next_move lg" and ins: "foldE (insert_item cf) (bank_legs e jid company today bank other amount) lg2 = Inr lg'"
    using run by (auto simp: bank_entry_def lg2_def lg1_def insert_entry_def exn_simps simp del: foldE.simps)
  show "e = lg_next_move lg" by (rule e)
  have old: "am_id m \<noteq> lg_next_move lg" if "m \<in> set (lg_moves lg)" for m using ok that by (auto simp: accounts_ok_def)
  have "map (\<lambda>m. if am_id m = lg_next_move lg then m\<lparr>am_name := n\<rparr> else m) (lg_moves lg) = lg_moves lg" for n
    by (rule map_idI) (use old in auto)
  then obtain m where m: "lg_moves lg2 = lg_moves lg @ [m]" "am_id m = e" "is_posted_entry m" "am_company m = company"
    and frame: "lg_lines lg2 = lg_lines lg" "lg_next_move lg2 = lg_next_move lg + 1" "lg_payments lg2 = lg_payments lg"
    by (auto simp: lg2_def lg1_def update_moves_def insert_entry_def is_posted_entry_def e)
  have ok2: "accounts_ok {} lg2" by (rule accounts_add_move [OF ok m(1)]) (use m frame e in simp_all)
  show "accounts_ok {} lg'"
    by (rule accounts_insert_items [OF ok2 ins bank_legs_facts(1)]) (use frame e in \<open>simp_all add: bank_legs_facts\<close>)
  show "\<exists>m. lg_moves lg' = lg_moves lg @ [m] \<and> am_id m = e \<and> is_posted_entry m"
    using m insert_items_moves [OF ins] by auto
  from insert_items_frame [OF ins] obtain ls n where lg': "lg' = lg2\<lparr>lg_lines := lg_lines lg2 @ ls, lg_next_line := n\<rparr>"
    and same: "map (\<lambda>l. l\<lparr>jl_id := 0\<rparr>) ls = map (\<lambda>l. l\<lparr>jl_id := 0\<rparr>) (bank_legs e jid company today bank other amount)" by blast
  have "map jl_account (map (\<lambda>l. l\<lparr>jl_id := 0\<rparr>) ls) = map jl_account (map (\<lambda>l. l\<lparr>jl_id := 0\<rparr>) (bank_legs e jid company today bank other amount))"
    by (simp only: same)
  then have acc: "map jl_account ls = [bank, other]" by (simp add: comp_def bank_legs_facts)
  have "set (map jl_move ls) \<subseteq> {e}"
    unfolding same_but_id(1) [OF same] using bank_legs_facts(1) [of e jid company today bank other amount] by auto
  then have mv: "\<forall>l \<in> set ls. jl_move l = e" by auto
  have "items_of e lg = []" using ok e by (auto simp: accounts_ok_def items_of_def filter_empty_conv)
  then have "items_of e lg' = ls" using mv by (simp add: lg' items_of_def frame filter_True)
  then show "map jl_debit (items_of e lg') = [max amount 0, max (- amount) 0]"
    "map jl_credit (items_of e lg') = [max (- amount) 0, max amount 0]" "map jl_account (items_of e lg') = [bank, other]"
    using same_but_id [OF same] acc by (simp_all add: bank_legs_facts)
  show "items_of j lg' = items_of j lg" if "j \<noteq> e" for j
    by (rule items_of_add [OF mv that]) (simp add: lg' frame)
qed

lemma find_mapped: "(\<And>x. k (f x) = k x) \<Longrightarrow> find (\<lambda>x. k x = i) (map (\<lambda>x. if k x = j then f x else x) xs)
   = (if i = j then map_option f (find (\<lambda>x. k x = i) xs) else find (\<lambda>x. k x = i) xs)"
  by (induction xs) auto

lemma find_end: "find P (xs @ [x]) = (case find P xs of None \<Rightarrow> if P x then Some x else None | Some y \<Rightarrow> Some y)"
  by (induction xs) auto

text \<open>What a successful call went through.\<close>

lemma reconcile_cases:
  assumes "reconcile today cf i j db = Inr (e, db')"
  obtains ln jid m bank other lg where "0 < i" "0 < j" "find_stmt_line i db = Some ln" "\<not> sl_reconciled ln"
    "find_entry j (bk_ledger db) = Some m"
    "check_target ln (case sl_company ln of None \<Rightarrow> 1 | Some c \<Rightarrow> c) m = Inr ()"
    "bank_entry today cf jid (case sl_company ln of None \<Rightarrow> 1 | Some c \<Rightarrow> c) bank other (sl_amount ln) (bk_ledger db) = Inr (e, lg)"
    "db' = mark_reconciled i e (db\<lparr>bk_ledger := clear_residual j \<bar>sl_amount ln\<bar> lg\<rparr>)"
    "bank = bank_account cf jid (case sl_company ln of None \<Rightarrow> 1 | Some c \<Rightarrow> c)"
    "other = counterpart_account cf j (case sl_company ln of None \<Rightarrow> 1 | Some c \<Rightarrow> c) (bk_ledger db)"
  using assms that
  by (auto simp: reconcile_def Let_def exn_simps split: if_split_asm option.split_asm)


text \<open>A statement of three lines: 150.00 in and 200.00 out of customer 7, and 500.00 in of nobody.\<close>

definition till :: ledger where
  "till = advance_shop\<lparr>lg_payments := map (\<lambda>p. p\<lparr>ap_amount := 50000000\<rparr>) (lg_payments advance_shop)\<rparr>"

definition bank_day :: bank_db where
  "bank_day = \<lparr>bk_statements = [\<lparr>st_id = 1, st_journal = Some 2\<rparr>],
     bk_lines = [\<lparr>sl_id = 1, sl_statement = 1, sl_partner = Some 7, sl_amount = 150000000, sl_reconciled = False, sl_move = None, sl_company = Some 1\<rparr>,
       \<lparr>sl_id = 2, sl_statement = 1, sl_partner = Some 7, sl_amount = -200000000, sl_reconciled = False, sl_move = None, sl_company = Some 1\<rparr>,
       \<lparr>sl_id = 3, sl_statement = 1, sl_partner = None, sl_amount = 500000000, sl_reconciled = False, sl_move = None, sl_company = None\<rparr>],
     bk_ledger = till\<rparr>"

definition bank_paid :: bank_db where
  "bank_paid = (case reconcile (Date 2026 3 9) shop_config 1 1 bank_day of Inl _ \<Rightarrow> bank_day | Inr (_, db) \<Rightarrow> db)"


text \<open>Where the code departs from what it means to do. Money that leaves the bank settles a customer's
  invoice; what a line carries beyond the residual is credited to the receivable and to no document; the
  next allocation recomputes the residual without it; and a document of another company is proposed, and
  then refused.\<close>

lemma outflow_pays_invoice:
  "case reconcile (Date 2026 3 9) shop_config 2 1 bank_day of Inl _ \<Rightarrow> False
   | Inr (e, db) \<Rightarrow> map am_pay_state (filter (\<lambda>m. am_id m = 1) (lg_moves (bk_ledger db))) = [''paid'']
       \<and> map jl_credit (items_of e (bk_ledger db)) = [200000000, 0]"
  by code_simp

lemma excess_belongs_to_nobody:
  "case reconcile (Date 2026 3 9) shop_config 3 1 bank_day of Inl _ \<Rightarrow> False
   | Inr (e, db) \<Rightarrow> map am_residual (lg_moves (bk_ledger db)) = [0, 200000000, 0]
       \<and> map jl_credit (items_of e (bk_ledger db)) = [0, 500000000]"
  by code_simp

lemma allocation_forgets_bank:
  "case allocate_in 1 (fromMicros 50000000 0) [1] (bk_ledger bank_paid) of Inl _ \<Rightarrow> False
   | Inr (out, lg) \<Rightarrow> map am_residual (filter (\<lambda>m. am_id m = 1) (lg_moves lg)) = [150000000]"
  by code_simp

definition foreign_bank :: bank_db where
  "foreign_bank = bank_day\<lparr>bk_ledger := till\<lparr>lg_moves := [(sample_move 1 ''out_invoice'' ''posted'' 1000000 150000000)\<lparr>am_company := 2\<rparr>]\<rparr>\<rparr>"

lemma suggested_then_refused:
  "(case suggest_matches 1 foreign_bank of Inl _ \<Rightarrow> False | Inr ms \<Rightarrow> map am_id ms = [1])
   \<and> reconcile (Date 2026 3 9) shop_config 1 1 foreign_bank
     = Inl (ValidationError ''Reconcile: the invoice belongs to a different company.'')"
  by code_simp

end
