(* ===== verification/Reorder.thy ===== *)
theory Reorder
  imports Trade Mrp
begin

section \<open>Reordering rules (modules/stock/StockModule.cpp)\<close>

text \<open>
  \<open>runReorderScheduler\<close>, behind the cron job \<open>stock.reorder\<close> and the Replenish button: for each active
  rule, what is on hand at its location and what is on its way by open purchase and manufacturing orders
  is compared with the minimum, and an order up to the maximum is drafted. It works on the purchase
  orders of the warehouse (theory Warehouse, as Trade uses them) and on the manufacturing orders of the
  factory (theory Mrp). The run is one transaction.
\<close>

record orderpoint =
  op_id :: int
  op_product :: int
  op_location :: "int option"
  op_min :: int
  op_max :: int
  op_multiple :: int
  op_route :: "string option"
  op_supplier :: "int option"
  op_company :: "int option"
  op_active :: bool

record vendor_line =
  vl_id :: int
  vl_product :: "int option"
  vl_partner :: int
  vl_price :: int
  vl_sequence :: int

record supply_db =
  sp_factory :: factory
  sp_next_order :: int
  sp_next_line :: int
  sp_points :: "orderpoint list"
  sp_vendors :: "vendor_line list"

subsection \<open>What is there and what is on its way\<close>

definition on_hand_at :: "int \<Rightarrow> int \<Rightarrow> stock_db \<Rightarrow> int" where
  "on_hand_at p loc st = sum_by (\<lambda>q. qn_product q = p \<and> qn_location q = loc) qn_quantity (sk_quants st)"

definition order_open :: "warehouse \<Rightarrow> int \<Rightarrow> bool" where
  "order_open w i = list_ex (\<lambda>r. or_id r = i \<and> (or_state r = ''draft'' \<or> or_state r = ''sent'' \<or> or_state r = ''purchase''))
     (wh_purchases w)"

definition incoming_purchases :: "int \<Rightarrow> warehouse \<Rightarrow> int" where
  "incoming_purchases p w = sum_by (\<lambda>l. ol_product l = Some p \<and> order_open w (ol_order l) \<and> ol_done l < ol_qty l)
     (\<lambda>l. ol_qty l - ol_done l) (wh_purchase_lines w)"

definition incoming_productions :: "int \<Rightarrow> factory \<Rightarrow> int" where
  "incoming_productions p f = sum_by (\<lambda>r. mo_product r = p \<and> mo_state r \<noteq> ''done'' \<and> mo_state r \<noteq> ''cancel'') mo_qty (fa_orders f)"

definition virtual_stock :: "int \<Rightarrow> int \<Rightarrow> supply_db \<Rightarrow> int" where
  "virtual_stock p loc s = on_hand_at p loc (wh_stock (fa_wh (sp_factory s)))
     + incoming_purchases p (fa_wh (sp_factory s)) + incoming_productions p (sp_factory s)"

definition op_place :: "orderpoint \<Rightarrow> int" where
  "op_place r = (case op_location r of None \<Rightarrow> 4 | Some l \<Rightarrow> l)"

definition is_make :: "orderpoint \<Rightarrow> bool" where
  "is_make r \<longleftrightarrow> op_route r = Some ''manufacture''"

definition virtual_of :: "orderpoint \<Rightarrow> supply_db \<Rightarrow> int" where
  "virtual_of r s = virtual_stock (op_product r) (op_place r) s"

subsection \<open>The quantity and the vendor\<close>

text \<open>C++ sums and products of \<open>long long\<close>: beyond 64 bits they have no meaning.\<close>

definition exact64 :: "int \<Rightarrow> int result" where
  "exact64 v = (if in_int64 v then Inr v else Inl (Undefined ''signed overflow''))"

text \<open>The three sums are converted one by one, then added.\<close>

definition read_virtual :: "orderpoint \<Rightarrow> supply_db \<Rightarrow> int result" where
  "read_virtual r s = (let p = op_product r; f = sp_factory s in
     bindE (as_int64 (on_hand_at p (op_place r) (wh_stock (fa_wh f)))) (\<lambda>a.
     bindE (as_int64 (incoming_purchases p (fa_wh f))) (\<lambda>b.
     bindE (as_int64 (incoming_productions p f)) (\<lambda>c.
     bindE (exact64 (a + b)) (\<lambda>ab. exact64 (ab + c))))))"

text \<open>0 where the code goes on to the next rule.\<close>

definition reorder_qty :: "orderpoint \<Rightarrow> int \<Rightarrow> int result" where
  "reorder_qty r virt =
     (if op_min r \<le> virt then Inr 0
      else bindE (exact64 (op_max r - virt)) (\<lambda>n.
        if n \<le> 0 then Inr 0
        else if 0 < op_multiple r
             then bindE (exact64 (n + op_multiple r - 1)) (\<lambda>a. exact64 (cdiv a (op_multiple r) * op_multiple r))
             else Inr n))"

definition first_vendor :: "(vendor_line \<Rightarrow> bool) \<Rightarrow> supply_db \<Rightarrow> vendor_line option" where
  "first_vendor P s = (case sort_key vl_sequence (sort_key vl_id (filter P (sp_vendors s))) of [] \<Rightarrow> None | v # _ \<Rightarrow> Some v)"

definition pick_vendor :: "orderpoint \<Rightarrow> int \<Rightarrow> supply_db \<Rightarrow> int \<times> int" where
  "pick_vendor r price s =
     (let vendor = (case op_supplier r of None \<Rightarrow> 0 | Some v \<Rightarrow> v) in
      if 0 < vendor
      then (vendor, case first_vendor (\<lambda>v. vl_product v = Some (op_product r) \<and> vl_partner v = vendor) s of
              None \<Rightarrow> price | Some v \<Rightarrow> if 0 < vl_price v then vl_price v else price)
      else (case first_vendor (\<lambda>v. vl_product v = Some (op_product r)) s of
              None \<Rightarrow> (vendor, price)
            | Some v \<Rightarrow> (vl_partner v, if 0 < vl_price v then vl_price v else price)))"

definition product_row :: "int \<Rightarrow> supply_db \<Rightarrow> (string \<times> int) option" where
  "product_row p s = (let w = fa_wh (sp_factory s) in
     case find_product p (wh_stock w) of None \<Rightarrow> None
     | Some r \<Rightarrow> Some (case find (\<lambda>i. it_id i = p) (wh_items w) of
           Some i \<Rightarrow> (case it_name i of None \<Rightarrow> ''Product'' | Some n \<Rightarrow> n) | None \<Rightarrow> ''Product'', pr_standard_price r))"

subsection \<open>The orders that are drafted\<close>

definition reorder_origin :: "orderpoint \<Rightarrow> string" where
  "reorder_origin r = ''Reordering: OP/'' @ int_to_string (op_id r)"

definition op_company_of :: "orderpoint \<Rightarrow> int" where
  "op_company_of r = (case op_company r of None \<Rightarrow> 1 | Some c \<Rightarrow> c)"

definition draft_production :: "orderpoint \<Rightarrow> int \<Rightarrow> factory \<Rightarrow> factory" where
  "draft_production r q f = f\<lparr>fa_next_order := fa_next_order f + 1, fa_orders := fa_orders f
     @ [\<lparr>mo_id = fa_next_order f, mo_name = ''New'', mo_product = op_product r, mo_qty = q, mo_bom = None,
        mo_state = ''draft'', mo_src = Some 4, mo_dest = Some 4, mo_planned = None, mo_producing = 0,
        mo_origin = Some (reorder_origin r), mo_company = Some (op_company_of r)\<rparr>]\<rparr>"

definition draft_purchase :: "tm \<Rightarrow> tm \<Rightarrow> orderpoint \<Rightarrow> int \<Rightarrow> int \<Rightarrow> int \<Rightarrow> string \<Rightarrow> supply_db \<Rightarrow> supply_db result" where
  "draft_purchase t1 t2 r q vendor price pname s =
     bindE (number_in t1 t2 ''purchase.order'' (fa_wh (sp_factory s))) (\<lambda>(num, w).
       Inr (s\<lparr>sp_next_order := sp_next_order s + 1, sp_next_line := sp_next_line s + 1,
         sp_factory := (sp_factory s)\<lparr>fa_wh := w\<lparr>
           wh_purchases := wh_purchases w @ [\<lparr>or_id = sp_next_order s, or_name = num, or_state = ''draft'',
             or_partner = Some vendor, or_term = None, or_company = op_company_of r, or_currency = None, or_untaxed = 0,
             or_tax = 0, or_total = 0, or_invoicing = ''nothing''\<rparr>],
           wh_purchase_lines := wh_purchase_lines w @ [\<lparr>ol_id = sp_next_line s, ol_order = sp_next_order s,
             ol_product = Some (op_product r), ol_name = pname, ol_qty = q, ol_price = price, ol_discount = 0,
             ol_taxes = ''[]'', ol_subtotal = 0, ol_tax = 0, ol_total = 0, ol_done = 0, ol_display = ''''\<rparr>]\<rparr>\<rparr>\<rparr>))"

text \<open>The counters: rules looked at, orders drafted, rules without a vendor.\<close>

type_synonym tally = "int \<times> int \<times> int"

definition reorder_one :: "tm \<Rightarrow> tm \<Rightarrow> orderpoint \<Rightarrow> tally \<times> supply_db \<Rightarrow> (tally \<times> supply_db) result" where
  "reorder_one t1 t2 r = (\<lambda>((checked, created, none), s).
     bindE (read_virtual r s) (\<lambda>virt.
     bindE (reorder_qty r virt) (\<lambda>q.
     if q \<le> 0 then Inr ((checked + 1, created, none), s)
     else if is_make r
          then Inr ((checked + 1, created + 1, none), s\<lparr>sp_factory := draft_production r q (sp_factory s)\<rparr>)
          else case product_row (op_product r) s of
              None \<Rightarrow> Inr ((checked + 1, created, none), s)
            | Some (pname, cost) \<Rightarrow>
                let (vendor, price) = pick_vendor r cost s in
                if vendor \<le> 0 then Inr ((checked + 1, created, none + 1), s)
                else bindE (draft_purchase t1 t2 r q vendor price pname s) (\<lambda>s'.
                  Inr ((checked + 1, created + 1, none), s')))))"

definition runReorderScheduler :: "tm \<Rightarrow> tm \<Rightarrow> int \<Rightarrow> supply_db \<Rightarrow> (tally \<times> supply_db) result" where
  "runReorderScheduler t1 t2 productFilter s =
     foldE (reorder_one t1 t2)
       (filter (\<lambda>r. op_active r \<and> (0 < productFilter \<longrightarrow> op_product r = productFilter)) (sp_points s)) ((0, 0, 0), s)"

subsection \<open>What a run reaches\<close>

lemma round_up:
  fixes n m :: int
  assumes "0 < m" and "0 < n"
  shows "n \<le> cdiv (n + m - 1) m * m \<and> cdiv (n + m - 1) m * m < n + m"
proof -
  have e: "cdiv (n + m - 1) m = (n + m - 1) div m" using assms by (simp add: cdiv_nonneg)
  have "(n + m - 1) div m * m + (n + m - 1) mod m = n + m - 1" by simp
  moreover have "0 \<le> (n + m - 1) mod m" "(n + m - 1) mod m < m" using assms by simp_all
  ultimately show ?thesis unfolding e by linarith
qed

lemma reorder_qty_bounds:
  assumes "reorder_qty r virt = Inr q" and "0 < q"
  shows "virt < op_min r" "op_max r \<le> virt + q" "0 < op_multiple r \<Longrightarrow> virt + q < op_max r + op_multiple r"
    and "0 < op_multiple r \<Longrightarrow> op_multiple r dvd q"
proof -
  show "virt < op_min r" using assms by (auto simp: reorder_qty_def split: if_splits)
  show "op_max r \<le> virt + q" "0 < op_multiple r \<Longrightarrow> virt + q < op_max r + op_multiple r" "0 < op_multiple r \<Longrightarrow> op_multiple r dvd q"
    using assms round_up [of "op_multiple r" "op_max r - virt"]
    by (auto simp: reorder_qty_def exact64_def exn_simps split: if_splits)
qed

lemma read_virtual_Inr: "read_virtual r s = Inr v \<Longrightarrow> v = virtual_of r s"
  by (auto simp: read_virtual_def virtual_of_def virtual_stock_def as_int64_def exact64_def Let_def exn_simps split: if_splits)

text \<open>What a run leaves alone: rules, vendors, products, stock and moves.\<close>

definition same_world :: "supply_db \<Rightarrow> supply_db \<Rightarrow> bool" where
  "same_world s t \<longleftrightarrow> sp_points t = sp_points s \<and> sp_vendors t = sp_vendors s
     \<and> wh_stock (fa_wh (sp_factory t)) = wh_stock (fa_wh (sp_factory s))
     \<and> wh_items (fa_wh (sp_factory t)) = wh_items (fa_wh (sp_factory s))
     \<and> wh_moves (fa_wh (sp_factory t)) = wh_moves (fa_wh (sp_factory s))
     \<and> wh_sales (fa_wh (sp_factory t)) = wh_sales (fa_wh (sp_factory s))
     \<and> fa_moves (sp_factory t) = fa_moves (sp_factory s)"

lemma same_world_refl [simp]: "same_world s s"
  by (simp add: same_world_def)

lemma same_world_trans: "same_world s t \<Longrightarrow> same_world t u \<Longrightarrow> same_world s u"
  by (simp add: same_world_def)

definition can_order :: "orderpoint \<Rightarrow> supply_db \<Rightarrow> bool" where
  "can_order r s \<longleftrightarrow> is_make r \<or> (case product_row (op_product r) s of None \<Rightarrow> False | Some (n, c) \<Rightarrow> 0 < fst (pick_vendor r c s))"

lemma can_order_same: "same_world s t \<Longrightarrow> can_order r t = can_order r s"
  by (simp add: can_order_def same_world_def product_row_def pick_vendor_def first_vendor_def Let_def cong: option.case_cong)

definition covered :: "orderpoint \<Rightarrow> supply_db \<Rightarrow> bool" where
  "covered r s \<longleftrightarrow> op_min r \<le> virtual_of r s \<or> op_max r \<le> virtual_of r s"

text \<open>Both kinds of order add to what is on its way, for their own product at every location.\<close>

lemma production_adds:
  assumes "0 \<le> q"
  shows "virtual_stock p loc (s\<lparr>sp_factory := draft_production r q (sp_factory s)\<rparr>)
     = virtual_stock p loc s + (if p = op_product r then q else 0)"
  by (simp add: virtual_stock_def draft_production_def incoming_productions_def sum_by_simps)

lemma number_in_frame: "number_in t1 t2 c w = Inr (v, w') \<Longrightarrow> \<exists>t. w' = w\<lparr>wh_sequences := t\<rparr>"
  by (auto simp: number_in_def exn_simps)

lemma sum_by_grows:
  assumes "\<And>x. P x \<Longrightarrow> Q x" and "\<And>x. Q x \<Longrightarrow> 0 \<le> f x"
  shows "sum_by P f xs \<le> sum_by Q f xs"
  using assms by (induction xs) (auto simp: sum_by_simps add_increasing intro: add_mono)

lemma purchase_adds:
  assumes run: "draft_purchase t1 t2 r q vendor price n s = Inr s'" and q: "0 < q"
  shows "virtual_stock p loc s + (if p = op_product r then q else 0) \<le> virtual_stock p loc s'"
    and "same_world s s'"
proof -
  from run obtain num w where num: "number_in t1 t2 ''purchase.order'' (fa_wh (sp_factory s)) = Inr (num, w)"
    by (auto simp: draft_purchase_def exn_simps)
  then obtain t where w: "w = (fa_wh (sp_factory s))\<lparr>wh_sequences := t\<rparr>" by (auto dest: number_in_frame)
  let ?w = "fa_wh (sp_factory s)" and ?w' = "fa_wh (sp_factory s')"
  define x where "x = \<lparr>or_id = sp_next_order s, or_name = num, or_state = ''draft'',
      or_partner = Some vendor, or_term = None, or_company = op_company_of r, or_currency = None, or_untaxed = 0,
      or_tax = 0, or_total = 0, or_invoicing = ''nothing''\<rparr>"
  define l where "l = \<lparr>ol_id = sp_next_line s, ol_order = sp_next_order s,
      ol_product = Some (op_product r), ol_name = n, ol_qty = q, ol_price = price, ol_discount = 0,
      ol_taxes = ''[]'', ol_subtotal = 0, ol_tax = 0, ol_total = 0, ol_done = 0, ol_display = ''''\<rparr>"
  from run num have s': "s' = s\<lparr>sp_next_order := sp_next_order s + 1, sp_next_line := sp_next_line s + 1,
      sp_factory := (sp_factory s)\<lparr>fa_wh := ?w\<lparr>wh_sequences := t, wh_purchases := wh_purchases ?w @ [x],
        wh_purchase_lines := wh_purchase_lines ?w @ [l]\<rparr>\<rparr>\<rparr>"
    by (simp add: draft_purchase_def w x_def l_def)
  have x: "or_id x = sp_next_order s" "or_state x = ''draft''"
    and l: "ol_order l = sp_next_order s" "ol_product l = Some (op_product r)" "ol_qty l = q" "ol_done l = 0"
    by (simp_all add: x_def l_def)
  have w': "wh_purchases ?w' = wh_purchases ?w @ [x]" "wh_purchase_lines ?w' = wh_purchase_lines ?w @ [l]"
    and rest: "wh_stock ?w' = wh_stock ?w" "fa_orders (sp_factory s') = fa_orders (sp_factory s)" "same_world s s'"
    by (simp_all add: s' same_world_def)
  have mono: "order_open ?w i \<Longrightarrow> order_open ?w' i" for i by (simp add: order_open_def w')
  have own: "order_open ?w' (sp_next_order s)" using x by (simp add: order_open_def w')
  have "incoming_purchases p ?w + (if p = op_product r then q else 0) \<le> incoming_purchases p ?w'"
    using sum_by_grows [of "\<lambda>l. ol_product l = Some p \<and> order_open ?w (ol_order l) \<and> ol_done l < ol_qty l"
        "\<lambda>l. ol_product l = Some p \<and> order_open ?w' (ol_order l) \<and> ol_done l < ol_qty l" "\<lambda>l. ol_qty l - ol_done l" "wh_purchase_lines ?w"]
      mono own q l
    unfolding incoming_purchases_def w'(2) by (auto simp: sum_by_simps)
  then show "virtual_stock p loc s + (if p = op_product r then q else 0) \<le> virtual_stock p loc s'"
    using rest by (simp add: virtual_stock_def incoming_productions_def)
  show "same_world s s'" by (rule rest)
qed

lemma reorder_one_effect:
  assumes run: "reorder_one t1 t2 r ((a, b, c), s) = Inr ((a', b', c'), s')"
  shows "same_world s s'" "virtual_stock p loc s \<le> virtual_stock p loc s'" "a' = a + 1"
    and "can_order r s \<Longrightarrow> covered r s'" and "covered r s \<or> \<not> can_order r s \<Longrightarrow> s' = s \<and> b' = b"
proof -
  from run obtain virt q where v: "read_virtual r s = Inr virt" and q: "reorder_qty r virt = Inr q"
    by (auto simp: reorder_one_def exn_simps)
  note virt = read_virtual_Inr [OF v]
  have low: "covered r s" if "q \<le> 0"
    using q that unfolding covered_def virt [symmetric]
    using round_up [of "op_multiple r" "op_max r - virt"]
    by (auto simp: reorder_qty_def exact64_def exn_simps split: if_splits)
  have need: "\<not> covered r s" if "0 < q"
    using q that unfolding covered_def virt [symmetric] by (auto simp: reorder_qty_def exact64_def exn_simps split: if_splits)
  have reached: "covered r s'" if "0 < q" "virtual_stock (op_product r) (op_place r) s + q \<le> virtual_stock (op_product r) (op_place r) s'"
    using reorder_qty_bounds(2) [OF q that(1)] that(2) by (simp add: covered_def virtual_of_def virt)
  consider (skip) "q \<le> 0" | (make) "0 < q" "is_make r" | (none) "0 < q" "\<not> is_make r" "product_row (op_product r) s = None"
    | (buy) n cost where "0 < q" "\<not> is_make r" "product_row (op_product r) s = Some (n, cost)"
    by fastforce
  then have "same_world s s' \<and> virtual_stock p loc s \<le> virtual_stock p loc s' \<and> a' = a + 1
     \<and> (can_order r s \<longrightarrow> covered r s') \<and> (covered r s \<or> \<not> can_order r s \<longrightarrow> s' = s \<and> b' = b)"
  proof cases
    case skip
    then show ?thesis using run v q low by (simp add: reorder_one_def)
  next
    case make
    then have s': "s' = s\<lparr>sp_factory := draft_production r q (sp_factory s)\<rparr>" and "a' = a + 1"
      using run v q by (auto simp: reorder_one_def)
    moreover have "same_world s s'" unfolding s' by (simp add: same_world_def draft_production_def)
    moreover have "can_order r s" using make(2) by (simp add: can_order_def)
    ultimately show ?thesis
      using make production_adds [of q p loc r s] need reached production_adds [of q "op_product r" "op_place r" r s] by simp
  next
    case none
    then show ?thesis using run v q by (simp add: reorder_one_def can_order_def)
  next
    case buy
    obtain vendor price where pick: "pick_vendor r cost s = (vendor, price)" by fastforce
    show ?thesis
    proof (cases "vendor \<le> 0")
      case True
      then show ?thesis using run v q buy pick by (simp add: reorder_one_def can_order_def)
    next
      case False
      with run v q buy pick obtain "a' = a + 1" and d: "draft_purchase t1 t2 r q vendor price n s = Inr s'"
        by (auto simp: reorder_one_def exn_simps)
      moreover have "can_order r s" using buy pick False by (simp add: can_order_def)
      moreover have "virtual_stock p loc s \<le> virtual_stock p loc s'"
        using purchase_adds(1) [OF d buy(1), of p loc] buy(1) by (simp split: if_splits)
      ultimately show ?thesis
        using purchase_adds(2) [OF d buy(1)] need [OF buy(1)] reached [OF buy(1)] purchase_adds(1) [OF d buy(1), of "op_product r" "op_place r"]
        by simp
    qed
  qed
  then show "same_world s s'" "virtual_stock p loc s \<le> virtual_stock p loc s'" "a' = a + 1"
    "can_order r s \<Longrightarrow> covered r s'" "covered r s \<or> \<not> can_order r s \<Longrightarrow> s' = s \<and> b' = b" by blast+
qed

lemma covered_mono: "covered r s \<Longrightarrow> (\<And>p loc. virtual_stock p loc s \<le> virtual_stock p loc t) \<Longrightarrow> covered r t"
  by (auto simp: covered_def virtual_of_def intro: order_trans)

lemma reorder_all_effect:
  assumes "foldE (reorder_one t1 t2) rs ((a, b, c), s) = Inr ((a', b', c'), s')"
  shows "same_world s s' \<and> (\<forall>p loc. virtual_stock p loc s \<le> virtual_stock p loc s') \<and> a' = a + int (length rs)
     \<and> (\<forall>r \<in> set rs. can_order r s \<longrightarrow> covered r s')
     \<and> ((\<forall>r \<in> set rs. covered r s \<or> \<not> can_order r s) \<longrightarrow> s' = s \<and> b' = b)"
  using assms
proof (induction rs arbitrary: a b c s)
  case Nil
  then show ?case by simp
next
  case (Cons r rs)
  from Cons.prems obtain a1 b1 c1 s1 where 1: "reorder_one t1 t2 r ((a, b, c), s) = Inr ((a1, b1, c1), s1)"
    and 2: "foldE (reorder_one t1 t2) rs ((a1, b1, c1), s1) = Inr ((a', b', c'), s')"
    by (auto simp: exn_simps)
  note one = reorder_one_effect [OF 1] and rest = Cons.IH [OF 2]
  have grows: "virtual_stock p loc s1 \<le> virtual_stock p loc s'" for p loc using rest by simp
  have "virtual_stock p loc s \<le> virtual_stock p loc s'" for p loc using one(2) [of p loc] grows [of p loc] by linarith
  moreover have "covered r s'" if "can_order r s" using covered_mono [OF one(4) [OF that] grows] .
  moreover have "same_world s s'" using one(1) rest same_world_trans by blast
  moreover have "\<forall>x \<in> set rs. can_order x s \<longrightarrow> covered x s'" using rest can_order_same [OF one(1)] by simp
  moreover have "s' = s \<and> b' = b" if q: "\<forall>x \<in> set (r # rs). covered x s \<or> \<not> can_order x s"
    using one(5) rest q by auto
  ultimately show ?case using one(3) rest by auto
qed

text \<open>C8: after a run of the scheduler every active rule that can be served at all (it is manufactured, or its
  product has a vendor) is covered: what is on hand at its location and on its way has reached its minimum
  or its maximum. The run drafts orders and touches neither stock nor moves; and a second run right after
  the first drafts nothing and changes nothing, so the button and the cron job cannot order twice.\<close>

theorem reorder_covers:
  assumes run: "runReorderScheduler t1 t2 p s = Inr ((checked, created, none), s')"
  shows "(\<forall>r \<in> set (sp_points s). op_active r \<and> (0 < p \<longrightarrow> op_product r = p) \<and> can_order r s \<longrightarrow>
       op_min r \<le> virtual_of r s' \<or> op_max r \<le> virtual_of r s')
    \<and> wh_stock (fa_wh (sp_factory s')) = wh_stock (fa_wh (sp_factory s))
    \<and> wh_moves (fa_wh (sp_factory s')) = wh_moves (fa_wh (sp_factory s)) \<and> fa_moves (sp_factory s') = fa_moves (sp_factory s)
    \<and> (\<forall>u1 u2 checked' created' none' s''. runReorderScheduler u1 u2 p s' = Inr ((checked', created', none'), s'')
         \<longrightarrow> s'' = s' \<and> created' = 0)"
proof -
  let ?rs = "filter (\<lambda>r. op_active r \<and> (0 < p \<longrightarrow> op_product r = p)) (sp_points s)"
  note eff = reorder_all_effect [OF run [unfolded runReorderScheduler_def]]
  then have w: "same_world s s'" by simp
  have quiet: "\<forall>r \<in> set ?rs. covered r s' \<or> \<not> can_order r s'" using eff can_order_same [OF w] by blast
  have "s'' = s' \<and> created' = 0" if "runReorderScheduler u1 u2 p s' = Inr ((checked', created', none'), s'')"
    for u1 u2 checked' created' none' s''
  proof -
    have pts: "sp_points s' = sp_points s" using w by (simp add: same_world_def)
    from reorder_all_effect [OF that [unfolded runReorderScheduler_def pts]] quiet show ?thesis by blast
  qed
  then show ?thesis using eff w by (auto simp: covered_def same_world_def)
qed

subsection \<open>A yard\<close>

definition yard_rule :: "int \<Rightarrow> int \<Rightarrow> int \<Rightarrow> string \<Rightarrow> int \<Rightarrow> int \<Rightarrow> int \<Rightarrow> orderpoint" where
  "yard_rule i p loc route lo hi mult = \<lparr>op_id = i, op_product = p, op_location = Some loc, op_min = lo, op_max = hi,
     op_multiple = mult, op_route = Some route, op_supplier = None, op_company = Some 1, op_active = True\<rparr>"

definition yard :: supply_db where
  "yard = \<lparr>sp_factory = plant\<lparr>fa_wh := (fa_wh plant)\<lparr>wh_sequences := [\<lparr>sq_id = 1, sq_code = ''purchase.order'', sq_company = None,
       sq_active = True, sq_prefix = ''PO'', sq_suffix = '''', sq_padding = 4, sq_number_next = 1, sq_increment = 1,
       sq_reset_policy = ''never'', sq_last_period = ''''\<rparr>]\<rparr>\<rparr>,
     sp_next_order = 1, sp_next_line = 1,
     sp_points = [yard_rule 1 7 4 ''manufacture'' 5000000 8000000 1000000, yard_rule 2 8 4 ''buy'' 10000000 20000000 6000000,
       yard_rule 3 8 9 ''buy'' 10000000 20000000 0],
     sp_vendors = [\<lparr>vl_id = 1, vl_product = Some 8, vl_partner = 5, vl_price = 2500000, vl_sequence = 10\<rparr>]\<rparr>"

definition spring :: tm where
  "spring = \<lparr>tm_year = 2026, tm_mon = 3, tm_mday = 9\<rparr>"

definition yard_ordered :: supply_db where
  "yard_ordered = (case runReorderScheduler spring spring 0 yard of Inl _ \<Rightarrow> yard | Inr (_, s) \<Rightarrow> s)"

lemma yard_run: "runReorderScheduler spring spring 0 yard = Inr ((3, 2, 0), yard_ordered)"
  by code_simp

theorem reorder_covers_witness:
  "10000000 \<le> virtual_of (yard_rule 2 8 4 ''buy'' 10000000 20000000 6000000) yard_ordered
   \<and> map ol_qty (wh_purchase_lines (fa_wh (sp_factory yard_ordered))) = [12000000]"
proof -
  have "virtual_of (yard_rule 2 8 4 ''buy'' 10000000 20000000 6000000) yard_ordered = 21000000" by code_simp
  moreover have "map ol_qty (wh_purchase_lines (fa_wh (sp_factory yard_ordered))) = [12000000]" by code_simp
  moreover have "can_order (yard_rule 2 8 4 ''buy'' 10000000 20000000 6000000) yard" by code_simp
  moreover have "yard_rule 2 8 4 ''buy'' 10000000 20000000 6000000 \<in> set (sp_points yard)" by (simp add: yard_def)
  ultimately show ?thesis
    using reorder_covers [OF yard_run, THEN conjunct1] by (auto simp: yard_rule_def)
qed

text \<open>Where the code departs from what it means to do. What is on its way counts for every location of the
  product: the order for the first location leaves the second one empty. And the drafted order carries
  prices but no amounts: its subtotal and its total are zero.\<close>

lemma second_location_starves:
  "on_hand_at 8 9 (wh_stock (fa_wh (sp_factory yard_ordered))) = 0
   \<and> length (filter (\<lambda>l. ol_product l = Some 8) (wh_purchase_lines (fa_wh (sp_factory yard_ordered)))) = 1"
  by code_simp

lemma drafted_order_has_no_amounts:
  "draft_purchase t1 t2 r q vendor price n s = Inr s' \<Longrightarrow>
     ol_subtotal (last (wh_purchase_lines (fa_wh (sp_factory s')))) = 0 \<and> or_total (last (wh_purchases (fa_wh (sp_factory s')))) = 0"
  by (auto simp: draft_purchase_def exn_simps)

end
