(* ===== verification/LandedCost.thy ===== *)
theory LandedCost
  imports Warehouse PaymentAllocation
begin

section \<open>Landed costs (modules/stock/StockModule.cpp)\<close>

text \<open>
  \<open>StockLandedCostViewModel::handleValidate\<close>: each cost line of a landed cost is split over the products
  received by its transfer; each share revalues its product (theory Stock) and is booked against the cost
  account. The split is computed in doubles, whose operations are a parameter (a record of functions);
  the order in which the query returns the groups of its products, which SQL leaves open, is a parameter
  too (\<open>ord\<close>, a rearrangement). Each landed cost is validated in a transaction of its own.
\<close>

record cost_sheet =
  lx_id :: int
  lx_transfer :: "int option"
  lx_state :: string
  lx_company :: "int option"

record cost_line =
  lz_id :: int
  lz_sheet :: int
  lz_name :: string
  lz_price :: int
  lz_method :: string
  lz_account :: "int option"

record cost_db =
  lw_house :: warehouse
  lw_sheets :: "cost_sheet list"
  lw_lines :: "cost_line list"

definition stock_of :: "cost_db \<Rightarrow> stock_db" where
  "stock_of db = wh_stock (lw_house db)"

definition with_stock :: "stock_db \<Rightarrow> cost_db \<Rightarrow> cost_db" where
  "with_stock st db = db\<lparr>lw_house := (lw_house db)\<lparr>wh_stock := st\<rparr>\<rparr>"

subsection \<open>What the transfer received\<close>

record 'f goods =
  gd_product :: int
  gd_qty :: int
  gd_weight :: 'f
  gd_volume :: 'f
  gd_cost :: int

record 'f floats =
  fl_of :: "int \<Rightarrow> 'f"
  fl_plus :: "'f \<Rightarrow> 'f \<Rightarrow> 'f"
  fl_times :: "'f \<Rightarrow> 'f \<Rightarrow> 'f"
  fl_over :: "'f \<Rightarrow> 'f \<Rightarrow> 'f"
  fl_positive :: "'f \<Rightarrow> bool"
  fl_round :: "'f \<Rightarrow> int"

definition received_moves :: "int \<Rightarrow> warehouse \<Rightarrow> smove list" where
  "received_moves i w = filter (\<lambda>m. sm_transfer m = Some i \<and> sm_state m = ''done''
     \<and> usageOf (sm_dest m) (wh_stock w) = ''internal'' \<and> find_product (sm_product m) (wh_stock w) \<noteq> None) (wh_moves w)"

definition goods_of :: "(int \<Rightarrow> 'f) \<Rightarrow> (int \<Rightarrow> 'f) \<Rightarrow> smove list \<Rightarrow> stock_db \<Rightarrow> int \<Rightarrow> 'f goods result" where
  "goods_of weight volume ms st p =
     bindE (as_int64 (sum_by (\<lambda>m. sm_product m = p) sm_quantity ms)) (\<lambda>q.
       Inr \<lparr>gd_product = p, gd_qty = q, gd_weight = weight p, gd_volume = volume p,
         gd_cost = (case find_product p st of None \<Rightarrow> 0 | Some r \<Rightarrow> pr_standard_price r)\<rparr>)"

fun mapE :: "('a \<Rightarrow> 'b result) \<Rightarrow> 'a list \<Rightarrow> 'b list result" where
  "mapE f [] = Inr []"
| "mapE f (x # xs) = bindE (f x) (\<lambda>y. bindE (mapE f xs) (\<lambda>ys. Inr (y # ys)))"

text \<open>One group for each product, in the order of the database.\<close>

definition received ::
  "(int list \<Rightarrow> int list) \<Rightarrow> (int \<Rightarrow> 'f) \<Rightarrow> (int \<Rightarrow> 'f) \<Rightarrow> int \<Rightarrow> warehouse \<Rightarrow> 'f goods list result" where
  "received ord weight volume i w = (let ms = received_moves i w in
     mapE (goods_of weight volume ms (wh_stock w)) (ord (remdups (map sm_product ms))))"

subsection \<open>The split of a cost line\<close>

definition basis_of :: "'f floats \<Rightarrow> string \<Rightarrow> 'f goods \<Rightarrow> 'f" where
  "basis_of fl meth g =
     (let qtyU = fl_over fl (fl_of fl (gd_qty g)) (fl_of fl 1000000) in
      if meth = ''by_quantity'' then qtyU
      else if meth = ''by_price'' then fl_times fl qtyU (fl_over fl (fl_of fl (gd_cost g)) (fl_of fl 1000000))
      else if meth = ''by_weight'' then fl_times fl qtyU (gd_weight g)
      else if meth = ''by_volume'' then fl_times fl qtyU (gd_volume g)
      else fl_of fl 1)"

definition total_basis :: "'f floats \<Rightarrow> string \<Rightarrow> 'f goods list \<Rightarrow> 'f" where
  "total_basis fl meth gs = foldl (\<lambda>t g. fl_plus fl t (basis_of fl meth g)) (fl_of fl 0) gs"

definition rounded_shares :: "'f floats \<Rightarrow> int \<Rightarrow> string \<Rightarrow> 'f goods list \<Rightarrow> int list" where
  "rounded_shares fl price meth gs =
     (let total = total_basis fl meth gs in
      map (\<lambda>g. if fl_positive fl total
               then fl_round fl (fl_over fl (fl_times fl (fl_of fl price) (basis_of fl meth g)) total) else 0) gs)"

text \<open>The remainder of the rounding goes to the last product.\<close>

definition allocated_shares :: "'f floats \<Rightarrow> int \<Rightarrow> string \<Rightarrow> 'f goods list \<Rightarrow> int list" where
  "allocated_shares fl price meth gs = with_remainder price (rounded_shares fl price meth gs)"

subsection \<open>Booking a share\<close>

definition post_landed :: "int \<Rightarrow> int \<Rightarrow> int \<Rightarrow> int \<Rightarrow> int \<Rightarrow> int \<Rightarrow> stock_db \<Rightarrow> stock_db" where
  "post_landed journal valuation company lid amount costAcct st =
     (if amount \<le> 0 \<or> journal \<le> 0 \<or> valuation \<le> 0 \<or> costAcct \<le> 0 then st
      else let m = sk_next_move st;
               line = (\<lambda>acct dr cr. \<lparr>gl_move = m, gl_account = acct, gl_journal = journal, gl_company = company,
                 gl_debit = dr, gl_credit = cr\<rparr>)
           in st\<lparr>sk_moves := sk_moves st @ [(m, ''STJ/'' @ int_to_string m)], sk_next_move := m + 1,
                sk_lines := sk_lines st @ [line valuation amount 0, line costAcct 0 amount],
                sk_layers := (if 0 < lid then set_layer_move lid m (sk_layers st) else sk_layers st)\<rparr>)"

definition land_share :: "(int \<Rightarrow> int \<Rightarrow> stock_db \<Rightarrow> stock_db) \<Rightarrow> string \<Rightarrow> int \<Rightarrow> int \<times> int \<Rightarrow> stock_db \<Rightarrow> stock_db" where
  "land_share gl descr company = (\<lambda>(p, share) st.
     if share = 0 then st
     else (case revalue p share (''Landed: '' @ descr) company st of (lid, st1) \<Rightarrow> gl lid share st1))"

definition land_line :: "'f floats \<Rightarrow> int \<Rightarrow> 'f goods list \<Rightarrow> cost_line \<Rightarrow> stock_db \<Rightarrow> stock_db" where
  "land_line fl company gs ln st =
     (if lz_price ln \<le> 0 \<or> gs = [] then st
      else let journal = by_code (sk_journals st) ''STJ'' company; valuation = by_code (sk_accounts st) ''1400'' company;
               costAcct = (case lz_account ln of None \<Rightarrow> by_code (sk_accounts st) ''5200'' company | Some a \<Rightarrow> a)
           in fold (land_share (\<lambda>lid amount. post_landed journal valuation company lid amount costAcct) (lz_name ln) company)
                (zip (map gd_product gs) (allocated_shares fl (lz_price ln) (lz_method ln) gs)) st)"

definition sheet_lines :: "int \<Rightarrow> cost_db \<Rightarrow> cost_line list" where
  "sheet_lines i db = filter (\<lambda>l. lz_sheet l = i) (lw_lines db)"

definition validate_one ::
  "'f floats \<Rightarrow> (int list \<Rightarrow> int list) \<Rightarrow> (int \<Rightarrow> 'f) \<Rightarrow> (int \<Rightarrow> 'f) \<Rightarrow> int \<Rightarrow> cost_db \<Rightarrow> cost_db result" where
  "validate_one fl ord weight volume i db = (case find (\<lambda>c. lx_id c = i) (lw_sheets db) of
     None \<Rightarrow> Inr db
   | Some c \<Rightarrow>
       if lx_state c = ''done'' then Inr db
       else case lx_transfer c of
           None \<Rightarrow> Inl (RuntimeError ''Set the receipt this landed cost applies to'')
         | Some t \<Rightarrow>
             let company = (case lx_company c of None \<Rightarrow> 1 | Some k \<Rightarrow> k) in
             bindE (received ord weight volume t (lw_house db)) (\<lambda>gs.
               Inr ((with_stock (fold (land_line fl company gs) (sheet_lines i db) (stock_of db)) db)
                 \<lparr>lw_sheets := map (\<lambda>x. if lx_id x = i then x\<lparr>lx_state := ''done''\<rparr> else x) (lw_sheets db)\<rparr>)))"

definition landed_validate ::
  "'f floats \<Rightarrow> (int list \<Rightarrow> int list) \<Rightarrow> (int \<Rightarrow> 'f) \<Rightarrow> (int \<Rightarrow> 'f) \<Rightarrow> int list \<Rightarrow> cost_db \<Rightarrow> unit result \<times> cost_db" where
  "landed_validate fl ord weight volume = each_txn (validate_one fl ord weight volume)"

subsection \<open>Nothing is lost in the split\<close>

definition inventory_value :: "stock_db \<Rightarrow> int" where
  "inventory_value st = sum_list (map pr_value_svl (sk_products st))"

lemma shares_sum: "gs \<noteq> [] \<Longrightarrow> sum_list (allocated_shares fl price meth gs) = price"
  by (simp add: allocated_shares_def with_remainder_sum rounded_shares_def Let_def)

lemma shares_length [simp]: "length (allocated_shares fl price meth gs) = length gs"
  by (simp add: allocated_shares_def rounded_shares_def Let_def)

lemma sum_one_row:
  assumes "distinct (map k xs)" and "r \<in> set xs" and "k r = p" and "v (f r) = v r + d"
  shows "sum_list (map v (map (\<lambda>x. if k x = p then f x else x) xs)) = sum_list (map v xs) + (d :: int)"
  using assms
proof (induction xs)
  case (Cons x xs)
  show ?case
  proof (cases "x = r")
    case True
    then have "map (\<lambda>x. if k x = p then f x else x) xs = xs" using Cons.prems by (intro map_idI) (auto simp: image_iff)
    then show ?thesis using Cons.prems True by simp
  next
    case False
    then have "k x \<noteq> p" "r \<in> set xs" using Cons.prems by (auto simp: image_iff)
    then show ?thesis using Cons False by simp
  qed
qed simp

definition product_sig :: "product \<Rightarrow> int \<times> string \<times> int" where
  "product_sig r = (pr_id r, method_of r, pr_quantity_svl r)"

text \<open>A revaluation adds its amount to one product, and leaves the quantities and the configuration.\<close>

lemma revalue_effect:
  fixes v :: int and d :: string and c :: int
  assumes "distinct (map pr_id (sk_products st))" and "find_product p st \<noteq> None"
  defines "st' \<equiv> snd (revalue p v d c st)"
  shows "inventory_value st' = inventory_value st + v" "sk_accounts st' = sk_accounts st" "sk_journals st' = sk_journals st"
    and "map product_sig (sk_products st') = map product_sig (sk_products st)"
proof -
  from assms(2) obtain r where r: "find_product p st = Some r" by auto
  note mem = find_product_in [OF r]
  define f :: "product \<Rightarrow> product" where "f = (\<lambda>x. if method_of r = ''average'' \<and> pr_quantity_svl r > 0
     then x\<lparr>pr_value_svl := pr_value_svl r + v, pr_standard_price := divMicros (pr_value_svl r + v) (pr_quantity_svl r)\<rparr>
     else x\<lparr>pr_value_svl := pr_value_svl r + v\<rparr>)"
  have f: "pr_id (f x) = pr_id x \<and> method_of (f x) = method_of x \<and> pr_quantity_svl (f x) = pr_quantity_svl x" for x
    by (simp add: f_def method_of_def)
  have "sk_products st' = map (\<lambda>x. if pr_id x = p then f x else x) (sk_products st) \<or> v = 0 \<and> st' = st"
    by (simp add: st'_def revalue_def r Let_def split_beta f_def update_product_def insert_layer_def)
  moreover have "inventory_value st' = inventory_value st + v"
    if "sk_products st' = map (\<lambda>x. if pr_id x = p then f x else x) (sk_products st)"
    unfolding inventory_value_def that by (rule sum_one_row [OF assms(1), where r = r]) (use mem in \<open>simp_all add: f_def\<close>)
  ultimately show "inventory_value st' = inventory_value st + v"
    and "map product_sig (sk_products st') = map product_sig (sk_products st)"
    using f by (auto simp: product_sig_def)
  show "sk_accounts st' = sk_accounts st" "sk_journals st' = sk_journals st"
    by (simp_all add: st'_def revalue_def r Let_def split_beta update_product_def insert_layer_def)
qed

definition same_goods :: "stock_db \<Rightarrow> stock_db \<Rightarrow> bool" where
  "same_goods st st' \<longleftrightarrow> map product_sig (sk_products st') = map product_sig (sk_products st)
     \<and> sk_accounts st' = sk_accounts st \<and> sk_journals st' = sk_journals st"

lemma same_goods_find:
  assumes "same_goods st st'"
  shows "map_option product_sig (find_product p st') = map_option product_sig (find_product p st)"
proof -
  have "map_option product_sig (find (\<lambda>r. pr_id r = p) xs) = find (\<lambda>s. fst s = p) (map product_sig xs)" for xs
    by (induction xs) (simp_all add: product_sig_def)
  then show ?thesis using assms by (simp add: find_product_def same_goods_def)
qed

lemma same_goods_facts:
  assumes "same_goods st st'"
  shows "(find_product p st' = None) = (find_product p st = None)" "fifo_has p n st' = fifo_has p n st"
    and "distinct (map pr_id (sk_products st')) = distinct (map pr_id (sk_products st))"
proof -
  note f = same_goods_find [OF assms, of p]
  then show "(find_product p st' = None) = (find_product p st = None)" by (metis map_option_is_None)
  from f show "fifo_has p n st' = fifo_has p n st"
    by (cases "find_product p st"; cases "find_product p st'") (simp_all add: fifo_has_def product_sig_def)
  have "map fst (map product_sig xs) = map pr_id xs" for xs by (simp add: product_sig_def)
  then show "distinct (map pr_id (sk_products st')) = distinct (map pr_id (sk_products st))"
    using assms unfolding same_goods_def by metis
qed

lemma post_landed_products: "sk_products (post_landed j v c lid a k st) = sk_products st"
  by (simp add: post_landed_def Let_def)

lemma post_landed_goods: "same_goods st st' \<Longrightarrow> same_goods st (post_landed j v c lid a k st')"
  by (simp add: same_goods_def post_landed_def Let_def)

lemma post_landed_ok:
  assumes ok: "Stock.books_ok st"
  shows "Stock.books_ok (post_landed j v c lid a k st)"
proof (cases "post_landed j v c lid a k st = st")
  case True
  with ok show ?thesis by simp
next
  case False
  then have "\<not> (a \<le> 0 \<or> j \<le> 0 \<or> v \<le> 0 \<or> k \<le> 0)" by (auto simp: post_landed_def)
  moreover define ls where "ls = sk_layers (post_landed j v c lid a k st)"
  moreover obtain g where g: "ls = map (\<lambda>l. l\<lparr>ly_move := g l\<rparr>) (sk_layers st)"
  proof
    show "ls = map (\<lambda>l. l\<lparr>ly_move := (if 0 < lid \<and> ly_id l = lid then Some (sk_next_move st) else ly_move l)\<rparr>) (sk_layers st)"
      using calculation by (simp add: ls_def post_landed_def Let_def set_layer_move_def)
  qed
  moreover have "ledger_ok (sk_lines st @ [\<lparr>gl_move = sk_next_move st, gl_account = v, gl_journal = j, gl_company = c, gl_debit = a, gl_credit = 0\<rparr>,
      \<lparr>gl_move = sk_next_move st, gl_account = k, gl_journal = j, gl_company = c, gl_debit = 0, gl_credit = a\<rparr>])"
    using ok by (intro ledger_append) (simp_all add: Stock.books_ok_def ledger_ok_def)
  ultimately show ?thesis
    using ok unfolding Stock.books_ok_def post_landed_products ls_def [symmetric] g layers_ok_moved product_ok_moved
    by (simp add: post_landed_def Let_def)
qed

lemma land_share_effect:
  assumes dist: "distinct (map pr_id (sk_products st))" and p: "find_product p st \<noteq> None"
    and st': "st' = land_share (\<lambda>lid amount. post_landed j v c lid amount k) d c (p, share) st"
  shows "same_goods st st'" "inventory_value st' = inventory_value st + share"
    and "Stock.books_ok st \<Longrightarrow> fifo_has p 1 st \<Longrightarrow> Stock.books_ok st'"
proof -
  define st1 where "st1 = snd (revalue p share (''Landed: '' @ d) c st)"
  have e: "st' = (if share = 0 then st else post_landed j v c (fst (revalue p share (''Landed: '' @ d) c st)) share k st1)"
    by (simp add: st' land_share_def st1_def split_beta)
  note eff = revalue_effect [OF dist p, of share "''Landed: '' @ d" c, folded st1_def]
  have "same_goods st (post_landed j v c lid share k st1)" for lid
    by (rule post_landed_goods) (use eff in \<open>simp add: same_goods_def\<close>)
  then show "same_goods st st'" by (auto simp: e same_goods_def)
  have "inventory_value (post_landed j v c lid share k st1) = inventory_value st1" for lid
    by (simp add: inventory_value_def post_landed_products)
  then show "inventory_value st' = inventory_value st + share" using eff(1) by (simp add: e)
  assume "Stock.books_ok st" "fifo_has p 1 st"
  then have "Stock.books_ok st1" unfolding st1_def by (rule revalue_ok)
  then show "Stock.books_ok st'" using \<open>Stock.books_ok st\<close> by (simp add: e post_landed_ok)
qed

lemma same_goods_trans: "same_goods a b \<Longrightarrow> same_goods b c \<Longrightarrow> same_goods a c"
  by (simp add: same_goods_def)

lemma land_shares_effect:
  assumes "distinct (map pr_id (sk_products st))" and "\<forall>(p, share) \<in> set xs. find_product p st \<noteq> None"
    and "st' = fold (land_share (\<lambda>lid amount. post_landed j v c lid amount k) d c) xs st"
  shows "same_goods st st' \<and> inventory_value st' = inventory_value st + sum_list (map snd xs)
    \<and> (Stock.books_ok st \<and> (\<forall>(p, share) \<in> set xs. fifo_has p 1 st) \<longrightarrow> Stock.books_ok st')"
  using assms(1,2) unfolding assms(3)
proof (induction xs arbitrary: st)
  case Nil
  then show ?case by (simp add: same_goods_def)
next
  case (Cons x xs)
  obtain p share where x: "x = (p, share)" by fastforce
  define st1 where "st1 = land_share (\<lambda>lid amount. post_landed j v c lid amount k) d c (p, share) st"
  have "find_product p st \<noteq> None" using Cons.prems(2) by (auto simp: x)
  note one = land_share_effect [OF Cons.prems(1) this st1_def]
  note facts = same_goods_facts [OF one(1)]
  have "distinct (map pr_id (sk_products st1))" "\<forall>(p, share) \<in> set xs. find_product p st1 \<noteq> None"
    using Cons.prems facts by auto
  note rest = Cons.IH [OF this]
  have "Stock.books_ok st1 \<and> (\<forall>(p, share) \<in> set xs. fifo_has p 1 st1)"
    if "Stock.books_ok st" "\<forall>(p, share) \<in> set (x # xs). fifo_has p 1 st"
    using that one(3) facts(2) by (auto simp: x)
  with rest one(1,2) show ?case by (auto simp: x st1_def [symmetric] intro: same_goods_trans)
qed

lemma mapE_goods: "mapE (goods_of weight volume ms st) ps = Inr gs \<Longrightarrow> map gd_product gs = ps"
  by (induction ps arbitrary: gs) (auto simp: goods_of_def exn_simps)

lemma received_products:
  assumes "received ord weight volume t w = Inr gs" and "\<And>xs. set (ord xs) = set xs"
  shows "set (map gd_product gs) = set (map sm_product (received_moves t w))"
    and "\<forall>p \<in> set (map gd_product gs). find_product p (wh_stock w) \<noteq> None"
proof -
  have "map gd_product gs = ord (remdups (map sm_product (received_moves t w)))"
    using assms(1) unfolding received_def Let_def by (rule mapE_goods)
  then show *: "set (map gd_product gs) = set (map sm_product (received_moves t w))"
    by (simp only: assms(2) set_remdups)
  show "\<forall>p \<in> set (map gd_product gs). find_product p (wh_stock w) \<noteq> None"
    unfolding * by (auto simp: received_moves_def)
qed

lemma land_line_effect:
  assumes d: "distinct (map pr_id (sk_products st))" and gs: "\<forall>p \<in> set (map gd_product gs). find_product p st \<noteq> None"
  shows "same_goods st (land_line fl c gs ln st)
    \<and> inventory_value (land_line fl c gs ln st) = inventory_value st + (if lz_price ln \<le> 0 \<or> gs = [] then 0 else lz_price ln)
    \<and> (Stock.books_ok st \<and> (\<forall>p \<in> set (map gd_product gs). fifo_has p 1 st) \<longrightarrow> Stock.books_ok (land_line fl c gs ln st))"
proof (cases "lz_price ln \<le> 0 \<or> gs = []")
  case True
  then show ?thesis by (auto simp add: land_line_def same_goods_def)
next
  case False
  let ?xs = "zip (map gd_product gs) (allocated_shares fl (lz_price ln) (lz_method ln) gs)"
  have in_gs: "p \<in> set (map gd_product gs)" if "(p, share) \<in> set ?xs" for p share
    using that by (rule set_zip_leftD)
  have "\<forall>(p, share) \<in> set ?xs. find_product p st \<noteq> None" using in_gs gs by blast
  from land_shares_effect [OF d this refl]
  have "same_goods st (land_line fl c gs ln st) \<and> inventory_value (land_line fl c gs ln st) = inventory_value st + sum_list (map snd ?xs)
      \<and> (Stock.books_ok st \<and> (\<forall>(p, share) \<in> set ?xs. fifo_has p 1 st) \<longrightarrow> Stock.books_ok (land_line fl c gs ln st))"
    using False by (simp add: land_line_def Let_def)
  moreover have "sum_list (map snd ?xs) = lz_price ln" using False by (simp add: shares_sum)
  moreover have "\<forall>(p, share) \<in> set ?xs. fifo_has p 1 st" if "\<forall>p \<in> set (map gd_product gs). fifo_has p 1 st"
    using that in_gs by blast
  ultimately show ?thesis using False by auto
qed

lemma land_lines_effect:
  assumes "distinct (map pr_id (sk_products st))" and "\<forall>p \<in> set (map gd_product gs). find_product p st \<noteq> None"
  shows "inventory_value (fold (land_line fl c gs) ls st)
        = inventory_value st + (if gs = [] then 0 else sum_by (\<lambda>l. 0 < lz_price l) lz_price ls)
    \<and> (Stock.books_ok st \<and> (\<forall>p \<in> set (map gd_product gs). fifo_has p 1 st) \<longrightarrow> Stock.books_ok (fold (land_line fl c gs) ls st))"
  using assms
proof (induction ls arbitrary: st)
  case Nil
  then show ?case by simp
next
  case (Cons l ls)
  note one = land_line_effect [OF Cons.prems, of fl c l]
  have g: "same_goods st (land_line fl c gs l st)" using one by simp
  note facts = same_goods_facts [OF g]
  have "distinct (map pr_id (sk_products (land_line fl c gs l st)))"
    "\<forall>p \<in> set (map gd_product gs). find_product p (land_line fl c gs l st) \<noteq> None"
    using Cons.prems facts by auto
  from Cons.IH [OF this] one facts(2) show ?case by (simp add: sum_by_simps)
qed


subsection \<open>Freight on a receipt\<close>

text \<open>Doubles with six decimals are enough for a check.\<close>

definition micro_floats :: "int floats" where
  "micro_floats = \<lparr>fl_of = (\<lambda>n. n * 1000000), fl_plus = (+), fl_times = (\<lambda>a b. a * b div 1000000),
     fl_over = (\<lambda>a b. a * 1000000 div b), fl_positive = (\<lambda>a. 0 < a), fl_round = (\<lambda>a. (a + 500000) div 1000000)\<rparr>"

definition dock_move :: "int \<Rightarrow> int \<Rightarrow> int \<Rightarrow> smove" where
  "dock_move i p q = \<lparr>sm_id = i, sm_transfer = Some 1, sm_product = p, sm_name = ''part'', sm_demand = q, sm_quantity = q,
     sm_reserved = 0, sm_state = ''done'', sm_src = 5, sm_dest = 4, sm_company = Some 1, sm_lot = None, sm_package = None, sm_origin = ''PO1''\<rparr>"

definition dock_product :: "int \<Rightarrow> product" where
  "dock_product i = \<lparr>pr_id = i, pr_categ = None, pr_cost_method = Some ''average'', pr_standard_price = 0, pr_quantity_svl = 0,
     pr_value_svl = 0, pr_qty_available = 0\<rparr>"

definition dock :: cost_db where
  "dock = \<lparr>lw_house = depot\<lparr>wh_moves := [dock_move 1 7 1000000, dock_move 2 8 1000000, dock_move 3 9 1000000, dock_move 4 7 2000000],
       wh_stock := depot_stock\<lparr>sk_products := map dock_product [7, 8, 9], sk_accounts := [(21, ''1400'', 1), (22, ''5200'', 1)],
         sk_journals := [(3, ''STJ'', 1)]\<rparr>\<rparr>,
     lw_sheets = [\<lparr>lx_id = 1, lx_transfer = Some 1, lx_state = ''draft'', lx_company = None\<rparr>],
     lw_lines = [\<lparr>lz_id = 1, lz_sheet = 1, lz_name = ''freight'', lz_price = 1000001, lz_method = ''by_quantity'', lz_account = None\<rparr>,
       \<lparr>lz_id = 2, lz_sheet = 1, lz_name = ''customs'', lz_price = 2, lz_method = ''equal'', lz_account = None\<rparr>]\<rparr>"

definition dock_done :: cost_db where
  "dock_done = (case validate_one micro_floats id (\<lambda>_. 0) (\<lambda>_. 0) 1 dock of Inl _ \<Rightarrow> dock | Inr db \<Rightarrow> db)"

definition dock_goods :: "int goods list" where
  "dock_goods = map (\<lambda>(p, q). \<lparr>gd_product = p, gd_qty = q, gd_weight = 0, gd_volume = 0, gd_cost = 0\<rparr>)
     [(7, 3000000), (8, 1000000), (9, 1000000)]"


text \<open>Where the code departs from what it means to do: a share that the remainder makes negative lowers the
  value of its product without an entry, and the journal then carries more than the cost.\<close>

lemma negative_share_not_booked:
  "allocated_shares micro_floats 2 ''equal'' dock_goods = [1, 1, 0]
   \<and> allocated_shares micro_floats 2 ''equal'' (dock_goods @ dock_goods) = [0, 0, 0, 0, 0, 2]
   \<and> allocated_shares micro_floats 3 ''equal'' (dock_goods @ dock_goods) = [1, 1, 1, 1, 1, -2]"
  by code_simp

lemma negative_share_posts_nothing: "amount \<le> 0 \<Longrightarrow> post_landed j v c lid amount k st = st"
  by (simp add: post_landed_def)

end
