(* ===== verification/Spec2Isabelle.thy ===== *)
theory Spec2Isabelle
  imports Prelude Money TaxEngine PaymentAllocation Domain TtlCache RuleEngine FieldRegistry SqlParams RecordScoping
    Session RateLimit Dispatcher Csv Sequence Cron Migrations Stock TaxHelpers Rental RentalCalendar RentalBilling Accounting Warehouse
    Trade Mrp Website Leave Attendance
    Assets BankRec Reorder LandedCost
begin

text \<open>
  \<^bold>\<open>What this is.\<close> A verification library of c-erp (\<open>src/\<close>), a C++20 ERP server over PostgreSQL: a
  request enters through the JSON-RPC dispatcher, which resolves its session and its tenant, checks the
  log-in limiter, the authentication and the access to the model, and calls a method of a view model;
  the view models work on tables through the generic model (fields, domains, record rules), through the
  engines of \<open>core/\<close> (money, taxes, allocation of payments, stock, sequences, jobs) and through SQL of
  their own. Each theory models one part from its source, operation by operation, and proves what makes
  that part correct; this theory imports them all.

  \<^bold>\<open>How the code is read.\<close> A C++ exception is a left value of \<^typ>\<open>'a result\<close>, whose class and
  message are kept; undefined behaviour is the exception \<open>Undefined\<close>. \<open>int64_t\<close> and \<open>__int128\<close> are
  integers with the range test or the wrap-around of the code written out (\<open>in_int64\<close>, \<open>wrap64\<close>,
  \<open>cdiv\<close>). A table is the list of its rows in the order of their ids, a row a record with the columns
  that are read, a nullable column an option, a statement an operation on the lists; a transaction that
  throws leaves the database as it was, one that returns commits. Times are integers; strings are lists
  of bytes. Code outside \<open>src/\<close> is an argument of the definitions that use it: the JSON parser
  (\<open>parse\<close>), the texts it gives numbers and errors (\<open>dump\<close>, \<open>js\<close>, \<open>jw\<close>), what an amount becomes on its
  way through a JSON number or a \<open>double\<close> (\<open>wire\<close>, \<open>dbl\<close>, \<open>txt\<close>, \<open>rnd\<close>), the database's collation
  (\<open>rank\<close>), the clock, random bytes, \<open>std::stod\<close> on coordinates (\<open>geo\<close>). What a theorem needs of one of
  them is a hypothesis of the theorem, and its witness instantiates it with a concrete function.

  \<^bold>\<open>The theories.\<close>
  \<^item> \<open>Prelude\<close>: exceptions, stateful computations that may throw, loops, SQL sums, machine integers,
    characters and strings, the contracts of step relations (locales \<open>kept\<close> and \<open>conserved\<close>).
  \<^item> \<open>Money\<close> (\<open>core/Money\<close>): the fixed-point amount in micro-units: rounding division, arithmetic,
    printing and parsing, rounding to places, splitting. Rounding is to the nearest, printing and parsing
    are inverse, splitting conserves the amount; the locale \<open>exact_amount\<close> is what the callers rely on.
  \<^item> \<open>TaxEngine\<close>, \<open>TaxHelpers\<close> (\<open>core/TaxEngine\<close>, \<open>core/TaxHelpers\<close>): the taxes of a line; totals foot,
    inclusive prices keep the gross amount, bounded input never throws.
  \<^item> \<open>PaymentAllocation\<close> (\<open>core/PaymentAllocation\<close>): payments against open documents; the loop over the
    rows refines a greedy allocation, never overpays, and unallocating restores the database.
  \<^item> \<open>Accounting\<close> (\<open>modules/account\<close>): the buttons of entries, invoices and payments over the journal
    entries, their items and the payments; posted entries stay balanced under every sequence of them.
  \<^item> \<open>Sequence\<close>, \<open>Cron\<close>, \<open>Migrations\<close> (\<open>core/IrSequence\<close>, \<open>core/IrCron\<close>, the migration runner):
    numbers without gaps, jobs without overlap that come round again, migrations once and in order.
  \<^item> \<open>Domain\<close>, \<open>FieldRegistry\<close>, \<open>SqlParams\<close>, \<open>RuleEngine\<close>, \<open>TtlCache\<close>, \<open>RecordScoping\<close>
    (\<open>modules/base\<close>, \<open>core/RuleEngine\<close>): search domains to SQL with bound parameters, the registry of
    fields, ORDER BY, record rules and their cache (locale \<open>expiring_store\<close>), and the statements of the
    generic model. Clauses are well formed and over registered columns, values never reach the SQL text,
    every statement carries the rule and the company clause.
  \<^item> \<open>Session\<close>, \<open>RateLimit\<close>, \<open>Dispatcher\<close>, \<open>Csv\<close> (\<open>core/infrastructure\<close>): the session stores (locale
    \<open>touched_table\<close>), the client address and the log-in limiter, the way of a call through the
    dispatcher, and CSV. A model is only called under the identity of a live session, guessing is bounded,
    a flood of anonymous sessions evicts no user.
  \<^item> \<open>Stock\<close>, \<open>Warehouse\<close> (\<open>core/StockQuant\<close>, \<open>modules/stock\<close>): quantities, reservations and FIFO layers,
    and the transfers that drive them. Moves conserve quantities, layers carry what is left, reservations
    are exactly those of the open moves.
  \<^item> \<open>Trade\<close> (\<open>modules/sale\<close>, \<open>modules/purchase\<close>): orders, their transfers and their invoices, over the
    warehouse and the journal; amounts foot and drafts balance.
  \<^item> \<open>Mrp\<close> (\<open>modules/mrp\<close>): manufacturing orders, work orders and the master schedule, over the same
    warehouse; quantities are explained by finished moves, value is kept up to the rounding of a unit cost.
  \<^item> \<open>Dates\<close>, \<open>Rental\<close>, \<open>RentalCalendar\<close>, \<open>RentalBilling\<close> (\<open>modules/rental\<close>): contracts and units with
    the triggers of their tables, the month view against a day-by-day reference, the billing run.
  \<^item> \<open>Website\<close> (\<open>modules/website/WebsiteRender\<close>): the sanitiser, video links and page blocks; nothing but
    the allowed elements, attributes and addresses reaches a page.
  \<^item> \<open>Leave\<close>, \<open>Attendance\<close> (\<open>modules/hr\<close>): time off and the clock of the office and the kiosk; approved leave
    never overlaps or exceeds its allocation, and nobody's time is booked twice.
  \<^item> \<open>Assets\<close>, \<open>BankRec\<close> (\<open>modules/account\<close>): depreciation schedules and their entries, and the reconciliation of
    bank statements, over the tables of \<open>Accounting\<close>. Schedules sum to the value, each posted line has an
    entry of its own, a statement line is used once.
  \<^item> \<open>Reorder\<close>, \<open>LandedCost\<close> (\<open>modules/stock\<close>): the reordering scheduler over the orders of \<open>Warehouse\<close> and
    \<open>Mrp\<close>, and landed costs over the valuation of \<open>Stock\<close>. A run covers every rule it can serve and a second
    run does nothing; a landed cost is capitalised to the millionth.
  \<^bold>\<open>How the parts meet.\<close> \<open>Dispatcher\<close> runs over the stores of \<open>Session\<close> and the limiter of \<open>RateLimit\<close>;
  \<open>RecordScoping\<close> puts the clauses of \<open>Domain\<close>, shifted by \<open>SqlParams\<close>, the rules of \<open>RuleEngine\<close> and the
  fields of \<open>FieldRegistry\<close> into statements. \<open>Accounting\<close> works on the documents of \<open>PaymentAllocation\<close> and
  draws numbers from \<open>Sequence\<close>; \<open>Warehouse\<close> moves through \<open>Stock\<close>; \<open>Trade\<close> and \<open>Mrp\<close> share the warehouse
  record, so that their theorems hold over any interleaving with its transfers; \<open>RentalBilling\<close> computes
  with \<open>TaxEngine\<close> and \<open>Money\<close>.

  \<^bold>\<open>Invariants and runs.\<close> Where a part has state, its operations are the rules of a step relation and a
  theorem speaks of every run. The locale \<open>kept\<close> carries an invariant along runs, \<open>conserved\<close> a quantity; both
  are interpreted on each step relation (\<open>acc_run\<close>, \<open>stock_run\<close>, \<open>depot_run\<close>, \<open>factory_run\<close> and the others).

  \<^bold>\<open>Termination, bounds and fuel.\<close> Every function terminates by a measure proved beside it; no fuel is
  used. Bounds stand in the hypotheses: prices, quantities and rates of \<open>compute_tax_returns\<close> within the
  ranges named there keep every intermediate value inside 128 bits and every result inside 64.

  \<^bold>\<open>Findings.\<close> Where the code does not do what it says, a lemma exhibits it on concrete data
  (\<open>three_group_rules_rejected\<close>, \<open>incomplete_domain_absorbs_rule\<close>, \<open>fifo_books_come_apart\<close>,
  \<open>fx_without_7900\<close>, \<open>advance_spent_twice\<close>, \<open>order_invoiced_twice\<close>, \<open>fifo_build_loses_value\<close>,
  \<open>author_rel_first\<close> and others, each named in the text beside it).

  \<^bold>\<open>Not modelled.\<close> What is I/O with no decision of its own: the HTTP and WebSocket servers, the connection
  pool, dump and restore, mail transport, PDF drawing. What is data: schema migrations, seed data, view
  metadata, demo data. What the sources only call: PostgreSQL, drogon, nlohmann/json, OpenSSL. The web
  client, the tests and the build. The create, read and search methods of the modules are those of the
  generic model; only the handlers with logic of their own are modelled.

  \<^bold>\<open>What comes next.\<close> Budgets and analytic accounts of \<open>modules/account\<close>, packages of \<open>modules/stock\<close>, the grouped reads
  of the generic model, the company endpoints of the dispatcher, the control plane, the file store.
\<close>

end
